(* ===== verification/Prelude.thy ===== *)
theory Prelude
  imports Main "HOL-Library.Word" "HOL-Library.Sublist" "HOL-Library.Finite_Map"
    "HOL-Library.AList" "HOL-Library.Char_ord" "HOL-Library.List_Lexorder"
    "HOL-Library.Product_Lexorder"
begin

text \<open>
  What the component theories share: the identifiers of the program (a Python \<open>UUID\<close> is its
  128 bits, with the two renderings \<open>hex\<close> and \<open>str\<close> the code uses), the string operations
  the code calls on \<open>str\<close> (\<open>split\<close> and \<open>join\<close> on a one-character separator, \<open>replace\<close> of one
  character by another), order-preserving removal of duplicates, and generic lemmas on lists,
  association lists and finite maps.  A Python \<open>dict\<close> whose iteration order matters is an
  association list updated in place (\<open>AList.update\<close> appends a new key, as \<open>dict\<close> does);
  one whose order does not matter is a finite map.  The collection \<open>acl_simps\<close> holds the
  equations that unfold the small, non-recursive operations of the access-control components.
\<close>

named_theorems acl_simps \<open>unfoldings of the small access-control operations\<close>
named_theorems ns_simps \<open>unfoldings of the namespace-name operations\<close>

type_synonym uuid = "128 word"

section \<open>Errors\<close>

text \<open>A statement that may raise, and the rest.\<close>

definition and_then :: "'e + 'a \<Rightarrow> ('a \<Rightarrow> 'e + 'b) \<Rightarrow> 'e + 'b" where
  "and_then x f = (case x of Inl e \<Rightarrow> Inl e | Inr a \<Rightarrow> f a)"

text \<open>Constructing a tuple raises what its first failing entry raises.\<close>

fun all_ok :: "('e + 'a) list \<Rightarrow> 'e + 'a list" where
  "all_ok [] = Inr []"
| "all_ok (x # xs) =
     (case x of
        Inl e \<Rightarrow> Inl e
      | Inr a \<Rightarrow> (case all_ok xs of Inl e \<Rightarrow> Inl e | Inr as \<Rightarrow> Inr (a # as)))"

lemma and_then_Inr [simp]: "and_then x f = Inr y \<longleftrightarrow> (\<exists>a. x = Inr a \<and> f a = Inr y)"
  by (cases x) (simp_all add: and_then_def)

section \<open>Strings\<close>

text \<open>\<open>s.split(c)\<close> for a one-character separator: never the empty list.\<close>

fun split_on :: "char \<Rightarrow> string \<Rightarrow> string list" where
  "split_on c [] = [[]]"
| "split_on c (x # xs) =
     (if x = c then [] # split_on c xs
      else (case split_on c xs of [] \<Rightarrow> [[x]] | y # ys \<Rightarrow> (x # y) # ys))"

text \<open>\<open>c.join(parts)\<close> for a one-character separator.\<close>

fun join_on :: "char \<Rightarrow> string list \<Rightarrow> string" where
  "join_on c [] = []"
| "join_on c [p] = p"
| "join_on c (p # q # ps) = p @ c # join_on c (q # ps)"

text \<open>\<open>s.replace(a, b)\<close> for two characters.\<close>

definition replace_char :: "char \<Rightarrow> char \<Rightarrow> string \<Rightarrow> string" where
  "replace_char a b s = map (\<lambda>x. if x = a then b else x) s"

lemma split_on_not_Nil [simp]: "split_on c s \<noteq> []"
  by (induction s) (auto split: list.splits)

lemma join_on_Cons: "join_on c ((x # p) # ps) = x # join_on c (p # ps)"
  by (cases ps) simp_all

lemma join_on_Nil_Cons: "ps \<noteq> [] \<Longrightarrow> join_on c ([] # ps) = c # join_on c ps"
  by (cases ps) simp_all

lemma join_split [simp]: "join_on c (split_on c s) = s"
  by (induction s) (auto split: list.splits simp: join_on_Cons join_on_Nil_Cons)

lemma split_on_no_sep: "c \<notin> set s \<Longrightarrow> split_on c s = [s]"
  by (induction s) auto

lemma split_on_append_sep: "c \<notin> set p \<Longrightarrow> split_on c (p @ c # s) = p # split_on c s"
  by (induction p) auto

lemma split_join:
  "ps \<noteq> [] \<Longrightarrow> \<forall>p \<in> set ps. c \<notin> set p \<Longrightarrow> split_on c (join_on c ps) = ps"
  by (induction c ps rule: join_on.induct) (auto simp: split_on_no_sep split_on_append_sep)

lemma split_on_parts: "p \<in> set (split_on c s) \<Longrightarrow> c \<notin> set p"
  by (induction s arbitrary: p) (auto split: list.splits if_splits)

lemma join_on_append:
  "ps \<noteq> [] \<Longrightarrow> qs \<noteq> [] \<Longrightarrow> join_on c (ps @ qs) = join_on c ps @ c # join_on c qs"
  by (induction c ps rule: join_on.induct) (auto simp: neq_Nil_conv)

lemma split_on_append:
  "split_on c (p @ c # s) = split_on c p @ split_on c s"
  by (induction p) (auto split: list.splits)

lemma split_on_inject: "split_on c s = split_on c t \<Longrightarrow> s = t"
  by (metis join_split)

lemma replace_char_absent [simp]: "a \<noteq> b \<Longrightarrow> a \<notin> set (replace_char a b s)"
  by (auto simp: replace_char_def)

lemma replace_char_id: "a \<notin> set s \<Longrightarrow> replace_char a b s = s"
  by (induction s) (auto simp: replace_char_def)

lemma replace_char_eq_Nil [simp]: "replace_char a b s = [] \<longleftrightarrow> s = []"
  by (simp add: replace_char_def)

section \<open>Identifiers\<close>

definition hex_digit :: "nat \<Rightarrow> char" where
  "hex_digit d = ''0123456789abcdef'' ! d"

fun hex_digits :: "nat \<Rightarrow> nat \<Rightarrow> string" where
  "hex_digits 0 v = []"
| "hex_digits (Suc k) v = hex_digits k (v div 16) @ [hex_digit (v mod 16)]"

text \<open>\<open>UUID.hex\<close> and \<open>str(UUID)\<close>.\<close>

definition uuid_hex :: "uuid \<Rightarrow> string" where
  "uuid_hex u = hex_digits 32 (unat u)"

definition uuid_str :: "uuid \<Rightarrow> string" where
  "uuid_str u = (let h = uuid_hex u in
     take 8 h @ ''-'' @ take 4 (drop 8 h) @ ''-'' @ take 4 (drop 12 h) @ ''-''
       @ take 4 (drop 16 h) @ ''-'' @ drop 20 h)"

lemma hex_digit_inject: "d < 16 \<Longrightarrow> e < 16 \<Longrightarrow> hex_digit d = hex_digit e \<Longrightarrow> d = e"
  unfolding hex_digit_def by (subst (asm) nth_eq_iff_index_eq) simp_all

lemma hex_digit_chars:
  assumes "d < 16"
  shows "hex_digit d \<in> set ''0123456789abcdef''"
  unfolding hex_digit_def using assms by (intro nth_mem) simp

lemma length_hex_digits [simp]: "length (hex_digits k v) = k"
  by (induction k arbitrary: v) auto

lemma hex_digits_chars: "set (hex_digits k v) \<subseteq> set ''0123456789abcdef''"
proof (induction k arbitrary: v)
  case (Suc k)
  have "hex_digit (v mod 16) \<in> set ''0123456789abcdef''"
    by (rule hex_digit_chars) simp
  with Suc show ?case by auto
qed simp

lemma hex_digits_inject:
  "v < 16 ^ k \<Longrightarrow> w < 16 ^ k \<Longrightarrow> hex_digits k v = hex_digits k w \<Longrightarrow> v = w"
proof (induction k arbitrary: v w)
  case (Suc k)
  from Suc.prems(3) have eq: "hex_digits k (v div 16) = hex_digits k (w div 16)"
    and dig: "hex_digit (v mod 16) = hex_digit (w mod 16)" by simp_all
  have "v div 16 < 16 ^ k" "w div 16 < 16 ^ k"
    using Suc.prems(1,2) by (simp_all add: less_mult_imp_div_less)
  with eq have "v div 16 = w div 16" by (rule_tac Suc.IH) auto
  moreover have "v mod 16 = w mod 16"
    using dig by (rule_tac hex_digit_inject) auto
  ultimately show ?case by (metis div_mult_mod_eq)
qed simp

lemma length_uuid_hex [simp]: "length (uuid_hex u) = 32"
  by (simp add: uuid_hex_def)

lemma uuid_hex_no_dot [simp]: "CHR ''.'' \<notin> set (uuid_hex u)"
  using hex_digits_chars [of 32 "unat u"] by (auto simp: uuid_hex_def)

lemma unat_lt_16_32: "unat (u :: uuid) < 16 ^ 32"
proof -
  have "unat u < 2 ^ LENGTH(128)" by (rule unsigned_less)
  then show ?thesis by simp
qed

lemma uuid_hex_inject [simp]: "uuid_hex u = uuid_hex v \<longleftrightarrow> u = v"
  using hex_digits_inject [OF unat_lt_16_32 unat_lt_16_32, of u v]
  by (auto simp: uuid_hex_def word_unat_eq_iff)

text \<open>Dropping the hyphens of \<open>str(u)\<close> gives \<open>u.hex\<close>, so the rendering is injective too.\<close>

lemma uuid_str_hex: "filter (\<lambda>c. c \<noteq> CHR ''-'') (uuid_str u) = uuid_hex u"
proof -
  have no: "CHR ''-'' \<notin> set (uuid_hex u)"
    using hex_digits_chars [of 32 "unat u"] by (auto simp: uuid_hex_def)
  then have keep: "filter (\<lambda>c. c \<noteq> CHR ''-'') s = s" if "set s \<subseteq> set (uuid_hex u)" for s
    using that by (auto simp: filter_id_conv)
  have sub: "set (take m (drop n (uuid_hex u))) \<subseteq> set (uuid_hex u)"
    "set (take m (uuid_hex u)) \<subseteq> set (uuid_hex u)"
    "set (drop n (uuid_hex u)) \<subseteq> set (uuid_hex u)" for m n
    by (auto dest: in_set_takeD in_set_dropD)
  have chunk: "drop n h = take m (drop n h) @ drop (m + n) h" for m n and h :: string
    by (simp flip: drop_drop)
  have "uuid_hex u = take 8 (uuid_hex u) @ take 4 (drop 8 (uuid_hex u)) @ take 4 (drop 12 (uuid_hex u))
      @ take 4 (drop 16 (uuid_hex u)) @ drop 20 (uuid_hex u)"
    using chunk [of 0 "uuid_hex u" 8] chunk [of 8 "uuid_hex u" 4] chunk [of 12 "uuid_hex u" 4]
      chunk [of 16 "uuid_hex u" 4] by simp
  then show ?thesis
    by (simp add: uuid_str_def Let_def keep sub)
qed

lemma uuid_str_inject [simp]: "uuid_str u = uuid_str v \<longleftrightarrow> u = v"
  by (metis uuid_hex_inject uuid_str_hex)

lemma uuid_str_no_dot [simp]: "CHR ''.'' \<notin> set (uuid_str u)"
proof -
  have "c \<in> set (uuid_hex u)" if "c \<in> set (uuid_str u)" "c \<noteq> CHR ''-''" for c
    using that unfolding uuid_str_hex [symmetric] by simp
  from this [of "CHR ''.''"] show ?thesis by auto
qed

lemma uuid_str_not_Nil [simp]: "uuid_str u \<noteq> []"
  by (simp add: uuid_str_def Let_def)

end
