(* ===== verification/Namespaces.thy ===== *)
theory Namespaces
  imports Prelude
begin

text \<open>
  The canonical namespace names of \<open>threetears.core.namespaces\<close>: the builders, the one
  containment rule for dot-segmented names, the tool-name grammar with its right-to-left parser,
  and the human-in-the-loop session names.  A \<open>ValueError\<close> of the source is a value of
  \<open>ns_error\<close>, one constructor per \<open>raise\<close>.  The lemmas show that containment is the
  prefix relation on segments, that parsing inverts building, and that the names two different
  principals or sessions get never coincide.
\<close>

section \<open>Definitions\<close>

datatype ns_error =
    EmptyMcpName | EmptyVersion | AlreadyRooted string | EmptyComponent string
  | NotUnderTools string | TooFewComponents string | EmptyOwnedNode | WholeToolTree string

definition NAMESPACE_NAME_SEPARATOR :: char where
  "NAMESPACE_NAME_SEPARATOR = CHR ''.''"

definition PLURAL_PREFIX_AGENT :: string where
  "PLURAL_PREFIX_AGENT = ''agents''"

definition PLURAL_PREFIX_HITL :: string where
  "PLURAL_PREFIX_HITL = ''hitl''"

definition PLURAL_PREFIX_SYSTEM :: string where
  "PLURAL_PREFIX_SYSTEM = ''system''"

definition PLURAL_PREFIX_TOOL :: string where
  "PLURAL_PREFIX_TOOL = ''tools''"

definition HITL_NAMESPACE_TYPE :: string where
  "HITL_NAMESPACE_TYPE = ''hitl''"

definition PLURAL_PREFIX_BY_NAMESPACE_TYPE :: "(string \<times> string) list" where
  "PLURAL_PREFIX_BY_NAMESPACE_TYPE =
    [(''agent'', PLURAL_PREFIX_AGENT), (''api_key'', ''api_keys''), (''audit'', ''audits''),
     (''channel'', ''channels''), (''conversation'', ''conversations''),
     (''customer'', ''customers''), (''datasource'', ''datasources''),
     (HITL_NAMESPACE_TYPE, PLURAL_PREFIX_HITL), (''knowledge'', ''knowledge''),
     (''memory'', ''memories''), (''model'', ''models''), (''shared'', ''shared''),
     (''shared_agent'', ''shared_agents''), (''system'', PLURAL_PREFIX_SYSTEM),
     (''tool'', PLURAL_PREFIX_TOOL), (''workspace'', ''workspaces'')]"

definition sanitize_subject_segment :: "string \<Rightarrow> string" where
  "sanitize_subject_segment segment = replace_char (CHR ''.'') (CHR ''-'') segment"

definition sanitize_segment :: "string \<Rightarrow> string" where
  "sanitize_segment value = sanitize_subject_segment value"

definition build_namespace_name :: "string \<Rightarrow> string list \<Rightarrow> string" where
  "build_namespace_name plural_prefix segments =
     join_on NAMESPACE_NAME_SEPARATOR (plural_prefix # map sanitize_segment segments)"

definition PLATFORM_RBAC_READ_NAMESPACE :: string where
  "PLATFORM_RBAC_READ_NAMESPACE =
     build_namespace_name PLURAL_PREFIX_SYSTEM [''platform'', ''rbac'']"

definition build_agent_namespace_name :: "uuid \<Rightarrow> string" where
  "build_agent_namespace_name agent_id =
     build_namespace_name PLURAL_PREFIX_AGENT [uuid_str agent_id]"

definition namespace_contains :: "string \<Rightarrow> string \<Rightarrow> bool" where
  "namespace_contains node name =
     (if node \<noteq> [] \<and> name \<noteq> []
      then name = node \<or> prefix (node @ [NAMESPACE_NAME_SEPARATOR]) name
      else False)"

text \<open>The prefix \<open>_TOOL_NAME_PREFIX\<close>.\<close>

definition TOOL_NAME_PREFIX :: string where
  "TOOL_NAME_PREFIX = PLURAL_PREFIX_TOOL @ [NAMESPACE_NAME_SEPARATOR]"

record tool_namespace_name =
  mcp_name :: string
  version_segment :: string

definition build_tool_namespace_name :: "string \<Rightarrow> string \<Rightarrow> ns_error + string" where
  "build_tool_namespace_name mcp version =
     (if mcp = [] then Inl EmptyMcpName
      else if version = [] then Inl EmptyVersion
      else if namespace_contains PLURAL_PREFIX_TOOL mcp then Inl (AlreadyRooted mcp)
      else if \<not> list_all (\<lambda>p. p \<noteq> []) (split_on NAMESPACE_NAME_SEPARATOR mcp)
        then Inl (EmptyComponent mcp)
      else Inr (join_on NAMESPACE_NAME_SEPARATOR
                  [PLURAL_PREFIX_TOOL, mcp, sanitize_segment version]))"

text \<open>\<open>Subjects.tool_provider_node\<close> and its name in the vocabulary of this module.\<close>

definition tool_provider_node :: "string \<Rightarrow> ns_error + string" where
  "tool_provider_node owned_node =
     (if owned_node = [] then Inl EmptyOwnedNode
      else if owned_node = ''tools'' then Inl (WholeToolTree owned_node)
      else if prefix (''tools'' @ ''.'') owned_node then Inr owned_node
      else Inr ((''tools'' @ ''.'') @ owned_node))"

definition build_tool_provider_node_name :: "string \<Rightarrow> ns_error + string" where
  "build_tool_provider_node_name stem = tool_provider_node stem"

definition build_tool_namespace_name_or_none :: "string \<Rightarrow> string \<Rightarrow> string option" where
  "build_tool_namespace_name_or_none mcp version =
     (case build_tool_namespace_name mcp version of Inl _ \<Rightarrow> None | Inr name \<Rightarrow> Some name)"

definition parse_tool_namespace_name :: "string \<Rightarrow> ns_error + tool_namespace_name" where
  "parse_tool_namespace_name name =
     (if \<not> (namespace_contains PLURAL_PREFIX_TOOL name \<and> name \<noteq> PLURAL_PREFIX_TOOL)
        then Inl (NotUnderTools name)
      else let components =
             split_on NAMESPACE_NAME_SEPARATOR (drop (length TOOL_NAME_PREFIX) name)
        in if \<not> list_all (\<lambda>p. p \<noteq> []) components then Inl (EmptyComponent name)
           else if length components < 2 then Inl (TooFewComponents name)
           else Inr \<lparr>mcp_name = join_on NAMESPACE_NAME_SEPARATOR (butlast components),
                     version_segment = last components\<rparr>)"

definition build_hitl_namespace_name :: "string \<Rightarrow> uuid \<Rightarrow> ns_error + string" where
  "build_hitl_namespace_name tool_name customer_id =
     (if \<not> (namespace_contains PLURAL_PREFIX_TOOL tool_name \<and> tool_name \<noteq> PLURAL_PREFIX_TOOL)
        then Inl (NotUnderTools tool_name)
      else let tool_components =
             split_on NAMESPACE_NAME_SEPARATOR (drop (length TOOL_NAME_PREFIX) tool_name)
        in if \<not> list_all (\<lambda>p. p \<noteq> []) tool_components then Inl (EmptyComponent tool_name)
           else Inr (build_namespace_name PLURAL_PREFIX_HITL
                       (tool_components @ [uuid_hex customer_id])))"

text \<open>\<open>HitlSessionNamespace\<close>: constructing one runs the builder and keeps the two facts.\<close>

record hitl_session_namespace =
  tool_namespace_name :: string
  hitl_customer_id :: uuid

definition HitlSessionNamespace :: "string \<Rightarrow> uuid \<Rightarrow> ns_error + hitl_session_namespace" where
  "HitlSessionNamespace tool_name customer =
     (case build_hitl_namespace_name tool_name customer of
        Inl e \<Rightarrow> Inl e
      | Inr _ \<Rightarrow> Inr \<lparr>tool_namespace_name = tool_name, hitl_customer_id = customer\<rparr>)"

definition namespace_name :: "hitl_session_namespace \<Rightarrow> ns_error + string" where
  "namespace_name s = build_hitl_namespace_name (tool_namespace_name s) (hitl_customer_id s)"

declare NAMESPACE_NAME_SEPARATOR_def [ns_simps] PLURAL_PREFIX_TOOL_def [ns_simps]
  PLURAL_PREFIX_AGENT_def [ns_simps] PLURAL_PREFIX_HITL_def [ns_simps]
  TOOL_NAME_PREFIX_def [ns_simps] sanitize_segment_def [ns_simps]
  sanitize_subject_segment_def [ns_simps]

section \<open>Names built by joining segments\<close>

lemma sanitize_segment_no_dot [simp]: "CHR ''.'' \<notin> set (sanitize_segment s)"
  by (simp add: ns_simps)

lemma sanitize_segment_id [simp]: "CHR ''.'' \<notin> set s \<Longrightarrow> sanitize_segment s = s"
  by (simp add: ns_simps replace_char_id)

lemma split_build_namespace_name:
  "CHR ''.'' \<notin> set p \<Longrightarrow>
   split_on (CHR ''.'') (build_namespace_name p segs) = p # map sanitize_segment segs"
  by (simp add: build_namespace_name_def NAMESPACE_NAME_SEPARATOR_def split_join)

lemma build_agent_namespace_name_inject [simp]:
  "build_agent_namespace_name a = build_agent_namespace_name b \<longleftrightarrow> a = b"
proof -
  have "split_on (CHR ''.'') (build_agent_namespace_name a) = [''agents'', uuid_str a]" for a
    by (simp add: build_agent_namespace_name_def split_build_namespace_name PLURAL_PREFIX_AGENT_def)
  then show ?thesis by (metis list.inject uuid_str_inject)
qed

section \<open>Containment\<close>

lemma prefix_split_iff:
  "prefix (split_on c node) (split_on c name) \<longleftrightarrow> name = node \<or> prefix (node @ [c]) name"
proof
  assume "prefix (split_on c node) (split_on c name)"
  then obtain zs where zs: "split_on c name = split_on c node @ zs" by (auto elim: prefixE)
  show "name = node \<or> prefix (node @ [c]) name"
  proof (cases "zs = []")
    case True
    with zs show ?thesis by (auto dest: split_on_inject)
  next
    case False
    from zs have "join_on c (split_on c name) = join_on c (split_on c node @ zs)" by simp
    with False have "name = node @ c # join_on c zs" by (simp add: join_on_append)
    then show ?thesis by (auto simp: prefix_def)
  qed
next
  assume "name = node \<or> prefix (node @ [c]) name"
  then show "prefix (split_on c node) (split_on c name)"
    by (auto simp: prefix_def split_on_append)
qed

text \<open>Containment is segment-aware: a node contains a name exactly when both are non-empty and
  the node's dot-separated segments are an initial run of the name's segments.\<close>

theorem namespace_contains_segments:
  "namespace_contains node name \<longleftrightarrow>
     node \<noteq> [] \<and> name \<noteq> [] \<and> prefix (split_on (CHR ''.'') node) (split_on (CHR ''.'') name)"
  by (auto simp: namespace_contains_def NAMESPACE_NAME_SEPARATOR_def prefix_split_iff)

section \<open>The tool-name grammar\<close>

lemma split_tools: "split_on (CHR ''.'') ''tools'' = [''tools'']"
  by simp

lemma contains_tools_iff:
  "namespace_contains ''tools'' name \<longleftrightarrow> name = ''tools'' \<or> (\<exists>s. name = ''tools.'' @ s)"
  by (auto simp: namespace_contains_def NAMESPACE_NAME_SEPARATOR_def prefix_def)

lemma build_tool_namespace_name_Inr:
  "build_tool_namespace_name m v = Inr n \<longleftrightarrow>
     m \<noteq> [] \<and> v \<noteq> [] \<and> \<not> namespace_contains ''tools'' m \<and> [] \<notin> set (split_on (CHR ''.'') m)
       \<and> n = ''tools.'' @ m @ ''.'' @ sanitize_segment v"
  by (auto simp: build_tool_namespace_name_def list_all_iff NAMESPACE_NAME_SEPARATOR_def
      PLURAL_PREFIX_TOOL_def)

lemma split_tool_body:
  "split_on (CHR ''.'') (m @ ''.'' @ sanitize_segment v)
     = split_on (CHR ''.'') m @ [sanitize_segment v]"
  by (simp add: split_on_append split_on_no_sep)

lemma sanitize_segment_eq_Nil [simp]: "sanitize_segment v = [] \<longleftrightarrow> v = []"
  by (simp add: ns_simps)

lemma strictly_under_tools:
  "namespace_contains PLURAL_PREFIX_TOOL name \<and> name \<noteq> PLURAL_PREFIX_TOOL \<longleftrightarrow>
     (\<exists>s. name = ''tools.'' @ s)"
  by (auto simp: contains_tools_iff PLURAL_PREFIX_TOOL_def)

lemma tools_strict:
  "namespace_contains PLURAL_PREFIX_TOOL (''tools.'' @ s)" "''tools.'' @ s \<noteq> PLURAL_PREFIX_TOOL"
  using strictly_under_tools [of "''tools.'' @ s"] by blast+

lemma drop_TOOL_NAME_PREFIX: "drop (length TOOL_NAME_PREFIX) (''tools.'' @ s) = s"
  by (simp add: TOOL_NAME_PREFIX_def NAMESPACE_NAME_SEPARATOR_def PLURAL_PREFIX_TOOL_def)

lemma parse_under_tools:
  "parse_tool_namespace_name (''tools.'' @ s) =
     (let components = split_on (CHR ''.'') s
      in if [] \<in> set components then Inl (EmptyComponent (''tools.'' @ s))
         else if length components < 2 then Inl (TooFewComponents (''tools.'' @ s))
         else Inr \<lparr>mcp_name = join_on (CHR ''.'') (butlast components),
                   version_segment = last components\<rparr>)"
  unfolding parse_tool_namespace_name_def drop_TOOL_NAME_PREFIX
  by (simp add: tools_strict Let_def list_all_iff NAMESPACE_NAME_SEPARATOR_def
      eq_commute [of "[]"] Ball_def del: append_Cons)

text \<open>Parsing a built tool namespace name gives back the mcp name exactly and the sanitized
  version, whatever number of dots the mcp name carries.\<close>

theorem parse_build_tool_namespace_name:
  assumes "build_tool_namespace_name m v = Inr n"
  shows "parse_tool_namespace_name n = Inr \<lparr>mcp_name = m, version_segment = sanitize_segment v\<rparr>"
proof -
  from assms have n: "n = ''tools.'' @ (m @ ''.'' @ sanitize_segment v)"
    and parts: "[] \<notin> set (split_on (CHR ''.'') m)" and v: "v \<noteq> []"
    by (auto simp: build_tool_namespace_name_Inr)
  show ?thesis
    unfolding n parse_under_tools split_tool_body Let_def
    using parts v by (auto simp: Suc_le_eq not_less eq_commute [of "[]"])
qed

text \<open>What a parse accepts was built from the pair it returns: the two functions are inverse on the
  names of the grammar, up to the sanitized version.\<close>

lemma build_parse_tool_namespace_name:
  assumes "parse_tool_namespace_name n = Inr t"
    and "\<not> namespace_contains PLURAL_PREFIX_TOOL (mcp_name t)"
  shows "build_tool_namespace_name (mcp_name t) (version_segment t) = Inr n"
proof -
  from assms(1) obtain s where n: "n = ''tools.'' @ s"
    by (cases "namespace_contains PLURAL_PREFIX_TOOL n \<and> n \<noteq> PLURAL_PREFIX_TOOL")
      (auto simp: parse_tool_namespace_name_def strictly_under_tools)
  let ?cs = "split_on (CHR ''.'') s"
  from assms(1) have ne: "[] \<notin> set ?cs" and len: "2 \<le> length ?cs"
    and t: "mcp_name t = join_on (CHR ''.'') (butlast ?cs)" "version_segment t = last ?cs"
    unfolding n parse_under_tools by (auto simp: Let_def split: if_splits)
  have bl: "butlast ?cs \<noteq> []" using len by (cases ?cs rule: rev_cases) auto
  have parts: "\<forall>p \<in> set ?cs. CHR ''.'' \<notin> set p" by (simp add: split_on_parts)
  then have sp: "split_on (CHR ''.'') (mcp_name t) = butlast ?cs"
    unfolding t(1) using bl by (intro split_join) (auto dest: in_set_butlastD)
  have last: "last ?cs \<in> set ?cs" by simp
  have "mcp_name t \<noteq> []"
  proof
    assume "mcp_name t = []"
    with sp have "butlast ?cs = [[]]" by simp
    with ne show False by (metis in_set_butlastD list.set_intros(1))
  qed
  moreover have "s = mcp_name t @ ''.'' @ sanitize_segment (version_segment t)"
    using parts last join_on_append [OF bl, of "[last ?cs]" "CHR ''.''"]
    by (simp add: t append_butlast_last_id [of ?cs])
  moreover have "last ?cs \<noteq> []" using last ne by metis
  ultimately show ?thesis
    using assms(2) sp ne
    by (auto simp: build_tool_namespace_name_Inr n PLURAL_PREFIX_TOOL_def t(2)
        dest: in_set_butlastD)
qed

section \<open>Human-in-the-loop session names\<close>

lemma build_hitl_Inr:
  "build_hitl_namespace_name t c = Inr n \<longleftrightarrow>
     (\<exists>s. t = ''tools.'' @ s \<and> [] \<notin> set (split_on (CHR ''.'') s) \<and>
          n = join_on (CHR ''.'') (''hitl'' # split_on (CHR ''.'') s @ [uuid_hex c]))"
proof -
  have san: "map sanitize_segment (split_on (CHR ''.'') s) = split_on (CHR ''.'') s" for s
    by (auto intro!: map_idI dest: split_on_parts)
  show ?thesis
  proof (cases "\<exists>s. t = ''tools.'' @ s")
    case True
    then obtain s where t: "t = ''tools.'' @ s" ..
    have "build_hitl_namespace_name (''tools.'' @ s) c =
        (if [] \<in> set (split_on (CHR ''.'') s) then Inl (EmptyComponent (''tools.'' @ s))
         else Inr (join_on (CHR ''.'') (''hitl'' # split_on (CHR ''.'') s @ [uuid_hex c])))"
      unfolding build_hitl_namespace_name_def drop_TOOL_NAME_PREFIX
      by (simp add: tools_strict Let_def list_all_iff san
          NAMESPACE_NAME_SEPARATOR_def PLURAL_PREFIX_HITL_def build_namespace_name_def
          Ball_def del: append_Cons)
    then show ?thesis unfolding t by auto
  next
    case False
    then have "\<not> (namespace_contains PLURAL_PREFIX_TOOL t \<and> t \<noteq> PLURAL_PREFIX_TOOL)"
      by (simp add: strictly_under_tools)
    then have "build_hitl_namespace_name t c = Inl (NotUnderTools t)"
      unfolding build_hitl_namespace_name_def by (rule if_P)
    with False show ?thesis by simp
  qed
qed

text \<open>A session name names one serving tool and one customer: two sessions get the same name only
  when they share both, so no customer and no network zone can be reached through another's row.\<close>

theorem build_hitl_namespace_name_inject:
  assumes "build_hitl_namespace_name t c = Inr n" and "build_hitl_namespace_name t' c' = Inr n"
  shows "t = t' \<and> c = c'"
proof -
  from assms obtain s s' where t: "t = ''tools.'' @ s" "t' = ''tools.'' @ s'"
    and n: "n = join_on (CHR ''.'') (''hitl'' # split_on (CHR ''.'') s @ [uuid_hex c])"
    and n': "n = join_on (CHR ''.'') (''hitl'' # split_on (CHR ''.'') s' @ [uuid_hex c'])"
    by (auto simp: build_hitl_Inr)
  have split: "split_on (CHR ''.'') (join_on (CHR ''.'') (''hitl'' # split_on (CHR ''.'') s @ [uuid_hex c]))
      = ''hitl'' # split_on (CHR ''.'') s @ [uuid_hex c]" for s c
    by (rule split_join) (auto dest: split_on_parts)
  from n n' have "split_on (CHR ''.'') s @ [uuid_hex c] = split_on (CHR ''.'') s' @ [uuid_hex c']"
    by (metis split list.inject)
  then show ?thesis using t by (auto dest: split_on_inject)
qed

section \<open>Provider nodes\<close>

lemma tool_provider_node_idem:
  "tool_provider_node s = Inr n \<Longrightarrow> tool_provider_node n = Inr n"
  by (auto simp: tool_provider_node_def split: if_splits)

text \<open>A provider node contains the tools whose mcp name continues its stem, segment by segment, and
  the versions of the tool the stem itself names; nothing else.\<close>

lemma provider_node_contains_tool:
  assumes "build_tool_namespace_name m v = Inr n"
  shows "namespace_contains (''tools.'' @ stem) n \<longleftrightarrow>
    prefix (split_on (CHR ''.'') stem) (split_on (CHR ''.'') m @ [sanitize_segment v])"
proof -
  from assms have n: "n = ''tools'' @ (CHR ''.'') # (m @ ''.'' @ sanitize_segment v)"
    by (simp add: build_tool_namespace_name_Inr)
  have tools: "split_on (CHR ''.'') (''tools'' @ (CHR ''.'') # s) = ''tools'' # split_on (CHR ''.'') s" for s
    by (subst split_on_append) simp
  have "namespace_contains (''tools'' @ (CHR ''.'') # stem) n \<longleftrightarrow>
      prefix (''tools'' # split_on (CHR ''.'') stem)
        (''tools'' # split_on (CHR ''.'') m @ [sanitize_segment v])"
    unfolding namespace_contains_def NAMESPACE_NAME_SEPARATOR_def prefix_split_iff [symmetric] n
      tools split_tool_body by simp
  then show ?thesis by simp
qed

end
