(* ===== verification/PyText.thy ===== *)
theory PyText
  imports Prelude
begin

text \<open>
  The parts of Python's text handling the program relies on, character by character: stripping,
  \<open>isdigit\<close>, \<open>int\<close> in base ten and sixteen, and the parsing \<open>UUID(s)\<close> does.  The lemmas
  show that a UUID read back from its \<open>str\<close> or \<open>hex\<close> rendering is the UUID that was written.
\<close>

section \<open>Python strings and integers\<close>

text \<open>\<open>str.strip\<close>, \<open>str.lstrip\<close> with one character, \<open>str.isdigit\<close> and \<open>int\<close> on the
  characters of Latin-1, code point by code point: the superscripts two, three and one are digits for
  \<open>isdigit\<close> and not for \<open>int\<close>, which reads an optional sign and groups of decimal digits
  separated by single underscores, and refuses more than 4300 digits.\<close>

definition py_space :: "char \<Rightarrow> bool" where
  "py_space c \<longleftrightarrow> (let n = of_char c :: nat in
     9 \<le> n \<and> n \<le> 13 \<or> 28 \<le> n \<and> n \<le> 32 \<or> n = 133 \<or> n = 160)"

definition py_strip :: "string \<Rightarrow> string" where
  "py_strip s = rev (dropWhile py_space (rev (dropWhile py_space s)))"

definition py_lstrip_char :: "char \<Rightarrow> string \<Rightarrow> string" where
  "py_lstrip_char c s = dropWhile (\<lambda>d. d = c) s"

definition decimal_digit :: "char \<Rightarrow> bool" where
  "decimal_digit c \<longleftrightarrow> (let n = of_char c :: nat in 48 \<le> n \<and> n \<le> 57)"

definition py_isdigit :: "string \<Rightarrow> bool" where
  "py_isdigit s \<longleftrightarrow> s \<noteq> [] \<and>
     list_all (\<lambda>c. decimal_digit c \<or> of_char c \<in> {178, 179, 185 :: nat}) s"

fun py_digits :: "nat \<Rightarrow> bool \<Rightarrow> string \<Rightarrow> nat option" where
  "py_digits acc after_digit [] = (if after_digit then Some acc else None)"
| "py_digits acc after_digit (c # cs) =
     (if decimal_digit c then py_digits (10 * acc + (of_char c - 48)) True cs
      else if c = CHR ''_'' \<and> after_digit then py_digits acc False cs
      else None)"

definition py_int :: "string \<Rightarrow> int option" where
  "py_int s =
     (let t = py_strip s in
      if 4300 < length (List.filter decimal_digit t) then None
      else case t of
        [] \<Rightarrow> None
      | c # cs \<Rightarrow>
          if c = CHR ''-'' then map_option (\<lambda>n. - int n) (py_digits 0 False cs)
          else if c = CHR ''+'' then map_option int (py_digits 0 False cs)
          else map_option int (py_digits 0 False t))"

section \<open>Parsing a UUID\<close>

text \<open>\<open>s.replace(pat, '')\<close> for a non-empty pattern.\<close>

fun str_remove :: "string \<Rightarrow> string \<Rightarrow> string" where
  "str_remove pat [] = []"
| "str_remove pat (c # cs) =
     (if prefix pat (c # cs) then str_remove pat (drop (length pat - 1) cs)
      else c # str_remove pat cs)"

definition py_strip_chars :: "string \<Rightarrow> string \<Rightarrow> string" where
  "py_strip_chars chars s =
     rev (dropWhile (\<lambda>c. c \<in> set chars) (rev (dropWhile (\<lambda>c. c \<in> set chars) s)))"

definition hex_val :: "char \<Rightarrow> nat option" where
  "hex_val c = (let n = of_char c in
     if 48 \<le> n \<and> n \<le> 57 then Some (n - 48)
     else if 97 \<le> n \<and> n \<le> 102 then Some (n - 87)
     else if 65 \<le> n \<and> n \<le> 70 then Some (n - 55)
     else None)"

fun py_hex_digits :: "nat \<Rightarrow> bool \<Rightarrow> string \<Rightarrow> nat option" where
  "py_hex_digits acc after_digit [] = (if after_digit then Some acc else None)"
| "py_hex_digits acc after_digit (c # cs) =
     (case hex_val c of
        Some d \<Rightarrow> py_hex_digits (16 * acc + d) True cs
      | None \<Rightarrow> if c = CHR ''_'' \<and> after_digit then py_hex_digits acc False cs else None)"

text \<open>\<open>int(s, 16)\<close>: an optional sign, an optional \<open>0x\<close> with at most one underscore behind it,
  and the digits.\<close>

definition py_int16 :: "string \<Rightarrow> int option" where
  "py_int16 s =
     (let t = py_strip s;
          negative = (prefix ''-'' t);
          r = (if prefix ''-'' t \<or> prefix ''+'' t then drop 1 t else t);
          d = (if prefix ''0x'' r \<or> prefix ''0X'' r
               then (if prefix ''_'' (drop 2 r) then drop 3 r else drop 2 r) else r)
      in map_option (\<lambda>n. if negative then - int n else int n) (py_hex_digits 0 False d))"

definition uuid_parse :: "string \<Rightarrow> uuid option" where
  "uuid_parse s =
     (let h = List.filter (\<lambda>c. c \<noteq> CHR ''-'')
                (py_strip_chars ''{}'' (str_remove ''uuid:'' (str_remove ''urn:'' s)))
      in if length h \<noteq> 32 then None
         else case py_int16 h of
           None \<Rightarrow> None
         | Some n \<Rightarrow> if 0 \<le> n \<and> n < 2 ^ 128 then Some (word_of_int n) else None)"

abbreviation hex_chars :: "char set" where
  "hex_chars \<equiv> set ''0123456789abcdef''"

lemma str_remove_id: "pat \<noteq> [] \<Longrightarrow> hd pat \<notin> set s \<Longrightarrow> str_remove pat s = s"
  by (induction pat s rule: str_remove.induct) (auto simp: prefix_Cons neq_Nil_conv)

lemma dropWhile_id: "\<forall>x \<in> set xs. \<not> P x \<Longrightarrow> dropWhile P xs = xs"
  by (cases xs) auto

lemma py_strip_chars_id: "set chars \<inter> set s = {} \<Longrightarrow> py_strip_chars chars s = s"
  unfolding py_strip_chars_def by (subst dropWhile_id; (subst dropWhile_id)?) auto

lemma py_strip_id: "\<forall>c \<in> set s. \<not> py_space c \<Longrightarrow> py_strip s = s"
  unfolding py_strip_def by (subst dropWhile_id; (subst dropWhile_id)?) auto

lemma hex_val_hex_digit: "d < 16 \<Longrightarrow> hex_val (hex_digit d) = Some d"
proof -
  have "list_all (\<lambda>d. hex_val (hex_digit d) = Some d) [0..<16]"
    by code_simp
  then show "d < 16 \<Longrightarrow> hex_val (hex_digit d) = Some d" by (simp add: list_all_iff)
qed

lemma py_hex_digits_all:
  "\<forall>x \<in> set xs. hex_val x \<noteq> None \<Longrightarrow>
   py_hex_digits acc b xs =
     (if xs = [] then (if b then Some acc else None)
      else Some (foldl (\<lambda>n c. 16 * n + the (hex_val c)) acc xs))"
  by (induction xs arbitrary: acc b) (auto split: option.splits)

lemma foldl_hex_digits:
  "v < 16 ^ k \<Longrightarrow> foldl (\<lambda>n c. 16 * n + the (hex_val c)) 0 (hex_digits k v) = v"
  by (induction k arbitrary: v) (auto simp: hex_val_hex_digit less_mult_imp_div_less)

lemma py_hex_digits_hex:
  assumes "v < 16 ^ k" and "0 < k"
  shows "py_hex_digits 0 False (hex_digits k v) = Some v"
proof -
  have "hex_val c \<noteq> None" if "c \<in> hex_chars" for c
    using that by (auto simp: hex_val_def)
  then have "\<forall>x \<in> set (hex_digits k v). hex_val x \<noteq> None"
    using hex_digits_chars [of k v] by blast
  moreover have "hex_digits k v \<noteq> []" using assms(2) length_hex_digits [of k v] by force
  ultimately show ?thesis by (simp add: py_hex_digits_all foldl_hex_digits [OF assms(1)])
qed

lemma uuid_hex_chars: "set (uuid_hex u) \<subseteq> hex_chars"
  unfolding uuid_hex_def by (rule hex_digits_chars)

lemma uuid_str_chars: "set (uuid_str u) \<subseteq> insert (CHR ''-'') hex_chars"
proof -
  have "c \<in> set (uuid_hex u)" if "c \<in> set (uuid_str u)" "c \<noteq> CHR ''-''" for c
    using that unfolding uuid_str_hex [symmetric] by simp
  then show ?thesis using uuid_hex_chars [of u] by blast
qed

lemma py_int16_uuid_hex: "py_int16 (uuid_hex u) = Some (int (unat u))"
proof -
  have "\<forall>c \<in> hex_chars. \<not> py_space c" by (simp add: py_space_def)
  then have strip: "py_strip (uuid_hex u) = uuid_hex u"
    using uuid_hex_chars [of u] by (intro py_strip_id) blast
  have no: "\<not> prefix p (uuid_hex u)" if "\<not> set p \<subseteq> hex_chars" for p
    using that uuid_hex_chars [of u] set_mono_prefix [of p "uuid_hex u"] by blast
  have "\<not> prefix ''-'' (uuid_hex u)" "\<not> prefix ''+'' (uuid_hex u)"
    "\<not> prefix ''0x'' (uuid_hex u)" "\<not> prefix ''0X'' (uuid_hex u)"
    by (rule no; simp)+
  moreover have "py_hex_digits 0 False (uuid_hex u) = Some (unat u)"
    unfolding uuid_hex_def by (rule py_hex_digits_hex [OF unat_lt_16_32]) simp
  ultimately show ?thesis by (simp add: py_int16_def strip)
qed

lemma uuid_parse_str [simp]: "uuid_parse (uuid_str u) = Some u"
proof -
  have "CHR ''u'' \<notin> set (uuid_str u)" "set ''{}'' \<inter> set (uuid_str u) = {}"
    using uuid_str_chars [of u] by auto
  then have "py_strip_chars ''{}'' (str_remove ''uuid:'' (str_remove ''urn:'' (uuid_str u))) = uuid_str u"
    by (simp add: str_remove_id py_strip_chars_id)
  moreover have "uint u < 2 ^ LENGTH(128)" by (rule unsigned_less)
  ultimately show ?thesis by (simp add: uuid_parse_def uuid_str_hex py_int16_uuid_hex)
qed

end
