(* ===== verification/AclTypes.thy ===== *)
theory AclTypes
  imports PyText Namespaces
begin

text \<open>
  The value types of \<open>threetears.agent.acl.types\<close>: every frozen dataclass is a record, every
  \<open>StrEnum\<close> a datatype, and the two computing methods (\<open>Role.actions_for\<close> and
  \<open>RoleAssignment.covers\<close>) and the nesting configuration are definitions.  A
  \<open>Mapping[str, frozenset[str]]\<close> is a map to sets.  The process environment is a map from
  variable names to values.
\<close>

section \<open>Enumerations\<close>

datatype ActorType = ACTOR_USER | ACTOR_AGENT

datatype MemberType = MEMBER_USER | MEMBER_AGENT | MEMBER_GROUP

datatype ScopeType = SCOPE_NAMESPACE | SCOPE_SUBTREE | SCOPE_TYPE_CUSTOMER | SCOPE_ALL

datatype LimitingSide = LIMIT_USER | LIMIT_AGENT | LIMIT_EQUAL | LIMIT_NEITHER

definition WILDCARD_RESOURCE_TYPE :: string where
  "WILDCARD_RESOURCE_TYPE = ''*''"

section \<open>The nesting configuration\<close>

definition MAX_GROUP_NESTING_LEVELS_ENV :: string where
  "MAX_GROUP_NESTING_LEVELS_ENV = ''THREETEARS_ACL_MAX_GROUP_NESTING_LEVELS''"

definition RETIRED_MAX_GROUP_MEMBERSHIP_DEPTH_ENV :: string where
  "RETIRED_MAX_GROUP_MEMBERSHIP_DEPTH_ENV = ''THREETEARS_ACL_MAX_GROUP_MEMBERSHIP_DEPTH''"

definition DEFAULT_MAX_GROUP_NESTING_LEVELS :: int where
  "DEFAULT_MAX_GROUP_NESTING_LEVELS = 3"

definition MIN_CONFIGURABLE_GROUP_NESTING_LEVELS :: int where
  "MIN_CONFIGURABLE_GROUP_NESTING_LEVELS = 2"

definition MAX_CONFIGURABLE_GROUP_NESTING_LEVELS :: int where
  "MAX_CONFIGURABLE_GROUP_NESTING_LEVELS = 5"

text \<open>The four ways \<open>resolve_max_group_nesting_levels\<close> raises: the retired variable is set and
  converts to some number of levels or to none, it looks like a number \<open>int\<close> does not read, the
  variable is no integer, or the integer is out of range.\<close>

datatype nesting_error =
    RetiredVariable string "int option" | InvalidLiteral string | NotAnInteger string
  | OutsideRange string

definition resolve_max_group_nesting_levels ::
  "(string \<rightharpoonup> string) \<Rightarrow> nesting_error + int" where
  "resolve_max_group_nesting_levels environ =
     (case environ RETIRED_MAX_GROUP_MEMBERSHIP_DEPTH_ENV of
        Some retired \<Rightarrow>
          (let hops = py_strip retired in
           if py_isdigit (py_lstrip_char (CHR ''-'') hops)
           then (case py_int hops of
                   None \<Rightarrow> Inl (InvalidLiteral hops)
                 | Some n \<Rightarrow> Inl (RetiredVariable hops (Some (n + 1))))
           else Inl (RetiredVariable hops None))
      | None \<Rightarrow>
          (case environ MAX_GROUP_NESTING_LEVELS_ENV of
             None \<Rightarrow> Inr DEFAULT_MAX_GROUP_NESTING_LEVELS
           | Some raw \<Rightarrow>
               (case py_int (py_strip raw) of
                  None \<Rightarrow> Inl (NotAnInteger raw)
                | Some levels \<Rightarrow>
                    if \<not> (MIN_CONFIGURABLE_GROUP_NESTING_LEVELS \<le> levels
                          \<and> levels \<le> MAX_CONFIGURABLE_GROUP_NESTING_LEVELS)
                    then Inl (OutsideRange raw)
                    else Inr levels)))"

text \<open>\<open>MAX_GROUP_MEMBERSHIP_DEPTH\<close>, read from the environment at import.\<close>

definition MAX_GROUP_MEMBERSHIP_DEPTH :: "(string \<rightharpoonup> string) \<Rightarrow> nesting_error + int" where
  "MAX_GROUP_MEMBERSHIP_DEPTH environ =
     map_sum (\<lambda>e. e) (\<lambda>levels. levels - 1) (resolve_max_group_nesting_levels environ)"

section \<open>Value types\<close>

record Namespace =
  ns_id :: uuid
  ns_customer_id :: "uuid option"
  ns_namespace_type :: string
  ns_owner_agent_id :: "uuid option"
  ns_name :: "string option"
  ns_owner_namespace :: "string option"

record Group =
  grp_id :: uuid
  grp_name :: string
  grp_customer_id :: "uuid option"

record GroupMembership =
  mem_group_id :: uuid
  mem_member_type :: MemberType
  mem_member_id :: uuid
  mem_customer_id :: "uuid option"

record Role =
  role_id :: uuid
  role_name :: string
  role_permissions :: "string \<rightharpoonup> string set"
  role_is_built_in :: bool
  role_customer_id :: "uuid option"

definition perm_get :: "(string \<rightharpoonup> string set) \<Rightarrow> string \<Rightarrow> string set" where
  "perm_get permissions resource_type =
     (case permissions resource_type of None \<Rightarrow> {} | Some actions \<Rightarrow> actions)"

definition actions_for :: "Role \<Rightarrow> string \<Rightarrow> string set" where
  "actions_for role resource_type =
     perm_get (role_permissions role) resource_type
       \<union> perm_get (role_permissions role) WILDCARD_RESOURCE_TYPE"

record RoleAssignment =
  asg_id :: uuid
  asg_role_id :: uuid
  asg_group_id :: uuid
  asg_scope_type :: ScopeType
  asg_scope_namespace_id :: "uuid option"
  asg_scope_namespace_type :: "string option"
  asg_scope_customer_id :: "uuid option"
  asg_scope_namespace_name :: "string option"

definition covers :: "RoleAssignment \<Rightarrow> Namespace \<Rightarrow> bool" where
  "covers a namespace =
     (case asg_scope_type a of
        SCOPE_ALL \<Rightarrow> True
      | SCOPE_NAMESPACE \<Rightarrow> asg_scope_namespace_id a = Some (ns_id namespace)
      | SCOPE_SUBTREE \<Rightarrow>
          (case asg_scope_namespace_name a of
             None \<Rightarrow> False
           | Some node \<Rightarrow>
               (case ns_name namespace of
                  None \<Rightarrow> False
                | Some name \<Rightarrow> namespace_contains node name))
      | SCOPE_TYPE_CUSTOMER \<Rightarrow>
          asg_scope_namespace_type a = Some (ns_namespace_type namespace)
            \<and> asg_scope_customer_id a = ns_customer_id namespace)"

record EvaluationContext =
  ctx_namespace :: Namespace
  ctx_action :: string
  ctx_user_id :: "uuid option"
  ctx_agent_id :: "uuid option"
  ctx_group_id :: "uuid option"

record Trail =
  tr_group :: Group
  tr_assignment :: RoleAssignment
  tr_role :: Role
  tr_contributed_actions :: "string set"

record EvaluationResult =
  res_decision :: bool
  res_effective_actions :: "string set"
  res_trails :: "Trail list"
  res_user_actions :: "string set"
  res_agent_actions :: "string set"
  res_limiting_side :: LimitingSide
  res_user_trails :: "Trail list"
  res_agent_trails :: "Trail list"
  res_agent_owner_short_circuited :: bool

section \<open>Facts\<close>

lemma actions_for_iff:
  "a \<in> actions_for r t \<longleftrightarrow>
     (\<exists>b \<in> {t, WILDCARD_RESOURCE_TYPE}. \<exists>s. role_permissions r b = Some s \<and> a \<in> s)"
  by (auto simp: actions_for_def perm_get_def split: option.splits)

text \<open>The configured nesting is between one and four hops, the default two; every other setting, and
  the retired variable whatever its value, is refused.\<close>

theorem max_group_membership_depth_bounds:
  "MAX_GROUP_MEMBERSHIP_DEPTH env = Inr n \<longleftrightarrow>
     env RETIRED_MAX_GROUP_MEMBERSHIP_DEPTH_ENV = None
     \<and> (case env MAX_GROUP_NESTING_LEVELS_ENV of
          None \<Rightarrow> n = 2
        | Some raw \<Rightarrow> py_int (py_strip raw) = Some (n + 1) \<and> 1 \<le> n \<and> n \<le> 4)"
  by (auto simp: MAX_GROUP_MEMBERSHIP_DEPTH_def resolve_max_group_nesting_levels_def Let_def
      DEFAULT_MAX_GROUP_NESTING_LEVELS_def MIN_CONFIGURABLE_GROUP_NESTING_LEVELS_def
      MAX_CONFIGURABLE_GROUP_NESTING_LEVELS_def split: option.splits if_splits)

end
