(* ===== verification/AclCache.thy ===== *)
theory AclCache
  imports AclTypes
begin

text \<open>
  The in-process cache of \<open>threetears.agent.acl.cache\<close> and its binding to the row broadcasts of
  the access tables (\<open>threetears.agent.acl.access_tables\<close>).  The loader protocols of
  \<open>loader.py\<close> are records of functions: an optional protocol is an optional field, so
  \<open>isinstance\<close> against it is a test for \<open>None\<close>.  Each layer is a dict in insertion order, an
  association list.  The methods run under one lock, so each is one state transformer.  The callback
  \<open>watching\<close> is the value it answers now, the diagnostic \<open>date_cached\<close> stamps and the log lines
  are left out.
\<close>

section \<open>Loader protocols\<close>

record MembershipLoader =
  load_for_user :: "uuid \<Rightarrow> GroupMembership list"
  load_for_agent :: "uuid \<Rightarrow> GroupMembership list"
  load_for_group :: "uuid \<Rightarrow> GroupMembership list"
  load_for_groups :: "(uuid list \<Rightarrow> GroupMembership list) option"

text \<open>What a grant loader returns for a group: a \<open>Group\<close>, or another object with or without
  the three attributes the evaluator reads.\<close>

datatype loaded_group =
    LoadedGroup Group
  | LoadedObject "uuid option" "string option" "uuid option option"

record GrantLoader =
  load_assignments_for_groups :: "uuid list \<Rightarrow> Namespace \<Rightarrow> RoleAssignment list"
  load_roles :: "uuid list \<Rightarrow> uuid \<rightharpoonup> Role"
  load_groups :: "uuid list \<Rightarrow> uuid \<rightharpoonup> loaded_group"
  load_assignments_held_by_groups :: "(uuid list \<Rightarrow> RoleAssignment list) option"

section \<open>Keys, entries and the cache\<close>

record ActorMembershipKey =
  actor_kind :: string
  actor_id :: uuid

record GroupNamespaceKey =
  gnk_group_id :: uuid
  gnk_namespace_id :: uuid

record GroupTypeCustomerKey =
  gtk_group_id :: uuid
  gtk_namespace_type :: string
  gtk_customer_id :: uuid

record ActorMembershipEntry =
  ent_memberships :: "GroupMembership list"

record GroupNamespaceEntry =
  ent_actions :: "string set"
  ent_trails :: "Trail list"
  ent_role_ids :: "uuid set option"

record GroupTypeCustomerEntry =
  tce_actions :: "string set"
  tce_trails :: "Trail list"

record AclCache =
  membership_loader :: MembershipLoader
  grant_loader :: GrantLoader
  c_membership :: "(ActorMembershipKey \<times> ActorMembershipEntry) list"
  c_group_namespace :: "(GroupNamespaceKey \<times> GroupNamespaceEntry) list"
  c_group_type_customer :: "(GroupTypeCustomerKey \<times> GroupTypeCustomerEntry) list"
  c_evictions :: nat
  c_fence_skipped_stores :: nat
  c_watching :: "bool option"
  c_ever_followed :: bool

definition new_AclCache :: "MembershipLoader \<Rightarrow> GrantLoader \<Rightarrow> AclCache" where
  "new_AclCache ml gl =
     \<lparr>membership_loader = ml, grant_loader = gl, c_membership = [], c_group_namespace = [],
      c_group_type_customer = [], c_evictions = 0, c_fence_skipped_stores = 0,
      c_watching = None, c_ever_followed = False\<rparr>"

section \<open>Trust\<close>

definition size_locked :: "AclCache \<Rightarrow> nat" where
  "size_locked c = length (c_membership c) + length (c_group_namespace c)
     + length (c_group_type_customer c)"

definition empty_locked :: "AclCache \<Rightarrow> AclCache" where
  "empty_locked c = c\<lparr>c_evictions := Suc (c_evictions c), c_membership := [],
     c_group_namespace := [], c_group_type_customer := []\<rparr>"

definition followed_by :: "bool option \<Rightarrow> AclCache \<Rightarrow> AclCache" where
  "followed_by watching c =
     (let c1 = if watching = None \<or> \<not> c_ever_followed c then empty_locked c else c
      in c1\<lparr>c_watching := watching, c_ever_followed := True\<rparr>)"

definition followed :: "AclCache \<Rightarrow> bool" where
  "followed c \<longleftrightarrow> c_ever_followed c \<and> c_watching c \<noteq> None"

definition trusted_locked :: "AclCache \<Rightarrow> bool \<times> AclCache" where
  "trusted_locked c =
     (if \<not> c_ever_followed c then (True, c)
      else let trusted = (c_watching c = Some True)
        in (trusted, if \<not> trusted \<and> size_locked c \<noteq> 0 then empty_locked c else c))"

section \<open>The read fence\<close>

definition read_fence :: "AclCache \<Rightarrow> nat" where
  "read_fence c = c_evictions c"

definition fence_moved :: "nat option \<Rightarrow> AclCache \<Rightarrow> bool \<times> AclCache" where
  "fence_moved fence c =
     (let moved = (case fence of None \<Rightarrow> False | Some f \<Rightarrow> f \<noteq> c_evictions c)
      in (moved, if moved then c\<lparr>c_fence_skipped_stores := Suc (c_fence_skipped_stores c)\<rparr> else c))"

text \<open>The guard the three \<open>put_*\<close> methods share: trusted, and the fence not moved; the second
  test runs only after the first.\<close>

definition may_store :: "nat option \<Rightarrow> AclCache \<Rightarrow> bool \<times> AclCache" where
  "may_store fence c =
     (let (trusted, c1) = trusted_locked c
      in if trusted then (let (moved, c2) = fence_moved fence c1 in (\<not> moved, c2))
         else (False, c1))"

section \<open>Membership layer\<close>

definition get_membership ::
  "ActorMembershipKey \<Rightarrow> AclCache \<Rightarrow> ActorMembershipEntry option \<times> AclCache" where
  "get_membership key c =
     (let (trusted, c1) = trusted_locked c
      in (if trusted then map_of (c_membership c1) key else None, c1))"

definition put_membership ::
  "ActorMembershipKey \<Rightarrow> GroupMembership list \<Rightarrow> nat option \<Rightarrow> AclCache \<Rightarrow>
   ActorMembershipEntry \<times> AclCache" where
  "put_membership key memberships fence c =
     (let entry = \<lparr>ent_memberships = memberships\<rparr>; (store, c1) = may_store fence c
      in (entry, if store then c1\<lparr>c_membership := AList.update key entry (c_membership c1)\<rparr> else c1))"

definition invalidate_membership :: "ActorMembershipKey \<Rightarrow> AclCache \<Rightarrow> AclCache" where
  "invalidate_membership key c =
     c\<lparr>c_evictions := Suc (c_evictions c), c_membership := AList.delete key (c_membership c)\<rparr>"

definition invalidate_membership_for_actor :: "string \<Rightarrow> uuid \<Rightarrow> AclCache \<Rightarrow> AclCache" where
  "invalidate_membership_for_actor kind actor c =
     invalidate_membership \<lparr>actor_kind = kind, actor_id = actor\<rparr> c"

section \<open>Per-namespace layer\<close>

definition get_group_namespace ::
  "GroupNamespaceKey \<Rightarrow> AclCache \<Rightarrow> GroupNamespaceEntry option \<times> AclCache" where
  "get_group_namespace key c =
     (let (trusted, c1) = trusted_locked c
      in (if trusted then map_of (c_group_namespace c1) key else None, c1))"

definition put_group_namespace ::
  "GroupNamespaceKey \<Rightarrow> string set \<Rightarrow> Trail list \<Rightarrow> uuid set option \<Rightarrow> nat option \<Rightarrow> AclCache \<Rightarrow>
   GroupNamespaceEntry \<times> AclCache" where
  "put_group_namespace key actions trails role_ids fence c =
     (let entry = \<lparr>ent_actions = actions, ent_trails = trails, ent_role_ids = role_ids\<rparr>;
          (store, c1) = may_store fence c
      in (entry, if store
                 then c1\<lparr>c_group_namespace := AList.update key entry (c_group_namespace c1)\<rparr>
                 else c1))"

definition invalidate_group_namespace :: "GroupNamespaceKey \<Rightarrow> AclCache \<Rightarrow> AclCache" where
  "invalidate_group_namespace key c =
     c\<lparr>c_evictions := Suc (c_evictions c),
       c_group_namespace := AList.delete key (c_group_namespace c)\<rparr>"

definition invalidate_namespace :: "uuid \<Rightarrow> AclCache \<Rightarrow> AclCache" where
  "invalidate_namespace namespace_id c =
     c\<lparr>c_evictions := Suc (c_evictions c),
       c_group_namespace :=
         List.filter (\<lambda>(key, _). gnk_namespace_id key \<noteq> namespace_id) (c_group_namespace c)\<rparr>"

definition invalidate_group :: "uuid \<Rightarrow> AclCache \<Rightarrow> AclCache" where
  "invalidate_group group_id c =
     c\<lparr>c_evictions := Suc (c_evictions c),
       c_group_namespace :=
         List.filter (\<lambda>(key, _). gnk_group_id key \<noteq> group_id) (c_group_namespace c),
       c_group_type_customer :=
         List.filter (\<lambda>(key, _). gtk_group_id key \<noteq> group_id) (c_group_type_customer c)\<rparr>"

section \<open>Type-and-customer layer\<close>

definition get_group_type_customer ::
  "GroupTypeCustomerKey \<Rightarrow> AclCache \<Rightarrow> GroupTypeCustomerEntry option \<times> AclCache" where
  "get_group_type_customer key c =
     (let (trusted, c1) = trusted_locked c
      in (if trusted then map_of (c_group_type_customer c1) key else None, c1))"

definition put_group_type_customer ::
  "GroupTypeCustomerKey \<Rightarrow> string set \<Rightarrow> Trail list \<Rightarrow> nat option \<Rightarrow> AclCache \<Rightarrow>
   GroupTypeCustomerEntry \<times> AclCache" where
  "put_group_type_customer key actions trails fence c =
     (let entry = \<lparr>tce_actions = actions, tce_trails = trails\<rparr>;
          (store, c1) = may_store fence c
      in (entry, if store
                 then c1\<lparr>c_group_type_customer := AList.update key entry (c_group_type_customer c1)\<rparr>
                 else c1))"

definition invalidate_group_type_customer :: "GroupTypeCustomerKey \<Rightarrow> AclCache \<Rightarrow> AclCache" where
  "invalidate_group_type_customer key c =
     c\<lparr>c_evictions := Suc (c_evictions c),
       c_group_type_customer := AList.delete key (c_group_type_customer c)\<rparr>"

section \<open>Bulk and row-by-row evictions\<close>

definition invalidate_all :: "AclCache \<Rightarrow> AclCache" where
  "invalidate_all c = empty_locked c"

definition drop_membership_layer :: "AclCache \<Rightarrow> AclCache" where
  "drop_membership_layer c = c\<lparr>c_evictions := Suc (c_evictions c), c_membership := []\<rparr>"

definition drop_assignment_layers :: "AclCache \<Rightarrow> AclCache" where
  "drop_assignment_layers c =
     c\<lparr>c_evictions := Suc (c_evictions c), c_group_namespace := [], c_group_type_customer := []\<rparr>"

definition evict_group_member_row :: "string option \<Rightarrow> uuid option \<Rightarrow> AclCache \<Rightarrow> AclCache" where
  "evict_group_member_row member_kind member_id c =
     (case (member_kind, member_id) of
        (Some kind, Some member) \<Rightarrow> invalidate_membership_for_actor kind member c
      | _ \<Rightarrow> drop_membership_layer c)"

definition evict_role_assignment_row :: "uuid option \<Rightarrow> AclCache \<Rightarrow> AclCache" where
  "evict_role_assignment_row group_id c =
     (case group_id of None \<Rightarrow> drop_assignment_layers c | Some g \<Rightarrow> invalidate_group g c)"

definition evict_role_row :: "uuid \<Rightarrow> AclCache \<Rightarrow> AclCache" where
  "evict_role_row role c =
     c\<lparr>c_evictions := Suc (c_evictions c),
       c_group_namespace :=
         List.filter (\<lambda>(_, entry). \<not> (case ent_role_ids entry of
             None \<Rightarrow> True | Some role_ids \<Rightarrow> role \<in> role_ids)) (c_group_namespace c),
       c_group_type_customer := []\<rparr>"

definition evict_group_row :: "uuid \<Rightarrow> AclCache \<Rightarrow> AclCache" where
  "evict_group_row group_id c =
     (let c1 = invalidate_group group_id c;
          m1 = AList.delete \<lparr>actor_kind = ''group'', actor_id = group_id\<rparr> (c_membership c1)
      in c1\<lparr>c_membership :=
           List.filter (\<lambda>(_, entry).
             \<not> list_ex (\<lambda>m. mem_group_id m = group_id) (ent_memberships entry)) m1\<rparr>)"

section \<open>The methods as steps\<close>

inductive cache_step :: "AclCache \<Rightarrow> AclCache \<Rightarrow> bool" where
  "cache_step c (followed_by w c)"
| "cache_step c (snd (trusted_locked c))"
| "cache_step c (snd (get_membership k c))"
| "cache_step c (snd (put_membership k ms f c))"
| "cache_step c (invalidate_membership k c)"
| "cache_step c (invalidate_membership_for_actor kind a c)"
| "cache_step c (snd (get_group_namespace gk c))"
| "cache_step c (snd (put_group_namespace gk acts ts rs f c))"
| "cache_step c (invalidate_group_namespace gk c)"
| "cache_step c (invalidate_namespace n c)"
| "cache_step c (invalidate_group g c)"
| "cache_step c (snd (get_group_type_customer tk c))"
| "cache_step c (snd (put_group_type_customer tk acts ts f c))"
| "cache_step c (invalidate_group_type_customer tk c)"
| "cache_step c (invalidate_all c)"
| "cache_step c (evict_group_member_row mk mi c)"
| "cache_step c (evict_role_assignment_row og c)"
| "cache_step c (evict_role_row r c)"
| "cache_step c (evict_group_row g c)"
| "cache_step c (drop_membership_layer c)"
| "cache_step c (drop_assignment_layers c)"

definition cache_wf :: "AclCache \<Rightarrow> bool" where
  "cache_wf c \<longleftrightarrow> distinct (map fst (c_membership c)) \<and> distinct (map fst (c_group_namespace c))
     \<and> distinct (map fst (c_group_type_customer c)) \<and> (c_watching c \<noteq> None \<longrightarrow> c_ever_followed c)"

lemma trusted_locked_alt:
  "trusted_locked c =
     (if c_ever_followed c \<and> c_watching c \<noteq> Some True
      then (False, if size_locked c = 0 then c else empty_locked c) else (True, c))"
  by (simp add: trusted_locked_def)

lemma distinct_fst_filter: "distinct (map fst xs) \<Longrightarrow> distinct (map fst (List.filter P xs))"
  by (induction xs) auto

lemma distinct_fst_delete: "distinct (map fst xs) \<Longrightarrow> distinct (map fst (AList.delete k xs))"
  by (simp add: AList.delete_eq distinct_fst_filter)

lemma cache_wf_may_store: "cache_wf c \<Longrightarrow> cache_wf (snd (may_store f c))"
  by (simp add: may_store_def trusted_locked_alt fence_moved_def Let_def split_beta cache_wf_def
      empty_locked_def)

lemma evictions_may_store: "c_evictions c \<le> c_evictions (snd (may_store f c))"
  by (simp add: may_store_def trusted_locked_alt fence_moved_def Let_def split_beta empty_locked_def)

lemma loaders_may_store_raw:
  "membership_loader (snd (may_store f c)) = membership_loader c"
  "grant_loader (snd (may_store f c)) = grant_loader c"
  by (simp_all add: may_store_def trusted_locked_alt fence_moved_def Let_def split_beta empty_locked_def)

lemmas cache_method_defs =
  followed_by_def empty_locked_def trusted_locked_alt get_membership_def put_membership_def
  invalidate_membership_def invalidate_membership_for_actor_def get_group_namespace_def
  put_group_namespace_def invalidate_group_namespace_def invalidate_namespace_def invalidate_group_def
  get_group_type_customer_def put_group_type_customer_def invalidate_group_type_customer_def
  invalidate_all_def evict_group_member_row_def evict_role_assignment_row_def evict_role_row_def
  evict_group_row_def drop_membership_layer_def drop_assignment_layers_def

lemma cache_step_wf:
  assumes "cache_step c c'" and "cache_wf c"
  shows "cache_wf c'"
  using assms cache_wf_may_store [OF assms(2)]
  by (induction rule: cache_step.induct)
    (auto simp: cache_method_defs cache_wf_def split_beta Let_def distinct_fst_filter distinct_fst_delete
      distinct_update split: option.splits)

lemma cache_step_evictions:
  assumes "cache_step c c'"
  shows "c_evictions c \<le> c_evictions c'"
  using assms evictions_may_store [of c]
  by (induction rule: cache_step.induct)
    (auto simp: cache_method_defs split_beta Let_def split: option.splits)

lemma cache_step_loaders:
  assumes "cache_step c c'"
  shows "membership_loader c' = membership_loader c \<and> grant_loader c' = grant_loader c"
  using assms loaders_may_store_raw [of _ c]
  by (induction rule: cache_step.induct)
    (auto simp: cache_method_defs split_beta Let_def split: option.splits)

text \<open>Whatever methods run on a new cache, no layer holds a key twice, so the sizes count entries,
  the loaders are the ones it was built with, and the fence never moves back.\<close>

theorem cache_reachable_wf:
  assumes "cache_step\<^sup>*\<^sup>* (new_AclCache ml gl) c"
  shows "cache_wf c \<and> membership_loader c = ml \<and> grant_loader c = gl
    \<and> (\<forall>c'. cache_step\<^sup>*\<^sup>* c c' \<longrightarrow> read_fence c \<le> read_fence c')"
proof -
  have "cache_wf c \<and> membership_loader c = ml \<and> grant_loader c = gl"
    using assms
  proof (induction rule: rtranclp_induct)
    case base
    show ?case by (simp add: new_AclCache_def cache_wf_def)
  next
    case (step y z)
    with cache_step_wf [OF step(2)] cache_step_loaders [OF step(2)] show ?case by simp
  qed
  moreover have "read_fence c \<le> read_fence c'" if "cache_step\<^sup>*\<^sup>* c c'" for c'
    using that by (induction rule: rtranclp_induct)
      (auto simp: read_fence_def dest: cache_step_evictions)
  ultimately show ?thesis by blast
qed



end
