(* ===== verification/AclEvaluator.thy ===== *)
theory AclEvaluator
  imports AclCache
begin

text \<open>
  The evaluator of \<open>threetears.agent.acl.evaluator\<close>, function by function, with the cache
  threaded through every call that reads or writes it.  A dict that is only looked up is a map, one
  whose iteration order reaches a loader or a result is an association list; subscripting a dict is
  \<open>the\<close>, and the lemmas show that the key is always there.  The depth cap
  \<open>MAX_GROUP_MEMBERSHIP_DEPTH\<close>, a constant of the process, is an argument.  The sentinel
  \<open>_AllActionsSet\<close> is a constructor of its own, empty as a frozenset and neutral for
  intersection, as its class makes it.
\<close>

section \<open>Definitions\<close>

datatype eval_error = GroupNotAlone | NoActor | BadDirection string | NoFileActor

definition check_context :: "EvaluationContext \<Rightarrow> eval_error + unit" where
  "check_context ctx =
     (if ctx_group_id ctx \<noteq> None \<and> (ctx_user_id ctx \<noteq> None \<or> ctx_agent_id ctx \<noteq> None)
        then Inl GroupNotAlone
      else if ctx_user_id ctx = None \<and> ctx_agent_id ctx = None \<and> ctx_group_id ctx = None
        then Inl NoActor
      else Inr ())"

subsection \<open>Ownership and the owner's action set\<close>

definition agent_owns_namespace :: "Namespace \<Rightarrow> uuid \<Rightarrow> bool" where
  "agent_owns_namespace namespace agent_id =
     (case ns_owner_namespace namespace of
        None \<Rightarrow> False
      | Some owner \<Rightarrow> owner = build_agent_namespace_name agent_id)"

datatype action_set = ActionSet "string set" | AllActionsSet

definition OWNER_ACTIONS :: action_set where
  "OWNER_ACTIONS = AllActionsSet"

text \<open>The elements the sentinel has as a frozenset: what its length, truth value, equality and order
  see; and the two overridden operations.\<close>

fun as_frozenset :: "action_set \<Rightarrow> string set" where
  "as_frozenset (ActionSet s) = s"
| "as_frozenset AllActionsSet = {}"

fun contains_action :: "action_set \<Rightarrow> string \<Rightarrow> bool" where
  "contains_action (ActionSet s) a = (a \<in> s)"
| "contains_action AllActionsSet a = True"

fun and_actions :: "string set \<Rightarrow> action_set \<Rightarrow> string set" where
  "and_actions other (ActionSet s) = other \<inter> s"
| "and_actions other AllActionsSet = other"

subsection \<open>Helpers\<close>

fun unique_ordered_from :: "uuid set \<Rightarrow> uuid list \<Rightarrow> uuid list" where
  "unique_ordered_from seen [] = []"
| "unique_ordered_from seen (v # vs) =
     (if v \<in> seen then unique_ordered_from seen vs
      else v # unique_ordered_from (insert v seen) vs)"

definition unique_ordered :: "uuid list \<Rightarrow> uuid list" where
  "unique_ordered values = unique_ordered_from {} values"

definition filter_memberships ::
  "GroupMembership list \<Rightarrow> uuid \<Rightarrow> MemberType \<Rightarrow> Namespace \<Rightarrow> GroupMembership list" where
  "filter_memberships memberships actor member_type namespace =
     List.filter (\<lambda>m.
        if mem_member_id m \<noteq> actor then False
        else if mem_member_type m \<noteq> member_type then False
        else if mem_customer_id m \<noteq> None \<and> mem_customer_id m \<noteq> ns_customer_id namespace then False
        else True) memberships"

fun coerce_group :: "loaded_group \<Rightarrow> Group option" where
  "coerce_group (LoadedGroup g) = Some g"
| "coerce_group (LoadedObject (Some i) (Some n) (Some c)) =
     Some \<lparr>grp_id = i, grp_name = n, grp_customer_id = c\<rparr>"
| "coerce_group (LoadedObject _ _ _) = None"

definition coerce_groups :: "(uuid \<rightharpoonup> loaded_group) \<Rightarrow> (uuid \<rightharpoonup> Group)" where
  "coerce_groups raw = (\<lambda>g. Option.bind (raw g) coerce_group)"

text \<open>One iteration of the loop of \<open>_walk_assignments\<close>: the trail the assignment adds, if no
  guard skips it.\<close>

definition walk_assignment ::
  "(uuid \<rightharpoonup> Role) \<Rightarrow> (uuid \<rightharpoonup> Group) \<Rightarrow> uuid set \<Rightarrow> Namespace \<Rightarrow> RoleAssignment \<Rightarrow> Trail option" where
  "walk_assignment roles groups eligible_group_ids namespace a =
     (if asg_group_id a \<notin> eligible_group_ids then None
      else if \<not> covers a namespace then None
      else case groups (asg_group_id a) of
        None \<Rightarrow> None
      | Some grp \<Rightarrow>
          if grp_customer_id grp \<noteq> None \<and> grp_customer_id grp \<noteq> ns_customer_id namespace then None
          else (case roles (asg_role_id a) of
            None \<Rightarrow> None
          | Some role \<Rightarrow>
              if role_customer_id role \<noteq> None \<and> role_customer_id role \<noteq> ns_customer_id namespace
              then None
              else Some \<lparr>tr_group = grp, tr_assignment = a, tr_role = role,
                tr_contributed_actions = actions_for role (ns_namespace_type namespace)\<rparr>))"

definition walk_assignments ::
  "RoleAssignment list \<Rightarrow> (uuid \<rightharpoonup> Role) \<Rightarrow> (uuid \<rightharpoonup> Group) \<Rightarrow> uuid set \<Rightarrow> Namespace \<Rightarrow>
   string set \<times> Trail list" where
  "walk_assignments assignments roles groups eligible_group_ids namespace =
     (let ordered = sort_key (\<lambda>a. (uuid_str (asg_group_id a), uuid_str (asg_id a))) assignments;
          trails = List.map_filter (walk_assignment roles groups eligible_group_ids namespace) ordered
      in (\<Union>t \<in> set trails. tr_contributed_actions t, trails))"

subsection \<open>Side resolution\<close>

definition direct_groups ::
  "uuid \<Rightarrow> MemberType \<Rightarrow> Namespace \<Rightarrow> AclCache \<Rightarrow> uuid list \<times> AclCache" where
  "direct_groups actor member_type namespace c =
     (let kind = (if member_type = MEMBER_USER then ''user'' else ''agent'');
          key = \<lparr>actor_kind = kind, actor_id = actor\<rparr>;
          (entry, c1) = get_membership key c;
          (memberships, c2) =
            (case entry of
               Some e \<Rightarrow> (ent_memberships e, c1)
             | None \<Rightarrow>
                 let fence = read_fence c1;
                     rows = (if member_type = MEMBER_USER
                             then load_for_user (membership_loader c1) actor
                             else load_for_agent (membership_loader c1) actor)
                 in (rows, snd (put_membership key rows (Some fence) c1)))
      in (unique_ordered (map mem_group_id
            (filter_memberships memberships actor member_type namespace)), c2))"

definition group_key :: "uuid \<Rightarrow> ActorMembershipKey" where
  "group_key g = \<lparr>actor_kind = ''group'', actor_id = g\<rparr>"

text \<open>The three loops of \<open>_parent_rows\<close>: what the cache holds, the groups read together, the
  groups read one at a time.\<close>

fun cached_parent_rows ::
  "uuid list \<Rightarrow> (uuid \<rightharpoonup> GroupMembership list) \<Rightarrow> uuid list \<Rightarrow> AclCache \<Rightarrow>
   (uuid \<rightharpoonup> GroupMembership list) \<times> uuid list \<times> AclCache" where
  "cached_parent_rows [] rows missing c = (rows, missing, c)"
| "cached_parent_rows (g # gs) rows missing c =
     (let (entry, c1) = get_membership (group_key g) c
      in case entry of
           Some e \<Rightarrow> cached_parent_rows gs (rows(g \<mapsto> ent_memberships e)) missing c1
         | None \<Rightarrow> cached_parent_rows gs rows (missing @ [g]) c1)"

fun store_parent_rows ::
  "nat \<Rightarrow> GroupMembership list \<Rightarrow> uuid list \<Rightarrow> (uuid \<rightharpoonup> GroupMembership list) \<Rightarrow> AclCache \<Rightarrow>
   (uuid \<rightharpoonup> GroupMembership list) \<times> AclCache" where
  "store_parent_rows fence loaded [] rows c = (rows, c)"
| "store_parent_rows fence loaded (g # gs) rows c =
     (let parents = List.filter (\<lambda>row. mem_member_id row = g) loaded;
          c1 = snd (put_membership (group_key g) parents (Some fence) c)
      in store_parent_rows fence loaded gs (rows(g \<mapsto> parents)) c1)"

fun read_parent_rows ::
  "uuid list \<Rightarrow> (uuid \<rightharpoonup> GroupMembership list) \<Rightarrow> AclCache \<Rightarrow>
   (uuid \<rightharpoonup> GroupMembership list) \<times> AclCache" where
  "read_parent_rows [] rows c = (rows, c)"
| "read_parent_rows (g # gs) rows c =
     (let fence = read_fence c;
          parents = load_for_group (membership_loader c) g;
          c1 = snd (put_membership (group_key g) parents (Some fence) c)
      in read_parent_rows gs (rows(g \<mapsto> parents)) c1)"

definition parent_rows ::
  "uuid list \<Rightarrow> AclCache \<Rightarrow> (uuid \<rightharpoonup> GroupMembership list) \<times> AclCache" where
  "parent_rows group_ids c =
     (let (rows, missing, c1) = cached_parent_rows group_ids Map.empty [] c
      in case load_for_groups (membership_loader c1) of
           Some load \<Rightarrow>
             if missing \<noteq> []
             then store_parent_rows (read_fence c1) (load missing) (unique_ordered missing) rows c1
             else read_parent_rows missing rows c1
         | None \<Rightarrow> read_parent_rows missing rows c1)"

text \<open>The inner loop of \<open>_expand_group_parents\<close> over one group's eligible rows, the loop over the
  frontier, and the depth-capped rounds.\<close>

fun expand_rows ::
  "GroupMembership list \<Rightarrow> uuid list \<Rightarrow> uuid list \<Rightarrow> uuid list \<times> uuid list" where
  "expand_rows [] seen next_frontier = (seen, next_frontier)"
| "expand_rows (row # rows) seen next_frontier =
     (if mem_group_id row \<notin> set seen
      then expand_rows rows (seen @ [mem_group_id row]) (next_frontier @ [mem_group_id row])
      else expand_rows rows seen next_frontier)"

fun expand_frontier ::
  "Namespace \<Rightarrow> (uuid \<rightharpoonup> GroupMembership list) \<Rightarrow> uuid list \<Rightarrow> uuid list \<Rightarrow> uuid list \<Rightarrow>
   uuid list \<times> uuid list" where
  "expand_frontier namespace parents [] seen next_frontier = (seen, next_frontier)"
| "expand_frontier namespace parents (g # gs) seen next_frontier =
     (let (seen', next') =
        expand_rows (filter_memberships (the (parents g)) g MEMBER_GROUP namespace) seen next_frontier
      in expand_frontier namespace parents gs seen' next')"

fun expand_rounds ::
  "nat \<Rightarrow> uuid list \<Rightarrow> uuid list \<Rightarrow> Namespace \<Rightarrow> AclCache \<Rightarrow> uuid list \<times> AclCache" where
  "expand_rounds 0 seen frontier namespace c = (seen, c)"
| "expand_rounds (Suc n) seen frontier namespace c =
     (if frontier = [] then (seen, c)
      else let (parents, c1) = parent_rows frontier c;
               (seen', next_frontier) = expand_frontier namespace parents frontier seen []
        in expand_rounds n seen' next_frontier namespace c1)"

definition expand_group_parents ::
  "nat \<Rightarrow> uuid list \<Rightarrow> Namespace \<Rightarrow> AclCache \<Rightarrow> uuid list \<times> AclCache" where
  "expand_group_parents max_depth direct_group_ids namespace c =
     expand_rounds (max_depth - 1) (unique_ordered direct_group_ids) direct_group_ids namespace c"

subsection \<open>Planning\<close>

record SidePlan =
  plan_user_groups :: "uuid list"
  plan_agent_groups :: "uuid list"
  plan_agent_owner_short_circuited :: bool

type_synonym planned = "(string \<times> uuid \<times> uuid option) \<rightharpoonup> uuid list"

definition planner_groups ::
  "nat \<Rightarrow> string \<Rightarrow> uuid \<Rightarrow> Namespace \<Rightarrow> planned \<times> AclCache \<Rightarrow> uuid list \<times> planned \<times> AclCache" where
  "planner_groups max_depth kind actor namespace = (\<lambda>(planned, c).
     (let key = (kind, actor, ns_customer_id namespace)
      in case planned key of
           Some gs \<Rightarrow> (gs, planned, c)
         | None \<Rightarrow>
             let (direct, c1) =
                   (if kind = ''group'' then ([actor], c)
                    else direct_groups actor
                           (if kind = ''user'' then MEMBER_USER else MEMBER_AGENT) namespace c);
                 (gs, c2) = expand_group_parents max_depth direct namespace c1
             in (gs, planned(key \<mapsto> gs), c2)))"

definition plan ::
  "nat \<Rightarrow> EvaluationContext \<Rightarrow> planned \<times> AclCache \<Rightarrow> SidePlan \<times> planned \<times> AclCache" where
  "plan max_depth ctx s =
     (let ns = ctx_namespace ctx;
          (ug0, s0) = (case ctx_group_id ctx of
             None \<Rightarrow> ([], s) | Some g \<Rightarrow> planner_groups max_depth ''group'' g ns s);
          (ug, s1) = (case ctx_user_id ctx of
             None \<Rightarrow> (ug0, s0) | Some u \<Rightarrow> planner_groups max_depth ''user'' u ns s0);
          owner = (case ctx_agent_id ctx of None \<Rightarrow> False | Some a \<Rightarrow> agent_owns_namespace ns a);
          (ag, s2) = (case ctx_agent_id ctx of
             None \<Rightarrow> ([], s1)
           | Some a \<Rightarrow> if \<not> owner then planner_groups max_depth ''agent'' a ns s1 else ([], s1))
      in (\<lparr>plan_user_groups = ug, plan_agent_groups = ag,
           plan_agent_owner_short_circuited = owner\<rparr>, s2))"

fun plan_all ::
  "nat \<Rightarrow> EvaluationContext list \<Rightarrow> planned \<times> AclCache \<Rightarrow> SidePlan list \<times> planned \<times> AclCache" where
  "plan_all max_depth [] s = ([], s)"
| "plan_all max_depth (ctx # ctxs) s =
     (let (p, s1) = plan max_depth ctx s; (ps, s2) = plan_all max_depth ctxs s1 in (p # ps, s2))"

subsection \<open>What each group contributes\<close>

type_synonym contributions = "GroupNamespaceKey \<rightharpoonup> string set \<times> Trail list"
type_synonym held = "((uuid \<times> uuid) \<times> RoleAssignment list) list"

fun cached_contributions ::
  "(GroupNamespaceKey \<times> Namespace) list \<Rightarrow> contributions \<Rightarrow> (GroupNamespaceKey \<times> Namespace) list \<Rightarrow>
   AclCache \<Rightarrow> contributions \<times> (GroupNamespaceKey \<times> Namespace) list \<times> AclCache" where
  "cached_contributions [] result missing c = (result, missing, c)"
| "cached_contributions ((key, namespace) # wanted) result missing c =
     (let (entry, c1) = get_group_namespace key c
      in case entry of
           Some e \<Rightarrow> cached_contributions wanted (result(key \<mapsto> (ent_actions e, ent_trails e))) missing c1
         | None \<Rightarrow>
             cached_contributions wanted result (AList.update key namespace missing) c1)"

text \<open>\<open>held\<close> from one read of everything the groups hold, and from one read per namespace.\<close>

fun held_by_groups ::
  "RoleAssignment list \<Rightarrow> (GroupNamespaceKey \<times> Namespace) list \<Rightarrow> held \<Rightarrow> held" where
  "held_by_groups loaded [] held = held"
| "held_by_groups loaded ((key, namespace) # missing) held =
     held_by_groups loaded missing
       (AList.update (gnk_group_id key, gnk_namespace_id key)
          (List.filter (\<lambda>a. covers a namespace)
             (List.filter (\<lambda>a. asg_group_id a = gnk_group_id key) loaded)) held)"

fun by_namespace ::
  "(GroupNamespaceKey \<times> Namespace) list \<Rightarrow> (uuid \<times> Namespace \<times> uuid list) list \<Rightarrow>
   (uuid \<times> Namespace \<times> uuid list) list" where
  "by_namespace [] bn = bn"
| "by_namespace ((key, namespace) # missing) bn =
     (let (ns, gs) = (case map_of bn (gnk_namespace_id key) of None \<Rightarrow> (namespace, []) | Some e \<Rightarrow> e)
      in by_namespace missing
           (AList.update (gnk_namespace_id key) (ns, gs @ [gnk_group_id key]) bn))"

fun held_in_namespace :: "RoleAssignment list \<Rightarrow> uuid \<Rightarrow> uuid list \<Rightarrow> held \<Rightarrow> held" where
  "held_in_namespace loaded namespace_id [] held = held"
| "held_in_namespace loaded namespace_id (g # gs) held =
     held_in_namespace loaded namespace_id gs
       (AList.update (g, namespace_id) (List.filter (\<lambda>a. asg_group_id a = g) loaded) held)"

fun held_by_namespaces ::
  "(uuid list \<Rightarrow> Namespace \<Rightarrow> RoleAssignment list) \<Rightarrow> (uuid \<times> Namespace \<times> uuid list) list \<Rightarrow> held \<Rightarrow>
   held" where
  "held_by_namespaces load [] held = held"
| "held_by_namespaces load ((namespace_id, namespace, gs) # bn) held =
     held_by_namespaces load bn (held_in_namespace (load gs namespace) namespace_id gs held)"

fun store_contributions ::
  "nat \<Rightarrow> held \<Rightarrow> (uuid \<rightharpoonup> Role) \<Rightarrow> (uuid \<rightharpoonup> Group) \<Rightarrow> (GroupNamespaceKey \<times> Namespace) list \<Rightarrow>
   contributions \<Rightarrow> AclCache \<Rightarrow> contributions \<times> AclCache" where
  "store_contributions fence held roles groups [] result c = (result, c)"
| "store_contributions fence held roles groups ((key, namespace) # missing) result c =
     (let assignments = the (map_of held (gnk_group_id key, gnk_namespace_id key));
          (actions, trails) =
            walk_assignments assignments roles groups {gnk_group_id key} namespace;
          c1 = snd (put_group_namespace key actions trails (Some (asg_role_id ` set assignments))
                      (Some fence) c)
      in store_contributions fence held roles groups missing (result(key \<mapsto> (actions, trails))) c1)"

definition group_namespace_contributions ::
  "(GroupNamespaceKey \<times> Namespace) list \<Rightarrow> AclCache \<Rightarrow> contributions \<times> AclCache" where
  "group_namespace_contributions wanted c =
     (let (result, missing, c1) = cached_contributions wanted Map.empty [] c
      in if missing = [] then (result, c1)
         else
           let fence = read_fence c1;
               loader = grant_loader c1;
               missing_groups = unique_ordered (map (\<lambda>(key, _). gnk_group_id key) missing);
               held = (case load_assignments_held_by_groups loader of
                         Some load \<Rightarrow> held_by_groups (load missing_groups) missing []
                       | None \<Rightarrow> held_by_namespaces (load_assignments_for_groups loader)
                                   (by_namespace missing []) []);
               role_ids = unique_ordered (concat (map (\<lambda>(_, as). map asg_role_id as) held));
               roles = (if role_ids \<noteq> [] then load_roles loader role_ids else Map.empty);
               groups = coerce_groups (load_groups loader missing_groups)
           in store_contributions fence held roles groups missing result c1)"

definition accumulate_groups ::
  "uuid list \<Rightarrow> Namespace \<Rightarrow> contributions \<Rightarrow> string set \<times> Trail list" where
  "accumulate_groups group_ids namespace contribs =
     (let parts = map (\<lambda>g. the (contribs \<lparr>gnk_group_id = g, gnk_namespace_id = ns_id namespace\<rparr>))
                    group_ids
      in (\<Union>(actions, _) \<in> set parts. actions,
          sort_key (\<lambda>t. (uuid_str (grp_id (tr_group t)), uuid_str (asg_id (tr_assignment t))))
            (concat (map snd parts))))"

subsection \<open>Result assembly\<close>

definition classify_limiting_side :: "string set \<Rightarrow> action_set \<Rightarrow> bool \<Rightarrow> LimitingSide" where
  "classify_limiting_side user_actions agent_actions agent_owner_short_circuited =
     (let agent = as_frozenset agent_actions in
      if agent_owner_short_circuited then LIMIT_USER
      else if user_actions = {} \<or> agent = {} then LIMIT_NEITHER
      else if user_actions = agent then LIMIT_EQUAL
      else if user_actions \<subset> agent then LIMIT_USER
      else if agent \<subset> user_actions then LIMIT_AGENT
      else if card agent \<le> card user_actions then LIMIT_AGENT
      else LIMIT_USER)"

definition materialize_agent_actions :: "action_set \<Rightarrow> bool \<Rightarrow> string set" where
  "materialize_agent_actions agent_actions short_circuited =
     (if short_circuited then {} else as_frozenset agent_actions)"

definition assemble_result ::
  "EvaluationContext \<Rightarrow> string set \<Rightarrow> action_set \<Rightarrow> Trail list \<Rightarrow> Trail list \<Rightarrow> bool \<Rightarrow>
   EvaluationResult" where
  "assemble_result ctx user_actions agent_actions user_trails agent_trails owner =
     (let has_user = (ctx_user_id ctx \<noteq> None \<or> ctx_group_id ctx \<noteq> None);
          has_agent = (ctx_agent_id ctx \<noteq> None);
          (effective, limiting, trails, user_trails_out, agent_trails_out) =
            (if has_user \<and> has_agent then
               (if user_actions = {} \<or> (as_frozenset agent_actions = {} \<and> \<not> owner)
                then ({}, LIMIT_NEITHER, [], user_trails, agent_trails)
                else (and_actions user_actions agent_actions,
                      classify_limiting_side user_actions agent_actions owner,
                      [], user_trails, agent_trails))
             else if has_user then (user_actions, LIMIT_NEITHER, user_trails, [], [])
             else if owner then ({ctx_action ctx}, LIMIT_NEITHER, agent_trails, [], [])
             else (as_frozenset agent_actions, LIMIT_NEITHER, agent_trails, [], []))
      in \<lparr>res_decision = (ctx_action ctx \<in> effective),
          res_effective_actions = effective,
          res_trails = trails,
          res_user_actions = (if has_user then user_actions else {}),
          res_agent_actions =
            (if has_agent then materialize_agent_actions agent_actions owner else {}),
          res_limiting_side = limiting,
          res_user_trails = user_trails_out,
          res_agent_trails = agent_trails_out,
          res_agent_owner_short_circuited = owner\<rparr>)"

subsection \<open>Entry points\<close>

text \<open>The pairs every plan needs, in the order the two loops of \<open>evaluate_many_with_trail\<close>
  insert them; a pair wanted twice keeps its place and takes the later namespace value.\<close>

fun want_groups ::
  "uuid list \<Rightarrow> Namespace \<Rightarrow> (GroupNamespaceKey \<times> Namespace) list \<Rightarrow>
   (GroupNamespaceKey \<times> Namespace) list" where
  "want_groups [] namespace wanted = wanted"
| "want_groups (g # gs) namespace wanted =
     want_groups gs namespace
       (AList.update \<lparr>gnk_group_id = g, gnk_namespace_id = ns_id namespace\<rparr> namespace wanted)"

fun want_all ::
  "(EvaluationContext \<times> SidePlan) list \<Rightarrow> (GroupNamespaceKey \<times> Namespace) list \<Rightarrow>
   (GroupNamespaceKey \<times> Namespace) list" where
  "want_all [] wanted = wanted"
| "want_all ((ctx, p) # rest) wanted =
     want_all rest
       (want_groups (plan_user_groups p @ plan_agent_groups p) (ctx_namespace ctx) wanted)"

definition answer :: "contributions \<Rightarrow> EvaluationContext \<times> SidePlan \<Rightarrow> EvaluationResult" where
  "answer contribs = (\<lambda>(ctx, p).
     (let (user_actions, user_trails) =
            accumulate_groups (plan_user_groups p) (ctx_namespace ctx) contribs;
          (agent_actions, agent_trails) =
            (if plan_agent_groups p \<noteq> []
             then (let (actions, trails) =
                     accumulate_groups (plan_agent_groups p) (ctx_namespace ctx) contribs
                   in (ActionSet actions, trails))
             else (if plan_agent_owner_short_circuited p then OWNER_ACTIONS else ActionSet {}, []))
      in assemble_result ctx user_actions agent_actions user_trails agent_trails
           (plan_agent_owner_short_circuited p)))"

fun check_contexts :: "EvaluationContext list \<Rightarrow> eval_error + unit" where
  "check_contexts [] = Inr ()"
| "check_contexts (ctx # ctxs) =
     (case check_context ctx of Inl e \<Rightarrow> Inl e | Inr _ \<Rightarrow> check_contexts ctxs)"

definition evaluate_many_with_trail ::
  "nat \<Rightarrow> EvaluationContext list \<Rightarrow> AclCache \<Rightarrow> (eval_error + EvaluationResult list) \<times> AclCache" where
  "evaluate_many_with_trail max_depth contexts c =
     (case check_contexts contexts of
        Inl e \<Rightarrow> (Inl e, c)
      | Inr _ \<Rightarrow>
          let (plans, _, c1) = plan_all max_depth contexts (Map.empty, c);
              wanted = want_all (zip contexts plans) [];
              (contribs, c2) = group_namespace_contributions wanted c1
          in (Inr (map (answer contribs) (zip contexts plans)), c2))"

definition evaluate_with_trail ::
  "nat \<Rightarrow> EvaluationContext \<Rightarrow> AclCache \<Rightarrow> (eval_error + EvaluationResult) \<times> AclCache" where
  "evaluate_with_trail max_depth ctx c =
     (let (results, c1) = evaluate_many_with_trail max_depth [ctx] c
      in (map_sum (\<lambda>e. e) (\<lambda>rs. rs ! 0) results, c1))"

definition evaluate_decision ::
  "nat \<Rightarrow> EvaluationContext \<Rightarrow> AclCache \<Rightarrow> (eval_error + bool) \<times> AclCache" where
  "evaluate_decision max_depth ctx c =
     (let (result, c1) = evaluate_with_trail max_depth ctx c
      in (map_sum (\<lambda>e. e) res_decision result, c1))"

end
