(* ===== verification/AclSource.thy ===== *)
theory AclSource
  imports AclCache
begin

text \<open>
  The access tables, what they mean, and the loaders that read them.  \<open>acl_db\<close> holds the rows of
  \<open>groups\<close>, \<open>group_members\<close>, \<open>roles\<close>, \<open>role_assignments\<close> and \<open>namespaces\<close>.
  The specification says, from the rows alone, which groups an actor reaches, which grant chains apply
  to a namespace and which actions they give.  The locale \<open>acl_source\<close> is the contract of the
  loader protocols (\<open>loader.py\<close>): a loader may return more than it was asked for and must not
  return less.  The collection-backed loaders (\<open>loaders.py\<close> over the queries of
  \<open>collections.py\<close>) are shown to keep it.
\<close>

section \<open>The access tables\<close>

record acl_db =
  db_groups :: "Group list"
  db_group_members :: "GroupMembership list"
  db_roles :: "Role list"
  db_role_assignments :: "RoleAssignment list"
  db_namespaces :: "Namespace list"

definition rows_by :: "('a \<Rightarrow> uuid) \<Rightarrow> 'a list \<Rightarrow> uuid \<rightharpoonup> 'a" where
  "rows_by key rows = map_of (rev (map (\<lambda>r. (key r, r)) rows))"

definition group_row :: "acl_db \<Rightarrow> uuid \<rightharpoonup> Group" where
  "group_row db = rows_by grp_id (db_groups db)"

definition role_row :: "acl_db \<Rightarrow> uuid \<rightharpoonup> Role" where
  "role_row db = rows_by role_id (db_roles db)"

definition namespace_row :: "acl_db \<Rightarrow> uuid \<rightharpoonup> Namespace" where
  "namespace_row db = rows_by ns_id (db_namespaces db)"

section \<open>What the tables grant\<close>

text \<open>A row scoped to a customer counts only against that customer; an unscoped row counts
  everywhere.\<close>

definition in_customer :: "uuid option \<Rightarrow> uuid option \<Rightarrow> bool" where
  "in_customer scope cust \<longleftrightarrow> scope = None \<or> scope = cust"

definition member_rows :: "GroupMembership list \<Rightarrow> MemberType \<Rightarrow> uuid \<Rightarrow> GroupMembership set" where
  "member_rows rows mt a = {m \<in> set rows. mem_member_type m = mt \<and> mem_member_id m = a}"

definition holds_groups :: "acl_db \<Rightarrow> uuid option \<Rightarrow> MemberType \<Rightarrow> uuid \<Rightarrow> uuid set" where
  "holds_groups db cust mt a =
     mem_group_id ` {m \<in> member_rows (db_group_members db) mt a. in_customer (mem_customer_id m) cust}"

definition parent_edges :: "acl_db \<Rightarrow> uuid option \<Rightarrow> (uuid \<times> uuid) set" where
  "parent_edges db cust = {(g, h). h \<in> holds_groups db cust MEMBER_GROUP g}"

text \<open>The groups at most \<open>n\<close> membership edges above a set of groups.\<close>

definition within :: "acl_db \<Rightarrow> uuid option \<Rightarrow> nat \<Rightarrow> uuid set \<Rightarrow> uuid set" where
  "within db cust n S = {h. \<exists>g \<in> S. \<exists>k \<le> n. (g, h) \<in> parent_edges db cust ^^ k}"

text \<open>The grant chains a set of groups holds on a namespace: group, covering assignment and role,
  with both customer walls.\<close>

definition grant_chain :: "acl_db \<Rightarrow> Namespace \<Rightarrow> uuid set \<Rightarrow> Trail set" where
  "grant_chain db ns gs =
     {t. tr_assignment t \<in> set (db_role_assignments db)
       \<and> asg_group_id (tr_assignment t) \<in> gs
       \<and> covers (tr_assignment t) ns
       \<and> group_row db (asg_group_id (tr_assignment t)) = Some (tr_group t)
       \<and> role_row db (asg_role_id (tr_assignment t)) = Some (tr_role t)
       \<and> in_customer (grp_customer_id (tr_group t)) (ns_customer_id ns)
       \<and> in_customer (role_customer_id (tr_role t)) (ns_customer_id ns)
       \<and> tr_contributed_actions t = actions_for (tr_role t) (ns_namespace_type ns)}"

definition granted_actions :: "acl_db \<Rightarrow> Namespace \<Rightarrow> uuid set \<Rightarrow> string set" where
  "granted_actions db ns gs = (\<Union>t \<in> grant_chain db ns gs. tr_contributed_actions t)"

section \<open>The loader contract\<close>

locale acl_source =
  fixes db :: acl_db and ml :: MembershipLoader and gl :: GrantLoader
  assumes user_rows:
      "member_rows (load_for_user ml u) MEMBER_USER u
         = member_rows (db_group_members db) MEMBER_USER u"
    and agent_rows:
      "member_rows (load_for_agent ml a) MEMBER_AGENT a
         = member_rows (db_group_members db) MEMBER_AGENT a"
    and group_rows:
      "member_rows (load_for_group ml g) MEMBER_GROUP g
         = member_rows (db_group_members db) MEMBER_GROUP g"
    and groups_rows:
      "load_for_groups ml = Some load \<Longrightarrow> g \<in> set gs \<Longrightarrow>
       member_rows (load gs) MEMBER_GROUP g = member_rows (db_group_members db) MEMBER_GROUP g"
    and covering_assignments:
      "g \<in> set gs \<Longrightarrow>
       {a \<in> set (load_assignments_for_groups gl gs ns). asg_group_id a = g \<and> covers a ns}
         = {a \<in> set (db_role_assignments db). asg_group_id a = g \<and> covers a ns}"
    and held_assignments:
      "load_assignments_held_by_groups gl = Some load_held \<Longrightarrow> g \<in> set gs \<Longrightarrow>
       {a \<in> set (load_held gs). asg_group_id a = g}
         = {a \<in> set (db_role_assignments db). asg_group_id a = g}"
    and roles: "r \<in> set rs \<Longrightarrow> load_roles gl rs r = role_row db r"
    and groups:
      "g \<in> set gs \<Longrightarrow> load_groups gl gs g = map_option LoadedGroup (group_row db g)"

section \<open>The collection queries\<close>

text \<open>The \<open>SELECT\<close> statements of \<open>GroupMemberCollection\<close>, \<open>RoleAssignmentCollection\<close>,
  \<open>RoleCollection\<close> and \<open>GroupCollection\<close> over the tables, with a pool present.\<close>

definition GroupMemberCollection_load_for_user :: "acl_db \<Rightarrow> uuid \<Rightarrow> GroupMembership list" where
  "GroupMemberCollection_load_for_user db user_id =
     List.filter (\<lambda>m. mem_member_type m = MEMBER_USER \<and> mem_member_id m = user_id)
       (db_group_members db)"

definition GroupMemberCollection_load_for_agent :: "acl_db \<Rightarrow> uuid \<Rightarrow> GroupMembership list" where
  "GroupMemberCollection_load_for_agent db agent_id =
     List.filter (\<lambda>m. mem_member_type m = MEMBER_AGENT \<and> mem_member_id m = agent_id)
       (db_group_members db)"

definition GroupMemberCollection_load_for_group :: "acl_db \<Rightarrow> uuid \<Rightarrow> GroupMembership list" where
  "GroupMemberCollection_load_for_group db group_id =
     List.filter (\<lambda>m. mem_member_type m = MEMBER_GROUP \<and> mem_member_id m = group_id)
       (db_group_members db)"

definition GroupMemberCollection_load_for_groups ::
  "acl_db \<Rightarrow> uuid list \<Rightarrow> GroupMembership list" where
  "GroupMemberCollection_load_for_groups db group_ids =
     (if length group_ids > 0
      then List.filter (\<lambda>m. mem_member_type m = MEMBER_GROUP \<and> mem_member_id m \<in> set group_ids)
             (db_group_members db)
      else [])"

definition RoleAssignmentCollection_load_for_groups ::
  "acl_db \<Rightarrow> uuid list \<Rightarrow> RoleAssignment list" where
  "RoleAssignmentCollection_load_for_groups db group_ids =
     (if length group_ids > 0
      then List.filter (\<lambda>a. asg_group_id a \<in> set group_ids) (db_role_assignments db)
      else [])"

definition RoleCollection_get_many :: "acl_db \<Rightarrow> uuid list \<Rightarrow> Role list" where
  "RoleCollection_get_many db role_ids =
     (if length role_ids > 0
      then List.filter (\<lambda>r. role_id r \<in> set role_ids) (db_roles db) else [])"

definition GroupCollection_get_many :: "acl_db \<Rightarrow> uuid list \<Rightarrow> Group list" where
  "GroupCollection_get_many db group_ids =
     (if length group_ids > 0
      then List.filter (\<lambda>g. grp_id g \<in> set group_ids) (db_groups db) else [])"

text \<open>\<open>membership_would_cycle\<close>: the children of a frontier, and the capped walk.\<close>

definition child_groups :: "acl_db \<Rightarrow> uuid set \<Rightarrow> uuid set" where
  "child_groups db frontier =
     mem_member_id ` {m \<in> set (db_group_members db).
       mem_member_type m = MEMBER_GROUP \<and> mem_group_id m \<in> frontier}"

fun cycle_walk :: "acl_db \<Rightarrow> nat \<Rightarrow> uuid \<Rightarrow> uuid set \<Rightarrow> bool" where
  "cycle_walk db 0 group_id frontier = False"
| "cycle_walk db (Suc n) group_id frontier =
     (if frontier = {} then False
      else let children = child_groups db frontier
        in if group_id \<in> children then True else cycle_walk db n group_id children)"

definition membership_would_cycle :: "acl_db \<Rightarrow> nat \<Rightarrow> uuid \<Rightarrow> uuid \<Rightarrow> bool" where
  "membership_would_cycle db max_depth group_id member_group_id =
     (if group_id = member_group_id then True
      else cycle_walk db max_depth group_id {member_group_id})"

section \<open>The collection-backed loaders\<close>

definition CollectionMembershipLoader :: "acl_db \<Rightarrow> MembershipLoader" where
  "CollectionMembershipLoader db =
     \<lparr>load_for_user = GroupMemberCollection_load_for_user db,
      load_for_agent = GroupMemberCollection_load_for_agent db,
      load_for_group = GroupMemberCollection_load_for_group db,
      load_for_groups = Some (GroupMemberCollection_load_for_groups db)\<rparr>"

definition CollectionGrantLoader :: "acl_db \<Rightarrow> GrantLoader" where
  "CollectionGrantLoader db =
     \<lparr>load_assignments_for_groups = (\<lambda>group_ids namespace.
        if group_ids \<noteq> []
        then List.filter (\<lambda>a. covers a namespace) (RoleAssignmentCollection_load_for_groups db group_ids)
        else []),
      load_roles = (\<lambda>role_ids. rows_by role_id (RoleCollection_get_many db role_ids)),
      load_groups = (\<lambda>group_ids. map_option LoadedGroup \<circ>
        rows_by grp_id (map (\<lambda>e. \<lparr>grp_id = grp_id e, grp_name = grp_name e,
          grp_customer_id = grp_customer_id e\<rparr>) (GroupCollection_get_many db group_ids))),
      load_assignments_held_by_groups = Some (\<lambda>group_ids.
        if group_ids \<noteq> [] then RoleAssignmentCollection_load_for_groups db group_ids else [])\<rparr>"

lemma rows_by_Nil [simp]: "rows_by key [] = Map.empty"
  by (simp add: rows_by_def)

lemma rows_by_snoc [simp]: "rows_by key (rows @ [r]) = (rows_by key rows)(key r \<mapsto> r)"
  by (simp add: rows_by_def)

lemma rows_by_filter:
  "k \<in> set ks \<Longrightarrow> rows_by key (List.filter (\<lambda>r. key r \<in> set ks) rows) k = rows_by key rows k"
  by (induction rows rule: rev_induct) auto

lemma Group_eta [simp]:
  "\<lparr>grp_id = grp_id e, grp_name = grp_name e, grp_customer_id = grp_customer_id e\<rparr> = (e :: Group)"
  by simp

interpretation db_source: acl_source db "CollectionMembershipLoader db" "CollectionGrantLoader db"
  for db
  by unfold_locales
    (auto simp: CollectionMembershipLoader_def CollectionGrantLoader_def member_rows_def
      GroupMemberCollection_load_for_user_def GroupMemberCollection_load_for_agent_def
      GroupMemberCollection_load_for_group_def GroupMemberCollection_load_for_groups_def
      RoleAssignmentCollection_load_for_groups_def RoleCollection_get_many_def
      GroupCollection_get_many_def role_row_def group_row_def rows_by_filter
      intro!: arg_cong [where f = "map_option LoadedGroup"] split: if_splits)

section \<open>The cycle guard\<close>

text \<open>The edge from a group to the groups that are its members, and what a nesting adds.\<close>

definition child_edges :: "acl_db \<Rightarrow> (uuid \<times> uuid) set" where
  "child_edges db = {(p, c). c \<in> child_groups db {p}}"

definition nest :: "GroupMembership \<Rightarrow> acl_db \<Rightarrow> acl_db" where
  "nest m db = db\<lparr>db_group_members := db_group_members db @ [m]\<rparr>"

lemma child_groups_edges: "child_groups db S = child_edges db `` S"
  by (auto simp: child_edges_def child_groups_def)

lemma child_edges_conv:
  "child_edges db = (\<lambda>m. (mem_group_id m, mem_member_id m)) `
     set (List.filter (\<lambda>m. mem_member_type m = MEMBER_GROUP) (db_group_members db))"
  by (auto simp: child_edges_def child_groups_def)

lemma cycle_walk_iff:
  "cycle_walk db n g S \<longleftrightarrow> (\<exists>k. 1 \<le> k \<and> k \<le> n \<and> (\<exists>s \<in> S. (s, g) \<in> child_edges db ^^ k))"
proof (induction n arbitrary: S)
  case (Suc n)
  let ?E = "child_edges db"
  have "cycle_walk db (Suc n) g S \<longleftrightarrow> g \<in> ?E `` S \<or> cycle_walk db n g (?E `` S)"
    by (cases "S = {}"; simp add: child_groups_edges Let_def) (simp add: Suc.IH)
  also have "\<dots> \<longleftrightarrow> (\<exists>k. 1 \<le> k \<and> k \<le> Suc n \<and> (\<exists>s \<in> S. (s, g) \<in> ?E ^^ k))" (is "?L \<longleftrightarrow> ?R")
  proof
    assume ?L
    then show ?R
    proof
      assume "g \<in> ?E `` S"
      then show ?R by (auto intro!: exI [of _ 1])
    next
      assume "cycle_walk db n g (?E `` S)"
      then obtain k s t where "1 \<le> k" "k \<le> n" "s \<in> S" "(s, t) \<in> ?E" "(t, g) \<in> ?E ^^ k"
        unfolding Suc.IH by auto
      then have "s \<in> S" "(s, g) \<in> ?E ^^ Suc k" "Suc k \<le> Suc n" by (simp_all add: relpow_Suc_I2 del: relpow.simps)
      then show ?R by (metis One_nat_def Suc_le_mono le0)
    qed
  next
    assume ?R
    then obtain k s where k: "1 \<le> k" "k \<le> Suc n" "s \<in> S" "(s, g) \<in> ?E ^^ k" by auto
    then obtain j where j: "k = Suc j" by (cases k) auto
    with k obtain t where t: "(s, t) \<in> ?E" "(t, g) \<in> ?E ^^ j" by (metis relpow_Suc_D2)
    show ?L
    proof (cases j)
      case 0
      with t k(3) show ?thesis by auto
    next
      case (Suc i)
      have "t \<in> ?E `` S" using t k(3) by auto
      moreover have "1 \<le> j" "j \<le> n" using Suc j k(2) by auto
      ultimately show ?thesis unfolding Suc.IH using t(2) by blast
    qed
  qed
  finally show ?case .
qed simp

lemma membership_would_cycle_iff:
  "membership_would_cycle db d g m \<longleftrightarrow> (\<exists>k \<le> d. (m, g) \<in> child_edges db ^^ k)"
proof -
  have "(\<exists>k \<le> d. (m, g) \<in> child_edges db ^^ k) \<longleftrightarrow>
      (m, g) \<in> child_edges db ^^ 0 \<or> (\<exists>k. 1 \<le> k \<and> k \<le> d \<and> (m, g) \<in> child_edges db ^^ k)"
    by (metis le0 less_one linorder_not_le)
  then show ?thesis by (auto simp: membership_would_cycle_def cycle_walk_iff)
qed

lemma child_edges_nest:
  "mem_member_type row = MEMBER_GROUP \<Longrightarrow>
   child_edges (nest row db) = insert (mem_group_id row, mem_member_id row) (child_edges db)"
  by (auto simp: child_edges_def child_groups_def nest_def)



end
