(* ===== verification/AclCorrect.thy ===== *)
theory AclCorrect
  imports AclEvaluator AclSource
begin

text \<open>
  The evaluator refines the meaning of the access tables.  A cache is coherent with the tables when
  every entry it holds is what the tables say; under the loader contract every function of the
  evaluator keeps it coherent and computes what the specification of \<open>AclSource\<close> says, whether the
  answer comes from the cache or from a read.
\<close>

section \<open>Generic lemmas\<close>

lemma set_alist_update: "(k', v') \<in> set (AList.update k v xs) \<Longrightarrow> (k', v') = (k, v) \<or> (k', v') \<in> set xs"
  by (induction xs) (auto split: if_splits)

lemma unique_ordered_from_props:
  "set (unique_ordered_from seen vs) = set vs - seen" "distinct (unique_ordered_from seen vs)"
  by (induction seen vs rule: unique_ordered_from.induct) auto

lemma set_unique_ordered [simp]: "set (unique_ordered vs) = set vs"
  by (simp add: unique_ordered_def unique_ordered_from_props)

lemma distinct_unique_ordered [simp]: "distinct (unique_ordered vs)"
  by (simp add: unique_ordered_def unique_ordered_from_props)

lemma unique_ordered_eq_Nil [simp]: "unique_ordered vs = [] \<longleftrightarrow> vs = []"
  using set_unique_ordered [of vs] by (metis set_empty)

lemma unique_ordered_distinct: "distinct vs \<Longrightarrow> unique_ordered vs = vs"
proof -
  have "distinct vs \<Longrightarrow> set vs \<inter> seen = {} \<Longrightarrow> unique_ordered_from seen vs = vs" for seen
    by (induction vs arbitrary: seen) auto
  then show "distinct vs \<Longrightarrow> unique_ordered vs = vs" by (simp add: unique_ordered_def)
qed

lemma set_filter_memberships:
  "set (filter_memberships rows a mt ns)
     = {m \<in> member_rows rows mt a. in_customer (mem_customer_id m) (ns_customer_id ns)}"
  by (auto simp: filter_memberships_def member_rows_def in_customer_def)

text \<open>One round of widening a set of groups, and its iteration.\<close>

definition widen :: "(uuid \<Rightarrow> uuid set) \<Rightarrow> uuid set \<Rightarrow> uuid set" where
  "widen P S = S \<union> (\<Union>g \<in> S. P g)"

lemma widen_mono_self: "S \<subseteq> widen P S"
  by (auto simp: widen_def)

lemma withinI: "g \<in> S \<Longrightarrow> k \<le> n \<Longrightarrow> (g, h) \<in> parent_edges db cust ^^ k \<Longrightarrow> h \<in> within db cust n S"
  by (auto simp: within_def)

lemma within_0 [simp]: "within db cust 0 S = S"
  by (auto simp: within_def)

lemma within_Suc:
  "within db cust (Suc n) S = within db cust n (widen (holds_groups db cust MEMBER_GROUP) S)"
    (is "?L = ?R")
proof
  let ?E = "parent_edges db cust"
  show "?L \<subseteq> ?R"
  proof
    fix h assume "h \<in> ?L"
    then obtain g k where g: "g \<in> S" "k \<le> Suc n" "(g, h) \<in> ?E ^^ k" by (auto simp: within_def)
    show "h \<in> ?R"
    proof (cases k)
      case 0
      with g show ?thesis by (auto simp: widen_def intro: withinI [of _ _ 0])
    next
      case (Suc j)
      with g obtain m where "(g, m) \<in> ?E" "(m, h) \<in> ?E ^^ j" by (metis relpow_Suc_D2)
      moreover from this(1) g have "m \<in> widen (holds_groups db cust MEMBER_GROUP) S"
        by (auto simp: widen_def parent_edges_def)
      ultimately show ?thesis using g Suc by (auto intro: withinI)
    qed
  qed
  show "?R \<subseteq> ?L"
  proof
    fix h assume "h \<in> ?R"
    then obtain m k where m: "m \<in> widen (holds_groups db cust MEMBER_GROUP) S" "k \<le> n"
      "(m, h) \<in> ?E ^^ k" by (auto simp: within_def)
    show "h \<in> ?L"
    proof (cases "m \<in> S")
      case True
      then show ?thesis by (rule withinI) (use m in auto)
    next
      case False
      with m obtain g where "g \<in> S" "(g, m) \<in> ?E" by (auto simp: widen_def parent_edges_def)
      moreover from this(2) m(3) have "(g, h) \<in> ?E ^^ Suc k" by (rule relpow_Suc_I2)
      ultimately show ?thesis using m(2) by (intro withinI [of g S "Suc k"]) simp_all
    qed
  qed
qed

lemma within_fixed:
  assumes "widen (holds_groups db cust MEMBER_GROUP) S = S"
  shows "within db cust n S = S"
  using assms by (induction n) (simp_all add: within_Suc)

section \<open>Expansion loops\<close>

lemma expand_rows_props:
  "set (fst (expand_rows rows seen nf)) = set seen \<union> mem_group_id ` set rows"
  "set (snd (expand_rows rows seen nf)) = set nf \<union> (mem_group_id ` set rows - set seen)"
  "distinct seen \<Longrightarrow> distinct (fst (expand_rows rows seen nf))"
  by (induction rows seen nf rule: expand_rows.induct) auto

lemma expand_frontier_props:
  fixes ns parents
  defines "P \<equiv> (\<lambda>g. mem_group_id ` set (filter_memberships (the (parents g)) g MEMBER_GROUP ns))"
  shows "set (fst (expand_frontier ns parents frontier seen nf)) = set seen \<union> (\<Union>g \<in> set frontier. P g)"
    "set (snd (expand_frontier ns parents frontier seen nf))
       = set nf \<union> ((\<Union>g \<in> set frontier. P g) - set seen)"
    "distinct seen \<Longrightarrow> distinct (fst (expand_frontier ns parents frontier seen nf))"
proof (induction frontier arbitrary: seen nf)
  case (Cons g gs)
  { case 1 show ?case
      by (simp add: split_beta Cons expand_rows_props P_def Un_assoc)
  next
    case 2 show ?case
      by (simp add: split_beta Cons expand_rows_props P_def) blast
  next
    case 3 then show ?case
      by (simp add: split_beta Cons expand_rows_props)
  }
qed simp_all

section \<open>Trust and the layers\<close>

lemma trusted_locked_cases:
  obtains "trusted_locked c = (True, c)" | "trusted_locked c = (False, c)" "size_locked c = 0"
    | "trusted_locked c = (False, empty_locked c)"
  by (cases "c_ever_followed c"; cases "c_watching c = Some True"; cases "size_locked c = 0")
    (auto simp: trusted_locked_def)

section \<open>Coherence\<close>

definition member_coherent :: "acl_db \<Rightarrow> ActorMembershipKey \<Rightarrow> ActorMembershipEntry \<Rightarrow> bool" where
  "member_coherent db key entry \<longleftrightarrow>
     (\<forall>(kind, mt) \<in> {(''user'', MEMBER_USER), (''agent'', MEMBER_AGENT), (''group'', MEMBER_GROUP)}.
        actor_kind key = kind \<longrightarrow>
        member_rows (ent_memberships entry) mt (actor_id key)
          = member_rows (db_group_members db) mt (actor_id key))"

definition contribution_coherent ::
  "acl_db \<Rightarrow> GroupNamespaceKey \<Rightarrow> GroupNamespaceEntry \<Rightarrow> bool" where
  "contribution_coherent db key entry \<longleftrightarrow>
     (\<forall>ns. namespace_row db (gnk_namespace_id key) = Some ns \<longrightarrow>
        set (ent_trails entry) = grant_chain db ns {gnk_group_id key}
        \<and> ent_actions entry = granted_actions db ns {gnk_group_id key}
        \<and> (case ent_role_ids entry of None \<Rightarrow> True | Some role_ids \<Rightarrow>
             asg_role_id ` {a \<in> set (db_role_assignments db).
                asg_group_id a = gnk_group_id key \<and> covers a ns} \<subseteq> role_ids))"

definition coherent :: "acl_db \<Rightarrow> AclCache \<Rightarrow> bool" where
  "coherent db c \<longleftrightarrow>
     (\<forall>(key, entry) \<in> set (c_membership c). member_coherent db key entry)
     \<and> (\<forall>(key, entry) \<in> set (c_group_namespace c). contribution_coherent db key entry)"

lemma coherent_new: "coherent db (new_AclCache ml gl)"
  by (simp add: coherent_def new_AclCache_def)

lemma coherent_empty_locked: "coherent db (empty_locked c)"
  by (simp add: coherent_def empty_locked_def)

lemma coherent_trusted_locked: "coherent db c \<Longrightarrow> coherent db (snd (trusted_locked c))"
  by (cases c rule: trusted_locked_cases) (simp_all add: coherent_empty_locked)

lemma coherent_may_store: "coherent db c \<Longrightarrow> coherent db (snd (may_store f c))"
  using coherent_trusted_locked [of db c]
  by (auto simp: may_store_def fence_moved_def Let_def coherent_def split: prod.splits)

lemma loaders_trusted_locked [simp]:
  "membership_loader (snd (trusted_locked c)) = membership_loader c"
  "grant_loader (snd (trusted_locked c)) = grant_loader c"
  by (simp_all add: trusted_locked_def empty_locked_def Let_def)

lemma loaders_may_store [simp]:
  "membership_loader (snd (may_store f c)) = membership_loader c"
  "grant_loader (snd (may_store f c)) = grant_loader c"
  by (simp_all add: may_store_def fence_moved_def Let_def split_beta)

lemma loaders_get_put [simp]:
  "membership_loader (snd (get_membership k c)) = membership_loader c"
  "grant_loader (snd (get_membership k c)) = grant_loader c"
  "membership_loader (snd (get_group_namespace gk c)) = membership_loader c"
  "grant_loader (snd (get_group_namespace gk c)) = grant_loader c"
  "membership_loader (snd (put_membership k rows f c)) = membership_loader c"
  "grant_loader (snd (put_membership k rows f c)) = grant_loader c"
  "membership_loader (snd (put_group_namespace gk acts ts rs f c)) = membership_loader c"
  "grant_loader (snd (put_group_namespace gk acts ts rs f c)) = grant_loader c"
  using loaders_trusted_locked [of c] loaders_may_store [of f c]
  by (simp_all add: get_membership_def get_group_namespace_def put_membership_def
      put_group_namespace_def Let_def split_beta)

lemma coherent_get:
  assumes "coherent db c"
  shows "coherent db (snd (get_membership k c))" "coherent db (snd (get_group_namespace gk c))"
  using coherent_trusted_locked [OF assms]
  by (simp_all add: get_membership_def get_group_namespace_def split_beta Let_def)

lemma get_membership_coherent:
  assumes "coherent db c" and "fst (get_membership k c) = Some e"
  shows "member_coherent db k e"
  using assms coherent_trusted_locked [OF assms(1)]
  by (auto simp: get_membership_def coherent_def split_beta Let_def dest!: map_of_SomeD split: if_splits)

lemma get_group_namespace_coherent:
  assumes "coherent db c" and "fst (get_group_namespace k c) = Some e"
  shows "contribution_coherent db k e"
  using assms coherent_trusted_locked [OF assms(1)]
  by (auto simp: get_group_namespace_def coherent_def split_beta Let_def dest!: map_of_SomeD
      split: if_splits)

lemma coherent_put_membership:
  assumes "coherent db c" and "member_coherent db k \<lparr>ent_memberships = rows\<rparr>"
  shows "coherent db (snd (put_membership k rows f c))"
  using assms(2) coherent_may_store [OF assms(1), of f]
  by (auto simp: put_membership_def coherent_def split_beta Let_def dest: set_alist_update)

lemma coherent_put_group_namespace:
  assumes "coherent db c"
    and "contribution_coherent db k \<lparr>ent_actions = acts, ent_trails = ts, ent_role_ids = rs\<rparr>"
  shows "coherent db (snd (put_group_namespace k acts ts rs f c))"
  using assms(2) coherent_may_store [OF assms(1), of f]
  by (auto simp: put_group_namespace_def coherent_def split_beta Let_def dest: set_alist_update)

section \<open>Side resolution under the loader contract\<close>

lemma group_key_sel [simp]: "actor_kind (group_key g) = ''group''" "actor_id (group_key g) = g"
  by (simp_all add: group_key_def)

lemma member_coherent_group_key:
  "member_coherent db (group_key g) e \<longleftrightarrow>
     member_rows (ent_memberships e) MEMBER_GROUP g = member_rows (db_group_members db) MEMBER_GROUP g"
  by (simp add: member_coherent_def)

lemma member_rows_filter [simp]:
  "member_rows (List.filter (\<lambda>m. mem_member_id m = a) rows) mt a = member_rows rows mt a"
  by (auto simp: member_rows_def)

text \<open>The groups above a set, as a side of the evaluator computes them.\<close>

definition spec_direct :: "acl_db \<Rightarrow> string \<Rightarrow> uuid \<Rightarrow> uuid option \<Rightarrow> uuid set" where
  "spec_direct db kind actor cust =
     (if kind = ''group'' then {actor}
      else holds_groups db cust (if kind = ''user'' then MEMBER_USER else MEMBER_AGENT) actor)"

definition spec_groups :: "nat \<Rightarrow> acl_db \<Rightarrow> string \<Rightarrow> uuid \<Rightarrow> uuid option \<Rightarrow> uuid set" where
  "spec_groups max_depth db kind actor cust =
     within db cust (max_depth - 1) (spec_direct db kind actor cust)"

context acl_source
begin

definition good :: "AclCache \<Rightarrow> bool" where
  "good c \<longleftrightarrow> coherent db c \<and> membership_loader c = ml \<and> grant_loader c = gl"

definition rows_ok :: "(uuid \<rightharpoonup> GroupMembership list) \<Rightarrow> uuid \<Rightarrow> bool" where
  "rows_ok rows g \<longleftrightarrow> (\<exists>r. rows g = Some r \<and>
     member_rows r MEMBER_GROUP g = member_rows (db_group_members db) MEMBER_GROUP g)"

lemma direct_groups_correct:
  assumes "good c" and "mt \<noteq> MEMBER_GROUP"
  shows "set (fst (direct_groups a mt ns c)) = holds_groups db (ns_customer_id ns) mt a
    \<and> distinct (fst (direct_groups a mt ns c)) \<and> good (snd (direct_groups a mt ns c))"
proof -
  define key where "key = \<lparr>actor_kind = (if mt = MEMBER_USER then ''user'' else ''agent''), actor_id = a\<rparr>"
  define c1 where "c1 = snd (get_membership key c)"
  define rows where "rows = (if mt = MEMBER_USER then load_for_user ml a else load_for_agent ml a)"
  have mt: "mt = MEMBER_USER \<or> mt = MEMBER_AGENT" using assms(2) by (cases mt) auto
  have c1: "good c1" using assms(1) by (simp add: good_def c1_def coherent_get)
  have key: "member_coherent db key e \<longleftrightarrow>
      member_rows (ent_memberships e) mt a = member_rows (db_group_members db) mt a" for e
    using mt by (auto simp: member_coherent_def key_def)
  have rows: "member_rows rows mt a = member_rows (db_group_members db) mt a"
    using mt user_rows agent_rows by (auto simp: rows_def)
  show ?thesis
  proof (cases "fst (get_membership key c)")
    case None
    then have res: "direct_groups a mt ns c =
        (unique_ordered (map mem_group_id (filter_memberships rows a mt ns)),
         snd (put_membership key rows (Some (read_fence c1)) c1))"
      using assms(1) by (simp add: direct_groups_def key_def [symmetric] split_beta c1_def [symmetric]
          Let_def rows_def good_def)
    have "good (snd (put_membership key rows (Some (read_fence c1)) c1))"
      using c1 rows by (simp add: good_def coherent_put_membership key)
    with res show ?thesis
      by (auto simp: holds_groups_def set_filter_memberships rows)
  next
    case (Some e)
    then have res: "direct_groups a mt ns c =
        (unique_ordered (map mem_group_id (filter_memberships (ent_memberships e) a mt ns)), c1)"
      by (simp add: direct_groups_def key_def [symmetric] split_beta c1_def [symmetric] Let_def)
    have "member_coherent db key e"
      using assms(1) Some by (auto simp: good_def intro: get_membership_coherent)
    with res c1 show ?thesis
      by (auto simp: holds_groups_def set_filter_memberships key)
  qed
qed

lemma cached_parent_rows_correct:
  assumes "good c" and "\<forall>g \<in> dom rows. rows_ok rows g"
    and "cached_parent_rows gs rows missing c = (rows', missing', c')"
  shows "good c' \<and> (\<forall>g \<in> dom rows'. rows_ok rows' g)
    \<and> dom rows \<union> set gs \<union> set missing = dom rows' \<union> set missing' \<and> dom rows \<subseteq> dom rows'"
  using assms
proof (induction gs arbitrary: rows missing c)
  case (Cons g gs)
  obtain e c1 where e: "get_membership (group_key g) c = (e, c1)" by fastforce
  have c1: "good c1" using Cons.prems(1) e coherent_get(1) [of db c "group_key g"]
      loaders_get_put(1,2) [of "group_key g" c] by (auto simp: good_def)
  show ?case
  proof (cases e)
    case None
    with Cons.prems(3) e have "cached_parent_rows gs rows (missing @ [g]) c1 = (rows', missing', c')"
      by simp
    from Cons.IH [OF c1 Cons.prems(2) this] show ?thesis by auto
  next
    case (Some x)
    have "member_coherent db (group_key g) x"
      using Cons.prems(1) e Some get_membership_coherent [of db c "group_key g" x]
      by (simp add: good_def)
    then have ok: "\<forall>h \<in> dom (rows(g \<mapsto> ent_memberships x)). rows_ok (rows(g \<mapsto> ent_memberships x)) h"
      using Cons.prems(2) by (auto simp: rows_ok_def member_coherent_group_key)
    have "cached_parent_rows gs (rows(g \<mapsto> ent_memberships x)) missing c1 = (rows', missing', c')"
      using Cons.prems(3) e Some by simp
    from Cons.IH [OF c1 ok this] show ?thesis by (simp del: fun_upd_apply)
  qed
qed simp

lemma good_put_group_key:
  assumes "good c" and "member_rows r MEMBER_GROUP g = member_rows (db_group_members db) MEMBER_GROUP g"
  shows "good (snd (put_membership (group_key g) r f c))"
  using assms by (simp add: good_def coherent_put_membership member_coherent_group_key)

lemma store_parent_rows_correct:
  assumes "good c" and "\<forall>g \<in> set gs.
      member_rows loaded MEMBER_GROUP g = member_rows (db_group_members db) MEMBER_GROUP g"
    and "\<forall>g \<in> dom rows. rows_ok rows g"
    and "store_parent_rows f loaded gs rows c = (rows', c')"
  shows "good c' \<and> (\<forall>g \<in> dom rows \<union> set gs. rows_ok rows' g)"
  using assms
proof (induction gs arbitrary: rows c)
  case (Cons g gs)
  let ?p = "List.filter (\<lambda>row. mem_member_id row = g) loaded"
  let ?c = "snd (put_membership (group_key g) ?p (Some f) c)"
  have ok: "\<forall>h \<in> dom (rows(g \<mapsto> ?p)). rows_ok (rows(g \<mapsto> ?p)) h"
    using Cons.prems(2,3) by (auto simp: rows_ok_def)
  have c: "good ?c" using Cons.prems(1,2) by (simp add: good_put_group_key)
  have rest: "store_parent_rows f loaded gs (rows(g \<mapsto> ?p)) ?c = (rows', c')"
    using Cons.prems(4) by (simp add: Let_def)
  from Cons.IH [OF c _ ok rest] Cons.prems(2) show ?case by auto
qed auto

lemma read_parent_rows_correct:
  assumes "good c" and "\<forall>g \<in> dom rows. rows_ok rows g"
    and "read_parent_rows gs rows c = (rows', c')"
  shows "good c' \<and> (\<forall>g \<in> dom rows \<union> set gs. rows_ok rows' g)"
  using assms
proof (induction gs arbitrary: rows c)
  case (Cons g gs)
  let ?p = "load_for_group ml g"
  let ?c = "snd (put_membership (group_key g) ?p (Some (read_fence c)) c)"
  have ml: "membership_loader c = ml" using Cons.prems(1) by (simp add: good_def)
  have ok: "\<forall>h \<in> dom (rows(g \<mapsto> ?p)). rows_ok (rows(g \<mapsto> ?p)) h"
    using Cons.prems(2) group_rows by (auto simp: rows_ok_def)
  have c: "good ?c" using Cons.prems(1) by (simp add: good_put_group_key group_rows)
  have rest: "read_parent_rows gs (rows(g \<mapsto> ?p)) ?c = (rows', c')"
    using Cons.prems(3) by (simp add: Let_def ml)
  from Cons.IH [OF c ok rest] show ?case by auto
qed auto

lemma parent_rows_correct:
  assumes "good c" and "parent_rows gs c = (rows, c')"
  shows "good c' \<and> (\<forall>g \<in> set gs. rows_ok rows g)"
proof -
  obtain r0 missing c1 where cached: "cached_parent_rows gs Map.empty [] c = (r0, missing, c1)"
    by (metis prod_cases3)
  have c1: "good c1" and r0: "\<forall>g \<in> dom r0. rows_ok r0 g" and all: "set gs = dom r0 \<union> set missing"
    using cached_parent_rows_correct [OF assms(1) _ cached] by auto
  show ?thesis
  proof (cases "load_for_groups ml = None \<or> missing = []")
    case True
    then have "read_parent_rows missing r0 c1 = (rows, c')"
      using assms(2) c1 by (auto simp: parent_rows_def cached good_def split: option.splits)
    from read_parent_rows_correct [OF c1 r0 this] all show ?thesis by auto
  next
    case False
    then obtain load where load: "load_for_groups ml = Some load" by auto
    then have "store_parent_rows (read_fence c1) (load missing) (unique_ordered missing) r0 c1 = (rows, c')"
      using assms(2) c1 False by (simp add: parent_rows_def cached good_def)
    from store_parent_rows_correct [OF c1 _ r0 this] groups_rows [OF load] all show ?thesis by auto
  qed
qed

lemma expand_rounds_correct:
  assumes "good c" and "set frontier \<subseteq> set seen" and "distinct seen"
    and "\<forall>g \<in> set seen - set frontier. holds_groups db (ns_customer_id ns) MEMBER_GROUP g \<subseteq> set seen"
  shows "set (fst (expand_rounds n seen frontier ns c)) = within db (ns_customer_id ns) n (set seen)
    \<and> distinct (fst (expand_rounds n seen frontier ns c))
    \<and> good (snd (expand_rounds n seen frontier ns c))"
  using assms
proof (induction n arbitrary: seen frontier c)
  case (Suc n)
  let ?P = "holds_groups db (ns_customer_id ns) MEMBER_GROUP"
  show ?case
  proof (cases "frontier = []")
    case True
    with Suc.prems have "widen ?P (set seen) = set seen" by (auto simp: widen_def)
    with True Suc.prems show ?thesis by (simp add: within_fixed)
  next
    case False
    obtain rows c1 where rows: "parent_rows frontier c = (rows, c1)" by fastforce
    obtain s1 nf where e: "expand_frontier ns rows frontier seen [] = (s1, nf)" by fastforce
    from parent_rows_correct [OF Suc.prems(1) rows] have c1: "good c1"
      and ok: "\<forall>g \<in> set frontier. rows_ok rows g" by auto
    have P: "mem_group_id ` set (filter_memberships (the (rows g)) g MEMBER_GROUP ns) = ?P g"
      if "g \<in> set frontier" for g
      using ok that by (auto simp: rows_ok_def set_filter_memberships holds_groups_def)
    have s1: "set s1 = set seen \<union> (\<Union>g \<in> set frontier. ?P g)"
      and nf: "set nf = (\<Union>g \<in> set frontier. ?P g) - set seen" and d: "distinct s1"
      using expand_frontier_props [where ns = ns and parents = rows and frontier = frontier and
          seen = seen and nf = "[]"] P Suc.prems(3) by (simp_all add: e)
    have w: "set s1 = widen ?P (set seen)" using s1 Suc.prems(2,4) by (auto simp: widen_def)
    have "set nf \<subseteq> set s1" "\<forall>g \<in> set s1 - set nf. ?P g \<subseteq> set s1"
      using s1 nf Suc.prems(2,4) by auto
    from Suc.IH [OF c1 this(1) d this(2)] False rows e show ?thesis
      by (simp add: w within_Suc)
  qed
qed simp

lemma expand_group_parents_correct:
  assumes "good c"
  shows "set (fst (expand_group_parents d direct ns c)) = within db (ns_customer_id ns) (d - 1) (set direct)
    \<and> distinct (fst (expand_group_parents d direct ns c))
    \<and> good (snd (expand_group_parents d direct ns c))"
  using expand_rounds_correct [OF assms, of direct "unique_ordered direct" ns "d - 1"]
  by (simp add: expand_group_parents_def)

definition planned_ok :: "nat \<Rightarrow> planned \<Rightarrow> bool" where
  "planned_ok d planned \<longleftrightarrow>
     (\<forall>kind a cust gs. planned (kind, a, cust) = Some gs \<longrightarrow>
        set gs = spec_groups d db kind a cust \<and> distinct gs)"

lemma planner_groups_correct:
  assumes "good c" and "planned_ok d planned"
    and "planner_groups d kind a ns (planned, c) = (gs, planned', c')"
  shows "set gs = spec_groups d db kind a (ns_customer_id ns) \<and> distinct gs
    \<and> good c' \<and> planned_ok d planned'"
proof (cases "planned (kind, a, ns_customer_id ns)")
  case (Some x)
  with assms show ?thesis by (auto simp: planner_groups_def planned_ok_def)
next
  case None
  define direct where "direct = (if kind = ''group'' then ([a], c)
    else direct_groups a (if kind = ''user'' then MEMBER_USER else MEMBER_AGENT) ns c)"
  define ex where "ex = expand_group_parents d (fst direct) ns (snd direct)"
  have res: "gs = fst ex" "planned' = planned((kind, a, ns_customer_id ns) \<mapsto> fst ex)" "c' = snd ex"
    using assms(3) None
    by (auto simp: planner_groups_def Let_def split_beta direct_def [symmetric] ex_def [symmetric])
  have "set (fst direct) = spec_direct db kind a (ns_customer_id ns)" "good (snd direct)"
    using direct_groups_correct [OF assms(1)] assms(1) by (simp_all add: direct_def spec_direct_def)
  then have "set (fst ex) = spec_groups d db kind a (ns_customer_id ns)" "distinct (fst ex)" "good (snd ex)"
    using expand_group_parents_correct [of "snd direct" d "fst direct" ns]
    by (simp_all add: ex_def spec_groups_def)
  with res assms(2) show ?thesis by (auto simp: planned_ok_def)
qed

end

section \<open>Contributions under the loader contract\<close>

lemma set_map_filter: "set (List.map_filter f xs) = {y. \<exists>x \<in> set xs. f x = Some y}"
  by (induction xs) (auto simp: List.map_filter_simps split: option.splits)

lemma walk_assignment_Some:
  "walk_assignment roles groups gs ns a = Some t \<longleftrightarrow>
     tr_assignment t = a \<and> asg_group_id a \<in> gs \<and> covers a ns
     \<and> groups (asg_group_id a) = Some (tr_group t) \<and> roles (asg_role_id a) = Some (tr_role t)
     \<and> in_customer (grp_customer_id (tr_group t)) (ns_customer_id ns)
     \<and> in_customer (role_customer_id (tr_role t)) (ns_customer_id ns)
     \<and> tr_contributed_actions t = actions_for (tr_role t) (ns_namespace_type ns)"
  by (cases t) (auto simp: walk_assignment_def in_customer_def split: option.splits)

lemma set_walk_assignments:
  "set (snd (walk_assignments as roles groups gs ns))
     = {t. \<exists>a \<in> set as. walk_assignment roles groups gs ns a = Some t}"
  by (simp add: walk_assignments_def Let_def set_map_filter)

lemma fst_walk_assignments:
  "fst (walk_assignments as roles groups gs ns)
     = (\<Union>t \<in> set (snd (walk_assignments as roles groups gs ns)). tr_contributed_actions t)"
  by (simp add: walk_assignments_def Let_def)

definition held_by :: "acl_db \<Rightarrow> uuid \<Rightarrow> Namespace \<Rightarrow> RoleAssignment set" where
  "held_by db g ns = {a \<in> set (db_role_assignments db). asg_group_id a = g \<and> covers a ns}"

lemma walk_assignments_correct:
  assumes "{a \<in> set as. asg_group_id a = g \<and> covers a ns} = held_by db g ns"
    and "\<forall>a \<in> set as. roles (asg_role_id a) = role_row db (asg_role_id a)"
    and "groups g = group_row db g"
  shows "set (snd (walk_assignments as roles groups {g} ns)) = grant_chain db ns {g}"
    "fst (walk_assignments as roles groups {g} ns) = granted_actions db ns {g}"
proof -
  have *: "a \<in> set as \<and> asg_group_id a = g \<and> covers a ns \<longleftrightarrow>
      a \<in> set (db_role_assignments db) \<and> asg_group_id a = g \<and> covers a ns" for a
    using assms(1) by (auto simp: held_by_def)
  have "t \<in> set (snd (walk_assignments as roles groups {g} ns)) \<longleftrightarrow> t \<in> grant_chain db ns {g}" for t
    using * [of "tr_assignment t"] assms(2,3)
    by (auto simp: set_walk_assignments walk_assignment_Some grant_chain_def)
  then show "set (snd (walk_assignments as roles groups {g} ns)) = grant_chain db ns {g}" by blast
  then show "fst (walk_assignments as roles groups {g} ns) = granted_actions db ns {g}"
    by (simp add: fst_walk_assignments granted_actions_def)
qed

text \<open>What the two ways of reading assignments put under a pair.\<close>

lemma map_of_held_by_groups:
  assumes "\<forall>(key, ns) \<in> set missing. N (gnk_namespace_id key) = Some ns"
  shows "map_of (held_by_groups loaded missing held) (g, n) =
    (if \<exists>(key, ns) \<in> set missing. key = \<lparr>gnk_group_id = g, gnk_namespace_id = n\<rparr>
     then Some (List.filter (\<lambda>a. covers a (the (N n))) (List.filter (\<lambda>a. asg_group_id a = g) loaded))
     else map_of held (g, n))"
  using assms
proof (induction missing arbitrary: held)
  case (Cons kn missing)
  obtain k ns where kn: "kn = (k, ns)" by fastforce
  obtain g' n' where k: "k = \<lparr>gnk_group_id = g', gnk_namespace_id = n'\<rparr>" by (cases k) auto
  have "N n' = Some ns" using Cons.prems by (simp add: kn k)
  with Cons.IH Cons.prems show ?case by (auto simp: kn k update_conv')
qed simp

lemma map_of_held_in_namespace:
  "map_of (held_in_namespace loaded n gs held) (g, n') =
     (if n' = n \<and> g \<in> set gs then Some (List.filter (\<lambda>a. asg_group_id a = g) loaded)
      else map_of held (g, n'))"
  by (induction gs arbitrary: held) (auto simp: update_conv')

lemma map_of_held_by_namespaces:
  assumes "distinct (map fst bn)"
  shows "map_of (held_by_namespaces load bn held) (g, n) =
    (case map_of bn n of
       Some (ns, gs) \<Rightarrow> if g \<in> set gs then Some (List.filter (\<lambda>a. asg_group_id a = g) (load gs ns))
                        else map_of held (g, n)
     | None \<Rightarrow> map_of held (g, n))"
  using assms
proof (induction bn arbitrary: held)
  case (Cons x bn)
  obtain n' ns gs where x: "x = (n', ns, gs)" by (metis prod_cases3)
  have "map_of bn n' = None" using Cons.prems by (simp add: x map_of_eq_None_iff)
  with Cons show ?case
    by (auto simp: x map_of_held_in_namespace split: option.splits)
qed simp

lemma by_namespace_props:
  assumes "distinct (map fst bn)" and "\<forall>(key, ns) \<in> set missing. N (gnk_namespace_id key) = Some ns"
    and "\<forall>n ns gs. map_of bn n = Some (ns, gs) \<longrightarrow> N n = Some ns"
  shows "distinct (map fst (by_namespace missing bn))
    \<and> (\<forall>n ns gs. map_of bn n = Some (ns, gs) \<longrightarrow>
       (\<exists>gs'. map_of (by_namespace missing bn) n = Some (ns, gs @ gs')))
    \<and> (\<forall>(key, ns) \<in> set missing. \<exists>gs. map_of (by_namespace missing bn) (gnk_namespace_id key) = Some (ns, gs)
       \<and> gnk_group_id key \<in> set gs)"
  using assms
proof (induction missing arbitrary: bn)
  case (Cons kn missing)
  obtain k ns where kn: "kn = (k, ns)" by fastforce
  obtain ns0 gs0 where e: "(case map_of bn (gnk_namespace_id k) of None \<Rightarrow> (ns, []) | Some e \<Rightarrow> e) = (ns0, gs0)"
    by fastforce
  define bn' where "bn' = AList.update (gnk_namespace_id k) (ns0, gs0 @ [gnk_group_id k]) bn"
  have N: "N (gnk_namespace_id k) = Some ns" using Cons.prems(2) by (simp add: kn)
  have ns0: "ns0 = ns" using e Cons.prems(3) N by (auto split: option.splits)
  have bn': "distinct (map fst bn')" "\<forall>n ns gs. map_of bn' n = Some (ns, gs) \<longrightarrow> N n = Some ns"
    using Cons.prems(1,3) N by (auto simp: bn'_def ns0 update_conv' distinct_update)
  have step: "by_namespace (kn # missing) bn = by_namespace missing bn'"
    by (simp add: kn e bn'_def)
  have missing: "\<forall>(key, ns) \<in> set missing. N (gnk_namespace_id key) = Some ns"
    using Cons.prems(2) by simp
  note IH = Cons.IH [OF bn'(1) missing bn'(2)]
  have kept: "\<exists>gs'. map_of bn' n = Some (m, gs @ gs')" if "map_of bn n = Some (m, gs)" for n m gs
    using that e by (auto simp: bn'_def update_conv')
  have "map_of bn' (gnk_namespace_id k) = Some (ns, gs0 @ [gnk_group_id k])"
    by (simp add: bn'_def update_conv' ns0)
  with IH obtain gs' where
    "map_of (by_namespace missing bn') (gnk_namespace_id k) = Some (ns, (gs0 @ [gnk_group_id k]) @ gs')"
    by blast
  moreover have "\<exists>gs'. map_of (by_namespace missing bn') n = Some (m, gs @ gs')"
    if "map_of bn n = Some (m, gs)" for n m gs
    using kept [OF that] IH by fastforce
  ultimately show ?case unfolding step using IH by (auto simp: kn)
qed auto

context acl_source
begin

definition wanted_ok :: "(GroupNamespaceKey \<times> Namespace) list \<Rightarrow> bool" where
  "wanted_ok wanted \<longleftrightarrow> (\<forall>(key, ns) \<in> set wanted. namespace_row db (gnk_namespace_id key) = Some ns)"

definition contribution_ok :: "contributions \<Rightarrow> GroupNamespaceKey \<Rightarrow> bool" where
  "contribution_ok result key \<longleftrightarrow>
     (\<exists>acts ts ns. namespace_row db (gnk_namespace_id key) = Some ns \<and> result key = Some (acts, ts)
        \<and> set ts = grant_chain db ns {gnk_group_id key} \<and> acts = granted_actions db ns {gnk_group_id key})"

lemma wanted_ok_update:
  "wanted_ok wanted \<Longrightarrow> namespace_row db (gnk_namespace_id key) = Some ns \<Longrightarrow>
   wanted_ok (AList.update key ns wanted)"
  by (auto simp: wanted_ok_def dest: set_alist_update)

lemma cached_contributions_correct:
  assumes "good c" and "wanted_ok wanted" and "wanted_ok missing"
    and "\<forall>key \<in> dom result. contribution_ok result key"
    and "cached_contributions wanted result missing c = (result', missing', c')"
  shows "good c' \<and> wanted_ok missing' \<and> (\<forall>key \<in> dom result'. contribution_ok result' key)
    \<and> dom result \<union> fst ` set wanted \<union> fst ` set missing = dom result' \<union> fst ` set missing'"
  using assms
proof (induction wanted arbitrary: result missing c)
  case (Cons w wanted)
  obtain key ns where w: "w = (key, ns)" by fastforce
  obtain e c1 where e: "get_group_namespace key c = (e, c1)" by fastforce
  have ns: "namespace_row db (gnk_namespace_id key) = Some ns" and rest: "wanted_ok wanted"
    using Cons.prems(2) by (auto simp: w wanted_ok_def)
  have c1: "good c1" using Cons.prems(1) e coherent_get(2) [of db c key]
      loaders_get_put(3,4) [of key c] by (auto simp: good_def)
  show ?case
  proof (cases e)
    case None
    have ok: "wanted_ok (AList.update key ns missing)" using Cons.prems(3) ns by (rule wanted_ok_update)
    have step: "cached_contributions wanted result (AList.update key ns missing) c1
        = (result', missing', c')" using Cons.prems(5) e None by (simp add: w)
    have "fst ` set (AList.update key ns missing) = insert key (fst ` set missing)"
      by (simp add: dom_update [symmetric] dom_map_of_conv_image_fst [symmetric] update_conv')
    with Cons.IH [OF c1 rest ok Cons.prems(4) step] show ?thesis by (simp add: w)
  next
    case (Some x)
    have "contribution_coherent db key x"
      using Cons.prems(1) e Some get_group_namespace_coherent [of db c key x] by (simp add: good_def)
    with ns Cons.prems(4) have ok:
      "\<forall>k \<in> dom (result(key \<mapsto> (ent_actions x, ent_trails x))).
         contribution_ok (result(key \<mapsto> (ent_actions x, ent_trails x))) k"
      by (auto simp: contribution_ok_def contribution_coherent_def)
    have "cached_contributions wanted (result(key \<mapsto> (ent_actions x, ent_trails x))) missing c1
        = (result', missing', c')" using Cons.prems(5) e Some by (simp add: w)
    from Cons.IH [OF c1 rest Cons.prems(3) ok this] show ?thesis
      by (simp add: w del: fun_upd_apply)
  qed
qed simp

definition held_ok ::
  "held \<Rightarrow> (uuid \<rightharpoonup> Role) \<Rightarrow> (uuid \<rightharpoonup> Group) \<Rightarrow> GroupNamespaceKey \<times> Namespace \<Rightarrow> bool" where
  "held_ok held rs gs = (\<lambda>(key, ns). \<exists>as. map_of held (gnk_group_id key, gnk_namespace_id key) = Some as
     \<and> {a \<in> set as. asg_group_id a = gnk_group_id key \<and> covers a ns} = held_by db (gnk_group_id key) ns
     \<and> (\<forall>a \<in> set as. rs (asg_role_id a) = role_row db (asg_role_id a))
     \<and> gs (gnk_group_id key) = group_row db (gnk_group_id key))"

lemma store_contributions_correct:
  assumes "good c" and "wanted_ok missing" and "\<forall>m \<in> set missing. held_ok held rs gs m"
    and "\<forall>key \<in> dom result. contribution_ok result key"
    and "store_contributions f held rs gs missing result c = (result', c')"
  shows "good c' \<and> (\<forall>key \<in> dom result \<union> fst ` set missing. contribution_ok result' key)"
  using assms
proof (induction missing arbitrary: result c)
  case (Cons m missing)
  obtain key ns where m: "m = (key, ns)" by fastforce
  have ns: "namespace_row db (gnk_namespace_id key) = Some ns" and rest: "wanted_ok missing"
    using Cons.prems(2) by (auto simp: m wanted_ok_def)
  from Cons.prems(3) obtain as where as: "map_of held (gnk_group_id key, gnk_namespace_id key) = Some as"
    and held: "{a \<in> set as. asg_group_id a = gnk_group_id key \<and> covers a ns} = held_by db (gnk_group_id key) ns"
    and rows: "\<forall>a \<in> set as. rs (asg_role_id a) = role_row db (asg_role_id a)"
      "gs (gnk_group_id key) = group_row db (gnk_group_id key)"
    by (auto simp: held_ok_def m)
  obtain acts ts where walk: "walk_assignments as rs gs {gnk_group_id key} ns = (acts, ts)" by fastforce
  have val: "set ts = grant_chain db ns {gnk_group_id key}" "acts = granted_actions db ns {gnk_group_id key}"
    using walk_assignments_correct [of as _ ns db rs gs, OF held rows] walk by auto
  define c1 where "c1 = snd (put_group_namespace key acts ts (Some (asg_role_id ` set as)) (Some f) c)"
  have "contribution_coherent db key
      \<lparr>ent_actions = acts, ent_trails = ts, ent_role_ids = Some (asg_role_id ` set as)\<rparr>"
    using val ns held by (auto simp: contribution_coherent_def held_by_def)
  then have c1: "good c1"
    using Cons.prems(1) by (simp add: good_def c1_def coherent_put_group_namespace)
  have ok: "\<forall>k \<in> dom (result(key \<mapsto> (acts, ts))). contribution_ok (result(key \<mapsto> (acts, ts))) k"
    using Cons.prems(4) ns val by (auto simp: contribution_ok_def)
  have "store_contributions f held rs gs missing (result(key \<mapsto> (acts, ts))) c1 = (result', c')"
    using Cons.prems(5) by (simp add: m as walk c1_def Let_def)
  from Cons.IH [OF c1 rest _ ok this] Cons.prems(3) show ?case
    by (auto simp: m)
qed simp

lemma held_reads_correct:
  assumes "wanted_ok missing" and "(key, ns) \<in> set missing"
    and "gs = unique_ordered (map (\<lambda>(key, _). gnk_group_id key) missing)"
    and "held = (case load_assignments_held_by_groups gl of
           Some load \<Rightarrow> held_by_groups (load gs) missing []
         | None \<Rightarrow> held_by_namespaces (load_assignments_for_groups gl) (by_namespace missing []) [])"
  shows "\<exists>as. map_of held (gnk_group_id key, gnk_namespace_id key) = Some as
    \<and> {a \<in> set as. asg_group_id a = gnk_group_id key \<and> covers a ns} = held_by db (gnk_group_id key) ns"
proof (cases "load_assignments_held_by_groups gl")
  case (Some load)
  have ns: "namespace_row db (gnk_namespace_id key) = Some ns" using assms by (auto simp: wanted_ok_def)
  have "gnk_group_id key \<in> set gs" using assms(2,3) by force
  from held_assignments [OF Some this]
  have *: "a \<in> set (load gs) \<and> asg_group_id a = gnk_group_id key \<longleftrightarrow>
      a \<in> set (db_role_assignments db) \<and> asg_group_id a = gnk_group_id key" for a by auto
  have "map_of held (gnk_group_id key, gnk_namespace_id key)
      = Some (List.filter (\<lambda>a. covers a ns) (List.filter (\<lambda>a. asg_group_id a = gnk_group_id key) (load gs)))"
    using assms(1,2,4) Some ns
    by (auto simp: map_of_held_by_groups [where N = "namespace_row db"] wanted_ok_def
        intro!: bexI [of _ "(key, ns)"])
  then show ?thesis using * by (auto simp: held_by_def)
next
  case None
  let ?bn = "by_namespace missing []"
  have missing: "\<forall>(key, ns) \<in> set missing. namespace_row db (gnk_namespace_id key) = Some ns"
    using assms(1) by (simp add: wanted_ok_def)
  obtain gs' where bn: "map_of ?bn (gnk_namespace_id key) = Some (ns, gs')" "gnk_group_id key \<in> set gs'"
    and d: "distinct (map fst ?bn)"
    using by_namespace_props [OF _ missing, of "[]"] assms(2) by fastforce
  have "map_of held (gnk_group_id key, gnk_namespace_id key)
      = Some (List.filter (\<lambda>a. asg_group_id a = gnk_group_id key) (load_assignments_for_groups gl gs' ns))"
    using assms(4) None bn d by (simp add: map_of_held_by_namespaces)
  then show ?thesis using covering_assignments [OF bn(2), of ns] by (auto simp: held_by_def)
qed

lemma group_namespace_contributions_correct:
  assumes "good c" and "wanted_ok wanted" and "group_namespace_contributions wanted c = (result, c')"
  shows "good c' \<and> (\<forall>key \<in> fst ` set wanted. contribution_ok result key)"
proof -
  obtain r0 missing c1 where cached: "cached_contributions wanted Map.empty [] c = (r0, missing, c1)"
    by (metis prod_cases3)
  have c1: "good c1" and missing: "wanted_ok missing" and r0: "\<forall>key \<in> dom r0. contribution_ok r0 key"
    and all: "fst ` set wanted = dom r0 \<union> fst ` set missing"
    using cached_contributions_correct [OF assms(1,2) _ _ cached] by (auto simp: wanted_ok_def)
  show ?thesis
  proof (cases "missing = []")
    case True
    with assms(3) cached c1 r0 all show ?thesis by (auto simp: group_namespace_contributions_def)
  next
    case False
    define gs where "gs = unique_ordered (map (\<lambda>(key, _). gnk_group_id key) missing)"
    define held where "held = (case load_assignments_held_by_groups gl of
           Some load \<Rightarrow> held_by_groups (load gs) missing []
         | None \<Rightarrow> held_by_namespaces (load_assignments_for_groups gl) (by_namespace missing []) [])"
    define role_ids where "role_ids = unique_ordered (concat (map (\<lambda>(_, as). map asg_role_id as) held))"
    define rs where "rs = (if role_ids \<noteq> [] then load_roles gl role_ids else Map.empty)"
    define gm where "gm = coerce_groups (load_groups gl gs)"
    have gl: "grant_loader c1 = gl" using c1 by (simp add: good_def)
    have store: "store_contributions (read_fence c1) held rs gm missing r0 c1 = (result, c')"
      using assms(3) False unfolding group_namespace_contributions_def cached Let_def prod.case gl
        gs_def [symmetric] held_def [symmetric] role_ids_def [symmetric] rs_def [symmetric]
        gm_def [symmetric] by simp
    have ok: "held_ok held rs gm m" if m: "m \<in> set missing" for m
    proof -
      obtain key ns where kn: "m = (key, ns)" by fastforce
      with held_reads_correct [OF missing _ gs_def held_def, of key ns] m
      obtain as where as: "map_of held (gnk_group_id key, gnk_namespace_id key) = Some as"
        "{a \<in> set as. asg_group_id a = gnk_group_id key \<and> covers a ns} = held_by db (gnk_group_id key) ns"
        by auto
      have "asg_role_id a \<in> set role_ids" if "a \<in> set as" for a
        using map_of_SomeD [OF as(1)] that unfolding role_ids_def by force
      then have "rs (asg_role_id a) = role_row db (asg_role_id a)" if "a \<in> set as" for a
        using that roles unfolding rs_def by force
      moreover have "gnk_group_id key \<in> set gs" using m unfolding gs_def kn by force
      then have "gm (gnk_group_id key) = group_row db (gnk_group_id key)"
        unfolding gm_def coerce_groups_def
        by (cases "group_row db (gnk_group_id key)") (simp_all add: groups)
      ultimately show ?thesis using as by (simp add: held_ok_def kn)
    qed
    from store_contributions_correct [OF c1 missing _ r0 store] ok show ?thesis by (simp add: all)
  qed
qed

end

section \<open>Evaluation\<close>

text \<open>The two sides of a question, and what the answer to it is.\<close>

definition spec_user_groups :: "nat \<Rightarrow> acl_db \<Rightarrow> EvaluationContext \<Rightarrow> uuid set" where
  "spec_user_groups d db ctx =
     (let cust = ns_customer_id (ctx_namespace ctx) in
      case ctx_user_id ctx of
        Some u \<Rightarrow> spec_groups d db ''user'' u cust
      | None \<Rightarrow> (case ctx_group_id ctx of Some g \<Rightarrow> spec_groups d db ''group'' g cust | None \<Rightarrow> {}))"

definition spec_owner :: "EvaluationContext \<Rightarrow> bool" where
  "spec_owner ctx \<longleftrightarrow>
     (\<exists>a. ctx_agent_id ctx = Some a
        \<and> ns_owner_namespace (ctx_namespace ctx) = Some (build_agent_namespace_name a))"

definition spec_agent_groups :: "nat \<Rightarrow> acl_db \<Rightarrow> EvaluationContext \<Rightarrow> uuid set" where
  "spec_agent_groups d db ctx =
     (case ctx_agent_id ctx of
        Some a \<Rightarrow> if spec_owner ctx then {}
          else spec_groups d db ''agent'' a (ns_customer_id (ctx_namespace ctx))
      | None \<Rightarrow> {})"

definition has_user_side :: "EvaluationContext \<Rightarrow> bool" where
  "has_user_side ctx \<longleftrightarrow> ctx_user_id ctx \<noteq> None \<or> ctx_group_id ctx \<noteq> None"

definition has_agent_side :: "EvaluationContext \<Rightarrow> bool" where
  "has_agent_side ctx \<longleftrightarrow> ctx_agent_id ctx \<noteq> None"

definition spec_allowed :: "nat \<Rightarrow> acl_db \<Rightarrow> EvaluationContext \<Rightarrow> string \<Rightarrow> bool" where
  "spec_allowed d db ctx action \<longleftrightarrow>
     (has_user_side ctx \<longrightarrow>
        action \<in> granted_actions db (ctx_namespace ctx) (spec_user_groups d db ctx))
     \<and> (has_agent_side ctx \<longrightarrow>
        spec_owner ctx \<or> action \<in> granted_actions db (ctx_namespace ctx) (spec_agent_groups d db ctx))"

definition trail_key :: "Trail \<Rightarrow> string \<times> string" where
  "trail_key t = (uuid_str (grp_id (tr_group t)), uuid_str (asg_id (tr_assignment t)))"

definition result_correct :: "nat \<Rightarrow> acl_db \<Rightarrow> EvaluationContext \<Rightarrow> EvaluationResult \<Rightarrow> bool" where
  "result_correct d db ctx r \<longleftrightarrow>
     (let ns = ctx_namespace ctx; U = spec_user_groups d db ctx; A = spec_agent_groups d db ctx;
          both = (has_user_side ctx \<and> has_agent_side ctx) in
      res_decision r = spec_allowed d db ctx (ctx_action ctx)
      \<and> res_effective_actions r =
          (if has_user_side ctx \<or> \<not> spec_owner ctx then {a. spec_allowed d db ctx a} else {ctx_action ctx})
      \<and> res_user_actions r = granted_actions db ns U
      \<and> res_agent_actions r = granted_actions db ns A
      \<and> set (res_trails r) = (if both then {} else grant_chain db ns (U \<union> A))
      \<and> set (res_user_trails r) = (if both then grant_chain db ns U else {})
      \<and> set (res_agent_trails r) = (if both then grant_chain db ns A else {})
      \<and> sorted (map trail_key (res_trails r)) \<and> sorted (map trail_key (res_user_trails r))
      \<and> sorted (map trail_key (res_agent_trails r))
      \<and> res_agent_owner_short_circuited r = spec_owner ctx
      \<and> res_limiting_side r =
          (if \<not> both \<or> granted_actions db ns U = {} then LIMIT_NEITHER
           else if spec_owner ctx then LIMIT_USER
           else if granted_actions db ns A = {} then LIMIT_NEITHER
           else classify_limiting_side (granted_actions db ns U) (ActionSet (granted_actions db ns A)) False))"

lemma grant_chain_Un: "grant_chain db ns gs = (\<Union>g \<in> gs. grant_chain db ns {g})"
  by (auto simp: grant_chain_def)

lemma granted_actions_Un: "granted_actions db ns gs = (\<Union>g \<in> gs. granted_actions db ns {g})"
  unfolding granted_actions_def by (subst grant_chain_Un) blast

lemma grant_chain_empty [simp]: "grant_chain db ns {} = {}"
  by (simp add: grant_chain_def)

lemma granted_actions_empty [simp]: "granted_actions db ns {} = {}"
  by (simp add: granted_actions_def)

lemma spec_owner_owns:
  "spec_owner ctx \<longleftrightarrow> (case ctx_agent_id ctx of None \<Rightarrow> False
     | Some a \<Rightarrow> agent_owns_namespace (ctx_namespace ctx) a)"
  by (auto simp: spec_owner_def agent_owns_namespace_def split: option.splits)

lemma set_want_groups:
  "set (map fst (want_groups gs ns wanted)) =
     fst ` set wanted \<union> (\<lambda>g. \<lparr>gnk_group_id = g, gnk_namespace_id = ns_id ns\<rparr>) ` set gs"
proof (induction gs arbitrary: wanted)
  case (Cons g gs)
  have "fst ` set (AList.update k v w) = insert k (fst ` set w)" for k :: GroupNamespaceKey and v :: Namespace and w
    by (simp add: dom_update [symmetric] dom_map_of_conv_image_fst [symmetric] update_conv')
  with Cons show ?case by auto
qed simp

lemma set_want_all:
  "fst ` set wanted \<subseteq> fst ` set (want_all cps wanted)
   \<and> (\<forall>(ctx, p) \<in> set cps. \<forall>g \<in> set (plan_user_groups p) \<union> set (plan_agent_groups p).
        \<lparr>gnk_group_id = g, gnk_namespace_id = ns_id (ctx_namespace ctx)\<rparr> \<in> fst ` set (want_all cps wanted))"
proof (induction cps arbitrary: wanted)
  case (Cons cp cps)
  obtain ctx p where cp: "cp = (ctx, p)" by fastforce
  let ?w = "want_groups (plan_user_groups p @ plan_agent_groups p) (ctx_namespace ctx) wanted"
  have "fst ` set ?w = fst ` set wanted \<union> (\<lambda>g. \<lparr>gnk_group_id = g, gnk_namespace_id =
      ns_id (ctx_namespace ctx)\<rparr>) ` (set (plan_user_groups p) \<union> set (plan_agent_groups p))"
    using set_want_groups [of "plan_user_groups p @ plan_agent_groups p" "ctx_namespace ctx" wanted]
    by simp
  with Cons.IH [of ?w] show ?case by (auto simp: cp)
qed simp

lemma assemble_result_correct:
  assumes "U = granted_actions db (ctx_namespace ctx) (spec_user_groups d db ctx)"
    and "A = granted_actions db (ctx_namespace ctx) (spec_agent_groups d db ctx)"
    and "set uts = grant_chain db (ctx_namespace ctx) (spec_user_groups d db ctx)"
    and "set ats = grant_chain db (ctx_namespace ctx) (spec_agent_groups d db ctx)"
    and "sorted (map trail_key uts)" and "sorted (map trail_key ats)"
    and "aa = (if spec_owner ctx then AllActionsSet else ActionSet A)"
    and "check_context ctx = Inr ()"
  shows "result_correct d db ctx (assemble_result ctx U aa uts ats (spec_owner ctx))"
proof -
  have noagent: "A = {}" "set ats = {}" "\<not> spec_owner ctx" if "\<not> has_agent_side ctx"
    using that assms(2,4) by (auto simp: has_agent_side_def spec_agent_groups_def spec_owner_def)
  have nouser: "U = {}" "set uts = {}" if "\<not> has_user_side ctx"
    using that assms(1,3) by (auto simp: has_user_side_def spec_user_groups_def)
  have owner: "A = {}" "set ats = {}" if "spec_owner ctx"
    using that assms(2,4) by (auto simp: spec_agent_groups_def split: option.splits)
  have sides: "has_user_side ctx \<or> has_agent_side ctx"
    using assms(8) by (auto simp: check_context_def has_user_side_def has_agent_side_def split: if_splits)
  have union: "grant_chain db ns (S \<union> T) = grant_chain db ns S \<union> grant_chain db ns T" for ns S T
    by (auto simp: grant_chain_def)
  have allowed: "spec_allowed d db ctx a \<longleftrightarrow>
      (has_user_side ctx \<longrightarrow> a \<in> U) \<and> (has_agent_side ctx \<longrightarrow> spec_owner ctx \<or> a \<in> A)" for a
    by (simp add: spec_allowed_def assms(1,2))
  show ?thesis
    unfolding result_correct_def Let_def assemble_result_def has_user_side_def [symmetric]
      has_agent_side_def [symmetric] allowed assms(1-4) [symmetric] union assms(7)
      materialize_agent_actions_def classify_limiting_side_def
    using noagent nouser owner sides assms(5,6)
    by (cases "has_user_side ctx"; cases "has_agent_side ctx"; cases "spec_owner ctx") auto
qed

context acl_source
begin

lemma accumulate_groups_correct:
  assumes "\<forall>g \<in> set gs. contribution_ok contribs \<lparr>gnk_group_id = g, gnk_namespace_id = ns_id ns\<rparr>"
    and "namespace_row db (ns_id ns) = Some ns"
  shows "fst (accumulate_groups gs ns contribs) = granted_actions db ns (set gs)"
    "set (snd (accumulate_groups gs ns contribs)) = grant_chain db ns (set gs)"
    "sorted (map trail_key (snd (accumulate_groups gs ns contribs)))"
proof -
  let ?c = "\<lambda>g. the (contribs \<lparr>gnk_group_id = g, gnk_namespace_id = ns_id ns\<rparr>)"
  have ok: "fst (?c g) = granted_actions db ns {g}" "set (snd (?c g)) = grant_chain db ns {g}"
    if "g \<in> set gs" for g
    using assms that by (auto simp: contribution_ok_def)
  show "fst (accumulate_groups gs ns contribs) = granted_actions db ns (set gs)"
    using ok by (subst granted_actions_Un) (force simp: accumulate_groups_def Let_def split_beta)
  show "set (snd (accumulate_groups gs ns contribs)) = grant_chain db ns (set gs)"
    using ok by (subst grant_chain_Un) (simp add: accumulate_groups_def Let_def)
  show "sorted (map trail_key (snd (accumulate_groups gs ns contribs)))"
    by (simp add: accumulate_groups_def Let_def trail_key_def [abs_def])
qed

definition plan_ok :: "nat \<Rightarrow> EvaluationContext \<Rightarrow> SidePlan \<Rightarrow> bool" where
  "plan_ok d ctx p \<longleftrightarrow> set (plan_user_groups p) = spec_user_groups d db ctx
     \<and> set (plan_agent_groups p) = spec_agent_groups d db ctx
     \<and> plan_agent_owner_short_circuited p = spec_owner ctx"

lemma plan_correct:
  assumes "good c" and "planned_ok d planned" and "plan d ctx (planned, c) = (p, planned', c')"
  shows "plan_ok d ctx p \<and> good c' \<and> planned_ok d planned'"
proof -
  let ?ns = "ctx_namespace ctx"
  have step: "set (fst (planner_groups d kind a ?ns s)) = spec_groups d db kind a (ns_customer_id ?ns)
      \<and> good (snd (snd (planner_groups d kind a ?ns s)))
      \<and> planned_ok d (fst (snd (planner_groups d kind a ?ns s)))"
    if "good (snd s)" "planned_ok d (fst s)" for kind a s
    using planner_groups_correct [of "snd s" d "fst s" kind a ?ns] that by (metis prod.collapse)
  define r0 where "r0 = (case ctx_group_id ctx of None \<Rightarrow> ([], planned, c)
    | Some g \<Rightarrow> planner_groups d ''group'' g ?ns (planned, c))"
  define r1 where "r1 = (case ctx_user_id ctx of None \<Rightarrow> r0
    | Some u \<Rightarrow> planner_groups d ''user'' u ?ns (snd r0))"
  define r2 where "r2 = (case ctx_agent_id ctx of None \<Rightarrow> ([], snd r1)
    | Some a \<Rightarrow> if \<not> spec_owner ctx then planner_groups d ''agent'' a ?ns (snd r1) else ([], snd r1))"
  have r0: "good (snd (snd r0)) \<and> planned_ok d (fst (snd r0)) \<and> set (fst r0) = (case ctx_group_id ctx of
      Some g \<Rightarrow> spec_groups d db ''group'' g (ns_customer_id ?ns) | None \<Rightarrow> {})"
    using step [of "(planned, c)"] assms(1,2) by (auto simp: r0_def split: option.splits)
  then have r1: "good (snd (snd r1)) \<and> planned_ok d (fst (snd r1)) \<and> set (fst r1) = spec_user_groups d db ctx"
    using step [of "snd r0"] by (auto simp: r1_def spec_user_groups_def split: option.splits)
  then have r2: "good (snd (snd r2)) \<and> planned_ok d (fst (snd r2)) \<and> set (fst r2) = spec_agent_groups d db ctx"
    using step [of "snd r1"] by (auto simp: r2_def spec_agent_groups_def split: option.splits)
  have "plan d ctx (planned, c) = (\<lparr>plan_user_groups = fst r1, plan_agent_groups = fst r2,
      plan_agent_owner_short_circuited = spec_owner ctx\<rparr>, snd r2)"
    unfolding plan_def Let_def r2_def r1_def r0_def spec_owner_owns
    by (simp only: split_beta prod.collapse)
  with assms(3) r1 r2 show ?thesis by (auto simp: plan_ok_def)
qed

lemma plan_all_correct:
  assumes "good c" and "planned_ok d planned" and "plan_all d ctxs (planned, c) = (ps, planned', c')"
  shows "list_all2 (plan_ok d) ctxs ps \<and> good c'"
  using assms
proof (induction ctxs arbitrary: planned c ps)
  case (Cons ctx ctxs)
  obtain p m1 c1 where p: "plan d ctx (planned, c) = (p, m1, c1)" by (metis prod_cases3)
  obtain qs m2 c2 where q: "plan_all d ctxs (m1, c1) = (qs, m2, c2)" by (metis prod_cases3)
  from plan_correct [OF Cons.prems(1,2) p] have ok: "plan_ok d ctx p" "good c1" "planned_ok d m1" by auto
  have "ps = p # qs" "c' = c2" "planned' = m2" using Cons.prems(3) by (auto simp: p q)
  with ok q Cons.IH [OF ok(2,3)] show ?case by simp
qed simp

lemma answer_correct:
  assumes "plan_ok d ctx p" and "check_context ctx = Inr ()"
    and "namespace_row db (ns_id (ctx_namespace ctx)) = Some (ctx_namespace ctx)"
    and "\<forall>g \<in> set (plan_user_groups p) \<union> set (plan_agent_groups p).
      contribution_ok contribs \<lparr>gnk_group_id = g, gnk_namespace_id = ns_id (ctx_namespace ctx)\<rparr>"
  shows "result_correct d db ctx (answer contribs (ctx, p))"
proof -
  let ?ns = "ctx_namespace ctx" and ?ug = "plan_user_groups p" and ?ag = "plan_agent_groups p"
  have U: "\<forall>g \<in> set ?ug. contribution_ok contribs \<lparr>gnk_group_id = g, gnk_namespace_id = ns_id ?ns\<rparr>"
    and A: "\<forall>g \<in> set ?ag. contribution_ok contribs \<lparr>gnk_group_id = g, gnk_namespace_id = ns_id ?ns\<rparr>"
    using assms(4) by auto
  note u = accumulate_groups_correct [OF U assms(3)] and a = accumulate_groups_correct [OF A assms(3)]
  define agent where "agent = (if ?ag \<noteq> []
    then (ActionSet (fst (accumulate_groups ?ag ?ns contribs)), snd (accumulate_groups ?ag ?ns contribs))
    else (if plan_agent_owner_short_circuited p then OWNER_ACTIONS else ActionSet {}, []))"
  have ans: "answer contribs (ctx, p) = assemble_result ctx (fst (accumulate_groups ?ug ?ns contribs))
      (fst agent) (snd (accumulate_groups ?ug ?ns contribs)) (snd agent) (spec_owner ctx)"
    using assms(1) by (simp add: answer_def split_beta agent_def plan_ok_def)
  have owner: "?ag = []" if "spec_owner ctx"
    using that assms(1) by (auto simp: plan_ok_def spec_agent_groups_def split: option.splits)
  have ag: "set ?ag = spec_agent_groups d db ctx" and ug: "set ?ug = spec_user_groups d db ctx"
    using assms(1) by (auto simp: plan_ok_def)
  show ?thesis unfolding ans
  proof (rule assemble_result_correct [OF _ refl])
    show "fst agent = (if spec_owner ctx then AllActionsSet
        else ActionSet (granted_actions db ?ns (spec_agent_groups d db ctx)))"
      using owner a assms(1) by (auto simp: agent_def ag plan_ok_def OWNER_ACTIONS_def simp flip: ag)
    show "set (snd agent) = grant_chain db ?ns (spec_agent_groups d db ctx)"
      "sorted (map trail_key (snd agent))"
      using a by (auto simp: agent_def simp flip: ag)
  qed (use u assms(2) ug in simp_all)
qed

lemma wanted_ok_want_groups:
  assumes "wanted_ok wanted" and "namespace_row db (ns_id ns) = Some ns"
  shows "wanted_ok (want_groups gs ns wanted)"
  using assms(1) by (induction gs arbitrary: wanted) (simp_all add: assms(2) wanted_ok_update)

lemma wanted_ok_want_all:
  assumes "wanted_ok wanted"
    and "\<forall>(ctx, p) \<in> set cps. namespace_row db (ns_id (ctx_namespace ctx)) = Some (ctx_namespace ctx)"
  shows "wanted_ok (want_all cps wanted)"
  using assms by (induction cps arbitrary: wanted) (auto simp: wanted_ok_want_groups)

lemma evaluate_many_correct:
  assumes "good c" and "check_contexts ctxs = Inr ()"
    and "\<forall>ctx \<in> set ctxs. namespace_row db (ns_id (ctx_namespace ctx)) = Some (ctx_namespace ctx)"
  shows "\<exists>rs c'. evaluate_many_with_trail d ctxs c = (Inr rs, c') \<and> list_all2 (result_correct d db) ctxs rs
    \<and> good c'"
proof -
  obtain ps m c1 where ps: "plan_all d ctxs (Map.empty, c) = (ps, m, c1)" by (metis prod_cases3)
  have plans: "list_all2 (plan_ok d) ctxs ps" and c1: "good c1"
    using plan_all_correct [OF assms(1) _ ps] by (auto simp: planned_ok_def)
  define wanted where "wanted = want_all (zip ctxs ps) []"
  obtain res c2 where res: "group_namespace_contributions wanted c1 = (res, c2)" by fastforce
  have "wanted_ok wanted" unfolding wanted_def
    by (rule wanted_ok_want_all) (use assms(3) in \<open>auto simp: wanted_ok_def dest: set_zip_leftD\<close>)
  from group_namespace_contributions_correct [OF c1 this res]
  have c2: "good c2" and ok: "\<forall>key \<in> fst ` set wanted. contribution_ok res key" by auto
  have check: "check_context ctx = Inr ()" if "ctx \<in> set ctxs" for ctx
    using assms(2) that by (induction ctxs) (auto split: sum.splits)
  have "result_correct d db ctx (answer res (ctx, p))" if "(ctx, p) \<in> set (zip ctxs ps)" for ctx p
  proof (rule answer_correct)
    show "plan_ok d ctx p" using plans that by (auto simp: list_all2_iff)
    show "check_context ctx = Inr ()" using check set_zip_leftD [OF that] .
    show "namespace_row db (ns_id (ctx_namespace ctx)) = Some (ctx_namespace ctx)"
      using assms(3) set_zip_leftD [OF that] by simp
    show "\<forall>g \<in> set (plan_user_groups p) \<union> set (plan_agent_groups p).
        contribution_ok res \<lparr>gnk_group_id = g, gnk_namespace_id = ns_id (ctx_namespace ctx)\<rparr>"
      using set_want_all [of "[]" "zip ctxs ps"] that ok by (fastforce simp: wanted_def)
  qed
  then have "list_all2 (result_correct d db) ctxs (map (answer res) (zip ctxs ps))"
    using list_all2_lengthD [OF plans] by (auto simp: list_all2_conv_all_nth set_zip)
  then show ?thesis
    using c2 by (simp add: evaluate_many_with_trail_def assms(2) ps res flip: wanted_def)
qed

end

section \<open>Properties\<close>

text \<open>A small set of tables: user 1 is in group 2 of customer 9, group 2 is nested in the platform
  group 3, and group 3 holds a reader role everywhere.\<close>

definition example_db :: acl_db where
  "example_db =
     \<lparr>db_groups = [\<lparr>grp_id = 2, grp_name = ''team'', grp_customer_id = Some 9\<rparr>,
                   \<lparr>grp_id = 3, grp_name = ''all'', grp_customer_id = None\<rparr>],
      db_group_members =
        [\<lparr>mem_group_id = 2, mem_member_type = MEMBER_USER, mem_member_id = 1, mem_customer_id = Some 9\<rparr>,
         \<lparr>mem_group_id = 3, mem_member_type = MEMBER_GROUP, mem_member_id = 2, mem_customer_id = Some 9\<rparr>],
      db_roles = [\<lparr>role_id = 4, role_name = ''Reader'',
                   role_permissions = [''workspace'' \<mapsto> {''read''}],
                   role_is_built_in = True, role_customer_id = None\<rparr>],
      db_role_assignments = [\<lparr>asg_id = 5, asg_role_id = 4, asg_group_id = 3, asg_scope_type = SCOPE_ALL,
                   asg_scope_namespace_id = None, asg_scope_namespace_type = None,
                   asg_scope_customer_id = None, asg_scope_namespace_name = None\<rparr>],
      db_namespaces = [\<lparr>ns_id = 7, ns_customer_id = Some 9, ns_namespace_type = ''workspace'',
                        ns_owner_agent_id = None, ns_name = None, ns_owner_namespace = None\<rparr>]\<rparr>"

definition example_ctx :: EvaluationContext where
  "example_ctx =
     \<lparr>ctx_namespace = \<lparr>ns_id = 7, ns_customer_id = Some 9, ns_namespace_type = ''workspace'',
        ns_owner_agent_id = None, ns_name = None, ns_owner_namespace = None\<rparr>,
      ctx_action = ''read'', ctx_user_id = Some 1, ctx_agent_id = None, ctx_group_id = None\<rparr>"

definition example_cache :: AclCache where
  "example_cache = new_AclCache (CollectionMembershipLoader example_db) (CollectionGrantLoader example_db)"

definition asked_in :: "acl_db \<Rightarrow> EvaluationContext \<Rightarrow> bool" where
  "asked_in db ctx \<longleftrightarrow> check_context ctx = Inr ()
     \<and> namespace_row db (ns_id (ctx_namespace ctx)) = Some (ctx_namespace ctx)"

definition backed_by :: "acl_db \<Rightarrow> AclCache \<Rightarrow> bool" where
  "backed_by db c \<longleftrightarrow> membership_loader c = CollectionMembershipLoader db
     \<and> grant_loader c = CollectionGrantLoader db \<and> coherent db c"

lemma example_ok:
  "asked_in example_db example_ctx" "backed_by example_db example_cache"
  by (simp_all add: asked_in_def backed_by_def example_cache_def coherent_new new_AclCache_def
      namespace_row_def rows_by_def example_db_def example_ctx_def check_context_def coherent_def)

lemma example_allowed: "spec_allowed 2 example_db example_ctx ''read''"
proof -
  let ?ns = "ctx_namespace example_ctx"
  have "2 \<in> spec_direct example_db ''user'' 1 (Some 9)"
    by (auto simp: spec_direct_def holds_groups_def member_rows_def example_db_def in_customer_def
        intro!: image_eqI [where x = "\<lparr>mem_group_id = 2, mem_member_type = MEMBER_USER,
          mem_member_id = 1, mem_customer_id = Some 9\<rparr>"])
  moreover have "(2, 3) \<in> parent_edges example_db (Some 9) ^^ 1"
    by (auto simp: parent_edges_def holds_groups_def member_rows_def example_db_def in_customer_def
        intro!: image_eqI [where x = "\<lparr>mem_group_id = 3, mem_member_type = MEMBER_GROUP,
          mem_member_id = 2, mem_customer_id = Some 9\<rparr>"])
  ultimately have "3 \<in> spec_user_groups 2 example_db example_ctx"
    by (simp add: spec_user_groups_def spec_groups_def example_ctx_def Let_def)
      (rule withinI [of 2 _ 1], simp_all)
  moreover have "\<exists>t \<in> grant_chain example_db ?ns {3}. ''read'' \<in> tr_contributed_actions t"
    by (rule bexI [where x = "\<lparr>tr_group = db_groups example_db ! 1,
          tr_assignment = db_role_assignments example_db ! 0, tr_role = db_roles example_db ! 0,
          tr_contributed_actions = {''read''}\<rparr>"])
      (auto simp: grant_chain_def example_db_def example_ctx_def covers_def group_row_def role_row_def
        rows_by_def in_customer_def actions_for_def perm_get_def WILDCARD_RESOURCE_TYPE_def)
  ultimately have "''read'' \<in> granted_actions example_db ?ns (spec_user_groups 2 example_db example_ctx)"
    by (subst granted_actions_Un) (auto simp: granted_actions_def)
  then show ?thesis by (simp add: spec_allowed_def has_agent_side_def example_ctx_def)
qed

lemma evaluate_with_trail_correct:
  assumes "backed_by db c" and "asked_in db ctx"
  shows "\<exists>r c'. evaluate_with_trail d ctx c = (Inr r, c') \<and> result_correct d db ctx r \<and> backed_by db c'"
proof -
  have "check_contexts [ctx] = Inr ()" using assms(2) by (simp add: asked_in_def)
  with db_source.evaluate_many_correct [of db c "[ctx]" d] assms obtain r c' where
    "evaluate_many_with_trail d [ctx] c = (Inr [r], c')" "result_correct d db ctx r" "db_source.good db c'"
    by (auto simp: backed_by_def asked_in_def db_source.good_def list_all2_Cons1)
  then show ?thesis by (simp add: evaluate_with_trail_def backed_by_def db_source.good_def)
qed

text \<open>C2: a batch of questions over a coherent cache backed by the collection loaders is answered, every
  answer is what the access tables say (decision, action sets, limiting side, ordered trails with
  exactly the grant chains that apply), and the cache is coherent afterwards.\<close>

theorem evaluate_many_refines:
  assumes "backed_by db c" and "\<forall>ctx \<in> set ctxs. asked_in db ctx"
  shows "\<exists>rs c'. evaluate_many_with_trail d ctxs c = (Inr rs, c')
    \<and> list_all2 (result_correct d db) ctxs rs \<and> backed_by db c'"
proof -
  have "check_contexts ctxs = Inr ()" using assms(2) by (induction ctxs) (auto simp: asked_in_def)
  with db_source.evaluate_many_correct [of db c ctxs d] assms show ?thesis
    by (auto simp: backed_by_def asked_in_def db_source.good_def)
qed

theorem evaluate_many_refines_witness:
  "\<exists>rs c'. evaluate_many_with_trail 2 [example_ctx, example_ctx\<lparr>ctx_action := ''write''\<rparr>] example_cache
      = (Inr rs, c')
    \<and> list_all2 (result_correct 2 example_db) [example_ctx, example_ctx\<lparr>ctx_action := ''write''\<rparr>] rs
    \<and> backed_by example_db c'"
  by (rule evaluate_many_refines)
    (use example_ok in \<open>auto simp: asked_in_def check_context_def split: if_splits\<close>)



end
