(* ===== verification/AccessTables.thy ===== *)
theory AccessTables
  imports AclCache
begin

text \<open>
  How one changed row of an access table reaches the cache (\<open>threetears.agent.acl.access_tables\<close>):
  the row broadcast, what each table's handler reads from it, and the eviction it runs.  The counter of
  unknown-reach evictions is kept, its throttled log line is not.  The registration with the
  collection registry is the dispatch on the table's name.
\<close>

section \<open>Row broadcasts\<close>

text \<open>The fields of a \<open>CacheInvalidationMessage\<close> the handlers read.\<close>

record CacheInvalidationMessage =
  msg_table :: string
  msg_ids :: "string list"
  msg_columns :: "(string \<rightharpoonup> string) option"

definition TBL_GROUPS :: string where "TBL_GROUPS = ''groups''"

definition TBL_GROUP_MEMBERS :: string where "TBL_GROUP_MEMBERS = ''group_members''"

definition TBL_ROLES :: string where "TBL_ROLES = ''roles''"

definition TBL_ROLE_ASSIGNMENTS :: string where "TBL_ROLE_ASSIGNMENTS = ''role_assignments''"

definition TBL_NAMESPACES :: string where "TBL_NAMESPACES = ''namespaces''"

definition ACCESS_TABLES :: "string list" where
  "ACCESS_TABLES = [TBL_GROUPS, TBL_GROUP_MEMBERS, TBL_ROLES, TBL_ROLE_ASSIGNMENTS, TBL_NAMESPACES]"

text \<open>\<open>_key_index\<close>: the position of a column in a collection's declared primary key.\<close>

fun key_index :: "string list \<Rightarrow> string \<Rightarrow> nat option" where
  "key_index [] column = None"
| "key_index (k # ks) column = (if k = column then Some 0 else map_option Suc (key_index ks column))"

definition GROUP_ID_AT :: nat where
  "GROUP_ID_AT = the (key_index [''row_scope'', ''group_id''] ''group_id'')"

definition ROLE_ID_AT :: nat where
  "ROLE_ID_AT = the (key_index [''role_id''] ''role_id'')"

definition NAMESPACE_ID_AT :: nat where
  "NAMESPACE_ID_AT = the (key_index [''row_scope'', ''namespace_id''] ''namespace_id'')"

text \<open>\<open>_uuid\<close>, \<open>_member_kind\<close>, \<open>_column\<close> and \<open>_key_part\<close>.\<close>

definition broadcast_uuid :: "string option \<Rightarrow> uuid option" where
  "broadcast_uuid value = (case value of None \<Rightarrow> None | Some s \<Rightarrow> uuid_parse s)"

definition member_kind :: "string option \<Rightarrow> string option" where
  "member_kind value =
     (case value of
        None \<Rightarrow> None
      | Some s \<Rightarrow> if s \<in> {''user'', ''agent'', ''group''} then Some s else None)"

definition column :: "CacheInvalidationMessage \<Rightarrow> string \<Rightarrow> string option" where
  "column message name = (case msg_columns message of None \<Rightarrow> None | Some cols \<Rightarrow> cols name)"

definition key_part :: "CacheInvalidationMessage \<Rightarrow> nat \<Rightarrow> string option" where
  "key_part message index =
     (if length (msg_ids message) > index then Some (msg_ids message ! index) else None)"

section \<open>The handlers\<close>

text \<open>\<open>DegradedEvictions\<close>: unknown-reach evictions so far, by table.\<close>

type_synonym DegradedEvictions = "string \<Rightarrow> nat"

definition degraded_record :: "string \<Rightarrow> DegradedEvictions \<Rightarrow> DegradedEvictions" where
  "degraded_record table counts = counts(table := Suc (counts table))"

definition on_group_member ::
  "CacheInvalidationMessage \<Rightarrow> DegradedEvictions \<times> AclCache \<Rightarrow> DegradedEvictions \<times> AclCache" where
  "on_group_member message = (\<lambda>(counts, c).
     (let kind = member_kind (column message ''member_type'');
          member_id = broadcast_uuid (column message ''member_id'')
      in if kind = None \<or> member_id = None
         then (degraded_record TBL_GROUP_MEMBERS counts, drop_membership_layer c)
         else (counts, evict_group_member_row kind member_id c)))"

definition on_role_assignment ::
  "CacheInvalidationMessage \<Rightarrow> DegradedEvictions \<times> AclCache \<Rightarrow> DegradedEvictions \<times> AclCache" where
  "on_role_assignment message = (\<lambda>(counts, c).
     (let group_id = broadcast_uuid (column message ''group_id'')
      in if group_id = None
         then (degraded_record TBL_ROLE_ASSIGNMENTS counts, drop_assignment_layers c)
         else (counts, evict_role_assignment_row group_id c)))"

definition on_role ::
  "CacheInvalidationMessage \<Rightarrow> DegradedEvictions \<times> AclCache \<Rightarrow> DegradedEvictions \<times> AclCache" where
  "on_role message = (\<lambda>(counts, c).
     (case broadcast_uuid (key_part message ROLE_ID_AT) of
        None \<Rightarrow> (degraded_record TBL_ROLES counts, drop_assignment_layers c)
      | Some role \<Rightarrow> (counts, evict_role_row role c)))"

definition on_group ::
  "CacheInvalidationMessage \<Rightarrow> DegradedEvictions \<times> AclCache \<Rightarrow> DegradedEvictions \<times> AclCache" where
  "on_group message = (\<lambda>(counts, c).
     (case broadcast_uuid (key_part message GROUP_ID_AT) of
        None \<Rightarrow> (degraded_record TBL_GROUPS counts, invalidate_all c)
      | Some group_id \<Rightarrow> (counts, evict_group_row group_id c)))"

definition on_namespace ::
  "CacheInvalidationMessage \<Rightarrow> DegradedEvictions \<times> AclCache \<Rightarrow> DegradedEvictions \<times> AclCache" where
  "on_namespace message = (\<lambda>(counts, c).
     (case broadcast_uuid (key_part message NAMESPACE_ID_AT) of
        None \<Rightarrow> (degraded_record TBL_NAMESPACES counts, drop_assignment_layers c)
      | Some namespace_id \<Rightarrow> (counts, invalidate_namespace namespace_id c)))"

text \<open>What \<open>bind_acl_cache_to_access_tables\<close> registers: each table's row handler and what runs
  when the table is dropped.\<close>

definition on_row ::
  "CacheInvalidationMessage \<Rightarrow> DegradedEvictions \<times> AclCache \<Rightarrow> DegradedEvictions \<times> AclCache" where
  "on_row message =
     (if msg_table message = TBL_GROUP_MEMBERS then on_group_member message
      else if msg_table message = TBL_ROLE_ASSIGNMENTS then on_role_assignment message
      else if msg_table message = TBL_ROLES then on_role message
      else if msg_table message = TBL_GROUPS then on_group message
      else if msg_table message = TBL_NAMESPACES then on_namespace message
      else (\<lambda>s. s))"

definition on_table_dropped :: "string \<Rightarrow> AclCache \<Rightarrow> AclCache" where
  "on_table_dropped table =
     (if table = TBL_GROUP_MEMBERS then drop_membership_layer
      else if table \<in> {TBL_ROLE_ASSIGNMENTS, TBL_ROLES, TBL_NAMESPACES} then drop_assignment_layers
      else if table = TBL_GROUPS then invalidate_all
      else (\<lambda>c. c))"

lemmas eviction_defs =
  invalidate_all_def empty_locked_def drop_membership_layer_def drop_assignment_layers_def
  evict_group_member_row_def invalidate_membership_for_actor_def invalidate_membership_def
  evict_role_assignment_row_def invalidate_group_def evict_role_row_def evict_group_row_def
  invalidate_namespace_def

text \<open>A row of an access table always moves the read fence, whatever its broadcast carries.\<close>

lemma on_row_moves_fence:
  "msg_table message \<in> set ACCESS_TABLES \<Longrightarrow>
   c_evictions (snd (on_row message (counts, c))) = Suc (c_evictions c)"
  by (auto simp: ACCESS_TABLES_def on_row_def on_group_member_def on_role_assignment_def on_role_def
      on_group_def on_namespace_def Let_def eviction_defs split: option.splits)

end
