(* ===== verification/FencedCache.thy ===== *)
theory FencedCache
  imports Main
begin

text \<open>
  The protocol the row-by-row caches of the platform follow, apart from any one cache.  Writers change
  the tables and broadcast each change; the cache hears a broadcast some time later, evicts what the
  change reaches and moves its fence.  A computation takes the fence, reads the tables, possibly
  several times while writers go on, and offers what it computed under the fence it took.  The locale
  states what the cache and the computation must promise; the invariant says that whatever the cache
  holds is either what the tables say or about to be evicted by a broadcast already on its way.
\<close>

section \<open>The step relation\<close>

record ('db, 'c, 'ch, 'q) fenced_state =
  f_db :: 'db
  f_cache :: 'c
  f_pending :: "'ch list"
  f_jobs :: "(nat \<times> 'q \<times> 'db \<times> 'ch list) list"

text \<open>The table states a computation could read from: the one its fence was taken in, and one more
  per write since.\<close>

fun states :: "('ch \<Rightarrow> 'db \<Rightarrow> 'db) \<Rightarrow> 'db \<Rightarrow> 'ch list \<Rightarrow> 'db list" where
  "states app db [] = [db]"
| "states app db (ch # chs) = db # states app (app ch db) chs"

definition job_sees :: "'ch \<Rightarrow> nat \<times> 'q \<times> 'db \<times> 'ch list \<Rightarrow> nat \<times> 'q \<times> 'db \<times> 'ch list" where
  "job_sees ch = (\<lambda>(f, q, db, chs). (f, q, db, chs @ [ch]))"

inductive fenced_step ::
  "('ch \<Rightarrow> 'db \<Rightarrow> 'db) \<Rightarrow> ('ch \<Rightarrow> 'c \<Rightarrow> 'c \<Rightarrow> bool) \<Rightarrow> ('c \<Rightarrow> nat) \<Rightarrow> (nat \<Rightarrow> 'e \<Rightarrow> 'c \<Rightarrow> 'c) \<Rightarrow>
   ('q \<Rightarrow> 'db \<Rightarrow> bool) \<Rightarrow> ('q \<Rightarrow> 'db list \<Rightarrow> 'e \<Rightarrow> bool) \<Rightarrow> ('c \<Rightarrow> 'c \<Rightarrow> bool) \<Rightarrow>
   ('db, 'c, 'ch, 'q) fenced_state \<Rightarrow> ('db, 'c, 'ch, 'q) fenced_state \<Rightarrow> bool"
  for app hears fence store asks reads loses where
  wrote: "fenced_step app hears fence store asks reads loses s
    (s\<lparr>f_db := app ch (f_db s), f_pending := f_pending s @ [ch], f_jobs := map (job_sees ch) (f_jobs s)\<rparr>)"
| hear: "f_pending s = xs @ ch # ys \<Longrightarrow> hears ch (f_cache s) c' \<Longrightarrow>
    fenced_step app hears fence store asks reads loses s (s\<lparr>f_cache := c', f_pending := xs @ ys\<rparr>)"
| take_fence: "asks q (f_db s) \<Longrightarrow> fenced_step app hears fence store asks reads loses s
    (s\<lparr>f_jobs := (fence (f_cache s), q, f_db s, []) # f_jobs s\<rparr>)"
| offer: "f_jobs s = xs @ (f, q, db, chs) # ys \<Longrightarrow> reads q (states app db chs) e \<Longrightarrow>
    fenced_step app hears fence store asks reads loses s
      (s\<lparr>f_cache := store f e (f_cache s), f_jobs := xs @ ys\<rparr>)"
| lose: "loses (f_cache s) c' \<Longrightarrow>
    fenced_step app hears fence store asks reads loses s (s\<lparr>f_cache := c'\<rparr>)"

lemma last_states_snoc: "last (states app db (chs @ [ch])) = app ch (last (states app db chs))"
  by (induction chs arbitrary: db) (auto elim: states.elims)

lemma states_not_Nil [simp]: "states app db chs \<noteq> []"
  by (cases chs) auto

lemma length_states [simp]: "length (states app db chs) = Suc (length chs)"
  by (induction chs arbitrary: db) auto

text \<open>A property of one state that every listed change keeps holds in every later state.\<close>

lemma states_invariant:
  assumes "P (states app db chs ! i)" and "i \<le> j" and "j < length (states app db chs)"
    and "\<And>ch d. ch \<in> set chs \<Longrightarrow> P d \<Longrightarrow> P (app ch d)"
  shows "P (states app db chs ! j)"
  using assms
proof (induction chs arbitrary: db i j)
  case (Cons ch chs)
  show ?case
  proof (cases j)
    case (Suc k)
    note j = this
    have first: "states app (app ch db) chs ! 0 = app ch db" by (cases chs) auto
    show ?thesis
    proof (cases i)
      case 0
      then have "P (states app (app ch db) chs ! 0)" using Cons.prems(1,4) first by simp
      from Cons.IH [OF this, of k] Cons.prems(3,4) j show ?thesis by auto
    next
      case (Suc l)
      with Cons.IH [of "app ch db" l k] Cons.prems j show ?thesis by auto
    qed
  qed (use Cons.prems in auto)
qed auto

section \<open>The contract and the invariant\<close>

locale derived_cache =
  fixes app :: "'ch \<Rightarrow> 'db \<Rightarrow> 'db"
    and hears :: "'ch \<Rightarrow> 'c \<Rightarrow> 'c \<Rightarrow> bool"
    and entries :: "'c \<Rightarrow> 'e set"
    and fence :: "'c \<Rightarrow> nat"
    and store :: "nat \<Rightarrow> 'e \<Rightarrow> 'c \<Rightarrow> 'c"
    and asks :: "'q \<Rightarrow> 'db \<Rightarrow> bool"
    and reads :: "'q \<Rightarrow> 'db list \<Rightarrow> 'e \<Rightarrow> bool"
    and loses :: "'c \<Rightarrow> 'c \<Rightarrow> bool"
    and ok :: "'db \<Rightarrow> 'e \<Rightarrow> bool"
    and reaches :: "'ch \<Rightarrow> 'e \<Rightarrow> bool"
  assumes unreached: "ok db e \<Longrightarrow> \<not> reaches ch e \<Longrightarrow> ok (app ch db) e"
    and hears_evicts: "hears ch c c' \<Longrightarrow> entries c' \<subseteq> {e \<in> entries c. \<not> reaches ch e}"
    and hears_fence: "hears ch c c' \<Longrightarrow> fence c < fence c'"
    and store_entries: "entries (store f e c) \<subseteq> insert e (entries c)"
    and store_stale: "f \<noteq> fence c \<Longrightarrow> entries (store f e c) \<subseteq> entries c"
    and store_fence: "fence c \<le> fence (store f e c)"
    and loses_entries: "loses c c' \<Longrightarrow> entries c' \<subseteq> entries c"
    and loses_fence: "loses c c' \<Longrightarrow> fence c \<le> fence c'"
    and torn_reads: "asks q db \<Longrightarrow> reads q (states app db chs) e \<Longrightarrow> \<forall>ch \<in> set chs. \<not> reaches ch e \<Longrightarrow>
      ok (last (states app db chs)) e"
begin

definition entry_ok :: "('db, 'c, 'ch, 'q) fenced_state \<Rightarrow> 'e \<Rightarrow> bool" where
  "entry_ok s e \<longleftrightarrow> ok (f_db s) e \<or> (\<exists>ch \<in> set (f_pending s). reaches ch e)"

definition job_ok ::
  "('db, 'c, 'ch, 'q) fenced_state \<Rightarrow> nat \<times> 'q \<times> 'db \<times> 'ch list \<Rightarrow> bool" where
  "job_ok s = (\<lambda>(f, q, db, chs). f \<le> fence (f_cache s) \<and> asks q db \<and> last (states app db chs) = f_db s
     \<and> (f = fence (f_cache s) \<longrightarrow> set chs \<subseteq> set (f_pending s)))"

definition fenced :: "('db, 'c, 'ch, 'q) fenced_state \<Rightarrow> bool" where
  "fenced s \<longleftrightarrow> (\<forall>e \<in> entries (f_cache s). entry_ok s e) \<and> (\<forall>j \<in> set (f_jobs s). job_ok s j)"

lemma job_ok_later:
  assumes "job_ok s j" and "fence (f_cache s) \<le> fence (f_cache t)" and "f_db t = f_db s"
    and "fence (f_cache s) = fence (f_cache t) \<longrightarrow> set (f_pending s) \<subseteq> set (f_pending t)"
  shows "job_ok t j"
  using assms by (auto simp: job_ok_def split: prod.splits)

lemma fenced_step_keeps:
  assumes "fenced_step app hears fence store asks reads loses s t" and "fenced s"
  shows "fenced t"
  using assms
proof (induction rule: fenced_step.induct)
  case (wrote s ch)
  have "entry_ok (s\<lparr>f_db := app ch (f_db s), f_pending := f_pending s @ [ch],
      f_jobs := map (job_sees ch) (f_jobs s)\<rparr>) e" if "entry_ok s e" for e
    using that unreached [of "f_db s" e ch] by (auto simp: entry_ok_def)
  moreover have "job_ok (s\<lparr>f_db := app ch (f_db s), f_pending := f_pending s @ [ch],
      f_jobs := map (job_sees ch) (f_jobs s)\<rparr>) (job_sees ch j)" if "job_ok s j" for j
    using that by (auto simp: job_ok_def job_sees_def last_states_snoc split: prod.splits)
  ultimately show ?case using wrote by (simp add: fenced_def)
next
  case (hear s xs ch ys c')
  let ?t = "s\<lparr>f_cache := c', f_pending := xs @ ys\<rparr>"
  have "entry_ok ?t e" if "e \<in> entries c'" for e
    using that hears_evicts [OF hear(2)] hear(1,3) by (auto simp: fenced_def entry_ok_def)
  moreover have "job_ok ?t j" if "j \<in> set (f_jobs s)" for j
    using that hear(3) hears_fence [OF hear(2)] by (rule_tac job_ok_later [of s]) (simp_all add: fenced_def)
  ultimately show ?case by (simp add: fenced_def)
next
  case (take_fence q s)
  have "job_ok (s\<lparr>f_jobs := (fence (f_cache s), q, f_db s, []) # f_jobs s\<rparr>) j"
    if "j \<in> set (f_jobs s)" for j
    using that take_fence(2) by (rule_tac job_ok_later [of s]) (simp_all add: fenced_def)
  with take_fence show ?case by (simp add: fenced_def entry_ok_def job_ok_def)
next
  case (offer s xs f q db chs ys e)
  let ?c = "store f e (f_cache s)"
  let ?t = "s\<lparr>f_cache := ?c, f_jobs := xs @ ys\<rparr>"
  have job: "last (states app db chs) = f_db s" "asks q db"
    "f = fence (f_cache s) \<longrightarrow> set chs \<subseteq> set (f_pending s)"
    using offer(1,3) by (auto simp: fenced_def job_ok_def)
  have old: "entry_ok ?t x" if "x \<in> entries (f_cache s)" for x
    using that offer(3) by (auto simp: fenced_def entry_ok_def)
  have "entry_ok ?t x" if "x \<in> entries ?c" for x
  proof (cases "f = fence (f_cache s)")
    case True
    have "entry_ok ?t e"
      using torn_reads [OF job(2) offer(2)] job True by (auto simp: entry_ok_def)
    with that old store_entries [of f e "f_cache s"] show ?thesis by blast
  next
    case False
    with that old store_stale [OF False, of e] show ?thesis by blast
  qed
  moreover have "job_ok ?t j" if "j \<in> set (xs @ ys)" for j
    using that offer(1,3) store_fence by (rule_tac job_ok_later [of s]) (auto simp: fenced_def)
  ultimately show ?case by (simp add: fenced_def)
next
  case (lose s c')
  have "job_ok (s\<lparr>f_cache := c'\<rparr>) j" if "j \<in> set (f_jobs s)" for j
    using that lose(2) loses_fence [OF lose(1)] by (rule_tac job_ok_later [of s]) (auto simp: fenced_def)
  moreover have "entry_ok (s\<lparr>f_cache := c'\<rparr>) e" if "e \<in> entries c'" for e
    using that lose(2) loses_entries [OF lose(1)] by (auto simp: fenced_def entry_ok_def)
  ultimately show ?case by (simp add: fenced_def)
qed

lemma fenced_reachable:
  assumes "(fenced_step app hears fence store asks reads loses)\<^sup>*\<^sup>* s t" and "fenced s"
  shows "fenced t"
  using assms by (induction rule: rtranclp_induct) (auto intro: fenced_step_keeps)

lemma settled_cache_ok:
  assumes "(fenced_step app hears fence store asks reads loses)\<^sup>*\<^sup>* s t"
    and "f_jobs s = []" and "\<forall>e \<in> entries (f_cache s). ok (f_db s) e"
    and "e \<in> entries (f_cache t)"
  shows "ok (f_db t) e \<or> (\<exists>ch \<in> set (f_pending t). reaches ch e)"
proof -
  have "fenced s" using assms(2,3) by (simp add: fenced_def entry_ok_def)
  from fenced_reachable [OF assms(1) this] assms(4) show ?thesis by (simp add: fenced_def entry_ok_def)
qed

end

end
