(* ===== verification/AclFollow.thy ===== *)
theory AclFollow
  imports AclCorrect AccessTables FencedCache
begin

text \<open>
  The access cache kept current by the row broadcasts of the access tables.  Every write the access
  tables take is a change; each is announced by a broadcast that names what it reaches, or names too
  little and empties a layer.  The cache with its evictions, its read fence and the evaluator's reads is
  shown to be a derived cache in the sense of \<open>FencedCache\<close>: however writes, late broadcasts and
  evaluations interleave, an entry that no longer matches the tables is about to be evicted.
\<close>

section \<open>Changes and their broadcasts\<close>

text \<open>A membership or assignment row is inserted or deleted, its key columns being immutable; a role,
  group or namespace row is written or deleted; deleting a group takes its memberships and
  assignments with it.\<close>

datatype acl_change =
    InsertMember GroupMembership | DeleteMember GroupMembership
  | InsertAssignment RoleAssignment | DeleteAssignment RoleAssignment
  | PutRole Role | DeleteRole uuid
  | PutGroup Group | DeleteGroup uuid
  | PutNamespace Namespace | DeleteNamespace uuid

fun apply_change :: "acl_change \<Rightarrow> acl_db \<Rightarrow> acl_db" where
  "apply_change (InsertMember m) db = db\<lparr>db_group_members := db_group_members db @ [m]\<rparr>"
| "apply_change (DeleteMember m) db = db\<lparr>db_group_members := remove1 m (db_group_members db)\<rparr>"
| "apply_change (InsertAssignment a) db = db\<lparr>db_role_assignments := db_role_assignments db @ [a]\<rparr>"
| "apply_change (DeleteAssignment a) db = db\<lparr>db_role_assignments := remove1 a (db_role_assignments db)\<rparr>"
| "apply_change (PutRole r) db =
     db\<lparr>db_roles := List.filter (\<lambda>x. role_id x \<noteq> role_id r) (db_roles db) @ [r]\<rparr>"
| "apply_change (DeleteRole i) db = db\<lparr>db_roles := List.filter (\<lambda>x. role_id x \<noteq> i) (db_roles db)\<rparr>"
| "apply_change (PutGroup g) db =
     db\<lparr>db_groups := List.filter (\<lambda>x. grp_id x \<noteq> grp_id g) (db_groups db) @ [g]\<rparr>"
| "apply_change (DeleteGroup i) db =
     db\<lparr>db_groups := List.filter (\<lambda>x. grp_id x \<noteq> i) (db_groups db),
        db_group_members := List.filter (\<lambda>m. mem_group_id m \<noteq> i) (db_group_members db),
        db_role_assignments := List.filter (\<lambda>a. asg_group_id a \<noteq> i) (db_role_assignments db)\<rparr>"
| "apply_change (PutNamespace n) db =
     db\<lparr>db_namespaces := List.filter (\<lambda>x. ns_id x \<noteq> ns_id n) (db_namespaces db) @ [n]\<rparr>"
| "apply_change (DeleteNamespace i) db =
     db\<lparr>db_namespaces := List.filter (\<lambda>x. ns_id x \<noteq> i) (db_namespaces db)\<rparr>"

fun kind_str :: "MemberType \<Rightarrow> string" where
  "kind_str MEMBER_USER = ''user''"
| "kind_str MEMBER_AGENT = ''agent''"
| "kind_str MEMBER_GROUP = ''group''"

text \<open>The broadcasts of a change: of its table, and each value it carries is the row's; values may be
  missing.\<close>

definition carries :: "string option \<Rightarrow> string \<Rightarrow> bool" where
  "carries value expected \<longleftrightarrow> value = None \<or> value = Some expected"

fun announces :: "acl_change \<Rightarrow> CacheInvalidationMessage \<Rightarrow> bool" where
  "announces (InsertMember m) msg \<longleftrightarrow> msg_table msg = TBL_GROUP_MEMBERS
     \<and> carries (column msg ''member_type'') (kind_str (mem_member_type m))
     \<and> carries (column msg ''member_id'') (uuid_str (mem_member_id m))"
| "announces (DeleteMember m) msg \<longleftrightarrow> msg_table msg = TBL_GROUP_MEMBERS
     \<and> carries (column msg ''member_type'') (kind_str (mem_member_type m))
     \<and> carries (column msg ''member_id'') (uuid_str (mem_member_id m))"
| "announces (InsertAssignment a) msg \<longleftrightarrow> msg_table msg = TBL_ROLE_ASSIGNMENTS
     \<and> carries (column msg ''group_id'') (uuid_str (asg_group_id a))"
| "announces (DeleteAssignment a) msg \<longleftrightarrow> msg_table msg = TBL_ROLE_ASSIGNMENTS
     \<and> carries (column msg ''group_id'') (uuid_str (asg_group_id a))"
| "announces (PutRole r) msg \<longleftrightarrow> msg_table msg = TBL_ROLES
     \<and> carries (key_part msg ROLE_ID_AT) (uuid_str (role_id r))"
| "announces (DeleteRole i) msg \<longleftrightarrow> msg_table msg = TBL_ROLES
     \<and> carries (key_part msg ROLE_ID_AT) (uuid_str i)"
| "announces (PutGroup g) msg \<longleftrightarrow> msg_table msg = TBL_GROUPS
     \<and> carries (key_part msg GROUP_ID_AT) (uuid_str (grp_id g))"
| "announces (DeleteGroup i) msg \<longleftrightarrow> msg_table msg = TBL_GROUPS
     \<and> carries (key_part msg GROUP_ID_AT) (uuid_str i)"
| "announces (PutNamespace n) msg \<longleftrightarrow> msg_table msg = TBL_NAMESPACES
     \<and> carries (key_part msg NAMESPACE_ID_AT) (uuid_str (ns_id n))"
| "announces (DeleteNamespace i) msg \<longleftrightarrow> msg_table msg = TBL_NAMESPACES
     \<and> carries (key_part msg NAMESPACE_ID_AT) (uuid_str i)"

definition acl_hears :: "acl_change \<Rightarrow> AclCache \<Rightarrow> AclCache \<Rightarrow> bool" where
  "acl_hears ch c c' \<longleftrightarrow> (\<exists>msg counts. announces ch msg \<and> c' = snd (on_row msg (counts, c)))"

section \<open>Entries, reads and stores\<close>

datatype acl_entry =
    MemberEntry ActorMembershipKey ActorMembershipEntry
  | ContributionEntry GroupNamespaceKey GroupNamespaceEntry

definition acl_entries :: "AclCache \<Rightarrow> acl_entry set" where
  "acl_entries c = (\<lambda>(k, e). MemberEntry k e) ` set (c_membership c)
     \<union> (\<lambda>(k, e). ContributionEntry k e) ` set (c_group_namespace c)"

fun acl_store :: "nat \<Rightarrow> acl_entry \<Rightarrow> AclCache \<Rightarrow> AclCache" where
  "acl_store f (MemberEntry k e) c = snd (put_membership k (ent_memberships e) (Some f) c)"
| "acl_store f (ContributionEntry k e) c =
     snd (put_group_namespace k (ent_actions e) (ent_trails e) (ent_role_ids e) (Some f) c)"

datatype acl_question =
    AskMembership ActorMembershipKey | AskContribution GroupNamespaceKey Namespace

text \<open>A question about a namespace carries the row the tables hold when the fence is taken.\<close>

fun acl_asks :: "acl_question \<Rightarrow> acl_db \<Rightarrow> bool" where
  "acl_asks (AskMembership key) db \<longleftrightarrow> actor_kind key \<in> {''user'', ''agent'', ''group''}"
| "acl_asks (AskContribution key ns) db \<longleftrightarrow> namespace_row db (gnk_namespace_id key) = Some ns"

definition load_members :: "acl_db \<Rightarrow> ActorMembershipKey \<Rightarrow> GroupMembership list" where
  "load_members db key =
     (let ml = CollectionMembershipLoader db in
      if actor_kind key = ''user'' then load_for_user ml (actor_id key)
      else if actor_kind key = ''agent'' then load_for_agent ml (actor_id key)
      else load_for_group ml (actor_id key))"

text \<open>The three reads behind a contribution happen one after another: assignments, roles, groups.\<close>

fun acl_reads :: "acl_question \<Rightarrow> acl_db list \<Rightarrow> acl_entry \<Rightarrow> bool" where
  "acl_reads (AskMembership key) dbs e \<longleftrightarrow>
     (\<exists>i < length dbs. e = MemberEntry key \<lparr>ent_memberships = load_members (dbs ! i) key\<rparr>)"
| "acl_reads (AskContribution key ns) dbs e \<longleftrightarrow>
     (\<exists>i j k as. i \<le> j \<and> j \<le> k \<and> k < length dbs
        \<and> as = List.filter (\<lambda>a. covers a ns) (List.filter (\<lambda>a. asg_group_id a = gnk_group_id key)
                 (RoleAssignmentCollection_load_for_groups (dbs ! i) [gnk_group_id key]))
        \<and> (\<exists>acts ts. (acts, ts) = walk_assignments as
              (load_roles (CollectionGrantLoader (dbs ! j)) (unique_ordered (map asg_role_id as)))
              (coerce_groups (load_groups (CollectionGrantLoader (dbs ! k)) [gnk_group_id key]))
              {gnk_group_id key} ns
           \<and> e = ContributionEntry key
               \<lparr>ent_actions = acts, ent_trails = ts, ent_role_ids = Some (asg_role_id ` set as)\<rparr>))"

text \<open>Whatever else touches the cache: a dropped table, a change of follower, the check of trust.\<close>

definition acl_loses :: "AclCache \<Rightarrow> AclCache \<Rightarrow> bool" where
  "acl_loses c c' \<longleftrightarrow> c' = snd (trusted_locked c) \<or> (\<exists>t. c' = on_table_dropped t c)
     \<or> (\<exists>w. c' = followed_by w c) \<or> (\<exists>w. c' = c\<lparr>c_watching := w\<rparr>)"

fun acl_ok :: "acl_db \<Rightarrow> acl_entry \<Rightarrow> bool" where
  "acl_ok db (MemberEntry k e) = member_coherent db k e"
| "acl_ok db (ContributionEntry k e) = contribution_coherent db k e"

fun member_reached :: "GroupMembership \<Rightarrow> acl_entry \<Rightarrow> bool" where
  "member_reached m (MemberEntry k e) \<longleftrightarrow>
     actor_kind k = kind_str (mem_member_type m) \<and> actor_id k = mem_member_id m"
| "member_reached m (ContributionEntry k e) \<longleftrightarrow> False"

fun group_reached :: "uuid \<Rightarrow> acl_entry \<Rightarrow> bool" where
  "group_reached g (MemberEntry k e) \<longleftrightarrow>
     k = group_key g \<or> (\<exists>m \<in> set (ent_memberships e). mem_group_id m = g)"
| "group_reached g (ContributionEntry k e) \<longleftrightarrow> gnk_group_id k = g"

fun assignment_reached :: "uuid \<Rightarrow> acl_entry \<Rightarrow> bool" where
  "assignment_reached g (MemberEntry k e) \<longleftrightarrow> False"
| "assignment_reached g (ContributionEntry k e) \<longleftrightarrow> gnk_group_id k = g"

fun role_reached :: "uuid \<Rightarrow> acl_entry \<Rightarrow> bool" where
  "role_reached r (MemberEntry k e) \<longleftrightarrow> False"
| "role_reached r (ContributionEntry k e) \<longleftrightarrow>
     (case ent_role_ids e of None \<Rightarrow> True | Some role_ids \<Rightarrow> r \<in> role_ids)"

fun namespace_reached :: "uuid \<Rightarrow> acl_entry \<Rightarrow> bool" where
  "namespace_reached n (MemberEntry k e) \<longleftrightarrow> False"
| "namespace_reached n (ContributionEntry k e) \<longleftrightarrow> gnk_namespace_id k = n"

fun acl_reaches :: "acl_change \<Rightarrow> acl_entry \<Rightarrow> bool" where
  "acl_reaches (InsertMember m) e = member_reached m e"
| "acl_reaches (DeleteMember m) e = member_reached m e"
| "acl_reaches (InsertAssignment a) e = assignment_reached (asg_group_id a) e"
| "acl_reaches (DeleteAssignment a) e = assignment_reached (asg_group_id a) e"
| "acl_reaches (PutRole r) e = role_reached (role_id r) e"
| "acl_reaches (DeleteRole i) e = role_reached i e"
| "acl_reaches (PutGroup g) e = group_reached (grp_id g) e"
| "acl_reaches (DeleteGroup i) e = group_reached i e"
| "acl_reaches (PutNamespace n) e = namespace_reached (ns_id n) e"
| "acl_reaches (DeleteNamespace i) e = namespace_reached i e"

section \<open>What a change leaves alone\<close>

lemma rows_by_filter_neq:
  "rows_by key (List.filter (\<lambda>x. key x \<noteq> i) rows) k = (if k = i then None else rows_by key rows k)"
  by (induction rows rule: rev_induct) auto

lemma set_remove1_other: "a \<noteq> x \<Longrightarrow> a \<in> set (remove1 x xs) \<longleftrightarrow> a \<in> set xs"
  by (induction xs) auto

text \<open>The parts of the tables one contribution depends on.\<close>

definition held_assignments_of :: "acl_db \<Rightarrow> uuid \<Rightarrow> RoleAssignment set" where
  "held_assignments_of db g = {a \<in> set (db_role_assignments db). asg_group_id a = g}"

lemma grant_chain_cong:
  assumes "held_assignments_of db g = held_assignments_of db' g"
    and "group_row db g = group_row db' g"
    and "\<forall>a \<in> held_assignments_of db g. covers a ns \<longrightarrow> role_row db (asg_role_id a) = role_row db' (asg_role_id a)"
  shows "grant_chain db ns {g} = grant_chain db' ns {g}"
proof -
  have "t \<in> grant_chain db ns {g} \<longleftrightarrow> t \<in> grant_chain db' ns {g}" for t
  proof (cases "asg_group_id (tr_assignment t) = g \<and> covers (tr_assignment t) ns
      \<and> tr_assignment t \<in> held_assignments_of db g")
    case True
    then have "tr_assignment t \<in> held_assignments_of db' g"
      "role_row db (asg_role_id (tr_assignment t)) = role_row db' (asg_role_id (tr_assignment t))"
      using assms(1,3) by auto
    with True assms(2) show ?thesis by (simp add: grant_chain_def held_assignments_of_def)
  next
    case False
    with assms(1) show ?thesis by (auto simp: grant_chain_def held_assignments_of_def)
  qed
  then show ?thesis by blast
qed

lemma contribution_coherent_cong:
  assumes "contribution_coherent db k e"
    and "namespace_row db' (gnk_namespace_id k) = namespace_row db (gnk_namespace_id k)"
    and "held_assignments_of db' (gnk_group_id k) = held_assignments_of db (gnk_group_id k)"
    and "group_row db' (gnk_group_id k) = group_row db (gnk_group_id k)"
    and "\<forall>r. (case ent_role_ids e of None \<Rightarrow> True | Some rs \<Rightarrow> r \<in> rs) \<longrightarrow> role_row db' r = role_row db r"
  shows "contribution_coherent db' k e"
  unfolding contribution_coherent_def
proof (intro allI impI)
  fix ns assume ns: "namespace_row db' (gnk_namespace_id k) = Some ns"
  have held: "{a \<in> set (db_role_assignments db'). asg_group_id a = gnk_group_id k \<and> covers a ns}
      = {a \<in> set (db_role_assignments db). asg_group_id a = gnk_group_id k \<and> covers a ns}"
    using assms(3) by (auto simp: held_assignments_of_def)
  have ok: "set (ent_trails e) = grant_chain db ns {gnk_group_id k}"
    "ent_actions e = granted_actions db ns {gnk_group_id k}"
    and ids: "case ent_role_ids e of None \<Rightarrow> True | Some rs \<Rightarrow>
      asg_role_id ` {a \<in> set (db_role_assignments db). asg_group_id a = gnk_group_id k \<and> covers a ns} \<subseteq> rs"
    using assms(1,2) ns by (auto simp: contribution_coherent_def)
  have "\<forall>a \<in> held_assignments_of db' (gnk_group_id k). covers a ns \<longrightarrow>
      role_row db' (asg_role_id a) = role_row db (asg_role_id a)"
    using ids assms(3,5) by (auto simp: held_assignments_of_def split: option.splits)
  then have "grant_chain db' ns {gnk_group_id k} = grant_chain db ns {gnk_group_id k}"
    by (intro grant_chain_cong) (use assms in auto)
  then show "set (ent_trails e) = grant_chain db' ns {gnk_group_id k}
    \<and> ent_actions e = granted_actions db' ns {gnk_group_id k}
    \<and> (case ent_role_ids e of None \<Rightarrow> True | Some rs \<Rightarrow> asg_role_id ` {a \<in> set (db_role_assignments db').
        asg_group_id a = gnk_group_id k \<and> covers a ns} \<subseteq> rs)"
    using ok ids unfolding held by (simp add: granted_actions_def)
qed

lemma filter_remove1_other:
  "\<not> P x \<Longrightarrow> {a \<in> set (remove1 x xs). P a} = {a \<in> set xs. P a}"
  using set_remove1_other [of _ x xs] by (metis (mono_tags, lifting))

lemma unreached_assignments:
  assumes "\<not> acl_reaches ch (ContributionEntry k e)"
  shows "held_assignments_of (apply_change ch db) (gnk_group_id k) = held_assignments_of db (gnk_group_id k)"
proof (cases ch)
  case (DeleteAssignment a)
  then show ?thesis
    using assms filter_remove1_other [of "\<lambda>x. asg_group_id x = gnk_group_id k" a "db_role_assignments db"]
    by (auto simp: held_assignments_of_def)
qed (use assms in \<open>auto simp: held_assignments_of_def\<close>)

lemma unreached_rows:
  assumes "\<not> acl_reaches ch (ContributionEntry k e)"
  shows "namespace_row (apply_change ch db) (gnk_namespace_id k) = namespace_row db (gnk_namespace_id k)"
    "group_row (apply_change ch db) (gnk_group_id k) = group_row db (gnk_group_id k)"
    "(case ent_role_ids e of None \<Rightarrow> True | Some rs \<Rightarrow> r \<in> rs) \<Longrightarrow>
       role_row (apply_change ch db) r = role_row db r"
proof -
  show "namespace_row (apply_change ch db) (gnk_namespace_id k) = namespace_row db (gnk_namespace_id k)"
    using assms by (cases ch) (auto simp: namespace_row_def rows_by_filter_neq)
  show "group_row (apply_change ch db) (gnk_group_id k) = group_row db (gnk_group_id k)"
    using assms by (cases ch) (auto simp: group_row_def rows_by_filter_neq)
  show "(case ent_role_ids e of None \<Rightarrow> True | Some rs \<Rightarrow> r \<in> rs) \<Longrightarrow>
      role_row (apply_change ch db) r = role_row db r"
    using assms by (cases ch) (auto simp: role_row_def rows_by_filter_neq split: option.splits)
qed

lemma unreached_member:
  assumes "\<not> acl_reaches ch (MemberEntry k e)" and "member_coherent db k e"
  shows "member_coherent (apply_change ch db) k e"
proof (cases ch)
  case (DeleteGroup i)
  have none: "\<forall>m \<in> set (ent_memberships e). mem_group_id m \<noteq> i"
    using assms(1) by (auto simp: DeleteGroup)
  have "member_rows (List.filter (\<lambda>m. mem_group_id m \<noteq> i) rows) mt a = member_rows rows mt a"
    if "member_rows (ent_memberships e) mt a = member_rows rows mt a" for rows mt a
    using that none by (auto simp: member_rows_def)
  with assms(2) show ?thesis unfolding member_coherent_def DeleteGroup by auto
next
  case (InsertMember m)
  have "member_rows (rows @ [m]) mt a = member_rows rows mt a"
    if "\<not> (mem_member_type m = mt \<and> mem_member_id m = a)" for rows mt a
    using that by (auto simp: member_rows_def)
  with assms show ?thesis
    by (cases "mem_member_type m") (auto simp: member_coherent_def InsertMember)
next
  case (DeleteMember m)
  have "member_rows (remove1 m rows) mt a = member_rows rows mt a"
    if "\<not> (mem_member_type m = mt \<and> mem_member_id m = a)" for rows mt a
    using that unfolding member_rows_def by (rule filter_remove1_other)
  with assms show ?thesis
    by (cases "mem_member_type m") (auto simp: member_coherent_def DeleteMember)
qed (use assms(2) in \<open>simp_all add: member_coherent_def\<close>)

lemma acl_unreached:
  assumes "acl_ok db e" and "\<not> acl_reaches ch e"
  shows "acl_ok (apply_change ch db) e"
proof (cases e)
  case (MemberEntry k x)
  with assms show ?thesis by (simp add: unreached_member)
next
  case (ContributionEntry k x)
  note un = assms(2) [unfolded ContributionEntry]
  have "contribution_coherent (apply_change ch db) k x"
    by (rule contribution_coherent_cong [where db = db])
      (use assms(1) un unreached_assignments [OF un] unreached_rows [OF un] in
        \<open>simp_all add: ContributionEntry\<close>)
  then show ?thesis by (simp add: ContributionEntry)
qed

section \<open>What a broadcast evicts\<close>

lemma broadcast_uuid_carries:
  "carries v (uuid_str u) \<Longrightarrow> broadcast_uuid v = None \<or> broadcast_uuid v = Some u"
  by (auto simp: carries_def broadcast_uuid_def)

lemma member_kind_carries:
  "carries v (kind_str mt) \<Longrightarrow> member_kind v = None \<or> member_kind v = Some (kind_str mt)"
  by (cases mt) (auto simp: carries_def member_kind_def)

lemma acl_entries_evict_group_row:
  "acl_entries (evict_group_row g c) \<subseteq> {e \<in> acl_entries c. \<not> group_reached g e}"
  by (auto simp: acl_entries_def evict_group_row_def invalidate_group_def Let_def group_key_def
      AList.delete_eq list_ex_iff)

lemma acl_entries_evict_role_row:
  "acl_entries (evict_role_row r c) \<subseteq> {e \<in> acl_entries c. \<not> role_reached r e}"
  by (auto simp: acl_entries_def evict_role_row_def split: option.splits)

lemma acl_entries_invalidate_group:
  "acl_entries (invalidate_group g c) \<subseteq> {e \<in> acl_entries c. \<not> assignment_reached g e}"
  by (auto simp: acl_entries_def invalidate_group_def)

lemma acl_entries_invalidate_namespace:
  "acl_entries (invalidate_namespace n c) \<subseteq> {e \<in> acl_entries c. \<not> namespace_reached n e}"
  by (auto simp: acl_entries_def invalidate_namespace_def)

lemma acl_entries_invalidate_membership:
  "acl_entries (invalidate_membership \<lparr>actor_kind = kind_str (mem_member_type m), actor_id = mem_member_id m\<rparr> c)
     \<subseteq> {e \<in> acl_entries c. \<not> member_reached m e}"
  by (auto simp: acl_entries_def invalidate_membership_def AList.delete_eq)

lemma acl_entries_drop:
  "acl_entries (drop_membership_layer c) \<subseteq> {e \<in> acl_entries c. \<not> member_reached m e}"
  "acl_entries (drop_assignment_layers c) \<subseteq> {e \<in> acl_entries c. \<not> assignment_reached g e}"
  "acl_entries (drop_assignment_layers c) \<subseteq> {e \<in> acl_entries c. \<not> role_reached g e}"
  "acl_entries (drop_assignment_layers c) \<subseteq> {e \<in> acl_entries c. \<not> namespace_reached g e}"
  "acl_entries (empty_locked c) = {}"
  by (auto simp: acl_entries_def drop_membership_layer_def drop_assignment_layers_def empty_locked_def)

lemma on_group_member_evicts:
  assumes "carries (column msg ''member_type'') (kind_str (mem_member_type m))"
    and "carries (column msg ''member_id'') (uuid_str (mem_member_id m))"
  shows "acl_entries (snd (on_group_member msg (counts, c))) \<subseteq> {e \<in> acl_entries c. \<not> member_reached m e}"
  using member_kind_carries [OF assms(1)] broadcast_uuid_carries [OF assms(2)]
    acl_entries_drop(1) [of c m] acl_entries_invalidate_membership [of m c]
  by (auto simp: on_group_member_def evict_group_member_row_def invalidate_membership_for_actor_def)

lemma on_role_assignment_evicts:
  assumes "carries (column msg ''group_id'') (uuid_str g)"
  shows "acl_entries (snd (on_role_assignment msg (counts, c)))
    \<subseteq> {e \<in> acl_entries c. \<not> assignment_reached g e}"
  using broadcast_uuid_carries [OF assms] acl_entries_drop(2) [of c g]
    acl_entries_invalidate_group [of g c]
  by (auto simp: on_role_assignment_def evict_role_assignment_row_def)

lemma on_role_evicts:
  assumes "carries (key_part msg ROLE_ID_AT) (uuid_str r)"
  shows "acl_entries (snd (on_role msg (counts, c))) \<subseteq> {e \<in> acl_entries c. \<not> role_reached r e}"
  using broadcast_uuid_carries [OF assms] acl_entries_drop(3) [of c r] acl_entries_evict_role_row [of r c]
  by (auto simp: on_role_def)

lemma on_group_evicts:
  assumes "carries (key_part msg GROUP_ID_AT) (uuid_str g)"
  shows "acl_entries (snd (on_group msg (counts, c))) \<subseteq> {e \<in> acl_entries c. \<not> group_reached g e}"
  using broadcast_uuid_carries [OF assms] acl_entries_drop(5) [of c] acl_entries_evict_group_row [of g c]
  by (auto simp: on_group_def invalidate_all_def)

lemma on_namespace_evicts:
  assumes "carries (key_part msg NAMESPACE_ID_AT) (uuid_str n)"
  shows "acl_entries (snd (on_namespace msg (counts, c))) \<subseteq> {e \<in> acl_entries c. \<not> namespace_reached n e}"
  using broadcast_uuid_carries [OF assms] acl_entries_drop(4) [of c n]
    acl_entries_invalidate_namespace [of n c]
  by (auto simp: on_namespace_def)

lemmas table_names =
  TBL_GROUPS_def TBL_GROUP_MEMBERS_def TBL_ROLES_def TBL_ROLE_ASSIGNMENTS_def TBL_NAMESPACES_def

lemma acl_hears_evicts:
  assumes "acl_hears ch c c'"
  shows "acl_entries c' \<subseteq> {e \<in> acl_entries c. \<not> acl_reaches ch e}"
proof -
  from assms obtain msg counts where msg: "announces ch msg" and c': "c' = snd (on_row msg (counts, c))"
    by (auto simp: acl_hears_def)
  show ?thesis unfolding c'
    using msg on_group_member_evicts [of msg _ counts c] on_role_assignment_evicts [of msg _ counts c]
      on_role_evicts [of msg _ counts c] on_group_evicts [of msg _ counts c]
      on_namespace_evicts [of msg _ counts c]
    by (cases ch) (simp_all add: on_row_def table_names)
qed

lemma acl_hears_fence: "acl_hears ch c c' \<Longrightarrow> c_evictions c < c_evictions c'"
proof -
  assume "acl_hears ch c c'"
  then obtain msg counts where msg: "announces ch msg" and c': "c' = snd (on_row msg (counts, c))"
    by (auto simp: acl_hears_def)
  have "msg_table msg \<in> set ACCESS_TABLES" using msg by (cases ch) (auto simp: ACCESS_TABLES_def)
  then show "c_evictions c < c_evictions c'" by (simp add: c' on_row_moves_fence)
qed

section \<open>Stores and losses\<close>

lemma trusted_locked_facts:
  "acl_entries (snd (trusted_locked c)) \<subseteq> acl_entries c"
  "c_evictions c \<le> c_evictions (snd (trusted_locked c))"
  "fst (trusted_locked c) \<Longrightarrow> snd (trusted_locked c) = c"
  by (cases c rule: trusted_locked_cases; simp add: acl_entries_def empty_locked_def)+

lemma fence_moved_facts:
  "acl_entries (snd (fence_moved f c)) = acl_entries c"
  "c_evictions (snd (fence_moved f c)) = c_evictions c"
  "\<not> fst (fence_moved (Some n) c) \<Longrightarrow> n = c_evictions c"
  by (simp_all add: fence_moved_def Let_def acl_entries_def)

lemma may_store_facts:
  "acl_entries (snd (may_store f c)) \<subseteq> acl_entries c"
  "c_evictions c \<le> c_evictions (snd (may_store f c))"
  "fst (may_store (Some n) c) \<Longrightarrow> n = c_evictions c"
  using trusted_locked_facts [of c]
  by (auto simp: may_store_def split_beta fence_moved_facts dest: fence_moved_facts(3) split: if_splits)

lemma acl_store_entries: "acl_entries (acl_store f e c) \<subseteq> insert e (acl_entries c)"
  using may_store_facts(1) [of "Some f" c]
  by (cases e) (auto simp: put_membership_def put_group_namespace_def acl_entries_def split_beta Let_def
      dest!: set_alist_update)

lemma acl_store_stale: "f \<noteq> read_fence c \<Longrightarrow> acl_entries (acl_store f e c) \<subseteq> acl_entries c"
  using may_store_facts(1) [of "Some f" c] may_store_facts(3) [of f c]
  by (cases e) (auto simp: put_membership_def put_group_namespace_def split_beta Let_def read_fence_def)

lemma acl_store_fence: "read_fence c \<le> read_fence (acl_store f e c)"
  using may_store_facts(2) [of c "Some f"]
  by (cases e) (auto simp: put_membership_def put_group_namespace_def split_beta Let_def read_fence_def)

lemma acl_loses_facts:
  assumes "acl_loses c c'"
  shows "acl_entries c' \<subseteq> acl_entries c" "read_fence c \<le> read_fence c'"
  using assms trusted_locked_facts [of c]
  by (auto simp: acl_loses_def read_fence_def on_table_dropped_def followed_by_def Let_def
      acl_entries_def eviction_defs split: if_splits)

section \<open>Reads that writes overtake\<close>

lemma acl_ok_later:
  assumes "acl_ok (states apply_change db chs ! i) e" and "i \<le> j" and "j < length (states apply_change db chs)"
    and "\<forall>ch \<in> set chs. \<not> acl_reaches ch e"
  shows "acl_ok (states apply_change db chs ! j) e"
  by (rule states_invariant [of "\<lambda>d. acl_ok d e", OF assms(1-3)]) (use assms(4) acl_unreached in blast)

lemma load_members_coherent:
  "actor_kind key \<in> {''user'', ''agent'', ''group''} \<Longrightarrow>
   member_coherent db key \<lparr>ent_memberships = load_members db key\<rparr>"
  using db_source.user_rows [of db "actor_id key"] db_source.agent_rows [of db "actor_id key"]
    db_source.group_rows [of db "actor_id key"]
  by (auto simp: member_coherent_def load_members_def)

lemma acl_torn_contribution:
  assumes ns: "namespace_row db (gnk_namespace_id key) = Some ns"
    and order: "i \<le> j" "j \<le> k" "k < length (states apply_change db chs)"
    and as: "as = List.filter (\<lambda>a. covers a ns) (List.filter (\<lambda>a. asg_group_id a = gnk_group_id key)
      (RoleAssignmentCollection_load_for_groups (states apply_change db chs ! i) [gnk_group_id key]))"
    and walk: "(acts, ts) = walk_assignments as
      (load_roles (CollectionGrantLoader (states apply_change db chs ! j)) (unique_ordered (map asg_role_id as)))
      (coerce_groups (load_groups (CollectionGrantLoader (states apply_change db chs ! k)) [gnk_group_id key]))
      {gnk_group_id key} ns"
    and e: "e = \<lparr>ent_actions = acts, ent_trails = ts, ent_role_ids = Some (asg_role_id ` set as)\<rparr>"
    and unreached: "\<forall>ch \<in> set chs. \<not> acl_reaches ch (ContributionEntry key e)"
  shows "contribution_coherent (last (states apply_change db chs)) key e"
proof -
  let ?S = "states apply_change db chs" and ?g = "gnk_group_id key"
  define L where "L = last ?S"
  have L: "?S ! length chs = L" unfolding L_def by (simp add: last_conv_nth)
  have nth0: "?S ! 0 = db" by (cases chs) auto
  have later: "P L" if "P (?S ! n)" "n < length ?S"
    "\<And>ch d. ch \<in> set chs \<Longrightarrow> P d \<Longrightarrow> P (apply_change ch d)" for P n
  proof -
    have "P (?S ! length chs)" by (rule states_invariant [of P, OF that(1)]) (use that in auto)
    then show ?thesis by (simp add: L)
  qed
  have un: "\<not> acl_reaches ch (ContributionEntry key e)" if "ch \<in> set chs" for ch
    using unreached that by blast
  have nsL: "namespace_row L (gnk_namespace_id key) = Some ns"
    by (rule later [of "\<lambda>d. namespace_row d (gnk_namespace_id key) = Some ns" 0]) (simp_all add: ns nth0 unreached_rows(1) [OF un])
  have held: "held_assignments_of L ?g = held_assignments_of (?S ! i) ?g"
    by (rule later [of "\<lambda>d. held_assignments_of d ?g = held_assignments_of (?S ! i) ?g" i]) (use order in \<open>simp_all add: unreached_assignments [OF un]\<close>)
  have grp: "group_row L ?g = group_row (?S ! k) ?g"
    by (rule later [of "\<lambda>d. group_row d ?g = group_row (?S ! k) ?g" k]) (use order in \<open>simp_all add: unreached_rows(2) [OF un]\<close>)
  have role: "role_row L r = role_row (?S ! j) r" if "r \<in> asg_role_id ` set as" for r
    by (rule later [of "\<lambda>d. role_row d r = role_row (?S ! j) r" j]) (use order that in \<open>simp_all add: unreached_rows(3) [OF un] e\<close>)
  have setas: "{a \<in> set as. asg_group_id a = ?g \<and> covers a ns} = held_by L ?g ns"
    using held unfolding as
    by (auto simp: held_by_def held_assignments_of_def RoleAssignmentCollection_load_for_groups_def)
  have roles: "\<forall>a \<in> set as. load_roles (CollectionGrantLoader (?S ! j)) (unique_ordered (map asg_role_id as))
      (asg_role_id a) = role_row L (asg_role_id a)"
    using role db_source.roles [where db = "?S ! j" and rs = "unique_ordered (map asg_role_id as)"] by simp
  have groups: "coerce_groups (load_groups (CollectionGrantLoader (?S ! k)) [?g]) ?g = group_row L ?g"
    using db_source.groups [where db = "?S ! k" and gs = "[?g]" and g = ?g] unfolding grp
    by (cases "group_row (?S ! k) ?g") (simp_all add: coerce_groups_def)
  have "set ts = grant_chain L ns {?g}" "acts = granted_actions L ns {?g}"
    using walk_assignments_correct [of as ?g ns L
        "load_roles (CollectionGrantLoader (?S ! j)) (unique_ordered (map asg_role_id as))"
        "coerce_groups (load_groups (CollectionGrantLoader (?S ! k)) [?g])", OF setas roles groups]
      walk [symmetric] by auto
  moreover have "asg_role_id ` {a \<in> set (db_role_assignments L). asg_group_id a = ?g \<and> covers a ns}
      \<subseteq> asg_role_id ` set as"
    using setas by (auto simp: held_by_def)
  ultimately show ?thesis using nsL unfolding L_def [symmetric] by (simp add: contribution_coherent_def e)
qed

lemma acl_torn_reads:
  assumes "acl_asks q db" and "acl_reads q (states apply_change db chs) e"
    and "\<forall>ch \<in> set chs. \<not> acl_reaches ch e"
  shows "acl_ok (last (states apply_change db chs)) e"
proof (cases q)
  case (AskMembership key)
  with assms(2) obtain i where i: "i < length (states apply_change db chs)"
    and e: "e = MemberEntry key \<lparr>ent_memberships = load_members (states apply_change db chs ! i) key\<rparr>"
    by auto
  have "acl_ok (states apply_change db chs ! i) e"
    using load_members_coherent assms(1) AskMembership by (simp add: e)
  from acl_ok_later [OF this, of "length chs"] i assms(3) show ?thesis
    by (simp add: last_conv_nth)
next
  case (AskContribution key ns)
  obtain i j k as acts ts where r: "i \<le> j" "j \<le> k" "k < length (states apply_change db chs)"
    "as = List.filter (\<lambda>a. covers a ns) (List.filter (\<lambda>a. asg_group_id a = gnk_group_id key)
      (RoleAssignmentCollection_load_for_groups (states apply_change db chs ! i) [gnk_group_id key]))"
    "(acts, ts) = walk_assignments as
      (load_roles (CollectionGrantLoader (states apply_change db chs ! j)) (unique_ordered (map asg_role_id as)))
      (coerce_groups (load_groups (CollectionGrantLoader (states apply_change db chs ! k)) [gnk_group_id key]))
      {gnk_group_id key} ns"
    and e: "e = ContributionEntry key
      \<lparr>ent_actions = acts, ent_trails = ts, ent_role_ids = Some (asg_role_id ` set as)\<rparr>"
    using assms(2) unfolding AskContribution acl_reads.simps by (elim exE conjE) (rule that; assumption)
  have "namespace_row db (gnk_namespace_id key) = Some ns" using assms(1) AskContribution by simp
  from acl_torn_contribution [OF this r refl] assms(3) show ?thesis by (simp add: e)
qed

interpretation acl_follow: derived_cache apply_change acl_hears acl_entries read_fence acl_store acl_asks
  acl_reads acl_loses acl_ok acl_reaches
proof unfold_locales
  show "acl_ok db e \<Longrightarrow> \<not> acl_reaches ch e \<Longrightarrow> acl_ok (apply_change ch db) e" for db e ch
    by (rule acl_unreached)
  show "acl_hears ch c c' \<Longrightarrow> acl_entries c' \<subseteq> {e \<in> acl_entries c. \<not> acl_reaches ch e}" for ch c c'
    by (rule acl_hears_evicts)
  show "acl_hears ch c c' \<Longrightarrow> read_fence c < read_fence c'" for ch c c'
    unfolding read_fence_def by (rule acl_hears_fence)
qed (rule acl_store_entries acl_store_stale acl_store_fence acl_loses_facts acl_torn_reads; assumption)+

section \<open>Properties\<close>

definition acl_step ::
  "(acl_db, AclCache, acl_change, acl_question) fenced_state \<Rightarrow>
   (acl_db, AclCache, acl_change, acl_question) fenced_state \<Rightarrow> bool" where
  "acl_step = fenced_step apply_change acl_hears read_fence acl_store acl_asks acl_reads acl_loses"

lemma acl_ok_coherent: "(\<forall>e \<in> acl_entries c. acl_ok db e) \<longleftrightarrow> coherent db c"
  by (simp add: acl_entries_def coherent_def ball_Un split_beta)



section \<open>The namespace value is outside the fence\<close>

text \<open>The reads behind an entry start when the fence is taken, but the namespace value comes with the
  question and may be older.  Group 3 is granted the subtree \<open>tools.a\<close>; the namespace 7 has been
  renamed from \<open>tools.a\<close> to \<open>tools.b\<close>, and the cache has heard of it.  A question still
  carrying the old row stores its answer under the namespace's id, and the next question, with the
  current row, is answered from it.\<close>

definition renamed_namespace :: "string \<Rightarrow> Namespace" where
  "renamed_namespace name = \<lparr>ns_id = 7, ns_customer_id = None, ns_namespace_type = ''tool'',
     ns_owner_agent_id = None, ns_name = Some name, ns_owner_namespace = None\<rparr>"

definition renamed_db :: acl_db where
  "renamed_db =
     \<lparr>db_groups = [\<lparr>grp_id = 3, grp_name = ''callers'', grp_customer_id = None\<rparr>],
      db_group_members = [],
      db_roles = [\<lparr>role_id = 4, role_name = ''Caller'', role_permissions = [''tool'' \<mapsto> {''call''}],
                   role_is_built_in = True, role_customer_id = None\<rparr>],
      db_role_assignments = [\<lparr>asg_id = 5, asg_role_id = 4, asg_group_id = 3,
                   asg_scope_type = SCOPE_SUBTREE, asg_scope_namespace_id = None,
                   asg_scope_namespace_type = None, asg_scope_customer_id = None,
                   asg_scope_namespace_name = Some ''tools.a''\<rparr>],
      db_namespaces = [renamed_namespace ''tools.b'']\<rparr>"

definition renamed_cache :: AclCache where
  "renamed_cache = new_AclCache (CollectionMembershipLoader renamed_db) (CollectionGrantLoader renamed_db)"

definition renamed_ctx :: "string \<Rightarrow> EvaluationContext" where
  "renamed_ctx name = \<lparr>ctx_namespace = renamed_namespace name, ctx_action = ''call'',
     ctx_user_id = None, ctx_agent_id = None, ctx_group_id = Some 3\<rparr>"

lemmas evaluation_defs =
  evaluate_decision_def evaluate_with_trail_def evaluate_many_with_trail_def check_context_def plan_def
  planner_groups_def expand_group_parents_def unique_ordered_def group_namespace_contributions_def
  new_AclCache_def get_group_namespace_def trusted_locked_def CollectionGrantLoader_def
  RoleAssignmentCollection_load_for_groups_def RoleCollection_get_many_def GroupCollection_get_many_def
  rows_by_def walk_assignments_def walk_assignment_def covers_def coerce_groups_def
  put_group_namespace_def may_store_def fence_moved_def read_fence_def answer_def accumulate_groups_def
  assemble_result_def actions_for_def perm_get_def WILDCARD_RESOURCE_TYPE_def List.map_filter_simps

text \<open>C36: a caller that still holds a namespace from before a rename leaves, under the namespace's id, an
  answer computed for the old name; a later caller with the current value is given that answer.\<close>

lemma stale_namespace_answer_is_cached:
  "backed_by renamed_db renamed_cache \<and> asked_in renamed_db (renamed_ctx ''tools.b'')
   \<and> fst (evaluate_decision 1 (renamed_ctx ''tools.b'') renamed_cache) = Inr False
   \<and> fst (evaluate_decision 1 (renamed_ctx ''tools.b'')
        (snd (evaluate_decision 1 (renamed_ctx ''tools.a'') renamed_cache))) = Inr True"
proof (intro conjI)
  show "backed_by renamed_db renamed_cache" "asked_in renamed_db (renamed_ctx ''tools.b'')"
    by (simp_all add: backed_by_def asked_in_def renamed_cache_def coherent_new new_AclCache_def coherent_def
        renamed_ctx_def check_context_def namespace_row_def rows_by_def renamed_db_def renamed_namespace_def)
  show "fst (evaluate_decision 1 (renamed_ctx ''tools.b'') renamed_cache) = Inr False"
    by (simp add: evaluation_defs renamed_ctx_def renamed_namespace_def renamed_cache_def renamed_db_def
        namespace_contains_def NAMESPACE_NAME_SEPARATOR_def)
  show "fst (evaluate_decision 1 (renamed_ctx ''tools.b'')
        (snd (evaluate_decision 1 (renamed_ctx ''tools.a'') renamed_cache))) = Inr True"
    by (simp add: evaluation_defs renamed_ctx_def renamed_namespace_def renamed_cache_def renamed_db_def
        namespace_contains_def NAMESPACE_NAME_SEPARATOR_def)
qed

end
