(* ===== verification/AclWalls.thy ===== *)
theory AclWalls
  imports AclCorrect
begin

text \<open>
  The customer walls hold whatever the loaders return.  Nothing is assumed of the two loaders here: they
  may answer for the wrong actor, return assignments of other groups, roles and groups of other
  customers.  Every grant chain an evaluation reports still covers the namespace and crosses neither
  the group wall nor the role wall, and every action it reports comes from such a chain.
\<close>

section \<open>Walled entries\<close>

definition walled :: "Namespace \<Rightarrow> Trail \<Rightarrow> bool" where
  "walled ns t \<longleftrightarrow> covers (tr_assignment t) ns
     \<and> in_customer (grp_customer_id (tr_group t)) (ns_customer_id ns)
     \<and> in_customer (role_customer_id (tr_role t)) (ns_customer_id ns)
     \<and> tr_contributed_actions t = actions_for (tr_role t) (ns_namespace_type ns)"

definition contribution_walled :: "Namespace \<Rightarrow> string set \<times> Trail list \<Rightarrow> bool" where
  "contribution_walled ns = (\<lambda>(acts, ts). (\<forall>t \<in> set ts. walled ns t)
     \<and> acts = (\<Union>t \<in> set ts. tr_contributed_actions t))"

text \<open>Every entry a cache holds for a known namespace is walled; \<open>N\<close> says which namespaces are
  asked about.\<close>

definition cache_walled :: "(uuid \<rightharpoonup> Namespace) \<Rightarrow> AclCache \<Rightarrow> bool" where
  "cache_walled N c \<longleftrightarrow> (\<forall>(key, e) \<in> set (c_group_namespace c). \<forall>ns.
     N (gnk_namespace_id key) = Some ns \<longrightarrow> contribution_walled ns (ent_actions e, ent_trails e))"

lemma cache_walled_shrink:
  "cache_walled N c \<Longrightarrow> set (c_group_namespace c') \<subseteq> set (c_group_namespace c) \<Longrightarrow> cache_walled N c'"
  by (auto simp: cache_walled_def)

section \<open>Membership reads leave the layer alone\<close>

abbreviation gn_entries :: "AclCache \<Rightarrow> (GroupNamespaceKey \<times> GroupNamespaceEntry) set" where
  "gn_entries c \<equiv> set (c_group_namespace c)"

lemma gn_trusted: "gn_entries (snd (trusted_locked c)) \<subseteq> gn_entries c"
  by (simp add: trusted_locked_alt empty_locked_def)

lemma gn_may_store: "gn_entries (snd (may_store f c)) \<subseteq> gn_entries c"
  by (simp add: may_store_def trusted_locked_alt fence_moved_def Let_def split_beta empty_locked_def)

lemma gn_get_membership: "gn_entries (snd (get_membership k c)) \<subseteq> gn_entries c"
  using gn_trusted [of c] by (simp add: get_membership_def split_beta Let_def)

lemma gn_put_membership: "gn_entries (snd (put_membership k ms f c)) \<subseteq> gn_entries c"
  using gn_may_store [of f c] by (simp add: put_membership_def split_beta Let_def)

lemma gn_direct_groups: "gn_entries (snd (direct_groups a mt ns c)) \<subseteq> gn_entries c"
  unfolding direct_groups_def Let_def split_beta
  using gn_get_membership gn_put_membership
  by (auto split: option.splits) (meson subsetD)+

lemma gn_cached_parent_rows: "gn_entries (snd (snd (cached_parent_rows gs rows missing c))) \<subseteq> gn_entries c"
proof (induction gs arbitrary: rows missing c)
  case (Cons g gs)
  show ?case
    using Cons.IH gn_get_membership [of "group_key g" c]
    by (auto simp: split_beta split: option.splits) (meson subsetD)+
qed simp

lemma gn_store_parent_rows: "gn_entries (snd (store_parent_rows f loaded gs rows c)) \<subseteq> gn_entries c"
proof (induction gs arbitrary: rows c)
  case (Cons g gs)
  show ?case using Cons.IH gn_put_membership by (simp add: Let_def) (meson subset_trans)
qed simp

lemma gn_read_parent_rows: "gn_entries (snd (read_parent_rows gs rows c)) \<subseteq> gn_entries c"
proof (induction gs arbitrary: rows c)
  case (Cons g gs)
  show ?case using Cons.IH gn_put_membership by (simp add: Let_def) (meson subset_trans)
qed simp

lemma gn_parent_rows: "gn_entries (snd (parent_rows gs c)) \<subseteq> gn_entries c"
proof -
  obtain rows missing c1 where e: "cached_parent_rows gs Map.empty [] c = (rows, missing, c1)"
    by (metis prod_cases3)
  have "gn_entries c1 \<subseteq> gn_entries c" using gn_cached_parent_rows [of gs Map.empty "[]" c] e by simp
  then show ?thesis
    using gn_store_parent_rows gn_read_parent_rows
    by (simp add: parent_rows_def e split: option.splits) (meson subset_trans)
qed

lemma gn_expand_rounds: "gn_entries (snd (expand_rounds n seen frontier ns c)) \<subseteq> gn_entries c"
proof (induction n arbitrary: seen frontier c)
  case (Suc n)
  show ?case using Suc.IH gn_parent_rows [of frontier c]
    by (simp add: split_beta Let_def) (meson subset_trans)
qed simp

lemma gn_planner_groups:
  "gn_entries (snd (snd (planner_groups d kind a ns s))) \<subseteq> gn_entries (snd s)"
proof -
  have "gn_entries (snd (expand_group_parents d gs ns (snd (direct_groups a mt ns (snd s)))))
      \<subseteq> gn_entries (snd s)" for gs mt
    using gn_expand_rounds gn_direct_groups unfolding expand_group_parents_def by (meson subset_trans)
  moreover have "gn_entries (snd (expand_group_parents d gs ns (snd s))) \<subseteq> gn_entries (snd s)" for gs
    unfolding expand_group_parents_def by (rule gn_expand_rounds)
  ultimately show ?thesis
    by (auto simp: planner_groups_def split_beta Let_def split: option.splits if_splits)
qed

lemma gn_plan: "gn_entries (snd (snd (plan d ctx s))) \<subseteq> gn_entries (snd s)"
proof -
  let ?ns = "ctx_namespace ctx"
  define r0 where "r0 = (case ctx_group_id ctx of None \<Rightarrow> ([], s)
    | Some g \<Rightarrow> planner_groups d ''group'' g ?ns s)"
  define r1 where "r1 = (case ctx_user_id ctx of None \<Rightarrow> (fst r0, snd r0)
    | Some u \<Rightarrow> planner_groups d ''user'' u ?ns (snd r0))"
  have "gn_entries (snd (snd r0)) \<subseteq> gn_entries (snd s)"
    by (simp add: r0_def gn_planner_groups split: option.splits)
  moreover have "gn_entries (snd (snd r1)) \<subseteq> gn_entries (snd (snd r0))"
    by (simp add: r1_def gn_planner_groups split: option.splits)
  moreover have "gn_entries (snd (snd (plan d ctx s))) \<subseteq> gn_entries (snd (snd r1))"
    unfolding plan_def Let_def split_beta r0_def [symmetric] r1_def [symmetric]
    by (simp add: gn_planner_groups split: option.splits)
  ultimately show ?thesis by (meson subset_trans)
qed

lemma gn_plan_all: "gn_entries (snd (snd (plan_all d ctxs s))) \<subseteq> gn_entries (snd s)"
proof (induction ctxs arbitrary: s)
  case (Cons ctx ctxs)
  show ?case using Cons.IH gn_plan [of d ctx s]
    by (simp add: split_beta Let_def) (meson subset_trans)
qed simp

section \<open>Contributions\<close>

lemma walk_walled:
  "contribution_walled ns (walk_assignments as roles groups gs ns)"
proof -
  have "\<forall>t \<in> set (snd (walk_assignments as roles groups gs ns)). walled ns t"
    by (auto simp: set_walk_assignments walk_assignment_Some walled_def)
  then show ?thesis by (simp add: contribution_walled_def split_beta fst_walk_assignments)
qed

definition result_walled :: "(uuid \<rightharpoonup> Namespace) \<Rightarrow> contributions \<Rightarrow> bool" where
  "result_walled N result \<longleftrightarrow> (\<forall>key v ns. result key = Some v \<longrightarrow> N (gnk_namespace_id key) = Some ns \<longrightarrow>
     contribution_walled ns v)"

lemma cache_walled_get:
  assumes "cache_walled N c" and "get_group_namespace key c = (e, c')"
  shows "cache_walled N c' \<and> (\<forall>x ns. e = Some x \<longrightarrow> N (gnk_namespace_id key) = Some ns \<longrightarrow>
    contribution_walled ns (ent_actions x, ent_trails x))"
proof -
  have c': "c' = snd (trusted_locked c)" and e: "e = (if fst (trusted_locked c) then map_of (c_group_namespace c') key else None)"
    using assms(2) by (auto simp: get_group_namespace_def split_beta Let_def)
  have "cache_walled N c'" unfolding c' by (rule cache_walled_shrink [OF assms(1) gn_trusted])
  then show ?thesis unfolding e by (auto simp: cache_walled_def dest!: map_of_SomeD)
qed

lemma cache_walled_put:
  assumes "cache_walled N c" and "\<And>ns. N (gnk_namespace_id key) = Some ns \<Longrightarrow> contribution_walled ns (acts, ts)"
  shows "cache_walled N (snd (put_group_namespace key acts ts rs f c))"
  using cache_walled_shrink [OF assms(1) gn_may_store, of f] assms(2)
  by (auto simp: put_group_namespace_def split_beta Let_def cache_walled_def dest!: set_alist_update)

lemma cached_contributions_walled:
  assumes "cache_walled N c" and "result_walled N result"
    and "cached_contributions wanted result missing c = (result', missing', c')"
    and "\<forall>(key, ns) \<in> set wanted \<union> set missing. N (gnk_namespace_id key) = Some ns"
  shows "cache_walled N c' \<and> result_walled N result'
    \<and> (\<forall>(key, ns) \<in> set missing'. N (gnk_namespace_id key) = Some ns)"
  using assms
proof (induction wanted arbitrary: result missing c)
  case (Cons w wanted)
  obtain key ns where w: "w = (key, ns)" by fastforce
  obtain e c1 where e: "get_group_namespace key c = (e, c1)" by fastforce
  note g = cache_walled_get [OF Cons.prems(1) e]
  show ?case
  proof (cases e)
    case None
    have "\<forall>(key, ns) \<in> set wanted \<union> set (AList.update key ns missing). N (gnk_namespace_id key) = Some ns"
      using Cons.prems(4) by (auto simp: w dest!: set_alist_update)
    with Cons.IH [of c1 result "AList.update key ns missing"] g Cons.prems(2,3) None e show ?thesis
      by (simp add: w)
  next
    case (Some x)
    have "result_walled N (result(key \<mapsto> (ent_actions x, ent_trails x)))"
      using Cons.prems(2) g Some by (auto simp: result_walled_def)
    moreover have "cached_contributions wanted (result(key \<mapsto> (ent_actions x, ent_trails x))) missing c1
        = (result', missing', c')" using Cons.prems(3) e Some by (simp add: w)
    ultimately show ?thesis
      by (rule Cons.IH [OF conjunct1 [OF g]]) (use Cons.prems(4) in simp)
  qed
qed auto

lemma store_contributions_walled:
  assumes "cache_walled N c" and "result_walled N result"
    and "store_contributions f held roles groups missing result c = (result', c')"
    and "\<forall>(key, ns) \<in> set missing. N (gnk_namespace_id key) = Some ns"
  shows "cache_walled N c' \<and> result_walled N result'"
  using assms
proof (induction missing arbitrary: result c)
  case (Cons m missing)
  obtain key ns where m: "m = (key, ns)" by fastforce
  let ?as = "the (map_of held (gnk_group_id key, gnk_namespace_id key))"
  let ?w = "walk_assignments ?as roles groups {gnk_group_id key} ns"
  let ?c = "snd (put_group_namespace key (fst ?w) (snd ?w) (Some (asg_role_id ` set ?as)) (Some f) c)"
  have ns: "N (gnk_namespace_id key) = Some ns" using Cons.prems(4) by (simp add: m)
  have w: "contribution_walled ns (fst ?w, snd ?w)" by (simp add: walk_walled)
  have c: "cache_walled N ?c"
    by (rule cache_walled_put [OF Cons.prems(1)]) (use ns w in simp)
  have r: "result_walled N (result(key \<mapsto> (fst ?w, snd ?w)))"
    using Cons.prems(2) ns w by (auto simp: result_walled_def)
  have "store_contributions f held roles groups missing (result(key \<mapsto> (fst ?w, snd ?w))) ?c = (result', c')"
    using Cons.prems(3) by (simp add: m Let_def split_beta)
  from Cons.IH [OF c r this] Cons.prems(4) show ?case by simp
qed simp

lemma group_namespace_contributions_walled:
  assumes "cache_walled N c" and "group_namespace_contributions wanted c = (result, c')"
    and "\<forall>(key, ns) \<in> set wanted. N (gnk_namespace_id key) = Some ns"
  shows "cache_walled N c' \<and> result_walled N result"
proof -
  obtain r0 missing c1 where e: "cached_contributions wanted Map.empty [] c = (r0, missing, c1)"
    by (metis prod_cases3)
  have "cache_walled N c1 \<and> result_walled N r0 \<and> (\<forall>(key, ns) \<in> set missing. N (gnk_namespace_id key) = Some ns)"
    by (rule cached_contributions_walled [OF assms(1) _ e]) (use assms(3) in \<open>auto simp: result_walled_def\<close>)
  then show ?thesis
    using assms(2) store_contributions_walled
    unfolding group_namespace_contributions_def e Let_def prod.case
    by (cases "missing = []") (simp, metis)
qed

text \<open>Every wanted pair has a contribution, so subscripting the result never fails.\<close>

lemma cached_contributions_dom:
  "cached_contributions wanted result missing c = (result', missing', c') \<Longrightarrow>
   dom result \<union> fst ` set wanted \<union> fst ` set missing \<subseteq> dom result' \<union> fst ` set missing'"
proof (induction wanted arbitrary: result missing c)
  case (Cons w wanted)
  obtain key ns where w: "w = (key, ns)" by fastforce
  obtain e c1 where e: "get_group_namespace key c = (e, c1)" by fastforce
  have up: "fst ` set (AList.update key ns missing) = insert key (fst ` set missing)"
    by (simp add: dom_update [symmetric] dom_map_of_conv_image_fst [symmetric] update_conv')
  show ?case
  proof (cases e)
    case None
    from Cons.IH [of result "AList.update key ns missing" c1] Cons.prems None e up show ?thesis
      by (simp add: w)
  next
    case (Some x)
    have "cached_contributions wanted (result(key \<mapsto> (ent_actions x, ent_trails x))) missing c1
        = (result', missing', c')" using Cons.prems e Some by (simp add: w)
    from Cons.IH [OF this] show ?thesis by (simp add: w del: fun_upd_apply)
  qed
qed simp

lemma store_contributions_dom:
  "store_contributions f held roles groups missing result c = (result', c') \<Longrightarrow>
   dom result \<union> fst ` set missing \<subseteq> dom result'"
proof (induction missing arbitrary: result c)
  case (Cons m missing)
  obtain key ns where m: "m = (key, ns)" by fastforce
  from Cons.prems obtain v c1 where
    "store_contributions f held roles groups missing (result(key \<mapsto> v)) c1 = (result', c')"
    by (auto simp: m Let_def split_beta)
  from Cons.IH [OF this] show ?case by (simp add: m del: fun_upd_apply)
qed simp

lemma group_namespace_contributions_dom:
  assumes "group_namespace_contributions wanted c = (result, c')"
  shows "fst ` set wanted \<subseteq> dom result"
proof -
  obtain r0 missing c1 where e: "cached_contributions wanted Map.empty [] c = (r0, missing, c1)"
    by (metis prod_cases3)
  have "fst ` set wanted \<subseteq> dom r0 \<union> fst ` set missing" using cached_contributions_dom [OF e] by simp
  moreover have "dom r0 \<union> fst ` set missing \<subseteq> dom result"
    using assms store_contributions_dom
    unfolding group_namespace_contributions_def e Let_def prod.case
    by (cases "missing = []") (simp, metis)
  ultimately show ?thesis by blast
qed

section \<open>Answers\<close>

lemma accumulate_walled:
  assumes "result_walled N contribs" and "N (ns_id ns) = Some ns"
    and "\<forall>g \<in> set gs. \<lparr>gnk_group_id = g, gnk_namespace_id = ns_id ns\<rparr> \<in> dom contribs"
  shows "contribution_walled ns (accumulate_groups gs ns contribs)"
proof -
  let ?v = "\<lambda>g. the (contribs \<lparr>gnk_group_id = g, gnk_namespace_id = ns_id ns\<rparr>)"
  have "contribution_walled ns (?v g)" if "g \<in> set gs" for g
    using assms that by (fastforce simp: result_walled_def)
  then have "\<forall>t \<in> set (snd (?v g)). walled ns t" "fst (?v g) = (\<Union>t \<in> set (snd (?v g)). tr_contributed_actions t)"
    if "g \<in> set gs" for g
    using that by (auto simp: contribution_walled_def split_beta)
  then show ?thesis
    by (auto simp: contribution_walled_def accumulate_groups_def Let_def split_beta)
qed

definition answer_walled :: "EvaluationContext \<Rightarrow> EvaluationResult \<Rightarrow> bool" where
  "answer_walled ctx r \<longleftrightarrow>
     (let ts = set (res_trails r) \<union> set (res_user_trails r) \<union> set (res_agent_trails r) in
      (\<forall>t \<in> ts. walled (ctx_namespace ctx) t)
      \<and> res_effective_actions r \<subseteq> (\<Union>t \<in> ts. tr_contributed_actions t)
          \<union> (if ctx_user_id ctx = None \<and> ctx_group_id ctx = None \<and> spec_owner ctx
             then {ctx_action ctx} else {}))"

lemma assemble_walled:
  assumes "contribution_walled (ctx_namespace ctx) (U, uts)"
    and "contribution_walled (ctx_namespace ctx) (as_frozenset A, ats)"
    and "owner \<longrightarrow> spec_owner ctx"
  shows "answer_walled ctx (assemble_result ctx U A uts ats owner)"
proof -
  have "and_actions U A \<subseteq> U" by (cases A) auto
  with assms show ?thesis
    by (auto simp: answer_walled_def assemble_result_def contribution_walled_def Let_def)
qed

lemma plan_owner: "plan_agent_owner_short_circuited (fst (plan d ctx s)) = spec_owner ctx"
  by (auto simp: plan_def spec_owner_owns split_beta Let_def split: option.splits)

lemma plan_all_owner:
  "list_all2 (\<lambda>ctx p. plan_agent_owner_short_circuited p = spec_owner ctx) ctxs (fst (plan_all d ctxs s))"
  by (induction ctxs arbitrary: s) (simp_all add: split_beta Let_def plan_owner)

lemma want_all_known:
  assumes "\<forall>(ctx, p) \<in> set cps. N (ns_id (ctx_namespace ctx)) = Some (ctx_namespace ctx)"
    and "\<forall>(key, ns) \<in> set wanted. N (gnk_namespace_id key) = Some ns"
  shows "\<forall>(key, ns) \<in> set (want_all cps wanted). N (gnk_namespace_id key) = Some ns"
  using assms
proof (induction cps arbitrary: wanted)
  case (Cons cp cps)
  obtain ctx p where cp: "cp = (ctx, p)" by fastforce
  have known: "\<forall>(key, ns) \<in> set (want_groups gs ns0 w). N (gnk_namespace_id key) = Some ns"
    if "N (ns_id ns0) = Some ns0" "\<forall>(key, ns) \<in> set w. N (gnk_namespace_id key) = Some ns" for gs ns0 w
    using that(2)
  proof (induction gs arbitrary: w)
    case (Cons g gs)
    have "\<forall>(key, ns) \<in> set (AList.update \<lparr>gnk_group_id = g, gnk_namespace_id = ns_id ns0\<rparr> ns0 w).
        N (gnk_namespace_id key) = Some ns"
      using Cons.prems that(1) by (auto dest!: set_alist_update)
    from Cons.IH [OF this] show ?case by simp
  qed simp
  show ?case
    using Cons.IH [of "want_groups (plan_user_groups p @ plan_agent_groups p) (ctx_namespace ctx) wanted"]
      known [of "ctx_namespace ctx" wanted] Cons.prems
    by (auto simp: cp)
qed simp


text \<open>A loader that answers every question with a role owned by customer 8.\<close>

definition leaky_cache :: AclCache where
  "leaky_cache = new_AclCache (CollectionMembershipLoader example_db)
     \<lparr>load_assignments_for_groups = (\<lambda>_ _. db_role_assignments example_db),
      load_roles = (\<lambda>_ _. Some \<lparr>role_id = 4, role_name = ''Foreign'',
        role_permissions = [''*'' \<mapsto> {''read''}], role_is_built_in = False, role_customer_id = Some 8\<rparr>),
      load_groups = (\<lambda>_ g. Some (LoadedGroup \<lparr>grp_id = g, grp_name = ''any'', grp_customer_id = None\<rparr>)),
      load_assignments_held_by_groups = None\<rparr>"


end
