(* ===== verification/PyGlob.thy ===== *)
theory PyGlob
  imports PyText
begin

text \<open>
  \<open>PurePosixPath(path).full_match(glob)\<close> as the standard library computes it: both sides are
  normalised as posix paths, the glob is translated part by part (\<open>glob.translate\<close> with
  recursion and hidden files included, and \<open>fnmatch\<close> inside a part), and the translation is
  matched against the whole path.  A translation is a list of tokens and matching is language
  membership.  The lemmas say what the globs that grants are written with match.
\<close>

section \<open>Normalised paths\<close>

text \<open>\<open>posixpath.splitroot\<close>: the root, two slashes being a root of their own, and the rest.\<close>

definition split_root :: "string \<Rightarrow> string \<times> string" where
  "split_root s =
     (if \<not> prefix ''/'' s then ([], s)
      else if \<not> prefix ''//'' s \<or> prefix ''///'' s then (''/'', drop 1 s)
      else (''//'', drop 2 s))"

text \<open>The string of a path, and the empty string for a path with no parts.\<close>

definition posix_norm :: "string \<Rightarrow> string" where
  "posix_norm s =
     (let (root, rel) = split_root s
      in root @ join_on (CHR ''/'') (List.filter (\<lambda>x. x \<noteq> [] \<and> x \<noteq> ''.'') (split_on (CHR ''/'') rel)))"

section \<open>Translating a glob\<close>

datatype gtok =
    Lit char | NotSep | NotSepStar | SegPlus | AnySegs | AnyLast | AnyChar | Never
  | CharClass bool "string list"

text \<open>A bracket expression: its content, up to the closing bracket, and what follows; none when it is
  never closed.\<close>

definition bracket :: "string \<Rightarrow> (string \<times> string) option" where
  "bracket s =
     (let n1 = (if prefix ''!'' s then 1 else 0);
          n2 = (if prefix '']'' (drop n1 s) then Suc n1 else n1);
          j = n2 + length (takeWhile (\<lambda>c. c \<noteq> CHR '']'') (drop n2 s))
      in if j \<ge> length s then None else Some (take j s, drop (Suc j) s))"

fun find_from :: "nat \<Rightarrow> nat \<Rightarrow> string \<Rightarrow> nat option" where
  "find_from k n [] = None"
| "find_from k n (c # cs) = (if n \<le> k \<and> c = CHR ''-'' then Some k else find_from (Suc k) n cs)"

lemma find_from_less: "find_from k n s = Some i \<Longrightarrow> k \<le> i \<and> i < k + length s"
  by (induction k n s rule: find_from.induct) (auto split: if_splits)

text \<open>The hyphens that form ranges split the content into chunks; a hyphen at the end belongs to the
  chunk before it.\<close>

function hyphen_chunks :: "nat \<Rightarrow> string \<Rightarrow> string list" where
  "hyphen_chunks n b =
     (case find_from 0 n b of
        None \<Rightarrow> [b]
      | Some k \<Rightarrow>
          if drop (Suc k) b = [] then [take k b @ ''-'']
          else take k b # hyphen_chunks 2 (drop (Suc k) b))"
  by auto
termination
  by (relation "measure (\<lambda>(n, b). length b)") (auto dest: find_from_less)

text \<open>Ranges that run backwards are removed, from the right.\<close>

fun merge_chunks :: "string list \<Rightarrow> string list" where
  "merge_chunks [] = []"
| "merge_chunks (a # rest) =
     (case merge_chunks rest of
        [] \<Rightarrow> [a]
      | b # bs \<Rightarrow> if (of_char (last a) :: nat) > of_char (hd b) then (butlast a @ tl b) # bs else a # b # bs)"

definition class_token :: "string \<Rightarrow> gtok" where
  "class_token content =
     (let negated = prefix ''!'' content;
          chunks = merge_chunks (hyphen_chunks 1 (if negated then drop 1 content else content))
      in if concat chunks = [] then (if negated then AnyChar else Never)
         else CharClass negated chunks)"

fun in_ranges :: "string list \<Rightarrow> char \<Rightarrow> bool" where
  "in_ranges (a # b # rest) c \<longleftrightarrow>
     (of_char (last a) :: nat) \<le> of_char c \<and> (of_char c :: nat) \<le> of_char (hd b) \<or> in_ranges (b # rest) c"
| "in_ranges _ c \<longleftrightarrow> False"

definition in_class :: "bool \<Rightarrow> string list \<Rightarrow> char \<Rightarrow> bool" where
  "in_class negated chunks c \<longleftrightarrow> (c \<in> set (concat chunks) \<or> in_ranges chunks c) \<noteq> negated"

lemma bracket_shorter: "bracket s = Some (content, rest) \<Longrightarrow> length rest < length s"
  by (auto simp: bracket_def Let_def split: if_splits)

text \<open>\<open>fnmatch._translate\<close> of one part; the flag says that the token before is a star, runs of
  stars being one.\<close>

function fn_translate :: "bool \<Rightarrow> string \<Rightarrow> gtok list" where
  "fn_translate star [] = []"
| "fn_translate star (c # cs) =
     (if c = CHR ''*'' then (if star then fn_translate True cs else NotSepStar # fn_translate True cs)
      else if c = CHR ''?'' then NotSep # fn_translate False cs
      else if c = CHR ''['' then
        (case bracket cs of
           None \<Rightarrow> Lit (CHR ''['') # fn_translate False cs
         | Some (content, rest) \<Rightarrow> class_token content # fn_translate False rest)
      else Lit c # fn_translate False cs)"
  by pat_completeness auto
termination
  by (relation "measure (\<lambda>(star, s). length s)") (auto dest: bracket_shorter)

fun translate_parts :: "string list \<Rightarrow> gtok list" where
  "translate_parts [] = []"
| "translate_parts [p] =
     (if p = ''*'' then [SegPlus] else if p = ''**'' then [AnyLast] else fn_translate False p)"
| "translate_parts (p # q # ps) =
     (if p = ''*'' then [SegPlus, Lit (CHR ''/'')]
      else if p = ''**'' then (if q \<noteq> ''**'' then [AnySegs] else [])
      else fn_translate False p @ [Lit (CHR ''/'')]) @ translate_parts (q # ps)"

section \<open>Matching\<close>

text \<open>What can follow a non-empty run of whole segments: the suffixes behind a slash that is not the
  first character.\<close>

fun after_seps :: "string \<Rightarrow> string list" where
  "after_seps [] = []"
| "after_seps [c] = []"
| "after_seps (c # d # cs) = (if d = CHR ''/'' then cs # after_seps (d # cs) else after_seps (d # cs))"

fun tok_match :: "gtok list \<Rightarrow> string \<Rightarrow> bool" where
  "tok_match [] s \<longleftrightarrow> s = []"
| "tok_match (Lit c # ts) s \<longleftrightarrow> (case s of [] \<Rightarrow> False | x # xs \<Rightarrow> x = c \<and> tok_match ts xs)"
| "tok_match (NotSep # ts) s \<longleftrightarrow> (case s of [] \<Rightarrow> False | x # xs \<Rightarrow> x \<noteq> CHR ''/'' \<and> tok_match ts xs)"
| "tok_match (NotSepStar # ts) s \<longleftrightarrow> tok_match ts s \<or>
     (case s of [] \<Rightarrow> False | x # xs \<Rightarrow> x \<noteq> CHR ''/'' \<and> tok_match (NotSepStar # ts) xs)"
| "tok_match (SegPlus # ts) s \<longleftrightarrow>
     (case s of [] \<Rightarrow> False | x # xs \<Rightarrow> x \<noteq> CHR ''/'' \<and> (tok_match ts xs \<or> tok_match (SegPlus # ts) xs))"
| "tok_match (AnySegs # ts) s \<longleftrightarrow> tok_match ts s \<or> list_ex (tok_match ts) (after_seps s)"
| "tok_match (AnyLast # ts) s \<longleftrightarrow> tok_match ts s \<or>
     (case s of [] \<Rightarrow> False | x # xs \<Rightarrow> tok_match (AnyLast # ts) xs)"
| "tok_match (AnyChar # ts) s \<longleftrightarrow> (case s of [] \<Rightarrow> False | x # xs \<Rightarrow> tok_match ts xs)"
| "tok_match (Never # ts) s \<longleftrightarrow> False"
| "tok_match (CharClass neg chunks # ts) s \<longleftrightarrow>
     (case s of [] \<Rightarrow> False | x # xs \<Rightarrow> in_class neg chunks x \<and> tok_match ts xs)"

definition full_match :: "string \<Rightarrow> string \<Rightarrow> bool" where
  "full_match path pattern \<longleftrightarrow>
     tok_match (translate_parts (split_on (CHR ''/'') (posix_norm pattern))) (posix_norm path)"

section \<open>What grants are written with\<close>

text \<open>A plain segment of a relative path: not empty, not a dot, no slash and no glob character.\<close>

definition plain_segment :: "string \<Rightarrow> bool" where
  "plain_segment d \<longleftrightarrow> d \<noteq> [] \<and> d \<noteq> ''.'' \<and> set d \<inter> {CHR ''/'', CHR ''*'', CHR ''?'', CHR ''[''} = {}"

abbreviation joined :: "string list \<Rightarrow> string" where
  "joined ds \<equiv> join_on (CHR ''/'') ds"

lemma fn_translate_plain:
  "set p \<inter> {CHR ''*'', CHR ''?'', CHR ''[''} = {} \<Longrightarrow> fn_translate star p = map Lit p"
  by (induction p arbitrary: star) auto

lemma fn_translate_plain_segment: "plain_segment d \<Longrightarrow> fn_translate star d = map Lit d"
  by (rule fn_translate_plain) (auto simp: plain_segment_def)

lemma plain_not_star: "plain_segment d \<Longrightarrow> d \<noteq> ''*'' \<and> d \<noteq> ''**''"
  by (auto simp: plain_segment_def)

lemma tok_match_Lits: "tok_match (map Lit p @ ts) s \<longleftrightarrow> (\<exists>r. s = p @ r \<and> tok_match ts r)"
  by (induction p arbitrary: s) (auto split: list.splits)

lemma tok_match_AnyLast [simp]: "tok_match [AnyLast] s"
  by (induction s) auto

lemma tok_match_SegPlus: "tok_match [SegPlus] s \<longleftrightarrow> s \<noteq> [] \<and> CHR ''/'' \<notin> set s"
  by (induction s) auto

lemma posix_norm_relative:
  assumes "ds \<noteq> []" and "\<forall>d \<in> set ds. d \<noteq> [] \<and> d \<noteq> ''.'' \<and> CHR ''/'' \<notin> set d"
  shows "posix_norm (joined ds) = joined ds" "split_on (CHR ''/'') (joined ds) = ds"
proof -
  show split: "split_on (CHR ''/'') (joined ds) = ds"
    by (rule split_join) (use assms in auto)
  obtain c cs rest where ds: "ds = (c # cs) # rest" "c \<noteq> CHR ''/''"
    using assms by (cases ds; cases "hd ds") auto
  have "\<not> prefix ''/'' (joined ds)" using ds by (cases rest) (auto simp: prefix_def)
  moreover have "List.filter (\<lambda>x. x \<noteq> [] \<and> x \<noteq> ''.'') ds = ds"
    using assms(2) by (auto simp: filter_id_conv)
  ultimately show "posix_norm (joined ds) = joined ds"
    by (simp add: posix_norm_def split_root_def split)
qed

lemma translate_plain_parts:
  assumes "\<forall>d \<in> set ds. plain_segment d"
  shows "translate_parts (ds @ [q]) = map Lit (concat (map (\<lambda>d. d @ ''/'') ds)) @ translate_parts [q]"
  using assms
proof (induction ds)
  case (Cons d ds)
  have d: "d \<noteq> ''*''" "d \<noteq> ''**''" "fn_translate False d = map Lit d"
    using Cons.prems plain_not_star [of d] by (simp_all add: fn_translate_plain_segment)
  obtain x xs where "ds @ [q] = x # xs" by (cases ds) auto
  with d Cons show ?case by simp
qed simp

lemma concat_joined: "ds \<noteq> [] \<Longrightarrow> concat (map (\<lambda>d. d @ ''/'') ds) = joined ds @ ''/''"
  by (induction ds rule: induct_list012) auto

text \<open>A grant on everything below a directory matches the paths below it, a grant on a plain file that
  path alone, a star in a directory its immediate children.\<close>

lemma full_match_below:
  assumes "ds \<noteq> []" and "\<forall>d \<in> set ds. plain_segment d"
  shows "full_match path (joined (ds @ [''**''])) \<longleftrightarrow> prefix (joined ds @ ''/'') (posix_norm path)"
proof -
  have segs: "\<forall>d \<in> set (ds @ [''**'']). d \<noteq> [] \<and> d \<noteq> ''.'' \<and> CHR ''/'' \<notin> set d"
    using assms(2) by (auto simp: plain_segment_def)
  show ?thesis
    using posix_norm_relative [OF _ segs] assms
    by (simp add: full_match_def translate_plain_parts concat_joined tok_match_Lits prefix_def
        del: map_append append.simps append_assoc tok_match.simps)
qed

lemma full_match_plain:
  assumes "ds \<noteq> []" and "\<forall>d \<in> set ds. plain_segment d"
  shows "full_match path (joined ds) \<longleftrightarrow> posix_norm path = joined ds"
proof -
  have segs: "\<forall>d \<in> set ds. d \<noteq> [] \<and> d \<noteq> ''.'' \<and> CHR ''/'' \<notin> set d"
    using assms(2) by (auto simp: plain_segment_def)
  obtain es q where ds: "ds = es @ [q]" using assms(1) by (metis rev_exhaust)
  have q: "translate_parts [q] = map Lit q" "\<forall>d \<in> set es. plain_segment d"
    using assms(2) ds plain_not_star [of q] by (simp_all add: fn_translate_plain_segment)
  have "translate_parts ds = map Lit (joined ds) @ []"
    using translate_plain_parts [OF q(2), of q] q(1)
    by (cases "es = []") (simp_all add: ds concat_joined join_on_append)
  then show ?thesis
    using posix_norm_relative [OF assms(1) segs]
    by (simp add: full_match_def tok_match_Lits del: append_Nil2) auto
qed

lemma full_match_children:
  assumes "ds \<noteq> []" and "\<forall>d \<in> set ds. plain_segment d"
  shows "full_match path (joined (ds @ [''*''])) \<longleftrightarrow>
    (\<exists>f. f \<noteq> [] \<and> CHR ''/'' \<notin> set f \<and> posix_norm path = joined ds @ ''/'' @ f)"
proof -
  have segs: "\<forall>d \<in> set (ds @ [''*'']). d \<noteq> [] \<and> d \<noteq> ''.'' \<and> CHR ''/'' \<notin> set d"
    using assms(2) by (auto simp: plain_segment_def)
  show ?thesis
    using posix_norm_relative [OF _ segs] assms
    by (simp add: full_match_def translate_plain_parts concat_joined tok_match_Lits tok_match_SegPlus
        del: map_append append.simps tok_match.simps) auto
qed

end
