(* ===== verification/PyFormat.thy ===== *)
theory PyFormat
  imports PyText
begin

text \<open>
  The renderings the program's messages use: \<open>repr\<close> of a string and of a list of strings, and
  \<open>str\<close> of an integer, over the characters of Latin-1.
\<close>

definition py_isprintable :: "char \<Rightarrow> bool" where
  "py_isprintable c \<longleftrightarrow> (let n = of_char c :: nat in
     32 \<le> n \<and> n \<le> 126 \<or> 161 \<le> n \<and> n \<noteq> 173)"

text \<open>\<open>repr\<close> quotes with apostrophes, unless the text holds an apostrophe and no double quote.\<close>

definition repr_quote :: "string \<Rightarrow> char" where
  "repr_quote s = (if CHR 0x27 \<in> set s \<and> CHR 0x22 \<notin> set s then CHR 0x22 else CHR 0x27)"

definition repr_char :: "char \<Rightarrow> char \<Rightarrow> string" where
  "repr_char q c =
     (if c = q \<or> c = CHR 0x5C then [CHR 0x5C, c]
      else if c = CHR 0x09 then [CHR 0x5C, CHR ''t'']
      else if c = CHR 0x0A then [CHR 0x5C, CHR ''n'']
      else if c = CHR 0x0D then [CHR 0x5C, CHR ''r'']
      else if py_isprintable c then [c]
      else [CHR 0x5C, CHR ''x''] @ hex_digits 2 (of_char c))"

definition py_repr :: "string \<Rightarrow> string" where
  "py_repr s = repr_quote s # concat (map (repr_char (repr_quote s)) s) @ [repr_quote s]"

fun join_str :: "string \<Rightarrow> string list \<Rightarrow> string" where
  "join_str sep [] = []"
| "join_str sep [p] = p"
| "join_str sep (p # q # ps) = p @ sep @ join_str sep (q # ps)"

definition py_repr_list :: "string list \<Rightarrow> string" where
  "py_repr_list xs = ''['' @ join_str '', '' (map py_repr xs) @ '']''"

fun nat_str :: "nat \<Rightarrow> string" where
  "nat_str n = (if n < 10 then [char_of (48 + n)] else nat_str (n div 10) @ [char_of (48 + n mod 10)])"

declare nat_str.simps [simp del]

definition int_str :: "int \<Rightarrow> string" where
  "int_str i = (if i < 0 then ''-'' @ nat_str (nat (- i)) else nat_str (nat i))"

lemma decimal_digit_char_of: "d < 10 \<Longrightarrow> decimal_digit (char_of (48 + d :: nat))"
  by (simp add: decimal_digit_def Let_def of_char_of)

lemma py_digits_append_digit:
  assumes "py_digits acc b s = Some n" and "d < 10"
  shows "py_digits acc b (s @ [char_of (48 + d :: nat)]) = Some (10 * n + d)"
  using assms(1)
proof (induction acc b s rule: py_digits.induct)
  case (1 acc after_digit)
  then show ?case using assms(2) by (simp add: decimal_digit_char_of of_char_of split: if_splits)
next
  case (2 acc after_digit c cs)
  then show ?case by (auto split: if_splits)
qed

lemma py_digits_nat_str: "py_digits 0 False (nat_str n) = Some n"
proof (induction n rule: nat_str.induct)
  case (1 n)
  show ?case
  proof (cases "n < 10")
    case True
    then show ?thesis by (subst nat_str.simps) (simp add: decimal_digit_char_of of_char_of)
  next
    case False
    with 1 have "py_digits 0 False (nat_str (n div 10)) = Some (n div 10)" by simp
    from py_digits_append_digit [OF this, of "n mod 10"] False show ?thesis
      by (subst nat_str.simps) simp
  qed
qed

lemma nat_str_inject: "nat_str m = nat_str n \<longleftrightarrow> m = n"
  by (metis option.inject py_digits_nat_str)

end
