(* ===== verification/AclCatalog.thy ===== *)
theory AclCatalog
  imports AclTypes PyFormat
begin

text \<open>
  The permission catalog (\<open>threetears.agent.acl.catalog\<close>): the declarations an application makes
  about its resource types and actions, the validators that run when they are parsed, and the check a
  role write makes against them.  A model that fails a validator is refused with the validator's
  message.  A permissions map is an association list; its keys are distinct, as a dict's are.
\<close>

section \<open>Declarations\<close>

datatype value_error = ValueError string

type_synonym permission_map = "(string \<times> string list) list"

definition ACTION_ARGUMENT_SEPARATOR :: string where
  "ACTION_ARGUMENT_SEPARATOR = '':''"

datatype CatalogViolationKind = UNDECLARED_RESOURCE_TYPE | UNDECLARED_ACTION

record CatalogViolation =
  cv_kind :: CatalogViolationKind
  cv_resource_type :: string
  cv_action :: "string option"
  cv_message :: string

datatype UndeclaredPermission = UndeclaredPermission "CatalogViolation list" string

definition new_UndeclaredPermission :: "CatalogViolation list \<Rightarrow> UndeclaredPermission" where
  "new_UndeclaredPermission violations =
     UndeclaredPermission violations (join_str ''; '' (map cv_message violations))"

record ActionDescriptor =
  act_name :: string
  act_label :: string
  act_description :: string
  act_parameterized :: bool

definition name_is_non_empty_and_unspaced :: "ActionDescriptor \<Rightarrow> value_error + ActionDescriptor" where
  "name_is_non_empty_and_unspaced a =
     (if py_strip (act_name a) = [] then Inl (ValueError ''action declares an empty name'')
      else if \<exists>c \<in> set (act_name a). py_space c
        then Inl (ValueError (''action '' @ py_repr (act_name a) @ '' contains whitespace''))
      else Inr a)"

definition label_is_present :: "ActionDescriptor \<Rightarrow> value_error + ActionDescriptor" where
  "label_is_present a =
     (if py_strip (act_label a) = []
      then Inl (ValueError (''action '' @ py_repr (act_name a) @ '' declares an empty label''))
      else Inr a)"

definition parameterization_matches_the_name ::
  "ActionDescriptor \<Rightarrow> value_error + ActionDescriptor" where
  "parameterization_matches_the_name a =
     (let has_separator = sublist ACTION_ARGUMENT_SEPARATOR (act_name a) in
      if act_parameterized a \<and> \<not> suffix ACTION_ARGUMENT_SEPARATOR (act_name a)
      then Inl (ValueError (''action '' @ py_repr (act_name a)
             @ '' is parameterized but does not end with '' @ py_repr ACTION_ARGUMENT_SEPARATOR))
      else if \<not> act_parameterized a \<and> has_separator
      then Inl (ValueError (''action '' @ py_repr (act_name a) @ '' carries ''
             @ py_repr ACTION_ARGUMENT_SEPARATOR @ '' but is not declared parameterized''))
      else Inr a)"

text \<open>Validators run in the order they are written; the first refusal ends the parse.\<close>

fun validated :: "('a \<Rightarrow> value_error + 'a) list \<Rightarrow> 'a \<Rightarrow> value_error + 'a" where
  "validated [] a = Inr a"
| "validated (v # vs) a = (case v a of Inl e \<Rightarrow> Inl e | Inr b \<Rightarrow> validated vs b)"

definition new_ActionDescriptor :: "ActionDescriptor \<Rightarrow> value_error + ActionDescriptor" where
  "new_ActionDescriptor =
     validated [name_is_non_empty_and_unspaced, label_is_present, parameterization_matches_the_name]"

definition action_matches :: "ActionDescriptor \<Rightarrow> string \<Rightarrow> bool" where
  "action_matches a action =
     (if act_parameterized a then prefix (act_name a) action else action = act_name a)"

record ResourceTypeDescriptor =
  rtd_application :: string
  rtd_resource_type :: string
  rtd_label :: string
  rtd_description :: string
  rtd_actions :: "ActionDescriptor list"

definition identity_fields_are_present ::
  "ResourceTypeDescriptor \<Rightarrow> value_error + ResourceTypeDescriptor" where
  "identity_fields_are_present r =
     (if py_strip (rtd_application r) = []
      then Inl (ValueError (''resource type '' @ py_repr (rtd_resource_type r) @ '' declares no application''))
      else if py_strip (rtd_resource_type r) = []
      then Inl (ValueError (''application '' @ py_repr (rtd_application r)
             @ '' declares a resource type with an empty name''))
      else if py_strip (rtd_label r) = []
      then Inl (ValueError (''resource type '' @ py_repr (rtd_resource_type r) @ '' declares an empty label''))
      else Inr r)"

definition wildcard_is_not_declarable ::
  "ResourceTypeDescriptor \<Rightarrow> value_error + ResourceTypeDescriptor" where
  "wildcard_is_not_declarable r =
     (if rtd_resource_type r = WILDCARD_RESOURCE_TYPE
      then Inl (ValueError (''application '' @ py_repr (rtd_application r) @ '' declares the wildcard ''
             @ py_repr WILDCARD_RESOURCE_TYPE @ '' as a resource type; the wildcard names no ''
             @ ''namespace type and is never validated against a catalog''))
      else Inr r)"

definition actions_are_present_and_unique ::
  "ResourceTypeDescriptor \<Rightarrow> value_error + ResourceTypeDescriptor" where
  "actions_are_present_and_unique r =
     (let names = map act_name (rtd_actions r) in
      if rtd_actions r = []
      then Inl (ValueError (''resource type '' @ py_repr (rtd_resource_type r) @ '' declares no actions''))
      else if card (set names) \<noteq> length names
      then Inl (ValueError (''resource type '' @ py_repr (rtd_resource_type r)
             @ '' declares a duplicate action: '' @ py_repr_list (sort names)))
      else Inr r)"

definition new_ResourceTypeDescriptor ::
  "ResourceTypeDescriptor \<Rightarrow> value_error + ResourceTypeDescriptor" where
  "new_ResourceTypeDescriptor =
     validated [identity_fields_are_present, wildcard_is_not_declarable, actions_are_present_and_unique]"

definition declares :: "ResourceTypeDescriptor \<Rightarrow> string \<Rightarrow> bool" where
  "declares r action \<longleftrightarrow> list_ex (\<lambda>declared. action_matches declared action) (rtd_actions r)"

record PermissionCatalog =
  cat_entries :: "ResourceTypeDescriptor list"
  cat_by_resource_type :: "string \<rightharpoonup> ResourceTypeDescriptor"

fun index_entries ::
  "ResourceTypeDescriptor list \<Rightarrow> (string \<rightharpoonup> ResourceTypeDescriptor) \<Rightarrow>
   value_error + (string \<rightharpoonup> ResourceTypeDescriptor)" where
  "index_entries [] index = Inr index"
| "index_entries (entry # entries) index =
     (case index (rtd_resource_type entry) of
        Some claimed \<Rightarrow>
          Inl (ValueError (''application '' @ py_repr (rtd_application entry) @ '' declares resource type ''
            @ py_repr (rtd_resource_type entry) @ '', already declared by ''
            @ py_repr (rtd_application claimed)
            @ ''; the evaluator looks a permissions bucket up by namespace type alone ''
            @ ''and cannot tell two claimants apart''))
      | None \<Rightarrow> index_entries entries (index(rtd_resource_type entry \<mapsto> entry)))"

definition new_PermissionCatalog ::
  "ResourceTypeDescriptor list \<Rightarrow> value_error + PermissionCatalog" where
  "new_PermissionCatalog entries =
     map_sum (\<lambda>e. e) (\<lambda>index. \<lparr>cat_entries = entries, cat_by_resource_type = index\<rparr>)
       (index_entries entries Map.empty)"

definition entry_for :: "PermissionCatalog \<Rightarrow> string \<Rightarrow> ResourceTypeDescriptor option" where
  "entry_for catalog resource_type = cat_by_resource_type catalog resource_type"

section \<open>Checking a permissions map\<close>

definition undeclared_action :: "ResourceTypeDescriptor \<Rightarrow> string \<Rightarrow> string \<Rightarrow> CatalogViolation" where
  "undeclared_action entry resource_type action =
     \<lparr>cv_kind = UNDECLARED_ACTION, cv_resource_type = resource_type, cv_action = Some action,
      cv_message = ''action '' @ py_repr action @ '' is not declared on resource type ''
        @ py_repr resource_type @ '' by application '' @ py_repr (rtd_application entry)\<rparr>"

definition undeclared_resource_type :: "string \<Rightarrow> CatalogViolation" where
  "undeclared_resource_type resource_type =
     \<lparr>cv_kind = UNDECLARED_RESOURCE_TYPE, cv_resource_type = resource_type, cv_action = None,
      cv_message = ''resource type '' @ py_repr resource_type @ '' is not declared by any application''\<rparr>"

definition bucket_violations ::
  "PermissionCatalog \<Rightarrow> permission_map \<Rightarrow> string \<Rightarrow> CatalogViolation list" where
  "bucket_violations catalog permissions resource_type =
     (if resource_type = WILDCARD_RESOURCE_TYPE then []
      else case entry_for catalog resource_type of
        None \<Rightarrow> [undeclared_resource_type resource_type]
      | Some entry \<Rightarrow>
          map (undeclared_action entry resource_type)
            (List.filter (\<lambda>action. \<not> declares entry action)
               (sort (the (map_of permissions resource_type)))))"

definition validate_permissions :: "permission_map \<Rightarrow> PermissionCatalog \<Rightarrow> CatalogViolation list" where
  "validate_permissions permissions catalog =
     concat (map (bucket_violations catalog permissions) (sort (map fst permissions)))"

definition enforce_declared_permissions ::
  "permission_map \<Rightarrow> PermissionCatalog \<Rightarrow> UndeclaredPermission + unit" where
  "enforce_declared_permissions permissions catalog =
     (let violations = validate_permissions permissions catalog in
      if violations \<noteq> [] then Inl (new_UndeclaredPermission violations) else Inr ())"

section \<open>Facts\<close>

lemma new_ActionDescriptor_Inr_iff:
  "new_ActionDescriptor a = Inr b \<longleftrightarrow> b = a \<and> py_strip (act_name a) \<noteq> []
     \<and> (\<forall>c \<in> set (act_name a). \<not> py_space c) \<and> py_strip (act_label a) \<noteq> []
     \<and> (if act_parameterized a then suffix '':'' (act_name a) else CHR '':'' \<notin> set (act_name a))"
proof -
  have sub: "sublist '':'' s \<longleftrightarrow> CHR '':'' \<in> set s" for s
    by (auto simp: sublist_def in_set_conv_decomp)
  show ?thesis
    by (simp add: new_ActionDescriptor_def name_is_non_empty_and_unspaced_def label_is_present_def
        parameterization_matches_the_name_def Let_def ACTION_ARGUMENT_SEPARATOR_def sub eq_commute)
qed

lemma new_ResourceTypeDescriptor_Inr_iff:
  "new_ResourceTypeDescriptor r = Inr r' \<longleftrightarrow> r' = r \<and> py_strip (rtd_application r) \<noteq> []
     \<and> py_strip (rtd_resource_type r) \<noteq> [] \<and> py_strip (rtd_label r) \<noteq> []
     \<and> rtd_resource_type r \<noteq> WILDCARD_RESOURCE_TYPE \<and> rtd_actions r \<noteq> []
     \<and> distinct (map act_name (rtd_actions r))"
proof -
  have "card (act_name ` set (rtd_actions r)) = length (rtd_actions r) \<longleftrightarrow> distinct (map act_name (rtd_actions r))"
    using distinct_card card_distinct by (metis length_map list.set_map)
  then show ?thesis
    by (simp add: new_ResourceTypeDescriptor_def identity_fields_are_present_def
        wildcard_is_not_declarable_def actions_are_present_and_unique_def Let_def eq_commute)
qed

lemma index_entries_Inr:
  assumes "index_entries es idx = Inr m"
  shows "distinct (map rtd_resource_type es) \<and> rtd_resource_type ` set es \<inter> dom idx = {}
     \<and> m = idx ++ map_of (map (\<lambda>e. (rtd_resource_type e, e)) es)"
  using assms
proof (induction es arbitrary: idx)
  case (Cons e es)
  let ?k = "rtd_resource_type e" and ?M = "map_of (map (\<lambda>e. (rtd_resource_type e, e)) es)"
  from Cons.prems have new: "?k \<notin> dom idx" and "index_entries es (idx(?k \<mapsto> e)) = Inr m"
    by (auto split: option.splits)
  from Cons.IH [OF this(2)] have IH: "distinct (map rtd_resource_type es)"
    "rtd_resource_type ` set es \<inter> insert ?k (dom idx) = {}" "m = idx(?k \<mapsto> e) ++ ?M"
    by (simp_all del: fun_upd_apply)
  then have "?k \<notin> dom ?M" by (auto simp: dom_map_of_conv_image_fst image_image)
  then have "m = idx ++ ?M(?k \<mapsto> e)" unfolding IH(3) by (simp add: map_add_upd_left)
  moreover have "?M(?k \<mapsto> e) = map_of (map (\<lambda>e. (rtd_resource_type e, e)) (e # es))" by simp
  moreover have "?k \<notin> rtd_resource_type ` set es" "rtd_resource_type ` set (e # es) \<inter> dom idx = {}"
    using IH(2) new by auto
  ultimately show ?case using IH(1) by (metis distinct.simps(2) list.simps(9) list.set_map)
qed simp

lemma entry_for_catalog:
  assumes "new_PermissionCatalog es = Inr catalog"
  shows "entry_for catalog rt = Some e \<longleftrightarrow> e \<in> set es \<and> rtd_resource_type e = rt"
    "distinct (map rtd_resource_type es)"
proof -
  obtain m where m: "index_entries es Map.empty = Inr m" "cat_by_resource_type catalog = m"
    using assms by (cases "index_entries es Map.empty") (auto simp: new_PermissionCatalog_def)
  then have "m = map_of (map (\<lambda>e. (rtd_resource_type e, e)) es)" and d: "distinct (map rtd_resource_type es)"
    using index_entries_Inr [OF m(1)] by auto
  moreover from d have "distinct (map fst (map (\<lambda>e. (rtd_resource_type e, e)) es))" by (simp add: comp_def)
  ultimately show "entry_for catalog rt = Some e \<longleftrightarrow> e \<in> set es \<and> rtd_resource_type e = rt"
    by (auto simp: entry_for_def m(2) map_of_eq_Some_iff)
  show "distinct (map rtd_resource_type es)" by (rule d)
qed

text \<open>What it means for a catalog's entries to declare an action on a resource type.\<close>

definition declared_in :: "ResourceTypeDescriptor list \<Rightarrow> string \<Rightarrow> string \<Rightarrow> bool" where
  "declared_in entries resource_type action \<longleftrightarrow>
     (\<exists>e \<in> set entries. rtd_resource_type e = resource_type \<and>
        (\<exists>d \<in> set (rtd_actions e).
           if act_parameterized d then \<exists>arg. action = act_name d @ arg else action = act_name d))"

lemma declares_declared_in:
  assumes "new_PermissionCatalog es = Inr catalog" and "entry_for catalog rt = Some e"
  shows "declares e a \<longleftrightarrow> declared_in es rt a"
proof -
  have e: "e' = e" if "e' \<in> set es" "rtd_resource_type e' = rt" for e'
    using that assms(2) entry_for_catalog(1) [OF assms(1), of rt] by (metis option.inject)
  have "declares e a \<longleftrightarrow> (\<exists>d \<in> set (rtd_actions e). if act_parameterized d
      then \<exists>arg. a = act_name d @ arg else a = act_name d)"
    by (simp add: declares_def list_ex_iff action_matches_def prefix_def cong: if_cong)
  with e assms(2) entry_for_catalog(1) [OF assms(1)] show ?thesis
    unfolding declared_in_def by blast
qed

definition violation_key :: "CatalogViolation \<Rightarrow> string \<times> string" where
  "violation_key v = (cv_resource_type v, case cv_action v of None \<Rightarrow> [] | Some a \<Rightarrow> a)"

lemma sorted_bucket_violations: "sorted (map violation_key (bucket_violations catalog ps rt))"
proof -
  have "sorted (map violation_key (map (undeclared_action e rt) xs))" if "sorted xs" for e xs
    using that by (induction xs) (auto simp: violation_key_def undeclared_action_def)
  then show ?thesis
    by (auto simp: bucket_violations_def sorted_wrt_filter split: option.split simp del: map_map
        intro!: sorted_filter [where f = id, simplified])
qed

lemma fst_bucket_violations: "v \<in> set (bucket_violations catalog ps rt) \<Longrightarrow> cv_resource_type v = rt"
  by (auto simp: bucket_violations_def undeclared_action_def undeclared_resource_type_def
      split: if_splits option.splits)

lemma sorted_validate:
  assumes "distinct (map fst ps)"
  shows "sorted (map violation_key (validate_permissions ps catalog))"
proof -
  have "sorted (map violation_key (concat (map (bucket_violations catalog ps) rts)))"
    if "sorted_wrt (<) rts" for rts
    using that
  proof (induction rts)
    case (Cons rt rts)
    have "violation_key v \<le> violation_key w"
      if v: "v \<in> set (bucket_violations catalog ps rt)"
        and w: "w \<in> set (concat (map (bucket_violations catalog ps) rts))" for v w
    proof -
      from w obtain r where "r \<in> set rts" "w \<in> set (bucket_violations catalog ps r)" by auto
      with Cons.prems have "cv_resource_type v < cv_resource_type w"
        using fst_bucket_violations v by fastforce
      then show ?thesis by (simp add: violation_key_def less_eq_prod_def)
    qed
    with Cons show ?case by (auto simp: sorted_append sorted_bucket_violations)
  qed simp
  moreover have "sorted_wrt (<) (sort (map fst ps))"
    using assms strict_sorted_iff by (metis distinct_sort sorted_sort)
  ultimately show ?thesis by (simp add: validate_permissions_def)
qed

definition undeclared :: "ResourceTypeDescriptor list \<Rightarrow> permission_map \<Rightarrow>
    (CatalogViolationKind \<times> string \<times> string option) set" where
  "undeclared entries permissions =
     {(UNDECLARED_RESOURCE_TYPE, rt, None) | rt actions. (rt, actions) \<in> set permissions
        \<and> rt \<noteq> WILDCARD_RESOURCE_TYPE \<and> rt \<notin> rtd_resource_type ` set entries}
     \<union> {(UNDECLARED_ACTION, rt, Some a) | rt actions a. (rt, actions) \<in> set permissions \<and> a \<in> set actions
        \<and> rt \<noteq> WILDCARD_RESOURCE_TYPE \<and> rt \<in> rtd_resource_type ` set entries
        \<and> \<not> declared_in entries rt a}"

lemma bucket_violations_exact:
  assumes "new_PermissionCatalog entries = Inr catalog" and "distinct (map fst permissions)"
    and "(rt, actions) \<in> set permissions"
  shows "(\<lambda>v. (cv_kind v, cv_resource_type v, cv_action v)) ` set (bucket_violations catalog permissions rt)
    = undeclared entries [(rt, actions)]"
proof (cases "entry_for catalog rt")
  case None
  then have "rt \<notin> rtd_resource_type ` set entries"
    using entry_for_catalog(1) [OF assms(1), of rt] by (auto simp: image_iff)
  with None show ?thesis
    by (auto simp: bucket_violations_def undeclared_resource_type_def undeclared_def)
next
  case (Some e)
  then have "rt \<in> rtd_resource_type ` set entries"
    using entry_for_catalog(1) [OF assms(1), of rt e] by (auto simp: image_iff)
  moreover have "map_of permissions rt = Some actions" using assms(2,3) by simp
  ultimately show ?thesis using Some declares_declared_in [OF assms(1) Some]
    by (auto simp: bucket_violations_def undeclared_action_def undeclared_def image_iff)
qed

text \<open>C30: against a catalog, whose entries claim distinct resource types, the check reports exactly the
  undeclared pairs: a bucket whose resource type nothing declares once, and every action of a declared
  bucket that is neither a declared action nor a declared stem with an argument; the wildcard bucket is
  never reported, the report is ordered, and the write is refused exactly when it is not empty.\<close>

theorem catalog_check_exact:
  assumes "new_PermissionCatalog entries = Inr catalog" and "distinct (map fst permissions)"
  shows "distinct (map rtd_resource_type entries)
    \<and> (\<lambda>v. (cv_kind v, cv_resource_type v, cv_action v)) ` set (validate_permissions permissions catalog)
        = undeclared entries permissions
    \<and> sorted (map violation_key (validate_permissions permissions catalog))
    \<and> (enforce_declared_permissions permissions catalog = Inr () \<longleftrightarrow> undeclared entries permissions = {})"
proof -
  let ?f = "\<lambda>v. (cv_kind v, cv_resource_type v, cv_action v)"
  have "?f ` set (validate_permissions permissions catalog)
      = (\<Union>(rt, actions) \<in> set permissions. ?f ` set (bucket_violations catalog permissions rt))"
    by (simp add: validate_permissions_def image_UN case_prod_beta)
  also have "\<dots> = (\<Union>(rt, actions) \<in> set permissions. undeclared entries [(rt, actions)])"
    by (rule SUP_cong [OF refl]) (use bucket_violations_exact [OF assms] in auto)
  also have "\<dots> = undeclared entries permissions" unfolding undeclared_def by auto
  finally have set: "?f ` set (validate_permissions permissions catalog) = undeclared entries permissions" .
  have "enforce_declared_permissions permissions catalog = Inr ()
      \<longleftrightarrow> ?f ` set (validate_permissions permissions catalog) = {}"
    by (simp add: enforce_declared_permissions_def Let_def)
  with set sorted_validate [OF assms(2)] entry_for_catalog(2) [OF assms(1)] show ?thesis by simp
qed

text \<open>A catalog with one literal and one parameterized action on workspaces.\<close>

definition example_entries :: "ResourceTypeDescriptor list" where
  "example_entries =
     [\<lparr>rtd_application = ''hub'', rtd_resource_type = ''workspace'', rtd_label = ''Workspace'',
       rtd_description = [], rtd_actions =
         [\<lparr>act_name = ''read'', act_label = ''Read'', act_description = [], act_parameterized = False\<rparr>,
          \<lparr>act_name = ''read_file_matching:'', act_label = ''Read files'', act_description = [],
            act_parameterized = True\<rparr>]\<rparr>]"

definition example_catalog :: PermissionCatalog where
  "example_catalog = \<lparr>cat_entries = example_entries,
     cat_by_resource_type = [''workspace'' \<mapsto> hd example_entries]\<rparr>"

theorem catalog_check_exact_witness:
  "undeclared example_entries
      [(''workspace'', [''read_file_matching:*.md'', ''write'']), (''report'', [''read'']), (''*'', [''read''])]
     = {(UNDECLARED_RESOURCE_TYPE, ''report'', None), (UNDECLARED_ACTION, ''workspace'', Some ''write'')}"
proof -
  let ?p = "[(''workspace'', [''read_file_matching:*.md'', ''write'']), (''report'', [''read'']), (''*'', [''read''])]"
  have "new_PermissionCatalog example_entries = Inr example_catalog"
    by (simp add: new_PermissionCatalog_def example_entries_def example_catalog_def)
  from catalog_check_exact [OF this, of ?p] have
    "undeclared example_entries ?p = (\<lambda>v. (cv_kind v, cv_resource_type v, cv_action v))
       ` set (validate_permissions ?p example_catalog)" by simp
  also have "\<dots> = {(UNDECLARED_RESOURCE_TYPE, ''report'', None), (UNDECLARED_ACTION, ''workspace'', Some ''write'')}"
    by (simp add: validate_permissions_def bucket_violations_def example_catalog_def example_entries_def
        entry_for_def declares_def action_matches_def WILDCARD_RESOURCE_TYPE_def undeclared_action_def
        undeclared_resource_type_def insert_commute sort_key_def insort_key_def)
  finally show ?thesis .
qed

end
