(* ===== verification/AclDelegation.thy ===== *)
theory AclDelegation
  imports AclCorrect AclCatalog
begin

text \<open>
  The ceiling on delegated grants (\<open>threetears.agent.acl.delegation\<close>): what an admin holds on every
  namespace of a type in a customer, and the refusal of a role that names more.  The namespace
  collection the resolver asks is an argument; \<open>NamespaceCollection.find_by_type_and_customer\<close> over the
  tables is its instance.  The main theorem follows a role that passed the check into the tables: binding
  it across the customer gives nobody an action on a namespace that the admin does not hold there.
\<close>

section \<open>The ceiling\<close>

definition HELD_ACTIONS_PROBE :: string where
  "HELD_ACTIONS_PROBE = ''acl.delegation.probe''"

record EscalationViolation =
  ev_resource_type :: string
  ev_action :: "string option"
  ev_message :: string

datatype PermissionEscalation = PermissionEscalation "EscalationViolation list" "Trail list" string

definition new_PermissionEscalation ::
  "EscalationViolation list \<Rightarrow> Trail list \<Rightarrow> PermissionEscalation" where
  "new_PermissionEscalation violations trails =
     PermissionEscalation violations trails (join_str ''; '' (map ev_message violations))"

record HeldPermissions =
  actions_by_resource_type :: "string \<rightharpoonup> string set"
  held_trails :: "Trail list"
  namespace_count :: nat

text \<open>The context the probe asks for one namespace.\<close>

definition probe_ctx :: "Namespace \<Rightarrow> uuid \<Rightarrow> uuid option \<Rightarrow> EvaluationContext" where
  "probe_ctx namespace user_id agent_id =
     \<lparr>ctx_namespace = namespace, ctx_action = HELD_ACTIONS_PROBE, ctx_user_id = Some user_id,
      ctx_agent_id = agent_id, ctx_group_id = None\<rparr>"

text \<open>The loop of \<open>held_actions_on\<close>; it stops once the intersection is empty.\<close>

fun held_loop ::
  "nat \<Rightarrow> Namespace list \<Rightarrow> uuid \<Rightarrow> uuid option \<Rightarrow> string set option \<Rightarrow> Trail list \<Rightarrow> AclCache \<Rightarrow>
   (eval_error + string set option \<times> Trail list) \<times> AclCache" where
  "held_loop max_depth [] user_id agent_id held trails c = (Inr (held, trails), c)"
| "held_loop max_depth (namespace # namespaces) user_id agent_id held trails c =
     (case evaluate_with_trail max_depth (probe_ctx namespace user_id agent_id) c of
        (Inl e, c1) \<Rightarrow> (Inl e, c1)
      | (Inr result, c1) \<Rightarrow>
          let actions = res_effective_actions result;
              held1 = (case held of None \<Rightarrow> actions | Some h \<Rightarrow> h \<inter> actions);
              trails1 = trails @ res_trails result @ res_user_trails result @ res_agent_trails result
          in if held1 = {} then (Inr (Some held1, trails1), c1)
             else held_loop max_depth namespaces user_id agent_id (Some held1) trails1 c1)"

definition held_actions_on ::
  "nat \<Rightarrow> Namespace list \<Rightarrow> uuid \<Rightarrow> uuid option \<Rightarrow> AclCache \<Rightarrow>
   (eval_error + string set \<times> Trail list) \<times> AclCache" where
  "held_actions_on max_depth namespaces user_id agent_id c =
     (if namespaces = [] then (Inr ({}, []), c)
      else let (r, c1) = held_loop max_depth namespaces user_id agent_id None [] c
           in (map_sum (\<lambda>e. e) (\<lambda>(held, trails). (case held of None \<Rightarrow> {} | Some h \<Rightarrow> h, trails)) r, c1))"

text \<open>The \<open>Namespace\<close> value built from a collection entity; an entity that lacks a name or an owner
  reads as \<open>None\<close>.\<close>

definition entity_namespace :: "Namespace \<Rightarrow> Namespace" where
  "entity_namespace entity =
     \<lparr>ns_id = ns_id entity, ns_customer_id = ns_customer_id entity,
      ns_namespace_type = ns_namespace_type entity, ns_owner_agent_id = ns_owner_agent_id entity,
      ns_name = ns_name entity, ns_owner_namespace = ns_owner_namespace entity\<rparr>"

fun resolve_types ::
  "nat \<Rightarrow> (string \<Rightarrow> uuid \<Rightarrow> Namespace list) \<Rightarrow> uuid \<Rightarrow> string list \<Rightarrow> uuid \<Rightarrow> uuid option \<Rightarrow>
   HeldPermissions \<Rightarrow> AclCache \<Rightarrow> (eval_error + HeldPermissions) \<times> AclCache" where
  "resolve_types max_depth find_namespaces customer_id [] user_id agent_id h c = (Inr h, c)"
| "resolve_types max_depth find_namespaces customer_id (resource_type # types) user_id agent_id h c =
     (if resource_type = WILDCARD_RESOURCE_TYPE
      then resolve_types max_depth find_namespaces customer_id types user_id agent_id h c
      else
        let namespaces = map entity_namespace (find_namespaces resource_type customer_id)
        in case held_actions_on max_depth namespaces user_id agent_id c of
             (Inl e, c1) \<Rightarrow> (Inl e, c1)
           | (Inr (actions, trails), c1) \<Rightarrow>
               resolve_types max_depth find_namespaces customer_id types user_id agent_id
                 \<lparr>actions_by_resource_type = (actions_by_resource_type h)(resource_type \<mapsto> actions),
                  held_trails = held_trails h @ trails,
                  namespace_count = namespace_count h + length namespaces\<rparr> c1)"

definition resolve_held_permissions ::
  "nat \<Rightarrow> (string \<Rightarrow> uuid \<Rightarrow> Namespace list) \<Rightarrow> uuid \<Rightarrow> string list \<Rightarrow> uuid \<Rightarrow> uuid option \<Rightarrow> AclCache \<Rightarrow>
   (eval_error + HeldPermissions) \<times> AclCache" where
  "resolve_held_permissions max_depth find_namespaces customer_id resource_types user_id agent_id c =
     resolve_types max_depth find_namespaces customer_id (sort (remdups resource_types)) user_id agent_id
       \<lparr>actions_by_resource_type = Map.empty, held_trails = [], namespace_count = 0\<rparr> c"

definition wildcard_refused :: "string \<Rightarrow> EscalationViolation" where
  "wildcard_refused resource_type =
     \<lparr>ev_resource_type = resource_type, ev_action = None,
      ev_message = ''resource type '' @ py_repr resource_type @ '' is the type-agnostic wildcard; ''
        @ ''it grants every action on every resource type that exists now or ''
        @ ''is added later, so it cannot be authored from a delegated scope''\<rparr>"

definition not_held :: "HeldPermissions \<Rightarrow> string \<Rightarrow> string \<Rightarrow> EscalationViolation" where
  "not_held held resource_type action =
     \<lparr>ev_resource_type = resource_type, ev_action = Some action,
      ev_message = ''action '' @ py_repr action @ '' on resource type '' @ py_repr resource_type @ '' ''
        @ ''is not held by the caller across the scope this grant ''
        @ ''would reach ('' @ nat_str (namespace_count held) @ '' namespace(s) checked)''\<rparr>"

definition escalating_bucket ::
  "permission_map \<Rightarrow> HeldPermissions \<Rightarrow> string \<Rightarrow> EscalationViolation list" where
  "escalating_bucket permissions held resource_type =
     (let held_actions = actions_by_resource_type held resource_type in
      if resource_type = WILDCARD_RESOURCE_TYPE \<and> held_actions = None
      then [wildcard_refused resource_type]
      else
        let held_set = (case held_actions of None \<Rightarrow> {} | Some h \<Rightarrow> h) in
        map (not_held held resource_type)
          (List.filter (\<lambda>action. action \<notin> held_set) (sort (the (map_of permissions resource_type)))))"

definition escalating_permissions :: "permission_map \<Rightarrow> HeldPermissions \<Rightarrow> EscalationViolation list" where
  "escalating_permissions permissions held =
     concat (map (escalating_bucket permissions held) (sort (map fst permissions)))"

definition enforce_within_held_permissions ::
  "permission_map \<Rightarrow> HeldPermissions \<Rightarrow> PermissionEscalation + unit" where
  "enforce_within_held_permissions permissions held =
     (let violations = escalating_permissions permissions held in
      if violations \<noteq> [] then Inl (new_PermissionEscalation violations (held_trails held)) else Inr ())"

text \<open>\<open>NamespaceCollection.find_by_type_and_customer\<close>: a row sits in the customer partition exactly when
  it has a customer.\<close>

definition NamespaceCollection_find_by_type_and_customer ::
  "acl_db \<Rightarrow> string \<Rightarrow> uuid \<Rightarrow> Namespace list" where
  "NamespaceCollection_find_by_type_and_customer db namespace_type customer_id =
     List.filter (\<lambda>n. ns_namespace_type n = namespace_type \<and> ns_customer_id n = Some customer_id)
       (db_namespaces db)"

section \<open>What the ceiling is\<close>

text \<open>The actions an admin holds on one namespace, from the tables alone.\<close>

definition spec_held :: "nat \<Rightarrow> acl_db \<Rightarrow> uuid \<Rightarrow> uuid option \<Rightarrow> Namespace \<Rightarrow> string set" where
  "spec_held d db user_id agent_id namespace = {a. spec_allowed d db (probe_ctx namespace user_id agent_id) a}"

lemma spec_allowed_any_action: "spec_allowed d db (ctx\<lparr>ctx_action := x\<rparr>) a = spec_allowed d db ctx a"
  by (simp add: spec_allowed_def has_user_side_def has_agent_side_def spec_user_groups_def
      spec_agent_groups_def spec_owner_def cong: option.case_cong if_cong)

definition rows_keyed :: "acl_db \<Rightarrow> bool" where
  "rows_keyed db \<longleftrightarrow> (\<forall>ns \<in> set (db_namespaces db). namespace_row db (ns_id ns) = Some ns)"

lemma probe_evaluates:
  assumes "backed_by db c" and "namespace_row db (ns_id ns) = Some ns"
  obtains r c' where "evaluate_with_trail d (probe_ctx ns u agent) c = (Inr r, c')"
    "res_effective_actions r = spec_held d db u agent ns" "backed_by db c'"
proof -
  have "asked_in db (probe_ctx ns u agent)"
    using assms(2) by (simp add: asked_in_def check_context_def probe_ctx_def)
  from evaluate_with_trail_correct [OF assms(1) this, of d] obtain r c' where
    "evaluate_with_trail d (probe_ctx ns u agent) c = (Inr r, c')"
    "result_correct d db (probe_ctx ns u agent) r" "backed_by db c'" by blast
  moreover have "has_user_side (probe_ctx ns u agent)" by (simp add: has_user_side_def probe_ctx_def)
  ultimately show ?thesis
    by (intro that [of r c']) (simp_all add: result_correct_def Let_def spec_held_def)
qed

lemma held_loop_correct:
  assumes "backed_by db c" and "\<forall>ns \<in> set nss. namespace_row db (ns_id ns) = Some ns"
  shows "\<exists>h ts c'. held_loop d nss u agent held trails c = (Inr (h, ts), c') \<and> backed_by db c'
    \<and> (nss \<noteq> [] \<or> held \<noteq> None \<longrightarrow> h = Some ((case held of None \<Rightarrow> UNIV | Some s \<Rightarrow> s)
         \<inter> (\<Inter>ns \<in> set nss. spec_held d db u agent ns)))"
  using assms
proof (induction nss arbitrary: held trails c)
  case Nil
  then show ?case by (auto split: option.splits)
next
  case (Cons ns nss)
  from Cons.prems have "namespace_row db (ns_id ns) = Some ns" by simp
  from probe_evaluates [OF Cons.prems(1) this, of d u agent] obtain r c1 where
    r: "evaluate_with_trail d (probe_ctx ns u agent) c = (Inr r, c1)"
      "res_effective_actions r = spec_held d db u agent ns" "backed_by db c1" .
  define held1 where "held1 = (case held of None \<Rightarrow> UNIV | Some s \<Rightarrow> s) \<inter> spec_held d db u agent ns"
  define trails1 where
    "trails1 = trails @ res_trails r @ res_user_trails r @ res_agent_trails r"
  have step: "held_loop d (ns # nss) u agent held trails c =
      (if held1 = {} then (Inr (Some held1, trails1), c1)
       else held_loop d nss u agent (Some held1) trails1 c1)"
    by (cases held) (simp_all add: r(1,2) held1_def trails1_def Let_def)
  have goal: "(case held of None \<Rightarrow> UNIV | Some s \<Rightarrow> s) \<inter> (\<Inter>ns \<in> set (ns # nss). spec_held d db u agent ns)
      = held1 \<inter> (\<Inter>ns \<in> set nss. spec_held d db u agent ns)"
    by (simp add: held1_def Int_assoc)
  show ?case
  proof (cases "held1 = {}")
    case True
    then show ?thesis unfolding step goal using r(3) by simp
  next
    case False
    with Cons.IH [OF r(3), of "Some held1" trails1] Cons.prems(2) show ?thesis
      unfolding step goal by simp
  qed
qed

lemma held_actions_on_correct:
  assumes "backed_by db c" and "\<forall>ns \<in> set nss. namespace_row db (ns_id ns) = Some ns"
  shows "\<exists>ts c'. held_actions_on d nss u agent c = (Inr (if nss = [] then {}
      else \<Inter>ns \<in> set nss. spec_held d db u agent ns, ts), c') \<and> backed_by db c'"
  using held_loop_correct [OF assms, of d u agent None "[]"] assms(1)
  by (cases "nss = []") (auto simp: held_actions_on_def)

lemma entity_namespace_id [simp]: "entity_namespace ns = ns"
  by (simp add: entity_namespace_def)

lemma entity_namespace_map [simp]: "map entity_namespace nss = nss"
  by (simp add: map_idI)

text \<open>The ceiling of one resource type over the customer's namespaces of that type.\<close>

definition spec_ceiling :: "nat \<Rightarrow> acl_db \<Rightarrow> uuid \<Rightarrow> uuid \<Rightarrow> uuid option \<Rightarrow> string \<Rightarrow> string set" where
  "spec_ceiling d db cust u agent rt =
     (let nss = {ns \<in> set (db_namespaces db). ns_namespace_type ns = rt \<and> ns_customer_id ns = Some cust}
      in if nss = {} then {} else \<Inter>ns \<in> nss. spec_held d db u agent ns)"

lemma resolve_types_correct:
  assumes "backed_by db c" and "rows_keyed db"
  shows "\<exists>h' c'. resolve_types d (NamespaceCollection_find_by_type_and_customer db) cust types u agent h c
      = (Inr h', c') \<and> backed_by db c'
    \<and> actions_by_resource_type h' = (\<lambda>rt. if rt \<in> set types \<and> rt \<noteq> WILDCARD_RESOURCE_TYPE
        then Some (spec_ceiling d db cust u agent rt) else actions_by_resource_type h rt)"
  using assms(1)
proof (induction types arbitrary: h c)
  case (Cons t types)
  let ?find = "NamespaceCollection_find_by_type_and_customer db"
  show ?case
  proof (cases "t = WILDCARD_RESOURCE_TYPE")
    case True
    then show ?thesis using Cons.IH [OF Cons.prems, of h] by (auto simp: fun_eq_iff)
  next
    case False
    have keyed: "\<forall>ns \<in> set (?find t cust). namespace_row db (ns_id ns) = Some ns"
      using assms(2) by (auto simp: rows_keyed_def NamespaceCollection_find_by_type_and_customer_def)
    have ceiling: "(if ?find t cust = [] then {} else \<Inter>ns \<in> set (?find t cust). spec_held d db u agent ns)
        = spec_ceiling d db cust u agent t"
      by (auto simp: spec_ceiling_def Let_def NamespaceCollection_find_by_type_and_customer_def
          filter_empty_conv)
    from held_actions_on_correct [OF Cons.prems keyed, of d u agent] obtain ts c1 where
      h1: "held_actions_on d (?find t cust) u agent c = (Inr (spec_ceiling d db cust u agent t, ts), c1)"
      and c1: "backed_by db c1" unfolding ceiling by blast
    define h1 where "h1 = \<lparr>actions_by_resource_type = (actions_by_resource_type h)(t \<mapsto> spec_ceiling d db cust u agent t),
      held_trails = held_trails h @ ts, namespace_count = namespace_count h + length (?find t cust)\<rparr>"
    have "resolve_types d ?find cust (t # types) u agent h c
        = resolve_types d ?find cust types u agent h1 c1"
      using False by (simp add: h1 h1_def)
    with Cons.IH [OF c1, of h1] False show ?thesis by (auto simp: h1_def fun_eq_iff)
  qed
qed simp

lemma resolve_held_correct:
  assumes "backed_by db c" and "rows_keyed db"
  shows "\<exists>held c'. resolve_held_permissions d (NamespaceCollection_find_by_type_and_customer db) cust types u agent c
      = (Inr held, c') \<and> backed_by db c'
    \<and> actions_by_resource_type held = (\<lambda>rt. if rt \<in> set types \<and> rt \<noteq> WILDCARD_RESOURCE_TYPE
        then Some (spec_ceiling d db cust u agent rt) else None)"
  using resolve_types_correct [OF assms, of d cust "sort (remdups types)" u agent
      "\<lparr>actions_by_resource_type = Map.empty, held_trails = [], namespace_count = 0\<rparr>"]
  by (simp add: resolve_held_permissions_def cong: if_cong)

lemma enforce_within_held_iff:
  assumes "distinct (map fst ps)"
    and "actions_by_resource_type held = (\<lambda>rt. if rt \<in> fst ` set ps \<and> rt \<noteq> WILDCARD_RESOURCE_TYPE
        then Some (limit rt) else None)"
  shows "enforce_within_held_permissions ps held = Inr () \<longleftrightarrow>
    (\<forall>(rt, actions) \<in> set ps. rt \<noteq> WILDCARD_RESOURCE_TYPE \<and> set actions \<subseteq> limit rt)"
proof -
  have bucket: "escalating_bucket ps held rt = [] \<longleftrightarrow> rt \<noteq> WILDCARD_RESOURCE_TYPE \<and> set actions \<subseteq> limit rt"
    if "(rt, actions) \<in> set ps" for rt actions
  proof -
    have "map_of ps rt = Some actions" "rt \<in> fst ` set ps" using that assms(1) by force+
    then show ?thesis by (auto simp: escalating_bucket_def Let_def assms(2) filter_empty_conv)
  qed
  have "enforce_within_held_permissions ps held = Inr () \<longleftrightarrow>
      (\<forall>x \<in> set ps. escalating_bucket ps held (fst x) = [])"
    by (simp add: enforce_within_held_permissions_def escalating_permissions_def Let_def)
  also have "\<dots> \<longleftrightarrow> (\<forall>x \<in> set ps. fst x \<noteq> WILDCARD_RESOURCE_TYPE \<and> set (snd x) \<subseteq> limit (fst x))"
    by (rule ball_cong [OF refl]) (use bucket in auto)
  finally show ?thesis by (simp add: case_prod_beta)
qed

section \<open>Binding a checked role\<close>

text \<open>The tables after a role is written and bound to a group.\<close>

definition bind_role :: "Role \<Rightarrow> RoleAssignment \<Rightarrow> acl_db \<Rightarrow> acl_db" where
  "bind_role r a db = db\<lparr>db_roles := db_roles db @ [r], db_role_assignments := db_role_assignments db @ [a]\<rparr>"

lemma rows_by_snoc_at:
  "rows_by key (xs @ [x]) k = (if k = key x then Some x else rows_by key xs k)"
  by (simp add: rows_by_def)

definition fresh_role :: "Role \<Rightarrow> acl_db \<Rightarrow> bool" where
  "fresh_role r db \<longleftrightarrow> role_row db (role_id r) = None
     \<and> (\<forall>b \<in> set (db_role_assignments db). asg_role_id b \<noteq> role_id r)"

lemma granted_after_bind:
  assumes "fresh_role r db" and "asg_role_id a = role_id r"
    and "x \<in> granted_actions (bind_role r a db) ns S"
  shows "x \<in> granted_actions db ns S \<or> covers a ns \<and> x \<in> actions_for r (ns_namespace_type ns)"
proof -
  from assms(3) obtain t where t: "t \<in> grant_chain (bind_role r a db) ns S" "x \<in> tr_contributed_actions t"
    by (auto simp: granted_actions_def)
  show ?thesis
  proof (cases "tr_assignment t = a")
    case True
    with t assms(2) show ?thesis by (auto simp: grant_chain_def bind_role_def role_row_def rows_by_snoc_at)
  next
    case False
    with t(1) assms(1) have "t \<in> grant_chain db ns S"
      by (auto simp: grant_chain_def bind_role_def role_row_def rows_by_snoc_at group_row_def fresh_role_def)
    with t(2) show ?thesis by (auto simp: granted_actions_def)
  qed
qed

text \<open>C28: a role is accepted for a customer exactly when it has no wildcard bucket and every action it
  names is one the admin holds, by the access tables, on every namespace of the type in the customer (and
  there is at least one); binding an accepted role across the customer then gives no group an action on
  any namespace beyond what the group had and what the admin holds there.\<close>

theorem delegated_grant_within_ceiling:
  assumes "backed_by db c" and "rows_keyed db" and "distinct (map fst permissions)"
  shows "\<exists>held c'. resolve_held_permissions d (NamespaceCollection_find_by_type_and_customer db) cust
        (map fst permissions) u agent c = (Inr held, c')
    \<and> (enforce_within_held_permissions permissions held = Inr () \<longleftrightarrow>
        (\<forall>(rt, actions) \<in> set permissions. rt \<noteq> WILDCARD_RESOURCE_TYPE
           \<and> set actions \<subseteq> spec_ceiling d db cust u agent rt))
    \<and> (enforce_within_held_permissions permissions held = Inr () \<longrightarrow>
        (\<forall>r a ns S. fresh_role r db \<and> role_permissions r = map_option set \<circ> map_of permissions
           \<and> asg_role_id a = role_id r \<and> asg_scope_type a = SCOPE_TYPE_CUSTOMER
           \<and> asg_scope_customer_id a = Some cust \<and> ns \<in> set (db_namespaces db) \<longrightarrow>
           granted_actions (bind_role r a db) ns S
             \<subseteq> granted_actions db ns S \<union> spec_held d db u agent ns))"
proof -
  obtain held c' where
    res: "resolve_held_permissions d (NamespaceCollection_find_by_type_and_customer db) cust
        (map fst permissions) u agent c = (Inr held, c')"
    and held: "actions_by_resource_type held = (\<lambda>rt. if rt \<in> fst ` set permissions \<and> rt \<noteq> WILDCARD_RESOURCE_TYPE
        then Some (spec_ceiling d db cust u agent rt) else None)"
    using resolve_held_correct [OF assms(1,2), of d cust "map fst permissions" u agent] by auto
  note iff = enforce_within_held_iff [OF assms(3) held]
  have "granted_actions (bind_role r a db) ns S \<subseteq> granted_actions db ns S \<union> spec_held d db u agent ns"
    if ok: "\<forall>(rt, actions) \<in> set permissions. rt \<noteq> WILDCARD_RESOURCE_TYPE
         \<and> set actions \<subseteq> spec_ceiling d db cust u agent rt"
      and r: "fresh_role r db" "role_permissions r = map_option set \<circ> map_of permissions"
      and a: "asg_role_id a = role_id r" "asg_scope_type a = SCOPE_TYPE_CUSTOMER"
        "asg_scope_customer_id a = Some cust"
      and ns: "ns \<in> set (db_namespaces db)" for r a ns S
  proof
    fix x assume "x \<in> granted_actions (bind_role r a db) ns S"
    from granted_after_bind [OF r(1) a(1) this] show "x \<in> granted_actions db ns S \<union> spec_held d db u agent ns"
    proof
      assume x: "covers a ns \<and> x \<in> actions_for r (ns_namespace_type ns)"
      then have cust: "ns_customer_id ns = Some cust" using a(2,3) by (simp add: covers_def)
      from x ok obtain actions where "(ns_namespace_type ns, actions) \<in> set permissions" "x \<in> set actions"
        by (auto simp: actions_for_def perm_get_def r(2) split: option.splits dest!: map_of_SomeD)
      with ok have "x \<in> spec_ceiling d db cust u agent (ns_namespace_type ns)" by blast
      with ns cust show ?thesis by (auto simp: spec_ceiling_def Let_def split: if_splits)
    qed simp
  qed
  with res iff show ?thesis by blast
qed

theorem delegated_grant_within_ceiling_witness:
  "\<exists>held c'. resolve_held_permissions 2 (NamespaceCollection_find_by_type_and_customer example_db) 9
      [''workspace''] 1 None example_cache = (Inr held, c')
    \<and> enforce_within_held_permissions [(''workspace'', [''read''])] held = Inr ()"
proof -
  have keyed: "rows_keyed example_db"
    by (simp add: rows_keyed_def namespace_row_def rows_by_def example_db_def)
  have "probe_ctx (ctx_namespace example_ctx) 1 None = example_ctx\<lparr>ctx_action := HELD_ACTIONS_PROBE\<rparr>"
    by (simp add: probe_ctx_def example_ctx_def)
  then have "''read'' \<in> spec_held 2 example_db 1 None (ctx_namespace example_ctx)"
    using example_allowed by (simp add: spec_held_def spec_allowed_any_action)
  then have "''read'' \<in> spec_ceiling 2 example_db 9 1 None ''workspace''"
    by (simp add: spec_ceiling_def example_db_def example_ctx_def Collect_conv_if)
  with delegated_grant_within_ceiling [OF example_ok(2) keyed, of "[(''workspace'', [''read''])]" 2 9 1 None]
  show ?thesis by (auto simp: WILDCARD_RESOURCE_TYPE_def)
qed

end
