(* ===== verification/AclAuthorize.thy ===== *)
theory AclAuthorize
  imports AclDelegation
begin

text \<open>
  The authorization entry points (\<open>threetears.agent.acl.authorize\<close>): on a resolved namespace, by
  name, by name with the entity, and from verified token claims with the impersonation deny-list.  The
  namespace collection's \<open>get_by_name\<close> is an argument.  A raise is an \<open>Inl\<close>; log lines are left
  out.
\<close>

section \<open>Refusals and claims\<close>

datatype ImpersonationCategory =
    CREDENTIAL_PASSKEY_MFA_MANAGEMENT | ACCOUNT_DELETION | APIKEY_MINT_ROTATE_FOR_TARGET
  | EMAIL_CHANGE | RBAC_GRANT_CHANGE | AUDIT_EDITING

fun category_value :: "ImpersonationCategory \<Rightarrow> string" where
  "category_value CREDENTIAL_PASSKEY_MFA_MANAGEMENT = ''credential_passkey_mfa_management''"
| "category_value ACCOUNT_DELETION = ''account_deletion''"
| "category_value APIKEY_MINT_ROTATE_FOR_TARGET = ''apikey_mint_rotate_for_target''"
| "category_value EMAIL_CHANGE = ''email_change''"
| "category_value RBAC_GRANT_CHANGE = ''rbac_grant_change''"
| "category_value AUDIT_EDITING = ''audit_editing''"

definition IMPERSONATION_ACT_REASON :: string where
  "IMPERSONATION_ACT_REASON = ''impersonation''"

definition INTERNAL_AUDIENCE :: string where
  "INTERNAL_AUDIENCE = ''aibots:internal''"

text \<open>\<open>AccessDenied\<close> and its two subclasses.\<close>

datatype denial_class = AccessDeniedBase | NamespaceNotFound | ExternalAudienceNotSupported

record AccessDenied =
  ad_class :: denial_class
  ad_message :: string
  ad_action :: "string option"
  ad_namespace_name :: "string option"
  ad_user_id :: "uuid option"
  ad_agent_id :: "uuid option"
  ad_reason :: "string option"

datatype authorize_error = Denied AccessDenied | Evaluation eval_error

record ClaimsForAuthorization =
  cl_sub :: string
  cl_is_internal_audience :: bool
  cl_act_reason :: "string option"

definition from_verified_claims :: "string \<Rightarrow> string option \<Rightarrow> string option \<Rightarrow> ClaimsForAuthorization" where
  "from_verified_claims sub aud act_reason =
     \<lparr>cl_sub = sub, cl_is_internal_audience = (aud = Some INTERNAL_AUDIENCE), cl_act_reason = act_reason\<rparr>"

section \<open>Entry points\<close>

text \<open>The namespace the evaluator is asked about: the name the lookup was made by wins over the
  entity's own.\<close>

definition authorized_namespace :: "Namespace \<Rightarrow> string option \<Rightarrow> Namespace" where
  "authorized_namespace ns_entity name =
     (entity_namespace ns_entity)
       \<lparr>ns_name := (case name of None \<Rightarrow> ns_name ns_entity | Some n \<Rightarrow> Some n)\<rparr>"

definition authorize_ctx ::
  "Namespace \<Rightarrow> string \<Rightarrow> uuid option \<Rightarrow> uuid option \<Rightarrow> EvaluationContext" where
  "authorize_ctx namespace action user_id agent_id =
     \<lparr>ctx_namespace = namespace, ctx_action = action, ctx_user_id = user_id, ctx_agent_id = agent_id,
      ctx_group_id = None\<rparr>"

definition authorize_on_entity ::
  "nat \<Rightarrow> Namespace \<Rightarrow> string \<Rightarrow> uuid option \<Rightarrow> uuid option \<Rightarrow> string option \<Rightarrow> AclCache \<Rightarrow>
   (authorize_error + EvaluationResult) \<times> AclCache" where
  "authorize_on_entity max_depth ns_entity action user_id agent_id name c =
     (case evaluate_with_trail max_depth
             (authorize_ctx (authorized_namespace ns_entity name) action user_id agent_id) c of
        (Inl e, c1) \<Rightarrow> (Inl (Evaluation e), c1)
      | (Inr result, c1) \<Rightarrow>
          if \<not> res_decision result then
            (Inl (Denied
               \<lparr>ad_class = AccessDeniedBase,
                ad_message = ''access denied: '' @ action @ '' on namespace ''
                  @ (case name of None \<Rightarrow> uuid_str (ns_id ns_entity) | Some n \<Rightarrow> n),
                ad_action = Some action, ad_namespace_name = name, ad_user_id = user_id,
                ad_agent_id = agent_id, ad_reason = Some ''evaluator_deny''\<rparr>), c1)
          else (Inr result, c1))"

definition namespace_not_found ::
  "string \<Rightarrow> string \<Rightarrow> uuid option \<Rightarrow> uuid option \<Rightarrow> AccessDenied" where
  "namespace_not_found name action user_id agent_id =
     \<lparr>ad_class = NamespaceNotFound,
      ad_message = ''access denied: namespace '' @ name @ '' not found'',
      ad_action = Some action, ad_namespace_name = Some name, ad_user_id = user_id,
      ad_agent_id = agent_id, ad_reason = Some ''namespace_not_found''\<rparr>"

definition authorize ::
  "nat \<Rightarrow> (string \<Rightarrow> Namespace option) \<Rightarrow> string \<Rightarrow> string \<Rightarrow> uuid option \<Rightarrow> uuid option \<Rightarrow> AclCache \<Rightarrow>
   (authorize_error + EvaluationResult) \<times> AclCache" where
  "authorize max_depth get_by_name name action user_id agent_id c =
     (case get_by_name name of
        None \<Rightarrow> (Inl (Denied (namespace_not_found name action user_id agent_id)), c)
      | Some ns_entity \<Rightarrow>
          authorize_on_entity max_depth ns_entity action user_id agent_id (Some name) c)"

definition authorize_with_trail ::
  "nat \<Rightarrow> (string \<Rightarrow> Namespace option) \<Rightarrow> string \<Rightarrow> string \<Rightarrow> uuid option \<Rightarrow> uuid option \<Rightarrow> AclCache \<Rightarrow>
   (authorize_error + EvaluationResult \<times> Namespace) \<times> AclCache" where
  "authorize_with_trail max_depth get_by_name name action user_id agent_id c =
     (case get_by_name name of
        None \<Rightarrow> (Inl (Denied (namespace_not_found name action user_id agent_id)), c)
      | Some ns_entity \<Rightarrow>
          let (r, c1) = authorize_on_entity max_depth ns_entity action user_id agent_id
                          (Some name) c
          in (map_sum (\<lambda>e. e) (\<lambda>result. (result, ns_entity)) r, c1))"

definition authorize_from_claims ::
  "nat \<Rightarrow> (string \<Rightarrow> Namespace option) \<Rightarrow> string \<Rightarrow> string \<Rightarrow> ClaimsForAuthorization \<Rightarrow>
   ImpersonationCategory option \<Rightarrow> AclCache \<Rightarrow> (authorize_error + EvaluationResult) \<times> AclCache" where
  "authorize_from_claims max_depth get_by_name name action claims sensitive_category c =
     (if \<not> cl_is_internal_audience claims then
        (Inl (Denied
           \<lparr>ad_class = ExternalAudienceNotSupported,
            ad_message = ''authorize_from_claims: external-audience tokens are not supported ''
              @ ''(sub cannot be resolved to a real principal_id)'',
            ad_action = Some action, ad_namespace_name = Some name, ad_user_id = None,
            ad_agent_id = None, ad_reason = Some ''external_audience_not_supported''\<rparr>), c)
      else
        case uuid_parse (cl_sub claims) of
          None \<Rightarrow>
            (Inl (Denied
               \<lparr>ad_class = AccessDeniedBase,
                ad_message = ''authorize_from_claims: claims.sub '' @ py_repr (cl_sub claims)
                  @ '' is not a valid principal id'',
                ad_action = Some action, ad_namespace_name = Some name, ad_user_id = None,
                ad_agent_id = None, ad_reason = Some ''invalid_sub''\<rparr>), c)
        | Some user_id \<Rightarrow>
            (case (cl_act_reason claims = Some IMPERSONATION_ACT_REASON, sensitive_category) of
               (True, Some category) \<Rightarrow>
                 (Inl (Denied
                    \<lparr>ad_class = AccessDeniedBase,
                     ad_message = ''access denied: '' @ action @ '' on namespace '' @ name
                       @ '' is deny-listed ''
                       @ ''under impersonation (category '' @ category_value category @ '')'',
                     ad_action = Some action, ad_namespace_name = Some name,
                     ad_user_id = Some user_id, ad_agent_id = None,
                     ad_reason = Some ''impersonation_deny_list''\<rparr>), c)
             | _ \<Rightarrow> authorize max_depth get_by_name name action (Some user_id) None c))"

section \<open>What they decide\<close>

text \<open>A lookup by name that agrees with the tables.\<close>

definition finds_rows :: "acl_db \<Rightarrow> (string \<Rightarrow> Namespace option) \<Rightarrow> bool" where
  "finds_rows db get_by_name \<longleftrightarrow>
     (\<forall>n ns. get_by_name n = Some ns \<longrightarrow> namespace_row db (ns_id ns) = Some ns \<and> ns_name ns = Some n)"

definition NamespaceCollection_get_by_name :: "acl_db \<Rightarrow> string \<Rightarrow> Namespace option" where
  "NamespaceCollection_get_by_name db name = find (\<lambda>n. ns_name n = Some name) (db_namespaces db)"

lemma finds_rows_collection: "rows_keyed db \<Longrightarrow> finds_rows db (NamespaceCollection_get_by_name db)"
  by (auto simp: finds_rows_def rows_keyed_def NamespaceCollection_get_by_name_def find_Some_iff)

lemma authorized_namespace_same:
  "name = None \<or> ns_name ns = name \<Longrightarrow> authorized_namespace ns name = ns"
  by (cases ns) (auto simp: authorized_namespace_def entity_namespace_def split: option.splits)

lemma authorize_on_entity_correct:
  assumes "backed_by db c" and "namespace_row db (ns_id ns) = Some ns"
    and "name = None \<or> ns_name ns = name" and "u \<noteq> None \<or> a \<noteq> None"
  shows "\<exists>r c'. authorize_on_entity d ns action u a name c = (r, c') \<and> backed_by db c'
    \<and> (case r of Inr res \<Rightarrow> result_correct d db (authorize_ctx ns action u a) res
          \<and> spec_allowed d db (authorize_ctx ns action u a) action
       | Inl e \<Rightarrow> (\<exists>den. e = Denied den \<and> ad_reason den = Some ''evaluator_deny'')
          \<and> \<not> spec_allowed d db (authorize_ctx ns action u a) action)"
proof -
  have "asked_in db (authorize_ctx ns action u a)"
    using assms(2,4) by (auto simp: asked_in_def check_context_def authorize_ctx_def)
  from evaluate_with_trail_correct [OF assms(1) this, of d] obtain res c' where
    ev: "evaluate_with_trail d (authorize_ctx ns action u a) c = (Inr res, c')"
    and res: "result_correct d db (authorize_ctx ns action u a) res" and "backed_by db c'" by blast
  moreover from res have "res_decision res = spec_allowed d db (authorize_ctx ns action u a) action"
    by (simp add: result_correct_def Let_def authorize_ctx_def)
  ultimately show ?thesis
    by (auto simp: authorize_on_entity_def authorized_namespace_same [OF assms(3)])
qed

text \<open>C27: a call authorized from token claims is allowed exactly when the token is internal, its subject
  is a UUID, it is not an impersonation of a sensitive action, the namespace exists and the access tables
  allow the subject the action; the impersonation of a sensitive action is refused without consulting
  the evaluator, whatever the subject may do.\<close>

theorem authorize_from_claims_exact:
  assumes "backed_by db c" and "finds_rows db get_by_name"
  shows "((\<exists>res. fst (authorize_from_claims d get_by_name name action claims category c) = Inr res) \<longleftrightarrow>
      cl_is_internal_audience claims
      \<and> (cl_act_reason claims = Some IMPERSONATION_ACT_REASON \<longrightarrow> category = None)
      \<and> (\<exists>u ns. uuid_parse (cl_sub claims) = Some u \<and> get_by_name name = Some ns
           \<and> spec_allowed d db (authorize_ctx ns action (Some u) None) action))
    \<and> (cl_is_internal_audience claims \<and> uuid_parse (cl_sub claims) \<noteq> None
       \<and> cl_act_reason claims = Some IMPERSONATION_ACT_REASON \<and> category \<noteq> None \<longrightarrow>
       (\<exists>den. authorize_from_claims d get_by_name name action claims category c = (Inl (Denied den), c)
          \<and> ad_reason den = Some ''impersonation_deny_list''))
    \<and> backed_by db (snd (authorize_from_claims d get_by_name name action claims category c))"
proof -
  have auth: "((\<exists>res. fst (authorize d get_by_name name action (Some u) None c) = Inr res) \<longleftrightarrow>
      (\<exists>ns. get_by_name name = Some ns \<and> spec_allowed d db (authorize_ctx ns action (Some u) None) action))
      \<and> backed_by db (snd (authorize d get_by_name name action (Some u) None c))" for u
  proof (cases "get_by_name name")
    case None
    then show ?thesis using assms(1) by (simp add: authorize_def)
  next
    case (Some ns)
    then have ns: "namespace_row db (ns_id ns) = Some ns" "Some name = None \<or> ns_name ns = Some name"
      using assms(2) by (auto simp: finds_rows_def)
    have u: "Some u \<noteq> None \<or> (None :: uuid option) \<noteq> None" by simp
    from authorize_on_entity_correct [OF assms(1) ns u, of d action] obtain r c' where
      "authorize_on_entity d ns action (Some u) None (Some name) c = (r, c')" "backed_by db c'"
      "case r of Inr res \<Rightarrow> result_correct d db (authorize_ctx ns action (Some u) None) res
          \<and> spec_allowed d db (authorize_ctx ns action (Some u) None) action
       | Inl e \<Rightarrow> (\<exists>den. e = Denied den \<and> ad_reason den = Some ''evaluator_deny'')
          \<and> \<not> spec_allowed d db (authorize_ctx ns action (Some u) None) action" by blast
    then show ?thesis using Some by (cases r) (auto simp: authorize_def)
  qed
  show ?thesis
  proof (cases "cl_is_internal_audience claims")
    case False
    then show ?thesis using assms(1) by (simp add: authorize_from_claims_def)
  next
    case internal: True
    show ?thesis
    proof (cases "uuid_parse (cl_sub claims)")
      case None
      then show ?thesis using internal assms(1) by (simp add: authorize_from_claims_def)
    next
      case (Some u)
      show ?thesis using auth [of u] internal Some assms(1)
        by (cases category) (simp_all add: authorize_from_claims_def split: bool.split)
    qed
  qed
qed

text \<open>The example tables with the workspace named.\<close>

definition named_namespace :: Namespace where
  "named_namespace = (ctx_namespace example_ctx)\<lparr>ns_name := Some ''workspaces.w''\<rparr>"

definition named_db :: acl_db where
  "named_db = example_db\<lparr>db_namespaces := [named_namespace]\<rparr>"

definition named_cache :: AclCache where
  "named_cache = new_AclCache (CollectionMembershipLoader named_db) (CollectionGrantLoader named_db)"

lemma named_allowed: "spec_allowed 2 named_db (authorize_ctx named_namespace ''read'' (Some 1) None) ''read''"
proof -
  have chain: "grant_chain named_db named_namespace S = grant_chain example_db (ctx_namespace example_ctx) S" for S
    by (simp add: grant_chain_def named_db_def named_namespace_def group_row_def role_row_def)
      (auto simp: example_db_def covers_def)
  have "holds_groups named_db = holds_groups example_db"
    by (simp add: holds_groups_def fun_eq_iff named_db_def)
  then have "spec_user_groups 2 named_db (authorize_ctx named_namespace ''read'' (Some 1) None)
      = spec_user_groups 2 example_db example_ctx"
    by (simp add: spec_user_groups_def spec_groups_def spec_direct_def within_def parent_edges_def
        authorize_ctx_def example_ctx_def named_namespace_def)
  with chain example_allowed show ?thesis
    by (simp add: spec_allowed_def granted_actions_def has_agent_side_def has_user_side_def authorize_ctx_def)
      (simp add: example_ctx_def)
qed

theorem authorize_from_claims_exact_witness:
  "\<exists>res. fst (authorize_from_claims 2 (NamespaceCollection_get_by_name named_db) ''workspaces.w'' ''read''
      (from_verified_claims (uuid_str 1) (Some INTERNAL_AUDIENCE) None) (Some EMAIL_CHANGE) named_cache) = Inr res"
proof -
  let ?get = "NamespaceCollection_get_by_name named_db"
  have "rows_keyed named_db" by (simp add: rows_keyed_def namespace_row_def rows_by_def named_db_def)
  from finds_rows_collection [OF this] have get: "finds_rows named_db ?get" .
  have cache: "backed_by named_db named_cache"
    by (simp add: backed_by_def named_cache_def coherent_new) (simp add: new_AclCache_def)
  have "?get ''workspaces.w'' = Some named_namespace"
    by (simp add: NamespaceCollection_get_by_name_def named_db_def named_namespace_def)
  with authorize_from_claims_exact [OF cache get, of 2 "''workspaces.w''" "''read''"
      "from_verified_claims (uuid_str 1) (Some INTERNAL_AUDIENCE) None" "Some EMAIL_CHANGE"] named_allowed
  show ?thesis by (simp add: from_verified_claims_def)
qed

end
