(* ===== verification/WorkspaceAuthorize.thy ===== *)
theory WorkspaceAuthorize
  imports AclAuthorize AclFiles AclFollow
begin

text \<open>
  The gates of the workspace tools (\<open>threetears.agent.workspace.authorize\<close>): read or write of a
  workspace, and read or write of one path in it.  Both refuse a call without a customer and a call from
  another customer before the evaluator runs.  Log lines are left out.
\<close>

section \<open>Definitions\<close>

record WorkspaceLike =
  ws_id :: uuid
  ws_customer_id :: "uuid option"
  ws_owner_agent_id :: "uuid option"
  ws_namespace_name :: string

record CallContext =
  cc_customer_id :: "uuid option"
  cc_user_id :: "uuid option"
  cc_agent_id :: "uuid option"

datatype workspace_error = WorkspaceAccessDenied string | WorkspaceRaised eval_error

definition optional_uuid_str :: "uuid option \<Rightarrow> string" where
  "optional_uuid_str u = (case u of None \<Rightarrow> ''None'' | Some i \<Rightarrow> uuid_str i)"

definition WorkspaceNamespaceAdapter :: "WorkspaceLike \<Rightarrow> Namespace" where
  "WorkspaceNamespaceAdapter workspace =
     \<lparr>ns_id = ws_id workspace, ns_customer_id = ws_customer_id workspace, ns_namespace_type = ''workspace'',
      ns_owner_agent_id = ws_owner_agent_id workspace, ns_name = None,
      ns_owner_namespace = map_option build_agent_namespace_name (ws_owner_agent_id workspace)\<rparr>"

definition cross_customer :: "WorkspaceLike \<Rightarrow> CallContext \<Rightarrow> workspace_error" where
  "cross_customer workspace ctx = WorkspaceAccessDenied (''cross-customer access denied: ''
     @ ''workspace customer='' @ optional_uuid_str (ws_customer_id workspace) @ '', ''
     @ ''caller customer='' @ optional_uuid_str (cc_customer_id ctx))"

definition authorize_workspace_access ::
  "nat \<Rightarrow> CallContext \<Rightarrow> WorkspaceLike \<Rightarrow> string \<Rightarrow> AclCache \<Rightarrow> (workspace_error + unit) \<times> AclCache" where
  "authorize_workspace_access max_depth ctx workspace operation c =
     (if operation \<notin> {''read'', ''write''}
      then (Inl (WorkspaceAccessDenied (''unknown workspace operation: '' @ operation)), c)
      else if cc_customer_id ctx = None
      then (Inl (WorkspaceAccessDenied ''missing customer_id on scope''), c)
      else if ws_customer_id workspace \<noteq> cc_customer_id ctx
      then (Inl (cross_customer workspace ctx), c)
      else
        case authorize_on_entity max_depth (WorkspaceNamespaceAdapter workspace) operation
               (cc_user_id ctx) (cc_agent_id ctx) (Some (ws_namespace_name workspace)) c of
          (Inl (Denied _), c1) \<Rightarrow>
            (Inl (WorkspaceAccessDenied (''evaluator denied access on namespace ''
               @ ws_namespace_name workspace)), c1)
        | (Inl (Evaluation e), c1) \<Rightarrow> (Inl (WorkspaceRaised e), c1)
        | (Inr _, c1) \<Rightarrow> (Inr (), c1))"

text \<open>The namespace of the file gate has no name.\<close>

definition authorize_workspace_file_access ::
  "nat \<Rightarrow> CallContext \<Rightarrow> WorkspaceLike \<Rightarrow> string \<Rightarrow> string \<Rightarrow> AclCache \<Rightarrow>
   (workspace_error + unit) \<times> AclCache" where
  "authorize_workspace_file_access max_depth ctx workspace relative_path direction c =
     (if direction \<notin> {''read'', ''write''}
      then (Inl (WorkspaceAccessDenied (''unknown workspace file direction: '' @ direction)), c)
      else if cc_customer_id ctx = None
      then (Inl (WorkspaceAccessDenied ''missing customer_id on scope''), c)
      else if ws_customer_id workspace \<noteq> cc_customer_id ctx
      then (Inl (cross_customer workspace ctx), c)
      else
        case evaluate_file_access max_depth (WorkspaceNamespaceAdapter workspace) (cc_user_id ctx)
               (cc_agent_id ctx) relative_path direction c of
          (Inl e, c1) \<Rightarrow> (Inl (WorkspaceRaised e), c1)
        | (Inr decision, c1) \<Rightarrow>
            if \<not> decision then
              (Inl (WorkspaceAccessDenied (''no '' @ direction @ ''_file_matching glob grants ''
                 @ py_repr relative_path @ '' on namespace '' @ ws_namespace_name workspace)), c1)
            else (Inr (), c1))"

section \<open>The workspace gate\<close>

text \<open>The row of a workspace's namespace, as the gate names it.\<close>

definition workspace_row :: "WorkspaceLike \<Rightarrow> Namespace" where
  "workspace_row w = (WorkspaceNamespaceAdapter w)\<lparr>ns_name := Some (ws_namespace_name w)\<rparr>"

lemma authorize_on_entity_override:
  "authorize_on_entity d ns action u a (Some n) c = authorize_on_entity d (ns\<lparr>ns_name := Some n\<rparr>) action u a (Some n) c"
  unfolding authorize_on_entity_def option.case by (simp add: authorized_namespace_def entity_namespace_def)



section \<open>One cache entry, two names\<close>

text \<open>The workspace gate asks with the namespace's name, the file gate without one, and both answers
  live under the namespace's id.  User 5 is in group 3, whose role reads every file of the subtree
  \<open>workspaces\<close>.\<close>

definition shared_workspace :: WorkspaceLike where
  "shared_workspace = \<lparr>ws_id = 7, ws_customer_id = Some 9, ws_owner_agent_id = Some 6,
     ws_namespace_name = ''workspaces.w''\<rparr>"

definition shared_db :: acl_db where
  "shared_db =
     \<lparr>db_groups = [\<lparr>grp_id = 3, grp_name = ''readers'', grp_customer_id = None\<rparr>],
      db_group_members = [\<lparr>mem_group_id = 3, mem_member_type = MEMBER_USER, mem_member_id = 5,
                           mem_customer_id = None\<rparr>],
      db_roles = [\<lparr>role_id = 4, role_name = ''Reader'',
                   role_permissions = [''workspace'' \<mapsto> {''read'', ''read_file_matching:**''}],
                   role_is_built_in = True, role_customer_id = None\<rparr>],
      db_role_assignments = [\<lparr>asg_id = 5, asg_role_id = 4, asg_group_id = 3,
                   asg_scope_type = SCOPE_SUBTREE, asg_scope_namespace_id = None,
                   asg_scope_namespace_type = None, asg_scope_customer_id = None,
                   asg_scope_namespace_name = Some ''workspaces''\<rparr>],
      db_namespaces = [workspace_row shared_workspace]\<rparr>"

definition shared_cache :: AclCache where
  "shared_cache = new_AclCache (CollectionMembershipLoader shared_db) (CollectionGrantLoader shared_db)"

definition user_call :: CallContext where
  "user_call = \<lparr>cc_customer_id = Some 9, cc_user_id = Some 5, cc_agent_id = None\<rparr>"

text \<open>C35: the file gate asks about a namespace without its name and the workspace gate about the same id with
  it, and both share one cache entry; so with the same tables the file gate denies a path when it is asked
  first and allows it when the workspace gate was asked before.\<close>

lemma file_gate_depends_on_order:
  "backed_by shared_db shared_cache
   \<and> (\<exists>m. fst (authorize_workspace_file_access 1 user_call shared_workspace ''a.md'' ''read'' shared_cache)
        = Inl (WorkspaceAccessDenied m))
   \<and> fst (authorize_workspace_file_access 1 user_call shared_workspace ''a.md'' ''read''
        (snd (authorize_workspace_access 1 user_call shared_workspace ''read'' shared_cache))) = Inr ()"
proof (intro conjI)
  show "backed_by shared_db shared_cache"
    by (simp add: backed_by_def shared_cache_def coherent_new) (simp add: new_AclCache_def)
  have glob: "full_match ''a.md'' ''**''" by code_simp
  note defs = authorize_workspace_file_access_def authorize_workspace_access_def authorize_on_entity_def
    authorized_namespace_def entity_namespace_def authorize_ctx_def evaluate_file_access_def evaluation_defs
    direct_groups_def get_membership_def put_membership_def CollectionMembershipLoader_def
    GroupMemberCollection_load_for_user_def filter_memberships_def path_matches_trails_def
    shared_cache_def shared_db_def shared_workspace_def user_call_def WorkspaceNamespaceAdapter_def
  show "\<exists>m. fst (authorize_workspace_file_access 1 user_call shared_workspace ''a.md'' ''read'' shared_cache)
        = Inl (WorkspaceAccessDenied m)"
    by (simp add: defs Let_def)
  show "fst (authorize_workspace_file_access 1 user_call shared_workspace ''a.md'' ''read''
        (snd (authorize_workspace_access 1 user_call shared_workspace ''read'' shared_cache))) = Inr ()"
    by (simp add: defs Let_def namespace_contains_def NAMESPACE_NAME_SEPARATOR_def glob
        READ_FILE_MATCHING_PREFIX_def)
qed

end
