(* ===== verification/KvBucket.thy ===== *)
theory KvBucket
  imports Prelude
begin

text \<open>
  The key-value bucket the coordination primitives share, as the published double
  \<open>threetears.core.testing.kv.FakeKvBucket\<close> states its contract: create-if-absent, compare-and-swap
  update and delete by revision, deletion markers, per-entry lifetimes, and what a broker restart does.
  Times are microseconds.  Values are what the client encodes.  The size bound and the key watchers are
  left out.  The locale \<open>cas_bucket\<close> is the part of the contract the clients' proofs rest on; the
  double's operations are its interpretation.
\<close>

section \<open>The bucket\<close>

datatype kv_error = KvUnreachable | KvBucketNotFound | KvShortTtl

record 'v kv_entry =
  kve_value :: 'v
  kve_revision :: nat
  kve_expires_at :: "int option"

record 'v kv_bucket =
  kv_entries :: "string \<rightharpoonup> 'v kv_entry"
  kv_markers :: "string \<rightharpoonup> nat"
  kv_marker_expiry :: "string \<rightharpoonup> int"
  kv_revision :: nat
  kv_created :: int
  kv_vanished :: bool
  kv_may_create :: bool
  kv_unreachable :: bool
  kv_elapsed :: int

definition SECOND :: int where
  "SECOND = 1000000"

definition new_kv_bucket :: "int \<Rightarrow> bool \<Rightarrow> 'v kv_bucket" where
  "new_kv_bucket now may_create =
     \<lparr>kv_entries = Map.empty, kv_markers = Map.empty, kv_marker_expiry = Map.empty, kv_revision = 0,
      kv_created = now, kv_vanished = False, kv_may_create = may_create, kv_unreachable = False,
      kv_elapsed = 0\<rparr>"

text \<open>\<open>_arrive\<close>: fail when unreachable, heal a vanished bucket through a handle that may create it.\<close>

definition kv_arrive :: "int \<Rightarrow> 'v kv_bucket \<Rightarrow> kv_error + 'v kv_bucket" where
  "kv_arrive now b =
     (if kv_unreachable b then Inl KvUnreachable
      else if kv_vanished b \<and> \<not> kv_may_create b then Inl KvBucketNotFound
      else if kv_vanished b
        then Inr (b\<lparr>kv_vanished := False, kv_created := now, kv_revision := 0,
                    kv_markers := Map.empty, kv_marker_expiry := Map.empty\<rparr>)
      else Inr b)"

definition kv_lapsed :: "'v kv_bucket \<Rightarrow> int option \<Rightarrow> bool" where
  "kv_lapsed b expires_at = (case expires_at of None \<Rightarrow> False | Some t \<Rightarrow> t \<le> kv_elapsed b)"

definition kv_live :: "string \<Rightarrow> 'v kv_bucket \<Rightarrow> 'v kv_entry option \<times> 'v kv_bucket" where
  "kv_live key b =
     (case kv_entries b key of
        None \<Rightarrow> (None, b)
      | Some e \<Rightarrow>
          if kv_lapsed b (kve_expires_at e)
          then (None, b\<lparr>kv_entries := (kv_entries b)(key := None)\<rparr>)
          else (Some e, b))"

definition kv_marker :: "string \<Rightarrow> 'v kv_bucket \<Rightarrow> nat option \<times> 'v kv_bucket" where
  "kv_marker key b =
     (let b1 = (if kv_lapsed b (kv_marker_expiry b key)
                then b\<lparr>kv_marker_expiry := (kv_marker_expiry b)(key := None),
                       kv_markers := (kv_markers b)(key := None)\<rparr>
                else b)
      in (kv_markers b1 key, b1))"

definition kv_latest_revision :: "string \<Rightarrow> 'v kv_bucket \<Rightarrow> nat \<times> 'v kv_bucket" where
  "kv_latest_revision key b =
     (let (e, b1) = kv_live key b
      in case e of
           Some entry \<Rightarrow> (kve_revision entry, b1)
         | None \<Rightarrow>
             let (m, b2) = kv_marker key b1
             in (case m of Some r \<Rightarrow> r | None \<Rightarrow> 0, b2))"

definition kv_expiry :: "int option \<Rightarrow> 'v kv_bucket \<Rightarrow> kv_error + int option" where
  "kv_expiry ttl b =
     (case ttl of
        None \<Rightarrow> Inr None
      | Some t \<Rightarrow> if t < SECOND then Inl KvShortTtl else Inr (Some (kv_elapsed b + t)))"

definition kv_write ::
  "string \<Rightarrow> 'v \<Rightarrow> int option \<Rightarrow> 'v kv_bucket \<Rightarrow> (kv_error + nat) \<times> 'v kv_bucket" where
  "kv_write key value ttl b =
     (case kv_expiry ttl b of
        Inl e \<Rightarrow> (Inl e, b)
      | Inr expires_at \<Rightarrow>
          let r = kv_revision b + 1
          in (Inr r, b\<lparr>kv_revision := r,
                       kv_entries := (kv_entries b)(key \<mapsto>
                         \<lparr>kve_value = value, kve_revision = r, kve_expires_at = expires_at\<rparr>),
                       kv_markers := (kv_markers b)(key := None),
                       kv_marker_expiry := (kv_marker_expiry b)(key := None)\<rparr>))"

definition kv_mark_deleted ::
  "string \<Rightarrow> int option \<Rightarrow> 'v kv_bucket \<Rightarrow> (kv_error + unit) \<times> 'v kv_bucket" where
  "kv_mark_deleted key ttl b =
     (case kv_expiry ttl b of
        Inl e \<Rightarrow> (Inl e, b)
      | Inr expires_at \<Rightarrow>
          let r = kv_revision b + 1
          in (Inr (), b\<lparr>kv_revision := r, kv_markers := (kv_markers b)(key \<mapsto> r),
                        kv_marker_expiry := (kv_marker_expiry b)(key := expires_at)\<rparr>))"

section \<open>Operations\<close>

text \<open>Every operation arrives first; a failed arrival leaves the bucket as it was.\<close>

definition kv_run ::
  "int \<Rightarrow> ('v kv_bucket \<Rightarrow> (kv_error + 'r) \<times> 'v kv_bucket) \<Rightarrow> 'v kv_bucket \<Rightarrow> (kv_error + 'r) \<times> 'v kv_bucket" where
  "kv_run now f b = (case kv_arrive now b of Inl e \<Rightarrow> (Inl e, b) | Inr b1 \<Rightarrow> f b1)"

definition kv_create ::
  "int \<Rightarrow> string \<Rightarrow> 'v \<Rightarrow> int option \<Rightarrow> 'v kv_bucket \<Rightarrow> (kv_error + nat option) \<times> 'v kv_bucket" where
  "kv_create now key value ttl =
     kv_run now (\<lambda>b.
       let (e, b1) = kv_live key b
       in if e \<noteq> None then (Inr None, b1)
          else let (r, b2) = kv_write key value ttl b1 in (map_sum (\<lambda>e. e) Some r, b2))"

definition kv_get_entry ::
  "int \<Rightarrow> string \<Rightarrow> 'v kv_bucket \<Rightarrow> (kv_error + ('v \<times> nat) option) \<times> 'v kv_bucket" where
  "kv_get_entry now key =
     kv_run now (\<lambda>b. let (e, b1) = kv_live key b
                     in (Inr (map_option (\<lambda>e. (kve_value e, kve_revision e)) e), b1))"

definition kv_get ::
  "int \<Rightarrow> string \<Rightarrow> 'v kv_bucket \<Rightarrow> (kv_error + 'v option) \<times> 'v kv_bucket" where
  "kv_get now key =
     kv_run now (\<lambda>b. let (e, b1) = kv_live key b in (Inr (map_option kve_value e), b1))"

definition kv_get_latest ::
  "int \<Rightarrow> string \<Rightarrow> 'v kv_bucket \<Rightarrow> (kv_error + 'v option \<times> nat) \<times> 'v kv_bucket" where
  "kv_get_latest now key =
     kv_run now (\<lambda>b.
       let (e, b1) = kv_live key b
       in case e of
            Some entry \<Rightarrow> (Inr (Some (kve_value entry), kve_revision entry), b1)
          | None \<Rightarrow> let (m, b2) = kv_marker key b1
                    in (Inr (None, case m of Some r \<Rightarrow> r | None \<Rightarrow> 0), b2))"

definition kv_update ::
  "int \<Rightarrow> string \<Rightarrow> 'v \<Rightarrow> nat \<Rightarrow> int option \<Rightarrow> 'v kv_bucket \<Rightarrow> (kv_error + nat option) \<times> 'v kv_bucket" where
  "kv_update now key value revision ttl =
     kv_run now (\<lambda>b.
       let (latest, b1) = kv_latest_revision key b
       in if latest \<noteq> revision then (Inr None, b1)
          else let (r, b2) = kv_write key value ttl b1 in (map_sum (\<lambda>e. e) Some r, b2))"

definition kv_delete ::
  "int \<Rightarrow> string \<Rightarrow> nat option \<Rightarrow> int option \<Rightarrow> 'v kv_bucket \<Rightarrow> (kv_error + bool) \<times> 'v kv_bucket" where
  "kv_delete now key revision marker_ttl =
     kv_run now (\<lambda>b.
       let (e, b1) = kv_live key b
       in case e of
            None \<Rightarrow>
              if revision = None
              then let (r, b2) = kv_mark_deleted key marker_ttl b1
                   in (map_sum (\<lambda>e. e) (\<lambda>_. True) r, b2)
              else (Inr False, b1)
          | Some entry \<Rightarrow>
              if (case revision of None \<Rightarrow> False | Some r \<Rightarrow> kve_revision entry \<noteq> r)
              then (Inr False, b1)
              else
                let (r, b2) = kv_mark_deleted key marker_ttl b1
                in case r of
                     Inl e \<Rightarrow> (Inl e, b2)
                   | Inr _ \<Rightarrow> (Inr True, b2\<lparr>kv_entries := (kv_entries b2)(key := None)\<rparr>))"

definition kv_put ::
  "int \<Rightarrow> string \<Rightarrow> 'v \<Rightarrow> int option \<Rightarrow> 'v kv_bucket \<Rightarrow> (kv_error + nat) \<times> 'v kv_bucket" where
  "kv_put now key value ttl = kv_run now (kv_write key value ttl)"

definition kv_date_created :: "int \<Rightarrow> 'v kv_bucket \<Rightarrow> (kv_error + int) \<times> 'v kv_bucket" where
  "kv_date_created now = kv_run now (\<lambda>b. (Inr (kv_created b), b))"

text \<open>What happens to a bucket: its clock moves, a broker restart empties it or leaves it absent, it
  cannot be reached for a while.\<close>

definition kv_advance_clock :: "int \<Rightarrow> 'v kv_bucket \<Rightarrow> 'v kv_bucket" where
  "kv_advance_clock delta b = b\<lparr>kv_elapsed := kv_elapsed b + delta\<rparr>"

definition kv_wipe :: "int \<Rightarrow> 'v kv_bucket \<Rightarrow> 'v kv_bucket" where
  "kv_wipe now b =
     b\<lparr>kv_entries := Map.empty, kv_markers := Map.empty, kv_marker_expiry := Map.empty,
       kv_created := now, kv_vanished := False, kv_revision := 0\<rparr>"

definition kv_vanish :: "'v kv_bucket \<Rightarrow> 'v kv_bucket" where
  "kv_vanish b =
     b\<lparr>kv_entries := Map.empty, kv_markers := Map.empty, kv_marker_expiry := Map.empty,
       kv_vanished := True\<rparr>"

definition kv_become_unreachable :: "'v kv_bucket \<Rightarrow> 'v kv_bucket" where
  "kv_become_unreachable b = b\<lparr>kv_unreachable := True\<rparr>"

definition kv_become_reachable :: "'v kv_bucket \<Rightarrow> 'v kv_bucket" where
  "kv_become_reachable b = b\<lparr>kv_unreachable := False\<rparr>"

section \<open>What a reader sees\<close>

definition kv_view :: "'v kv_bucket \<Rightarrow> string \<rightharpoonup> 'v \<times> nat" where
  "kv_view b key =
     (case kv_entries b key of
        None \<Rightarrow> None
      | Some e \<Rightarrow> if kv_lapsed b (kve_expires_at e) then None else Some (kve_value e, kve_revision e))"

definition kv_dead :: "'v kv_bucket \<Rightarrow> string \<Rightarrow> nat" where
  "kv_dead b key =
     (if kv_lapsed b (kv_marker_expiry b key) then 0
      else case kv_markers b key of None \<Rightarrow> 0 | Some r \<Rightarrow> r)"

definition kv_latest :: "'v kv_bucket \<Rightarrow> string \<Rightarrow> nat" where
  "kv_latest b key = (case kv_view b key of Some (_, r) \<Rightarrow> r | None \<Rightarrow> kv_dead b key)"

definition kv_expires :: "'v kv_bucket \<Rightarrow> string \<rightharpoonup> int" where
  "kv_expires b key =
     (case kv_entries b key of
        None \<Rightarrow> None
      | Some e \<Rightarrow> if kv_lapsed b (kve_expires_at e) then None else kve_expires_at e)"

text \<open>Every stored revision has been issued, a marker's lifetime belongs to a marker, and a marked key
  has no entry.\<close>

definition kv_wf :: "'v kv_bucket \<Rightarrow> bool" where
  "kv_wf b \<longleftrightarrow>
     (\<forall>k e. kv_entries b k = Some e \<longrightarrow> 0 < kve_revision e \<and> kve_revision e \<le> kv_revision b)
     \<and> (\<forall>k r. kv_markers b k = Some r \<longrightarrow> 0 < r \<and> r \<le> kv_revision b)
     \<and> (\<forall>k. kv_marker_expiry b k \<noteq> None \<longrightarrow> kv_markers b k \<noteq> None)
     \<and> (\<forall>k. kv_markers b k \<noteq> None \<longrightarrow> kv_entries b k = None)"

definition kv_ok :: "'v kv_bucket \<Rightarrow> bool" where
  "kv_ok b \<longleftrightarrow> kv_wf b \<and> \<not> kv_vanished b"

lemma kv_lapsed_update [simp]:
  "kv_lapsed (b\<lparr>kv_entries := es\<rparr>) = kv_lapsed b" "kv_lapsed (b\<lparr>kv_markers := ms\<rparr>) = kv_lapsed b"
  "kv_lapsed (b\<lparr>kv_marker_expiry := mx\<rparr>) = kv_lapsed b" "kv_lapsed (b\<lparr>kv_revision := r\<rparr>) = kv_lapsed b"
  by (simp_all add: kv_lapsed_def fun_eq_iff split: option.split)

lemma kv_dead_entries: "kv_dead (b\<lparr>kv_entries := es\<rparr>) = kv_dead b"
  by (simp add: kv_dead_def fun_eq_iff)

lemma new_kv_bucket_ok: "kv_ok (new_kv_bucket now may_create)"
  by (simp add: kv_ok_def kv_wf_def new_kv_bucket_def)

lemma new_kv_bucket_view [simp]: "kv_view (new_kv_bucket now may_create) k = None"
  by (simp add: kv_view_def new_kv_bucket_def)

lemma kv_latest_cong: "kv_view b' j = kv_view b j \<Longrightarrow> kv_dead b' j = kv_dead b j \<Longrightarrow> kv_latest b' j = kv_latest b j"
  by (simp only: kv_latest_def)

lemma kv_live_spec:
  assumes "kv_live k b = (e, b')"
  shows "map_option (\<lambda>e. (kve_value e, kve_revision e)) e = kv_view b k"
    "kv_view b' = kv_view b" "kv_latest b' = kv_latest b" "kv_revision b' = kv_revision b"
    "kv_ok b \<Longrightarrow> kv_ok b'" "kv_vanished b' = kv_vanished b" "e = None \<Longrightarrow> kv_entries b' k = None"
    "kv_created b' = kv_created b" "kv_elapsed b' = kv_elapsed b" "kv_expires b' = kv_expires b"
proof -
  have split: "(e = None \<and> b' = b \<and> kv_entries b k = None)
      \<or> (\<exists>x. kv_entries b k = Some x \<and> kv_lapsed b (kve_expires_at x) \<and> e = None
          \<and> b' = b\<lparr>kv_entries := (kv_entries b)(k := None)\<rparr>)
      \<or> (\<exists>x. kv_entries b k = Some x \<and> \<not> kv_lapsed b (kve_expires_at x) \<and> e = Some x \<and> b' = b)"
    using assms by (auto simp: kv_live_def split: option.splits if_splits)
  then show view: "kv_view b' = kv_view b"
    by (auto simp: kv_view_def fun_eq_iff cong: option.case_cong)
  from split show "kv_expires b' = kv_expires b"
    by (auto simp: kv_expires_def fun_eq_iff cong: option.case_cong)
  from split show "map_option (\<lambda>e. (kve_value e, kve_revision e)) e = kv_view b k"
    "kv_revision b' = kv_revision b" "kv_ok b \<Longrightarrow> kv_ok b'" "kv_vanished b' = kv_vanished b"
    "e = None \<Longrightarrow> kv_entries b' k = None" "kv_created b' = kv_created b" "kv_elapsed b' = kv_elapsed b"
    by (auto simp: kv_view_def kv_ok_def kv_wf_def split: if_splits)
  have "kv_dead b' = kv_dead b"
    using split by (auto simp: kv_dead_def fun_eq_iff)
  with view show "kv_latest b' = kv_latest b" by (intro ext kv_latest_cong) simp_all
qed

lemma kv_marker_spec:
  assumes "kv_marker k b = (m, b')" and "kv_view b k = None" and "kv_ok b"
  shows "(case m of Some r \<Rightarrow> r | None \<Rightarrow> 0) = kv_latest b k"
    "kv_view b' = kv_view b" "kv_latest b' = kv_latest b" "kv_revision b' = kv_revision b" "kv_ok b'"
    "kv_elapsed b' = kv_elapsed b" "kv_expires b' = kv_expires b"
proof -
  have split: "(\<not> kv_lapsed b (kv_marker_expiry b k) \<and> b' = b \<and> m = kv_markers b k)
      \<or> (kv_lapsed b (kv_marker_expiry b k) \<and> m = None \<and> b' = b\<lparr>kv_marker_expiry := (kv_marker_expiry b)(k := None),
            kv_markers := (kv_markers b)(k := None)\<rparr>)"
    using assms(1) by (auto simp: kv_marker_def Let_def split: if_splits)
  then show view: "kv_view b' = kv_view b"
    by (auto simp: kv_view_def fun_eq_iff cong: option.case_cong)
  from split show "kv_expires b' = kv_expires b"
    by (auto simp: kv_expires_def fun_eq_iff cong: option.case_cong)
  from split show "(case m of Some r \<Rightarrow> r | None \<Rightarrow> 0) = kv_latest b k"
    using assms(2) by (auto simp: kv_latest_def kv_dead_def)
  from split show "kv_revision b' = kv_revision b" "kv_ok b'" "kv_elapsed b' = kv_elapsed b"
    using assms(3) by (auto simp: kv_ok_def kv_wf_def split: if_splits)
  have "kv_dead b' j = kv_dead b j" for j
    using split by (cases "j = k") (auto simp: kv_dead_def kv_lapsed_def [of _ None])
  with view show "kv_latest b' = kv_latest b" by (intro ext kv_latest_cong) simp_all
qed

lemma kv_latest_revision_spec:
  assumes "kv_latest_revision k b = (r, b')" and "kv_ok b"
  shows "r = kv_latest b k" "kv_view b' = kv_view b" "kv_latest b' = kv_latest b"
    "kv_revision b' = kv_revision b" "kv_ok b'" "kv_elapsed b' = kv_elapsed b" "kv_expires b' = kv_expires b"
proof -
  obtain e b1 where live: "kv_live k b = (e, b1)" by fastforce
  note l = kv_live_spec [OF live]
  have "r = kv_latest b k \<and> kv_view b' = kv_view b \<and> kv_latest b' = kv_latest b
    \<and> kv_revision b' = kv_revision b \<and> kv_ok b'
    \<and> kv_elapsed b' = kv_elapsed b \<and> kv_expires b' = kv_expires b"
  proof (cases e)
    case None
    obtain m b2 where marker: "kv_marker k b1 = (m, b2)" by fastforce
    have "kv_view b1 k = None" using l(1,2) None by simp
    note m = kv_marker_spec [OF marker this l(5) [OF assms(2)]]
    have "r = (case m of Some r \<Rightarrow> r | None \<Rightarrow> 0)" "b' = b2"
      using assms(1) by (auto simp: kv_latest_revision_def live None marker)
    with l m show ?thesis by simp
  next
    case (Some x)
    with assms(1) have "r = kve_revision x" "b' = b1" by (auto simp: kv_latest_revision_def live)
    with l Some assms(2) show ?thesis by (auto simp: kv_latest_def split: option.splits prod.splits)
  qed
  then show "r = kv_latest b k" "kv_view b' = kv_view b" "kv_latest b' = kv_latest b"
    "kv_revision b' = kv_revision b" "kv_ok b'" "kv_elapsed b' = kv_elapsed b" "kv_expires b' = kv_expires b"
    by auto
qed

lemma kv_write_spec:
  assumes "kv_write k v ttl b = (Inr r, b')" and "kv_ok b"
  shows "r = kv_revision b + 1" "kv_revision b' = r" "kv_view b' = (kv_view b)(k \<mapsto> (v, r))"
    "kv_latest b' = (kv_latest b)(k := r)" "kv_ok b'" "kv_created b' = kv_created b" "kv_elapsed b' = kv_elapsed b"
    "kv_expires b' = (kv_expires b)(k := map_option (\<lambda>t. kv_elapsed b + t) ttl)"
proof -
  obtain x where x: "kv_expiry ttl b = Inr x" "\<not> kv_lapsed b x" "x = map_option (\<lambda>t. kv_elapsed b + t) ttl"
    using assms(1) by (auto simp: kv_write_def kv_expiry_def kv_lapsed_def SECOND_def
        split: sum.splits option.splits if_splits)
  have r: "r = kv_revision b + 1" and b': "b' = b\<lparr>kv_revision := r,
      kv_entries := (kv_entries b)(k \<mapsto> \<lparr>kve_value = v, kve_revision = r, kve_expires_at = x\<rparr>),
      kv_markers := (kv_markers b)(k := None), kv_marker_expiry := (kv_marker_expiry b)(k := None)\<rparr>"
    using assms(1) x(1) by (auto simp: kv_write_def Let_def)
  then have lapsed: "kv_lapsed b' = kv_lapsed b" by simp
  show "r = kv_revision b + 1" "kv_revision b' = r" "kv_created b' = kv_created b" "kv_elapsed b' = kv_elapsed b"
    using r b' by simp_all
  show "kv_expires b' = (kv_expires b)(k := map_option (\<lambda>t. kv_elapsed b + t) ttl)"
    using x(2,3) lapsed by (auto simp: kv_expires_def fun_eq_iff b' cong: option.case_cong)
  show view: "kv_view b' = (kv_view b)(k \<mapsto> (v, r))"
    using x(2) lapsed by (auto simp: kv_view_def fun_eq_iff b' cong: option.case_cong)
  show "kv_latest b' = (kv_latest b)(k := r)"
  proof
    fix j
    show "kv_latest b' j = ((kv_latest b)(k := r)) j"
    proof (cases "j = k")
      case False
      then have "kv_dead b' j = kv_dead b j" by (simp add: b' kv_dead_def)
      with False view show ?thesis using kv_latest_cong [of b' j b] by simp
    qed (simp add: kv_latest_def view)
  qed
  show "kv_ok b'" using assms(2) r by (auto simp: kv_ok_def kv_wf_def b' le_SucI split: if_splits)
qed

lemma kv_write_failed: "kv_write k v ttl b = (Inl e, b') \<Longrightarrow> b' = b"
  by (auto simp: kv_write_def Let_def split: sum.splits)

section \<open>The contract\<close>

text \<open>What a client may rely on while the bucket is not lost: a create lands only on a key nobody sees a
  value under, an update only on the revision it names, a guarded delete only on the entry it names;
  every write takes a revision no write took before; and time only takes entries and markers away.\<close>

locale cas_bucket =
  fixes ok :: "'s \<Rightarrow> bool"
    and view :: "'s \<Rightarrow> string \<Rightarrow> ('v \<times> nat) option"
    and latest :: "'s \<Rightarrow> string \<Rightarrow> nat"
    and high :: "'s \<Rightarrow> nat"
    and create :: "int \<Rightarrow> string \<Rightarrow> 'v \<Rightarrow> int option \<Rightarrow> 's \<Rightarrow> (kv_error + nat option) \<times> 's"
    and get_entry :: "int \<Rightarrow> string \<Rightarrow> 's \<Rightarrow> (kv_error + ('v \<times> nat) option) \<times> 's"
    and update :: "int \<Rightarrow> string \<Rightarrow> 'v \<Rightarrow> nat \<Rightarrow> int option \<Rightarrow> 's \<Rightarrow> (kv_error + nat option) \<times> 's"
    and delete :: "int \<Rightarrow> string \<Rightarrow> nat option \<Rightarrow> int option \<Rightarrow> 's \<Rightarrow> (kv_error + bool) \<times> 's"
    and advance :: "int \<Rightarrow> 's \<Rightarrow> 's"
    and clock :: "'s \<Rightarrow> int"
    and expires :: "'s \<Rightarrow> string \<Rightarrow> int option"
  assumes view_latest: "ok s \<Longrightarrow> view s k = Some (v, r) \<Longrightarrow> latest s k = r \<and> 0 < r"
    and latest_high: "ok s \<Longrightarrow> latest s k \<le> high s"
    and create_law: "ok s \<Longrightarrow> create now k v t s = (res, s') \<Longrightarrow> ok s' \<and> clock s' = clock s \<and>
      (case res of
         Inr (Some r) \<Rightarrow> view s k = None \<and> high s < r \<and> high s' = r
           \<and> view s' = (view s)(k \<mapsto> (v, r)) \<and> latest s' = (latest s)(k := r)
           \<and> expires s' = (expires s)(k := map_option (\<lambda>t. clock s + t) t)
       | Inr None \<Rightarrow> view s k \<noteq> None \<and> view s' = view s \<and> latest s' = latest s \<and> high s' = high s \<and> expires s' = expires s
       | Inl e \<Rightarrow> view s' = view s \<and> latest s' = latest s \<and> high s' = high s \<and> expires s' = expires s)"
    and get_law: "ok s \<Longrightarrow> get_entry now k s = (got, s') \<Longrightarrow>
      ok s' \<and> clock s' = clock s \<and> view s' = view s \<and> latest s' = latest s \<and> high s' = high s \<and> expires s' = expires s
      \<and> (\<forall>e. got = Inr e \<longrightarrow> e = view s k)"
    and update_law: "ok s \<Longrightarrow> update now k v r t s = (res, s') \<Longrightarrow> ok s' \<and> clock s' = clock s \<and>
      (case res of
         Inr (Some r') \<Rightarrow> latest s k = r \<and> high s < r' \<and> high s' = r'
           \<and> view s' = (view s)(k \<mapsto> (v, r')) \<and> latest s' = (latest s)(k := r')
           \<and> expires s' = (expires s)(k := map_option (\<lambda>t. clock s + t) t)
       | Inr None \<Rightarrow> latest s k \<noteq> r \<and> view s' = view s \<and> latest s' = latest s \<and> high s' = high s \<and> expires s' = expires s
       | Inl e \<Rightarrow> view s' = view s \<and> latest s' = latest s \<and> high s' = high s \<and> expires s' = expires s)"
    and delete_law: "ok s \<Longrightarrow> delete now k (Some r) t s = (gone, s') \<Longrightarrow> ok s' \<and> clock s' = clock s \<and>
      (if gone = Inr True
       then (\<exists>v. view s k = Some (v, r)) \<and> high s < high s' \<and> view s' = (view s)(k := None)
         \<and> latest s' = (latest s)(k := high s') \<and> expires s' = (expires s)(k := None)
       else view s' = view s \<and> latest s' = latest s \<and> high s' = high s \<and> expires s' = expires s
         \<and> (gone = Inr False \<longrightarrow> (\<forall>v. view s k \<noteq> Some (v, r))))"
    and advance_law: "ok s \<Longrightarrow> 0 \<le> d \<Longrightarrow> ok (advance d s) \<and> high (advance d s) = high s \<and> clock (advance d s) = clock s + d
      \<and> (\<forall>k. latest (advance d s) k \<in> {latest s k, 0}
           \<and> (view (advance d s) k = view s k \<or> view (advance d s) k = None)
           \<and> (view (advance d s) k \<noteq> None \<longrightarrow> expires (advance d s) k = expires s k)
           \<and> ((\<forall>t. expires s k = Some t \<longrightarrow> clock s + d < t) \<longrightarrow> view (advance d s) k = view s k))"

lemma kv_lapsed_mono: "0 \<le> d \<Longrightarrow> kv_lapsed b x \<Longrightarrow> kv_lapsed (kv_advance_clock d b) x"
  by (auto simp: kv_lapsed_def kv_advance_clock_def split: option.splits)

lemma kv_mark_deleted_spec:
  assumes "kv_mark_deleted k ttl b = (Inr u, b')" and "kv_ok b"
  shows "kv_revision b < kv_revision b'" "kv_entries b' = kv_entries b"
    "kv_dead b' = (kv_dead b)(k := kv_revision b')" "kv_lapsed b' = kv_lapsed b" "kv_ok (b'\<lparr>kv_entries := (kv_entries b')(k := None)\<rparr>)"
    "kv_elapsed b' = kv_elapsed b"
proof -
  obtain x where x: "kv_expiry ttl b = Inr x" "\<not> kv_lapsed b x"
    using assms(1) by (auto simp: kv_mark_deleted_def kv_expiry_def kv_lapsed_def SECOND_def
        split: sum.splits option.splits if_splits)
  then have b': "b' = b\<lparr>kv_revision := kv_revision b + 1, kv_markers := (kv_markers b)(k \<mapsto> kv_revision b + 1),
      kv_marker_expiry := (kv_marker_expiry b)(k := x)\<rparr>"
    using assms(1) by (auto simp: kv_mark_deleted_def Let_def)
  show "kv_revision b < kv_revision b'" "kv_entries b' = kv_entries b" "kv_lapsed b' = kv_lapsed b"
    "kv_elapsed b' = kv_elapsed b" by (simp_all add: b')
  show "kv_ok (b'\<lparr>kv_entries := (kv_entries b')(k := None)\<rparr>)"
    using assms(2) by (auto simp: kv_ok_def kv_wf_def b' le_SucI split: if_splits)
  show "kv_dead b' = (kv_dead b)(k := kv_revision b')"
    using x(2) by (auto simp: b' kv_dead_def fun_eq_iff)
qed

lemma kv_run_ok:
  "kv_ok b \<Longrightarrow> kv_run now f b = (if kv_unreachable b then (Inl KvUnreachable, b) else f b)"
  by (simp add: kv_run_def kv_arrive_def kv_ok_def)

text \<open>A guarded delete lands exactly on the entry at its revision.\<close>

lemma kv_delete_spec:
  assumes "kv_ok b" and "kv_delete now k (Some r) t b = (res, b')"
  shows "kv_ok b' \<and> kv_elapsed b' = kv_elapsed b \<and>
      (if res = Inr True
       then (\<exists>v. kv_view b k = Some (v, r)) \<and> kv_revision b < kv_revision b' \<and> kv_view b' = (kv_view b)(k := None)
         \<and> kv_latest b' = (kv_latest b)(k := kv_revision b') \<and> kv_expires b' = (kv_expires b)(k := None)
       else kv_view b' = kv_view b \<and> kv_latest b' = kv_latest b \<and> kv_revision b' = kv_revision b \<and> kv_expires b' = kv_expires b
         \<and> (res = Inr False \<longrightarrow> (\<forall>v. kv_view b k \<noteq> Some (v, r))))"
proof (cases "kv_delete now k (Some r) t b = (Inl KvUnreachable, b)")
  case True
  then show ?thesis using assms by simp
next
  case False
  obtain e b1 where live: "kv_live k b = (e, b1)" by fastforce
  note l = kv_live_spec [OF live]
  have run: "kv_delete now k (Some r) t b =
      (case e of None \<Rightarrow> (Inr False, b1)
       | Some entry \<Rightarrow> if kve_revision entry \<noteq> r then (Inr False, b1)
           else let (x, b2) = kv_mark_deleted k t b1
                in case x of Inl e \<Rightarrow> (Inl e, b2) | Inr _ \<Rightarrow> (Inr True, b2\<lparr>kv_entries := (kv_entries b2)(k := None)\<rparr>))"
    using False by (simp add: kv_delete_def live kv_run_ok assms(1) split: option.split if_splits)
  show ?thesis
  proof (cases "e = None \<or> (\<exists>x. e = Some x \<and> kve_revision x \<noteq> r)")
    case True
    then have "res = Inr False" "b' = b1" using run assms(2) by auto
    with True l assms(1) show ?thesis by auto
  next
    case False
    then obtain x where x: "e = Some x" "kve_revision x = r" by auto
    then have view: "kv_view b k = Some (kve_value x, r)" using l(1) by auto
    obtain y b2 where mark: "kv_mark_deleted k t b1 = (y, b2)" by fastforce
    show ?thesis
    proof (cases y)
      case (Inl err)
      then have "b2 = b1" using mark by (auto simp: kv_mark_deleted_def Let_def split: sum.splits)
      then have "res = Inl err" "b' = b1" using run assms(2) x mark Inl by auto
      with l assms(1) show ?thesis by auto
    next
      case (Inr u)
      note m = kv_mark_deleted_spec [OF mark [unfolded Inr] l(5) [OF assms(1)]]
      have b': "res = Inr True" "b' = b2\<lparr>kv_entries := (kv_entries b2)(k := None)\<rparr>"
        using run assms(2) x mark Inr by auto
      have view': "kv_view b' = (kv_view b)(k := None)"
        unfolding l(2) [symmetric] using m(2,4) by (auto simp: kv_view_def fun_eq_iff b'(2) cong: option.case_cong)
      have expires': "kv_expires b' = (kv_expires b)(k := None)"
        unfolding l(10) [symmetric] using m(2,4) by (auto simp: kv_expires_def fun_eq_iff b'(2) cong: option.case_cong)
      have dead: "kv_dead b' j = (if j = k then kv_revision b2 else kv_dead b1 j)" for j
        using fun_cong [OF m(3), of j] kv_dead_entries [where b = b2] by (simp add: b'(2))
      have "kv_latest b' j = ((kv_latest b)(k := kv_revision b')) j" for j
      proof (cases "j = k")
        case True
        then show ?thesis using dead [of k] view' by (simp add: kv_latest_def) (simp add: b'(2))
      next
        case False
        then have "kv_latest b' j = kv_latest b1 j"
          by (intro kv_latest_cong) (simp_all add: view' l(2) dead)
        with False l(3) show ?thesis by simp
      qed
      then show ?thesis using b' view view' expires' m(1,5,6) l(4,9) by auto
    qed
  qed
qed

interpretation kv: cas_bucket kv_ok kv_view kv_latest kv_revision kv_create kv_get_entry kv_update
  kv_delete kv_advance_clock kv_elapsed kv_expires
proof
  fix s :: "'v kv_bucket" and k v r
  assume ok: "kv_ok s"
  show "kv_view s k = Some (v, r) \<Longrightarrow> kv_latest s k = r \<and> 0 < r"
    using ok by (auto simp: kv_latest_def kv_view_def kv_ok_def kv_wf_def split: option.splits if_splits)
  have "kv_dead s k \<le> kv_revision s"
    using ok by (auto simp: kv_dead_def kv_ok_def kv_wf_def split: option.splits)
  moreover have "r \<le> kv_revision s" if "kv_view s k = Some (v, r)" for v r
    using that ok by (auto simp: kv_view_def kv_ok_def kv_wf_def split: option.splits if_splits)
  ultimately show "kv_latest s k \<le> kv_revision s" by (auto simp: kv_latest_def split: option.splits)
next
  fix s s' :: "'v kv_bucket" and now k v t res
  assume ok: "kv_ok s" and c: "kv_create now k v t s = (res, s')"
  obtain e b1 where live: "kv_live k s = (e, b1)" by fastforce
  note l = kv_live_spec [OF live]
  obtain x b2 where w: "kv_write k v t b1 = (x, b2)" by fastforce
  have "kv_create now k v t s = (Inl KvUnreachable, s) \<or> kv_create now k v t s =
      (if e \<noteq> None then (Inr None, b1) else (map_sum (\<lambda>e. e) Some x, b2))"
    by (simp add: kv_create_def live w kv_run_ok ok)
  then consider "res = Inl KvUnreachable" "s' = s" | "e \<noteq> None" "res = Inr None" "s' = b1"
    | "e = None" "res = map_sum (\<lambda>e. e) Some x" "s' = b2" using c by (auto split: if_splits)
  then show "kv_ok s' \<and> kv_elapsed s' = kv_elapsed s \<and>
      (case res of
         Inl e \<Rightarrow> kv_view s' = kv_view s \<and> kv_latest s' = kv_latest s \<and> kv_revision s' = kv_revision s \<and> kv_expires s' = kv_expires s
       | Inr None \<Rightarrow> kv_view s k \<noteq> None \<and> kv_view s' = kv_view s \<and> kv_latest s' = kv_latest s
           \<and> kv_revision s' = kv_revision s \<and> kv_expires s' = kv_expires s
       | Inr (Some r) \<Rightarrow> kv_view s k = None \<and> kv_revision s < r \<and> kv_revision s' = r
           \<and> kv_view s' = (kv_view s)(k \<mapsto> (v, r)) \<and> kv_latest s' = (kv_latest s)(k := r)
           \<and> kv_expires s' = (kv_expires s)(k := map_option (\<lambda>t. kv_elapsed s + t) t))"
  proof cases
    case 3
    show ?thesis
    proof (cases x)
      case (Inl err)
      then show ?thesis using 3 l ok kv_write_failed [of k v t b1 err b2] w by simp
    next
      case (Inr r)
      note wr = kv_write_spec [OF w [unfolded Inr] l(5) [OF ok]]
      show ?thesis using 3 Inr l(1-4,9,10) wr by simp
    qed
  next
    case 2
    then have "kv_view s k \<noteq> None" using l(1) by (metis option.map_disc_iff)
    then show ?thesis using 2 l ok by simp
  qed (use l ok in auto)
next
  fix s s' :: "'v kv_bucket" and now k res
  assume ok: "kv_ok s" and g: "kv_get_entry now k s = (res, s')"
  obtain e b1 where live: "kv_live k s = (e, b1)" by fastforce
  note l = kv_live_spec [OF live]
  have "kv_get_entry now k s = (Inl KvUnreachable, s) \<or> kv_get_entry now k s = (Inr (kv_view s k), b1)"
    by (simp add: kv_get_entry_def live l(1) kv_run_ok ok)
  then show "kv_ok s' \<and> kv_elapsed s' = kv_elapsed s \<and> kv_view s' = kv_view s \<and> kv_latest s' = kv_latest s \<and> kv_revision s' = kv_revision s \<and> kv_expires s' = kv_expires s
      \<and> (\<forall>e. res = Inr e \<longrightarrow> e = kv_view s k)"
    using g l ok by auto
next
  fix s s' :: "'v kv_bucket" and now k v r t res
  assume ok: "kv_ok s" and u: "kv_update now k v r t s = (res, s')"
  obtain n b1 where rev: "kv_latest_revision k s = (n, b1)" by fastforce
  note l = kv_latest_revision_spec [OF rev ok]
  obtain x b2 where w: "kv_write k v t b1 = (x, b2)" by fastforce
  have "kv_update now k v r t s = (Inl KvUnreachable, s) \<or> kv_update now k v r t s =
      (if n \<noteq> r then (Inr None, b1) else (map_sum (\<lambda>e. e) Some x, b2))"
    by (simp add: kv_update_def rev w kv_run_ok ok)
  then consider "res = Inl KvUnreachable" "s' = s" | "n \<noteq> r" "res = Inr None" "s' = b1"
    | "n = r" "res = map_sum (\<lambda>e. e) Some x" "s' = b2" using u by (auto split: if_splits)
  then show "kv_ok s' \<and> kv_elapsed s' = kv_elapsed s \<and>
      (case res of
         Inl e \<Rightarrow> kv_view s' = kv_view s \<and> kv_latest s' = kv_latest s \<and> kv_revision s' = kv_revision s \<and> kv_expires s' = kv_expires s
       | Inr None \<Rightarrow> kv_latest s k \<noteq> r \<and> kv_view s' = kv_view s \<and> kv_latest s' = kv_latest s
           \<and> kv_revision s' = kv_revision s \<and> kv_expires s' = kv_expires s
       | Inr (Some r') \<Rightarrow> kv_latest s k = r \<and> kv_revision s < r' \<and> kv_revision s' = r'
           \<and> kv_view s' = (kv_view s)(k \<mapsto> (v, r')) \<and> kv_latest s' = (kv_latest s)(k := r')
           \<and> kv_expires s' = (kv_expires s)(k := map_option (\<lambda>t. kv_elapsed s + t) t))"
  proof cases
    case 3
    show ?thesis
    proof (cases x)
      case (Inl err)
      then show ?thesis using 3 l ok kv_write_failed [of k v t b1 err b2] w by simp
    next
      case (Inr r')
      note wr = kv_write_spec [OF w [unfolded Inr] l(5)]
      show ?thesis using 3 Inr l(1-4,6,7) wr by simp
    qed
  qed (use l ok in auto)
next
  fix s s' :: "'v kv_bucket" and now k r t res
  assume "kv_ok s" and "kv_delete now k (Some r) t s = (res, s')"
  then show "kv_ok s' \<and> kv_elapsed s' = kv_elapsed s \<and>
      (if res = Inr True
       then (\<exists>v. kv_view s k = Some (v, r)) \<and> kv_revision s < kv_revision s' \<and> kv_view s' = (kv_view s)(k := None)
         \<and> kv_latest s' = (kv_latest s)(k := kv_revision s') \<and> kv_expires s' = (kv_expires s)(k := None)
       else kv_view s' = kv_view s \<and> kv_latest s' = kv_latest s \<and> kv_revision s' = kv_revision s \<and> kv_expires s' = kv_expires s
         \<and> (res = Inr False \<longrightarrow> (\<forall>v. kv_view s k \<noteq> Some (v, r))))"
    by (rule kv_delete_spec)
next
  fix s :: "'v kv_bucket" and d :: int
  assume ok: "kv_ok s" and d: "0 \<le> d"
  have view: "kv_view (kv_advance_clock d s) k = kv_view s k \<or> kv_view (kv_advance_clock d s) k = None" for k
    using kv_lapsed_mono [OF d, of s]
    by (auto simp: kv_view_def split: option.split) (simp_all add: kv_advance_clock_def)
  have dead: "kv_dead (kv_advance_clock d s) k \<in> {kv_dead s k, 0}" for k
    using kv_lapsed_mono [OF d, of s "kv_marker_expiry s k"]
    by (auto simp: kv_dead_def) (simp_all add: kv_advance_clock_def)
  have none: "kv_dead s k = 0" if "kv_view s k = Some (v, r)" for k v r
    using that ok by (auto simp: kv_dead_def kv_view_def kv_ok_def kv_wf_def split: option.splits)
  have "kv_latest (kv_advance_clock d s) k \<in> {kv_latest s k, 0}" for k
    using view [of k] dead [of k] none [of k] by (cases "kv_view s k") (auto simp: kv_latest_def)
  moreover have "kv_ok (kv_advance_clock d s)" "kv_revision (kv_advance_clock d s) = kv_revision s"
    "kv_elapsed (kv_advance_clock d s) = kv_elapsed s + d"
    using ok by (auto simp: kv_ok_def kv_wf_def kv_advance_clock_def)
  moreover have "kv_view (kv_advance_clock d s) k \<noteq> None \<longrightarrow> kv_expires (kv_advance_clock d s) k = kv_expires s k" for k
    using kv_lapsed_mono [OF d, of s]
    by (auto simp: kv_view_def kv_expires_def split: option.splits if_splits) (auto simp: kv_advance_clock_def)
  moreover have "kv_view (kv_advance_clock d s) k = kv_view s k"
    if "\<forall>t. kv_expires s k = Some t \<longrightarrow> kv_elapsed s + d < t" for k
  proof (cases "kv_entries s k")
    case (Some e)
    with that d show ?thesis
      by (cases "kve_expires_at e") (auto simp: kv_view_def kv_expires_def kv_lapsed_def kv_advance_clock_def
        split: if_splits)
  qed (simp add: kv_view_def kv_advance_clock_def)
  ultimately show "kv_ok (kv_advance_clock d s) \<and> kv_revision (kv_advance_clock d s) = kv_revision s
      \<and> kv_elapsed (kv_advance_clock d s) = kv_elapsed s + d
      \<and> (\<forall>k. kv_latest (kv_advance_clock d s) k \<in> {kv_latest s k, 0}
           \<and> (kv_view (kv_advance_clock d s) k = kv_view s k \<or> kv_view (kv_advance_clock d s) k = None)
           \<and> (kv_view (kv_advance_clock d s) k \<noteq> None \<longrightarrow> kv_expires (kv_advance_clock d s) k = kv_expires s k)
           \<and> ((\<forall>t. kv_expires s k = Some t \<longrightarrow> kv_elapsed s + d < t)
                \<longrightarrow> kv_view (kv_advance_clock d s) k = kv_view s k))"
    using view by (intro conjI allI) simp_all
qed

end
