(* ===== verification/KvProg.thy ===== *)
theory KvProg
  imports KvBucket
begin

text \<open>
  The coordination primitives are coroutines: between two bucket operations, two clock reads or a sleep
  any other coroutine, of this pod or another, may run.  A coroutine is a tree of its awaits and of the
  reads and writes of the object it works on; \<open>prog_step\<close> runs one node, and \<open>run_prog\<close> runs a
  coroutine with nothing in between.  A clock read takes a microsecond, the grain of \<open>datetime\<close>.
\<close>

section \<open>Coroutines\<close>

datatype ('v, 'e, 's, 'a) prog =
    Return 'a
  | Raise 'e
  | Now "int \<Rightarrow> ('v, 'e, 's, 'a) prog"
  | Sleep int "('v, 'e, 's, 'a) prog"
  | Ask "'s \<Rightarrow> ('v, 'e, 's, 'a) prog"
  | Modify "'s \<Rightarrow> 's" "('v, 'e, 's, 'a) prog"
  | Create string 'v "int option" "kv_error + nat option \<Rightarrow> ('v, 'e, 's, 'a) prog"
  | GetEntry string "kv_error + ('v \<times> nat) option \<Rightarrow> ('v, 'e, 's, 'a) prog"
  | GetValue string "kv_error + 'v option \<Rightarrow> ('v, 'e, 's, 'a) prog"
  | Update string 'v nat "int option" "kv_error + nat option \<Rightarrow> ('v, 'e, 's, 'a) prog"
  | Delete string "nat option" "int option" "kv_error + bool \<Rightarrow> ('v, 'e, 's, 'a) prog"
  | DateCreated "kv_error + int \<Rightarrow> ('v, 'e, 's, 'a) prog"

text \<open>\<open>try: p; except e: h(e); else: k(result)\<close>.\<close>

primrec try_else ::
  "('v, 'e, 's, 'a) prog \<Rightarrow> ('e \<Rightarrow> ('v, 'f, 's, 'b) prog) \<Rightarrow> ('a \<Rightarrow> ('v, 'f, 's, 'b) prog)
    \<Rightarrow> ('v, 'f, 's, 'b) prog" where
  "try_else (Return a) h k = k a"
| "try_else (Raise e) h k = h e"
| "try_else (Now c) h k = Now (\<lambda>x. try_else (c x) h k)"
| "try_else (Sleep d p) h k = Sleep d (try_else p h k)"
| "try_else (Ask c) h k = Ask (\<lambda>x. try_else (c x) h k)"
| "try_else (Modify f p) h k = Modify f (try_else p h k)"
| "try_else (Create key v t c) h k = Create key v t (\<lambda>x. try_else (c x) h k)"
| "try_else (GetEntry key c) h k = GetEntry key (\<lambda>x. try_else (c x) h k)"
| "try_else (GetValue key c) h k = GetValue key (\<lambda>x. try_else (c x) h k)"
| "try_else (Update key v r t c) h k = Update key v r t (\<lambda>x. try_else (c x) h k)"
| "try_else (Delete key r t c) h k = Delete key r t (\<lambda>x. try_else (c x) h k)"
| "try_else (DateCreated c) h k = DateCreated (\<lambda>x. try_else (c x) h k)"

abbreviation then_do ::
  "('v, 'e, 's, 'a) prog \<Rightarrow> ('a \<Rightarrow> ('v, 'e, 's, 'b) prog) \<Rightarrow> ('v, 'e, 's, 'b) prog" where
  "then_do p k \<equiv> try_else p Raise k"

text \<open>A coroutine that works on one field of a larger object.\<close>

primrec on_field ::
  "('s \<Rightarrow> 't) \<Rightarrow> (('t \<Rightarrow> 't) \<Rightarrow> 's \<Rightarrow> 's) \<Rightarrow> ('v, 'e, 't, 'a) prog \<Rightarrow> ('v, 'e, 's, 'a) prog" where
  "on_field get upd (Return a) = Return a"
| "on_field get upd (Raise e) = Raise e"
| "on_field get upd (Now c) = Now (\<lambda>x. on_field get upd (c x))"
| "on_field get upd (Sleep d p) = Sleep d (on_field get upd p)"
| "on_field get upd (Ask c) = Ask (\<lambda>s. on_field get upd (c (get s)))"
| "on_field get upd (Modify f p) = Modify (upd f) (on_field get upd p)"
| "on_field get upd (Create key v t c) = Create key v t (\<lambda>x. on_field get upd (c x))"
| "on_field get upd (GetEntry key c) = GetEntry key (\<lambda>x. on_field get upd (c x))"
| "on_field get upd (GetValue key c) = GetValue key (\<lambda>x. on_field get upd (c x))"
| "on_field get upd (Update key v r t c) = Update key v r t (\<lambda>x. on_field get upd (c x))"
| "on_field get upd (Delete key r t c) = Delete key r t (\<lambda>x. on_field get upd (c x))"
| "on_field get upd (DateCreated c) = DateCreated (\<lambda>x. on_field get upd (c x))"

section \<open>Running\<close>

text \<open>One node, on a pod whose clock is \<open>skew\<close> away from the broker's; the broker stamps a bucket it
  creates with its own.  A node that only reads or writes the object never waits; a finished coroutine
  has no step.\<close>

definition prog_step ::
  "int \<Rightarrow> ('v, 'e, 's, 'a) prog \<Rightarrow> 's \<Rightarrow> 'v kv_bucket \<Rightarrow> (('v, 'e, 's, 'a) prog \<times> 's \<times> 'v kv_bucket) option" where
  "prog_step skew p s b =
     (case p of
           Return a \<Rightarrow> None
         | Raise e \<Rightarrow> None
         | Now c \<Rightarrow> Some (c (kv_elapsed b + skew), s, kv_advance_clock 1 b)
         | Sleep d q \<Rightarrow> Some (q, s, b)
         | Ask c \<Rightarrow> Some (c s, s, b)
         | Modify f q \<Rightarrow> Some (q, f s, b)
         | Create key v t c \<Rightarrow> (let (r, b') = kv_create (kv_elapsed b) key v t b in Some (c r, s, b'))
         | GetEntry key c \<Rightarrow> (let (r, b') = kv_get_entry (kv_elapsed b) key b in Some (c r, s, b'))
         | GetValue key c \<Rightarrow> (let (r, b') = kv_get (kv_elapsed b) key b in Some (c r, s, b'))
         | Update key v r0 t c \<Rightarrow> (let (r, b') = kv_update (kv_elapsed b) key v r0 t b in Some (c r, s, b'))
         | Delete key r0 t c \<Rightarrow> (let (r, b') = kv_delete (kv_elapsed b) key r0 t b in Some (c r, s, b'))
         | DateCreated c \<Rightarrow> (let (r, b') = kv_date_created (kv_elapsed b) b in Some (c r, s, b')))"

primrec run_prog ::
  "int \<Rightarrow> ('v, 'e, 's, 'a) prog \<Rightarrow> 's \<Rightarrow> 'v kv_bucket \<Rightarrow> ('e + 'a) \<times> 's \<times> 'v kv_bucket" where
  "run_prog skew (Return a) s b = (Inr a, s, b)"
| "run_prog skew (Raise e) s b = (Inl e, s, b)"
| "run_prog skew (Now c) s b = run_prog skew (c (kv_elapsed b + skew)) s (kv_advance_clock 1 b)"
| "run_prog skew (Sleep d p) s b = run_prog skew p s (kv_advance_clock (max 0 d) b)"
| "run_prog skew (Ask c) s b = run_prog skew (c s) s b"
| "run_prog skew (Modify f p) s b = run_prog skew p (f s) b"
| "run_prog skew (Create key v t c) s b =
     (let (r, b') = kv_create (kv_elapsed b) key v t b in run_prog skew (c r) s b')"
| "run_prog skew (GetEntry key c) s b =
     (let (r, b') = kv_get_entry (kv_elapsed b) key b in run_prog skew (c r) s b')"
| "run_prog skew (GetValue key c) s b =
     (let (r, b') = kv_get (kv_elapsed b) key b in run_prog skew (c r) s b')"
| "run_prog skew (Update key v r0 t c) s b =
     (let (r, b') = kv_update (kv_elapsed b) key v r0 t b in run_prog skew (c r) s b')"
| "run_prog skew (Delete key r0 t c) s b =
     (let (r, b') = kv_delete (kv_elapsed b) key r0 t b in run_prog skew (c r) s b')"
| "run_prog skew (DateCreated c) s b =
     (let (r, b') = kv_date_created (kv_elapsed b) b in run_prog skew (c r) s b')"

text \<open>The operation a coroutine is waiting on when nobody waits for its answer any more: a timeout, a
  cancellation, a broken connection.  The request may still reach the server, at any later time, or
  never.\<close>

datatype 'v pending_write =
    PendingCreate string 'v "int option"
  | PendingUpdate string 'v nat "int option"
  | PendingDelete string "nat option" "int option"

fun unanswered_write :: "('v, 'e, 's, 'a) prog \<Rightarrow> 'v pending_write list" where
  "unanswered_write (Create key v t c) = [PendingCreate key v t]"
| "unanswered_write (Update key v r t c) = [PendingUpdate key v r t]"
| "unanswered_write (Delete key r t c) = [PendingDelete key r t]"
| "unanswered_write p = []"

text \<open>What the coroutine sees then: the operation it awaits raises.\<close>

fun give_up_waiting :: "('v, 'e, 's, 'a) prog \<Rightarrow> ('v, 'e, 's, 'a) prog" where
  "give_up_waiting (Create key v t c) = c (Inl KvUnreachable)"
| "give_up_waiting (GetEntry key c) = c (Inl KvUnreachable)"
| "give_up_waiting (GetValue key c) = c (Inl KvUnreachable)"
| "give_up_waiting (Update key v r t c) = c (Inl KvUnreachable)"
| "give_up_waiting (Delete key r t c) = c (Inl KvUnreachable)"
| "give_up_waiting (DateCreated c) = c (Inl KvUnreachable)"
| "give_up_waiting p = p"

fun write_lands :: "int \<Rightarrow> 'v pending_write \<Rightarrow> 'v kv_bucket \<Rightarrow> 'v kv_bucket" where
  "write_lands now (PendingCreate key v t) b = snd (kv_create now key v t b)"
| "write_lands now (PendingUpdate key v r t) b = snd (kv_update now key v r t b)"
| "write_lands now (PendingDelete key r t) b = snd (kv_delete now key r t b)"

section \<open>Composition\<close>

lemma run_try_else:
  "run_prog skew (try_else p h k) s b =
     (case run_prog skew p s b of
        (Inl e, s', b') \<Rightarrow> run_prog skew (h e) s' b'
      | (Inr a, s', b') \<Rightarrow> run_prog skew (k a) s' b')"
  by (induction p arbitrary: s b) (simp_all split: prod.split)

lemma try_else_Raise_Return: "try_else p Raise Return = p"
  by (induction p) (simp_all add: fun_eq_iff)

lemma try_else_assoc: "then_do (then_do p k) l = then_do p (\<lambda>a. then_do (k a) l)"
  by (induction p) (simp_all add: fun_eq_iff)

text \<open>A run is a sequence of steps that ends in a finished coroutine.\<close>

lemma run_prog_step:
  assumes "prog_step skew p s b = Some (p', s', b')" and "\<And>d q. p \<noteq> Sleep d q"
  shows "run_prog skew p s b = run_prog skew p' s' b'"
  using assms by (cases p) (auto simp: prog_step_def Let_def split: prod.splits)

end
