(* ===== verification/KvLease.thy ===== *)
theory KvLease
  imports KvProg PyText
begin

text \<open>
  The lease of \<open>threetears.core.coordination.lease\<close>: a mutex over one bucket entry that carries its
  holder and its expiry.  The handle's operations (acquire, refresh, retake, release), the held lease
  that renews in the background and learns it is lost, and the steps in which any number of contenders,
  their unanswered requests and the broker interleave.  Instants are microseconds; the JSON text of an
  entry is left abstract, as either an envelope or a value no lease wrote.
\<close>

section \<open>Entries\<close>

record LeaseEnvelope =
  env_holder :: string
  env_date_expires :: int
  env_date_acquired :: int

datatype lease_value = EnvelopeValue LeaseEnvelope | ForeignValue string

definition encode_envelope :: "string \<Rightarrow> int \<Rightarrow> int \<Rightarrow> lease_value" where
  "encode_envelope holder date_expires date_acquired =
     EnvelopeValue \<lparr>env_holder = holder, env_date_expires = date_expires, env_date_acquired = date_acquired\<rparr>"

fun decoded_envelope :: "lease_value \<Rightarrow> LeaseEnvelope option" where
  "decoded_envelope (EnvelopeValue e) = Some e"
| "decoded_envelope (ForeignValue _) = None"

datatype LockLossReason = EXPIRED | TAKEN | RENEWAL_FAILED | MAX_HOLD

datatype lease_error =
    LeaseUnavailable
  | LeaseTimeout
  | LeaseLost "LockLossReason option"
  | LeaseValueError
  | LeaseBucketError kv_error
  | LeaseStillWaiting

record LeaseHolding =
  holding_holder :: string
  holding_acquired_at :: int

record LeaseHandle =
  lh_key :: string
  lh_holder :: string
  lh_revision :: nat
  lh_ttl_seconds :: int
  lh_date_expires :: int
  lh_released :: bool
  lh_in_flight_value :: "lease_value option"

definition new_LeaseHandle :: "string \<Rightarrow> string \<Rightarrow> nat \<Rightarrow> int \<Rightarrow> int \<Rightarrow> LeaseHandle" where
  "new_LeaseHandle key holder revision ttl_seconds date_expires =
     \<lparr>lh_key = key, lh_holder = holder, lh_revision = revision, lh_ttl_seconds = ttl_seconds,
      lh_date_expires = date_expires, lh_released = False, lh_in_flight_value = None\<rparr>"

record KVLease =
  kl_pod_id :: string
  kl_key_scope :: "string option"
  kl_expire_entries :: bool
  kl_released_marker_ttl :: int

type_synonym ('s, 'a) lease_prog = "(lease_value, lease_error, 's, 'a) prog"

definition owner_scoped_key :: "string option \<Rightarrow> string \<Rightarrow> string" where
  "owner_scoped_key key_scope key =
     (case key_scope of None \<Rightarrow> key | Some scope \<Rightarrow> scope @ ''.'' @ key)"

definition stored_key :: "KVLease \<Rightarrow> string \<Rightarrow> string" where
  "stored_key lease key = owner_scoped_key (kl_key_scope lease) key"

definition entry_ttl :: "KVLease \<Rightarrow> int \<Rightarrow> int option" where
  "entry_ttl lease ttl_seconds =
     (if kl_expire_entries lease then Some (ttl_seconds * SECOND) else None)"

text \<open>An operation's answer, or the exception the wrapper raises.\<close>

definition answered ::
  "('r \<Rightarrow> ('s, 'a) lease_prog) \<Rightarrow> kv_error + 'r \<Rightarrow> ('s, 'a) lease_prog" where
  "answered k reply = (case reply of Inl e \<Rightarrow> Raise (LeaseBucketError e) | Inr r \<Rightarrow> k r)"

section \<open>Taking\<close>

definition maybe_reclaim_stale ::
  "KVLease \<Rightarrow> string \<Rightarrow> int \<Rightarrow> int \<Rightarrow> int \<Rightarrow> ('s, LeaseHandle option) lease_prog" where
  "maybe_reclaim_stale lease key ttl_seconds now date_expires =
     GetEntry key (answered (\<lambda>entry.
       case entry of
         None \<Rightarrow> Return None
       | Some (value, revision) \<Rightarrow>
           (case decoded_envelope value of
              None \<Rightarrow> Return None
            | Some envelope \<Rightarrow>
                if env_date_expires envelope > now then Return None
                else
                  Update key (encode_envelope (kl_pod_id lease) date_expires now) revision
                    (entry_ttl lease ttl_seconds) (answered (\<lambda>new_revision.
                      case new_revision of
                        None \<Rightarrow> Return None
                      | Some r \<Rightarrow>
                          Return (Some (new_LeaseHandle key (kl_pod_id lease) r ttl_seconds date_expires)))))))"

definition try_once :: "KVLease \<Rightarrow> string \<Rightarrow> int \<Rightarrow> ('s, LeaseHandle option) lease_prog" where
  "try_once lease key ttl_seconds =
     Now (\<lambda>now.
       let date_expires = now + ttl_seconds * SECOND;
           payload = encode_envelope (kl_pod_id lease) date_expires now;
           settle = (\<lambda>revision.
             case revision of
               Some r \<Rightarrow> Return (Some (new_LeaseHandle key (kl_pod_id lease) r ttl_seconds date_expires))
             | None \<Rightarrow> maybe_reclaim_stale lease key ttl_seconds now date_expires)
       in Create key payload (entry_ttl lease ttl_seconds) (answered (\<lambda>revision.
            if revision = None
            then GetEntry key (answered (\<lambda>entry.
                   if entry = None
                   then Create key payload (entry_ttl lease ttl_seconds) (answered settle)
                   else settle None))
            else settle revision)))"

text \<open>The waiting loop of \<open>acquire\<close>, at most \<open>n\<close> passes of it.\<close>

primrec acquire_loop ::
  "nat \<Rightarrow> KVLease \<Rightarrow> string \<Rightarrow> int \<Rightarrow> int \<Rightarrow> int \<Rightarrow> ('s, LeaseHandle) lease_prog" where
  "acquire_loop 0 lease key ttl_seconds max_wait_seconds deadline = Raise LeaseStillWaiting"
| "acquire_loop (Suc n) lease key ttl_seconds max_wait_seconds deadline =
     then_do (try_once lease key ttl_seconds) (\<lambda>attempt.
       case attempt of
         Some handle \<Rightarrow> Return handle
       | None \<Rightarrow>
           Now (\<lambda>now.
             let remaining = deadline - now
             in if max_wait_seconds = 0 then Raise LeaseUnavailable
                else if remaining \<le> 0 then Raise LeaseTimeout
                else Sleep (min SECOND remaining)
                       (acquire_loop n lease key ttl_seconds max_wait_seconds deadline)))"

definition lease_acquire ::
  "nat \<Rightarrow> KVLease \<Rightarrow> string \<Rightarrow> int \<Rightarrow> int \<Rightarrow> ('s, LeaseHandle) lease_prog" where
  "lease_acquire n lease key ttl_seconds max_wait_seconds =
     Now (\<lambda>now. acquire_loop n lease (stored_key lease key) ttl_seconds max_wait_seconds
                  (now + max_wait_seconds * SECOND))"

definition lease_held :: "KVLease \<Rightarrow> string \<Rightarrow> ('s, LeaseHolding option) lease_prog" where
  "lease_held lease key =
     GetValue (stored_key lease key) (answered (\<lambda>value.
       case (case value of None \<Rightarrow> None | Some v \<Rightarrow> decoded_envelope v) of
         None \<Rightarrow> Return None
       | Some envelope \<Rightarrow>
           Now (\<lambda>now.
             Return (if env_date_expires envelope > now
                     then Some \<lparr>holding_holder = env_holder envelope,
                                holding_acquired_at = env_date_acquired envelope\<rparr>
                     else None))))"

definition lease_holder :: "KVLease \<Rightarrow> string \<Rightarrow> ('s, string option) lease_prog" where
  "lease_holder lease key =
     then_do (lease_held lease key) (\<lambda>holding. Return (map_option holding_holder holding))"

section \<open>Keeping and letting go\<close>

text \<open>A renewal's last lines: the swap's answer becomes the handle's revision, or the lease is lost.\<close>

definition refresh_settle :: "int \<Rightarrow> nat option \<Rightarrow> (LeaseHandle, unit) lease_prog" where
  "refresh_settle effective_ttl new_revision =
     (case new_revision of
        None \<Rightarrow> Raise (LeaseLost (Some TAKEN))
      | Some r \<Rightarrow>
          Modify (\<lambda>handle. handle\<lparr>lh_in_flight_value := None, lh_revision := r,
                                   lh_ttl_seconds := effective_ttl\<rparr>) (Return ()))"

text \<open>The swap was refused while an earlier write of this handle is unanswered: renew from that write if
  the entry is exactly it.\<close>

definition refresh_from_landed ::
  "KVLease \<Rightarrow> int \<Rightarrow> lease_value \<Rightarrow> lease_value \<Rightarrow> (LeaseHandle, unit) lease_prog" where
  "refresh_from_landed lease effective_ttl payload unanswered =
     Modify (\<lambda>handle. handle\<lparr>lh_in_flight_value := Some unanswered\<rparr>) (Ask (\<lambda>handle.
       GetEntry (lh_key handle) (answered (\<lambda>landed.
         case landed of
           None \<Rightarrow> refresh_settle effective_ttl None
         | Some (value, revision) \<Rightarrow>
             if value \<noteq> unanswered then refresh_settle effective_ttl None
             else
               Modify (\<lambda>handle. handle\<lparr>lh_revision := revision, lh_in_flight_value := Some payload\<rparr>)
                 (Update (lh_key handle) payload revision (entry_ttl lease effective_ttl)
                   (answered (\<lambda>new_revision.
                      if new_revision = None
                      then Modify (\<lambda>handle. handle\<lparr>lh_in_flight_value := None\<rparr>)
                             (refresh_settle effective_ttl None)
                      else refresh_settle effective_ttl new_revision)))))))"

definition refresh_swap ::
  "KVLease \<Rightarrow> int option \<Rightarrow> int \<Rightarrow> lease_value option \<Rightarrow> (LeaseHandle, unit) lease_prog" where
  "refresh_swap lease ttl_seconds date_acquired unanswered =
     Ask (\<lambda>handle.
       let effective_ttl = (case ttl_seconds of Some t \<Rightarrow> t | None \<Rightarrow> lh_ttl_seconds handle)
       in Now (\<lambda>now.
            let payload = encode_envelope (lh_holder handle) (now + effective_ttl * SECOND) date_acquired
            in Modify (\<lambda>handle. handle\<lparr>lh_in_flight_value := Some payload\<rparr>) (Ask (\<lambda>handle.
                 Update (lh_key handle) payload (lh_revision handle) (entry_ttl lease effective_ttl)
                   (answered (\<lambda>new_revision.
                     if new_revision = None
                     then (case unanswered of
                             Some sent \<Rightarrow> refresh_from_landed lease effective_ttl payload sent
                           | None \<Rightarrow>
                               Modify (\<lambda>handle. handle\<lparr>lh_in_flight_value := None\<rparr>)
                                 (refresh_settle effective_ttl None))
                     else refresh_settle effective_ttl new_revision))))))"

definition refresh_handle ::
  "KVLease \<Rightarrow> int option \<Rightarrow> bool \<Rightarrow> (LeaseHandle, unit) lease_prog" where
  "refresh_handle lease ttl_seconds adopt_own_revision =
     Ask (\<lambda>handle. GetEntry (lh_key handle) (answered (\<lambda>entry.
       case entry of
         None \<Rightarrow> Raise (LeaseLost (Some EXPIRED))
       | Some (value, observed) \<Rightarrow>
           (case decoded_envelope value of
              None \<Rightarrow> Raise (LeaseLost (Some TAKEN))
            | Some envelope \<Rightarrow>
                if env_holder envelope \<noteq> lh_holder handle then Raise (LeaseLost (Some TAKEN))
                else
                  Ask (\<lambda>handle.
                    let unanswered = lh_in_flight_value handle
                    in if observed \<noteq> lh_revision handle \<and> (adopt_own_revision \<or> Some value = unanswered)
                       then Modify (\<lambda>handle. handle\<lparr>lh_revision := observed\<rparr>)
                              (refresh_swap lease ttl_seconds (env_date_acquired envelope) None)
                       else refresh_swap lease ttl_seconds (env_date_acquired envelope) unanswered)))))"

definition retake_handle :: "KVLease \<Rightarrow> (LeaseHandle, bool) lease_prog" where
  "retake_handle lease =
     Ask (\<lambda>handle. Now (\<lambda>now.
       let date_expires = now + lh_ttl_seconds handle * SECOND;
           payload = encode_envelope (lh_holder handle) date_expires now
       in Modify (\<lambda>handle. handle\<lparr>lh_in_flight_value := Some payload\<rparr>)
            (Create (lh_key handle) payload (entry_ttl lease (lh_ttl_seconds handle)) (answered (\<lambda>revision.
              Modify (\<lambda>handle. handle\<lparr>lh_in_flight_value := None\<rparr>)
                (case revision of
                   None \<Rightarrow> Return False
                 | Some r \<Rightarrow>
                     Modify (\<lambda>handle. handle\<lparr>lh_revision := r, lh_date_expires := date_expires\<rparr>)
                       (Return True)))))))"

definition release_handle :: "KVLease \<Rightarrow> (LeaseHandle, unit) lease_prog" where
  "release_handle lease =
     (let released = Modify (\<lambda>handle. handle\<lparr>lh_released := True\<rparr>) (Return ())
      in Ask (\<lambda>handle.
        if lh_released handle then Return ()
        else GetEntry (lh_key handle) (answered (\<lambda>entry.
          case entry of
            None \<Rightarrow> released
          | Some (value, observed) \<Rightarrow>
              (case decoded_envelope value of
                 None \<Rightarrow> released
               | Some envelope \<Rightarrow>
                   if env_holder envelope \<noteq> lh_holder handle then released
                   else
                     Ask (\<lambda>handle.
                       let revision =
                         (if observed \<noteq> lh_revision handle \<and> Some value = lh_in_flight_value handle
                          then observed else lh_revision handle)
                       in if revision \<le> 0 then released
                          else Delete (lh_key handle) (Some revision) (Some (kl_released_marker_ttl lease))
                                 (answered (\<lambda>deleted. released))))))))"

section \<open>Holding\<close>

record HeldLease =
  hl_handle :: LeaseHandle
  hl_retake :: bool
  hl_lost :: bool
  hl_lost_reason :: "LockLossReason option"
  hl_hold_deadline :: "int option"
  hl_stop :: bool
  hl_ttl :: int
  hl_expires_at :: int
  hl_released :: bool

definition held :: "HeldLease \<Rightarrow> bool" where
  "held hl \<longleftrightarrow> \<not> hl_lost hl \<and> \<not> hl_released hl"

definition mark_lost :: "LockLossReason \<Rightarrow> HeldLease \<Rightarrow> HeldLease" where
  "mark_lost reason hl =
     (if hl_lost hl \<or> hl_released hl then hl
      else hl\<lparr>hl_lost_reason := Some reason, hl_lost := True, hl_stop := True\<rparr>)"

definition on_expired :: "HeldLease \<Rightarrow> HeldLease" where
  "on_expired hl = (if hl_retake hl then hl else mark_lost RENEWAL_FAILED hl)"

definition hold_seconds :: "int \<Rightarrow> int \<Rightarrow> lease_error + int \<times> int" where
  "hold_seconds ttl renew_every =
     (if ttl < SECOND \<or> ttl mod SECOND \<noteq> 0 then Inl LeaseValueError
      else if renew_every \<le> 0 then Inl LeaseValueError
      else if renew_every \<ge> ttl then Inl LeaseValueError
      else Inr (ttl div SECOND, renew_every))"

definition new_HeldLease :: "LeaseHandle \<Rightarrow> int \<Rightarrow> int \<Rightarrow> bool \<Rightarrow> int option \<Rightarrow> HeldLease" where
  "new_HeldLease handle ttl_seconds expires_at retake hold_deadline =
     \<lparr>hl_handle = handle, hl_retake = retake, hl_lost = False, hl_lost_reason = None,
      hl_hold_deadline = hold_deadline, hl_stop = False, hl_ttl = ttl_seconds * SECOND,
      hl_expires_at = expires_at, hl_released = False\<rparr>"

definition lease_hold ::
  "nat \<Rightarrow> KVLease \<Rightarrow> string \<Rightarrow> int \<Rightarrow> int \<Rightarrow> int \<Rightarrow> bool \<Rightarrow> int option \<Rightarrow> ('s, HeldLease) lease_prog" where
  "lease_hold n lease key ttl renew_every max_wait_seconds retake max_hold =
     (case hold_seconds ttl renew_every of
        Inl e \<Rightarrow> Raise e
      | Inr (ttl_seconds, renew_seconds) \<Rightarrow>
          if (case max_hold of None \<Rightarrow> False | Some m \<Rightarrow> m < 0) then Raise LeaseValueError
          else
            then_do (lease_acquire n lease key ttl_seconds max_wait_seconds) (\<lambda>handle.
              Now (\<lambda>loop_time. Now (\<lambda>now.
                let expires_at = loop_time + (lh_date_expires handle - now)
                in Now (\<lambda>started.
                     Return (new_HeldLease handle ttl_seconds expires_at retake
                               (map_option (\<lambda>m. started + m) max_hold)))))))"

abbreviation on_handle :: "(LeaseHandle, 'a) lease_prog \<Rightarrow> (HeldLease, 'a) lease_prog" where
  "on_handle p \<equiv> on_field hl_handle hl_handle_update p"

definition renew_once :: "KVLease \<Rightarrow> bool \<Rightarrow> (HeldLease, unit) lease_prog" where
  "renew_once lease retake =
     try_else (on_handle (refresh_handle lease None retake))
       (\<lambda>e. case e of
              LeaseLost reason \<Rightarrow>
                if \<not> retake then Raise e
                else then_do (on_handle (retake_handle lease)) (\<lambda>taken.
                       if taken then Return () else Raise e)
            | _ \<Rightarrow> Raise e)
       Return"

text \<open>One pass of the renewal loop after its pause; the result says whether the loop goes on.\<close>

definition renew_attempt :: "KVLease \<Rightarrow> (HeldLease, bool) lease_prog" where
  "renew_attempt lease =
     Now (\<lambda>started. Ask (\<lambda>hl.
       if hl_expires_at hl - started \<le> 0 \<and> \<not> hl_retake hl then Return False
       else
         try_else (renew_once lease (hl_retake hl))
           (\<lambda>e. case e of
                  LeaseLost reason \<Rightarrow>
                    Modify (mark_lost (case reason of Some r \<Rightarrow> r | None \<Rightarrow> TAKEN)) (Return False)
                | _ \<Rightarrow> Return True)
           (\<lambda>_. Modify (\<lambda>hl. hl\<lparr>hl_expires_at := started + hl_ttl hl\<rparr>) (Return True))))"

definition renew_pass :: "KVLease \<Rightarrow> (HeldLease, bool) lease_prog" where
  "renew_pass lease =
     Ask (\<lambda>hl.
       if hl_stop hl then Return False
       else
         (case hl_hold_deadline hl of
            None \<Rightarrow> renew_attempt lease
          | Some deadline \<Rightarrow>
              Now (\<lambda>now. if deadline \<le> now then Modify (mark_lost MAX_HOLD) (Return False)
                          else renew_attempt lease)))"

text \<open>The first lines of \<open>release\<close>, before its first await, and the deletion that ends it.\<close>

definition begin_release :: "HeldLease \<Rightarrow> HeldLease" where
  "begin_release hl = hl\<lparr>hl_released := True, hl_stop := True\<rparr>"

definition delete_entry :: "KVLease \<Rightarrow> (HeldLease, unit) lease_prog" where
  "delete_entry lease = try_else (on_handle (release_handle lease)) (\<lambda>e. Return ()) Return"

section \<open>Contenders\<close>

record contender =
  ct_lease :: KVLease
  ct_key :: string
  ct_ttl :: int
  ct_renew_every :: int
  ct_max_wait_seconds :: int
  ct_max_hold :: "int option"
  ct_skew :: int

datatype lease_thread =
    Idle
  | Acquiring "(unit, HeldLease) lease_prog"
  | Holding HeldLease "(HeldLease, bool) lease_prog option"
  | Releasing HeldLease "(HeldLease, unit) lease_prog"

record lease_world =
  lw_bucket :: "lease_value kv_bucket"
  lw_threads :: "nat \<Rightarrow> lease_thread"
  lw_unanswered :: "(nat \<times> lease_value pending_write) list"

definition start_world :: "lease_value kv_bucket \<Rightarrow> lease_world" where
  "start_world b = \<lparr>lw_bucket = b, lw_threads = (\<lambda>_. Idle), lw_unanswered = []\<rparr>"

definition set_thread :: "nat \<Rightarrow> lease_thread \<Rightarrow> lease_world \<Rightarrow> lease_world" where
  "set_thread i t w = w\<lparr>lw_threads := (lw_threads w)(i := t)\<rparr>"

definition contender_clock :: "contender \<Rightarrow> lease_world \<Rightarrow> int" where
  "contender_clock c w = kv_elapsed (lw_bucket w) + ct_skew c"

definition sent_by :: "nat \<Rightarrow> ('s, 'a) lease_prog \<Rightarrow> (nat \<times> lease_value pending_write) list" where
  "sent_by i p = map (Pair i) (unanswered_write p)"

text \<open>What a contender's next await, timer or request does.  Time and the connection are the
  environment's.  A request nobody waits for any more may be served at any later time, or never.\<close>

inductive lease_step :: "(nat \<Rightarrow> contender) \<Rightarrow> lease_world \<Rightarrow> lease_world \<Rightarrow> bool" for cs where
  time_passes: "0 \<le> d \<Longrightarrow>
    lease_step cs w (w\<lparr>lw_bucket := kv_advance_clock d (lw_bucket w)\<rparr>)"
| connection_lost: "lease_step cs w (w\<lparr>lw_bucket := kv_become_unreachable (lw_bucket w)\<rparr>)"
| connection_back: "lease_step cs w (w\<lparr>lw_bucket := kv_become_reachable (lw_bucket w)\<rparr>)"
| request_served: "lw_unanswered w = us @ (i, req) # vs \<Longrightarrow>
    lease_step cs w (w\<lparr>lw_bucket := write_lands (kv_elapsed (lw_bucket w)) req (lw_bucket w),
                       lw_unanswered := us @ vs\<rparr>)"
| hold_called: "lw_threads w i = Idle \<Longrightarrow>
    lease_step cs w (set_thread i (Acquiring
      (lease_hold n (ct_lease (cs i)) (ct_key (cs i)) (ct_ttl (cs i)) (ct_renew_every (cs i))
         (ct_max_wait_seconds (cs i)) False (ct_max_hold (cs i)))) w)"
| acquiring_step: "lw_threads w i = Acquiring p \<Longrightarrow>
    prog_step (ct_skew (cs i)) p () (lw_bucket w) = Some (p', u, b') \<Longrightarrow>
    lease_step cs w (set_thread i (Acquiring p') (w\<lparr>lw_bucket := b'\<rparr>))"
| acquiring_unanswered: "lw_threads w i = Acquiring p \<Longrightarrow>
    lease_step cs w (set_thread i (Acquiring (give_up_waiting p))
      (w\<lparr>lw_unanswered := sent_by i p @ lw_unanswered w\<rparr>))"
| acquiring_cancelled: "lw_threads w i = Acquiring p \<Longrightarrow>
    lease_step cs w (set_thread i Idle (w\<lparr>lw_unanswered := sent_by i p @ lw_unanswered w\<rparr>))"
| acquired: "lw_threads w i = Acquiring (Return hl) \<Longrightarrow>
    lease_step cs w (set_thread i (Holding hl None) w)"
| renewal_due: "lw_threads w i = Holding hl None \<Longrightarrow>
    lease_step cs w (set_thread i (Holding hl (Some (renew_pass (ct_lease (cs i))))) w)"
| renewal_step: "lw_threads w i = Holding hl (Some p) \<Longrightarrow>
    prog_step (ct_skew (cs i)) p hl (lw_bucket w) = Some (p', hl', b') \<Longrightarrow>
    lease_step cs w (set_thread i (Holding hl' (Some p')) (w\<lparr>lw_bucket := b'\<rparr>))"
| renewal_unanswered: "lw_threads w i = Holding hl (Some p) \<Longrightarrow>
    lease_step cs w (set_thread i (Holding hl (Some (give_up_waiting p)))
      (w\<lparr>lw_unanswered := sent_by i p @ lw_unanswered w\<rparr>))"
| renewal_over: "lw_threads w i = Holding hl (Some p) \<Longrightarrow> (\<exists>go. p = Return go) \<Longrightarrow>
    lease_step cs w (set_thread i (Holding hl None) w)"
| timer_fires: "lw_threads w i = Holding hl p \<Longrightarrow> hl_expires_at hl \<le> contender_clock (cs i) w \<Longrightarrow>
    lease_step cs w (set_thread i (Holding (on_expired hl) p) w)"
| release_called: "lw_threads w i = Holding hl None \<Longrightarrow>
    lease_step cs w (set_thread i (Releasing (begin_release hl) (delete_entry (ct_lease (cs i)))) w)"
| release_waits: "lw_threads w i = Holding hl (Some p) \<Longrightarrow>
    lease_step cs w (set_thread i (Holding (begin_release hl) (Some p)) w)"
| release_cancels_renewal: "lw_threads w i = Holding hl (Some p) \<Longrightarrow>
    lease_step cs w (set_thread i (Releasing (begin_release hl) (delete_entry (ct_lease (cs i))))
      (w\<lparr>lw_unanswered := sent_by i p @ lw_unanswered w\<rparr>))"
| releasing_step: "lw_threads w i = Releasing hl p \<Longrightarrow>
    prog_step (ct_skew (cs i)) p hl (lw_bucket w) = Some (p', hl', b') \<Longrightarrow>
    lease_step cs w (set_thread i (Releasing hl' p') (w\<lparr>lw_bucket := b'\<rparr>))"
| releasing_unanswered: "lw_threads w i = Releasing hl p \<Longrightarrow>
    lease_step cs w (set_thread i (Releasing hl (give_up_waiting p))
      (w\<lparr>lw_unanswered := sent_by i p @ lw_unanswered w\<rparr>))"
| released: "lw_threads w i = Releasing hl p \<Longrightarrow> (\<exists>u. p = Return u) \<Longrightarrow>
    lease_step cs w (set_thread i Idle w)"

inductive lease_reachable :: "(nat \<Rightarrow> contender) \<Rightarrow> lease_world \<Rightarrow> bool" for cs where
  start: "lease_reachable cs (start_world (new_kv_bucket created may_create))"
| step: "lease_reachable cs w \<Longrightarrow> lease_step cs w w' \<Longrightarrow> lease_reachable cs w'"

text \<open>A contender may act as the holder while its lease says held and, on its own clock, the entry cannot
  have expired for a pod whose clock runs at most \<open>eps\<close> ahead.\<close>

definition may_act :: "(nat \<Rightarrow> contender) \<Rightarrow> int \<Rightarrow> lease_world \<Rightarrow> nat \<Rightarrow> bool" where
  "may_act cs eps w i =
     (case lw_threads w i of
        Holding hl p \<Rightarrow> held hl \<and> contender_clock (cs i) w + eps < hl_expires_at hl
      | _ \<Rightarrow> False)"

end
