(* ===== verification/KvLeaseHistory.thy ===== *)
theory KvLeaseHistory
  imports KvLease
begin

text \<open>
  The lease's history: who wrote each revision and what, who read the clock when, and up to which revision
  a contender may have sent deletes.  \<open>lease_rely\<close> is what every contender, the broker and the
  forgotten requests keep for each other; each bucket operation is shown to keep it.
\<close>

section \<open>History\<close>

record lease_ghost =
  lg_bucket :: "lease_value kv_bucket"
  lg_writes :: "nat \<rightharpoonup> nat \<times> lease_value"
  lg_reads :: "int \<rightharpoonup> nat"
  lg_freed :: "nat \<Rightarrow> nat"

abbreviation pod_of :: "(nat \<Rightarrow> contender) \<Rightarrow> nat \<Rightarrow> string" where
  "pod_of cs i \<equiv> kl_pod_id (ct_lease (cs i))"

abbreviation key_of :: "(nat \<Rightarrow> contender) \<Rightarrow> nat \<Rightarrow> string" where
  "key_of cs i \<equiv> stored_key (ct_lease (cs i)) (ct_key (cs i))"

abbreviation lg_clock :: "lease_ghost \<Rightarrow> int" where
  "lg_clock x \<equiv> kv_elapsed (lg_bucket x)"

fun value_expires :: "lease_value \<Rightarrow> int" where
  "value_expires (EnvelopeValue e) = env_date_expires e"
| "value_expires (ForeignValue _) = 0"

text \<open>Clocks are at most \<open>eps\<close> apart; contenders for one key that share a holder share a process, and ask
  for the same time to live.\<close>

definition contenders_ok :: "(nat \<Rightarrow> contender) \<Rightarrow> int \<Rightarrow> bool" where
  "contenders_ok cs eps \<longleftrightarrow>
     0 \<le> eps
     \<and> (\<forall>i j. ct_skew (cs j) - ct_skew (cs i) \<le> eps)
     \<and> (\<forall>i j. pod_of cs i = pod_of cs j \<and> key_of cs i = key_of cs j
          \<longrightarrow> ct_skew (cs i) = ct_skew (cs j) \<and> ct_ttl (cs i) = ct_ttl (cs j))"

definition made_by :: "(nat \<Rightarrow> contender) \<Rightarrow> lease_ghost \<Rightarrow> nat \<Rightarrow> lease_value \<Rightarrow> bool" where
  "made_by cs x i v \<longleftrightarrow>
     (\<exists>t acquired. lg_reads x t = Some i
        \<and> v = encode_envelope (pod_of cs i) (t + ct_skew (cs i) + ct_ttl (cs i)) acquired)"

definition lease_inv :: "(nat \<Rightarrow> contender) \<Rightarrow> lease_ghost \<Rightarrow> bool" where
  "lease_inv cs x \<longleftrightarrow>
     kv_ok (lg_bucket x)
     \<and> (\<forall>t i. lg_reads x t = Some i \<longrightarrow> t < lg_clock x)
     \<and> (\<forall>r i v. lg_writes x r = Some (i, v) \<longrightarrow> r \<le> kv_revision (lg_bucket x) \<and> made_by cs x i v)
     \<and> (\<forall>k v r. kv_view (lg_bucket x) k = Some (v, r) \<longrightarrow>
          (\<exists>i. lg_writes x r = Some (i, v) \<and> key_of cs i = k
             \<and> (\<forall>t. kv_expires (lg_bucket x) k = Some t \<longrightarrow> value_expires v - ct_skew (cs i) \<le> t)))
     \<and> (\<forall>i. lg_freed x i \<le> kv_revision (lg_bucket x))"

text \<open>Until \<open>e\<close> on contender \<open>i\<close>'s clock, less the margin, the key carries a write of \<open>i\<close>'s that no
  sent delete names and that no pod may call stale.\<close>

definition lease_live :: "(nat \<Rightarrow> contender) \<Rightarrow> int \<Rightarrow> lease_ghost \<Rightarrow> nat \<Rightarrow> int \<Rightarrow> bool" where
  "lease_live cs eps x i e \<longleftrightarrow>
     (lg_clock x + ct_skew (cs i) + eps < e \<longrightarrow>
       (\<exists>v r. kv_view (lg_bucket x) (key_of cs i) = Some (v, r) \<and> lg_writes x r = Some (i, v)
          \<and> e \<le> value_expires v \<and> lg_freed x i < r))"

definition lease_rely :: "(nat \<Rightarrow> contender) \<Rightarrow> int \<Rightarrow> nat \<Rightarrow> lease_ghost \<Rightarrow> lease_ghost \<Rightarrow> bool" where
  "lease_rely cs eps i x x' \<longleftrightarrow>
     lg_writes x \<subseteq>\<^sub>m lg_writes x' \<and> lg_reads x \<subseteq>\<^sub>m lg_reads x' \<and> lg_clock x \<le> lg_clock x'
     \<and> lg_freed x' i = lg_freed x i
     \<and> (\<forall>e. lease_live cs eps x i e \<longrightarrow> lease_live cs eps x' i e)"

definition may_update :: "(nat \<Rightarrow> contender) \<Rightarrow> lease_ghost \<Rightarrow> nat \<Rightarrow> lease_value \<Rightarrow> nat \<Rightarrow> bool" where
  "may_update cs x i v r \<longleftrightarrow>
     (\<exists>j v0. lg_writes x r = Some (j, v0) \<and> value_expires v0 \<le> value_expires v
        \<and> (j = i \<or> value_expires v0 \<le> lg_clock x + ct_skew (cs i)))"

definition stamped :: "nat \<Rightarrow> lease_ghost \<Rightarrow> lease_ghost" where
  "stamped i x = x\<lparr>lg_bucket := kv_advance_clock 1 (lg_bucket x), lg_reads := (lg_reads x)(lg_clock x \<mapsto> i)\<rparr>"

definition recorded ::
  "nat \<Rightarrow> lease_value \<Rightarrow> kv_error + nat option \<Rightarrow> lease_value kv_bucket \<Rightarrow> lease_ghost \<Rightarrow> lease_ghost" where
  "recorded i v res b x =
     (case res of
        Inr (Some r) \<Rightarrow> x\<lparr>lg_bucket := b, lg_writes := (lg_writes x)(r \<mapsto> (i, v))\<rparr>
      | _ \<Rightarrow> x\<lparr>lg_bucket := b\<rparr>)"

definition freeing :: "nat \<Rightarrow> nat \<Rightarrow> lease_ghost \<Rightarrow> lease_ghost" where
  "freeing i r x = x\<lparr>lg_freed := (lg_freed x)(i := max (lg_freed x i) r)\<rparr>"

lemma lease_rely_refl: "lease_rely cs eps i x x"
  by (simp add: lease_rely_def)

lemma lease_rely_trans: "lease_rely cs eps i x y \<Longrightarrow> lease_rely cs eps i y z \<Longrightarrow> lease_rely cs eps i x z"
  by (auto simp: lease_rely_def intro: map_le_trans)

lemma writes_mono: "lease_rely cs eps i x x' \<Longrightarrow> lg_writes x r = Some w \<Longrightarrow> lg_writes x' r = Some w"
  by (auto simp: lease_rely_def map_le_def dom_def)

lemma made_by_reads: "lg_reads x \<subseteq>\<^sub>m lg_reads x' \<Longrightarrow> made_by cs x j v \<Longrightarrow> made_by cs x' j v"
  by (fastforce simp: map_le_def dom_def made_by_def)

lemma made_by_mono: "lease_rely cs eps i x x' \<Longrightarrow> made_by cs x j v \<Longrightarrow> made_by cs x' j v"
  by (auto simp: lease_rely_def intro: made_by_reads)

lemma may_update_mono: "lease_rely cs eps i x x' \<Longrightarrow> may_update cs x j v r \<Longrightarrow> may_update cs x' j v r"
  unfolding may_update_def using writes_mono [of cs eps i x x' r]
  by (fastforce simp: lease_rely_def)

lemma live_mono: "lease_rely cs eps i x x' \<Longrightarrow> lease_live cs eps x i e \<Longrightarrow> lease_live cs eps x' i e"
  by (simp add: lease_rely_def)

lemma live_weaken: "lease_live cs eps x i e \<Longrightarrow> e' \<le> e \<Longrightarrow> lease_live cs eps x i e'"
  by (fastforce simp: lease_live_def)

lemma value_expires_encode [simp]: "value_expires (encode_envelope h e a) = e"
  by (simp add: encode_envelope_def)

text \<open>A value names the contender that made it.\<close>

lemma made_by_unique:
  assumes "contenders_ok cs eps" "made_by cs x i v" "made_by cs x j v" "key_of cs i = key_of cs j"
  shows "i = j"
proof -
  obtain t a where i: "lg_reads x t = Some i" "v = encode_envelope (pod_of cs i) (t + ct_skew (cs i) + ct_ttl (cs i)) a"
    using assms(2) by (auto simp: made_by_def)
  obtain t' a' where j: "lg_reads x t' = Some j" "v = encode_envelope (pod_of cs j) (t' + ct_skew (cs j) + ct_ttl (cs j)) a'"
    using assms(3) by (auto simp: made_by_def)
  have "pod_of cs i = pod_of cs j" using i(2) j(2) by (simp add: encode_envelope_def)
  then have "ct_skew (cs i) = ct_skew (cs j)" "ct_ttl (cs i) = ct_ttl (cs j)"
    using assms(1,4) unfolding contenders_ok_def by blast+
  moreover have "t + ct_skew (cs i) + ct_ttl (cs i) = t' + ct_skew (cs j) + ct_ttl (cs j)"
    using arg_cong [OF i(2), of value_expires] arg_cong [OF j(2), of value_expires] by simp
  ultimately have "t = t'" by simp
  with i(1) j(1) show ?thesis by simp
qed

section \<open>What the operations keep\<close>

lemma lease_invD:
  assumes "lease_inv cs x"
  shows "kv_ok (lg_bucket x)" "lg_reads x t = Some i \<Longrightarrow> t < lg_clock x"
    "lg_writes x r = Some (i, v) \<Longrightarrow> r \<le> kv_revision (lg_bucket x)"
    "lg_writes x r = Some (i, v) \<Longrightarrow> made_by cs x i v"
    "kv_view (lg_bucket x) k = Some (v, r) \<Longrightarrow> \<exists>i. lg_writes x r = Some (i, v) \<and> key_of cs i = k"
    "lg_freed x i \<le> kv_revision (lg_bucket x)"
    "kv_view (lg_bucket x) k = Some (v, r) \<Longrightarrow> lg_writes x r = Some (i, v) \<Longrightarrow>
       kv_expires (lg_bucket x) k = Some t \<Longrightarrow> value_expires v - ct_skew (cs i) \<le> t"
proof -
  show "\<exists>i. lg_writes x r = Some (i, v) \<and> key_of cs i = k" if "kv_view (lg_bucket x) k = Some (v, r)"
    using that assms unfolding lease_inv_def by blast
  show "value_expires v - ct_skew (cs i) \<le> t" if "kv_view (lg_bucket x) k = Some (v, r)"
      "lg_writes x r = Some (i, v)" "kv_expires (lg_bucket x) k = Some t"
    using that assms unfolding lease_inv_def by (metis option.inject prod.inject)
qed (use assms in \<open>auto simp: lease_inv_def\<close>)

text \<open>A change of the bucket that no reader sees.\<close>

lemma unseen_keeps:
  assumes inv: "lease_inv cs x" and b: "kv_ok b" "kv_view b = kv_view (lg_bucket x)"
    "kv_expires b = kv_expires (lg_bucket x)" "kv_revision b = kv_revision (lg_bucket x)"
    "kv_elapsed b = lg_clock x"
  shows "lease_inv cs (x\<lparr>lg_bucket := b\<rparr>)" "lease_rely cs eps j x (x\<lparr>lg_bucket := b\<rparr>)"
  using inv b by (simp_all add: lease_inv_def lease_rely_def lease_live_def made_by_def)

lemma advance_keeps:
  assumes inv: "lease_inv cs x" and d: "0 \<le> d" and eps: "0 \<le> eps"
  shows "lease_inv cs (x\<lparr>lg_bucket := kv_advance_clock d (lg_bucket x)\<rparr>)"
    "lease_rely cs eps j x (x\<lparr>lg_bucket := kv_advance_clock d (lg_bucket x)\<rparr>)"
proof -
  let ?b = "lg_bucket x" let ?b' = "kv_advance_clock d ?b"
  note a = kv.advance_law [OF lease_invD(1) [OF inv] d]
  have view: "kv_view ?b' k = Some (v, r) \<Longrightarrow> kv_view ?b k = Some (v, r) \<and> kv_expires ?b' k = kv_expires ?b k" for k v r
    using a by (metis option.distinct(1))
  have reads: "lg_reads x t = Some i \<Longrightarrow> t < kv_elapsed ?b'" for t i
    using lease_invD(2) [OF inv, of t i] a d by simp
  show "lease_inv cs (x\<lparr>lg_bucket := ?b'\<rparr>)"
    using inv a view reads unfolding lease_inv_def made_by_def by simp
  have "lease_live cs eps (x\<lparr>lg_bucket := ?b'\<rparr>) j e" if live: "lease_live cs eps x j e" for e
  proof -
    have "\<exists>v r. kv_view ?b' (key_of cs j) = Some (v, r) \<and> lg_writes x r = Some (j, v) \<and> e \<le> value_expires v
        \<and> lg_freed x j < r" if lt: "kv_elapsed ?b' + ct_skew (cs j) + eps < e"
    proof -
      have "kv_elapsed ?b + ct_skew (cs j) + eps < e" using lt a d by simp
      then obtain v r where v: "kv_view ?b (key_of cs j) = Some (v, r)" "lg_writes x r = Some (j, v)"
          "e \<le> value_expires v" "lg_freed x j < r"
        using live by (auto simp: lease_live_def)
      have "value_expires v - ct_skew (cs j) \<le> t" if "kv_expires ?b (key_of cs j) = Some t" for t
        using lease_invD(7) [OF inv v(1,2) that] .
      then have "kv_elapsed ?b + d < t" if "kv_expires ?b (key_of cs j) = Some t" for t
        using that v(3) lt a eps by fastforce
      then have "kv_view ?b' (key_of cs j) = kv_view ?b (key_of cs j)" using a by blast
      with v show ?thesis by auto
    qed
    then show ?thesis by (simp add: lease_live_def)
  qed
  then show "lease_rely cs eps j x (x\<lparr>lg_bucket := ?b'\<rparr>)" using a d by (simp add: lease_rely_def)
qed

lemma stamped_keeps:
  assumes inv: "lease_inv cs x" and eps: "0 \<le> eps"
  shows "lease_inv cs (stamped i x)" "lease_rely cs eps j x (stamped i x)"
proof -
  let ?y = "x\<lparr>lg_bucket := kv_advance_clock 1 (lg_bucket x)\<rparr>"
  have y: "lease_inv cs ?y" "lease_rely cs eps j x ?y" using advance_keeps [OF inv _ eps, of 1] by simp_all
  have old: "t = lg_clock x \<Longrightarrow> lg_reads x t = None" for t
    using lease_invD(2) [OF inv, of t] by (cases "lg_reads x t") auto
  have clock: "lg_clock ?y = lg_clock x + 1" by (simp add: kv_advance_clock_def)
  have reads: "lg_reads x \<subseteq>\<^sub>m lg_reads (stamped i x)"
    using old by (auto simp: map_le_def stamped_def)
  then have made: "made_by cs ?y l v \<Longrightarrow> made_by cs (stamped i x) l v" for l v
    using made_by_reads [of ?y "stamped i x"] by simp
  then show "lease_inv cs (stamped i x)"
    using y(1) clock unfolding lease_inv_def by (auto simp: stamped_def split: if_splits)
  show "lease_rely cs eps j x (stamped i x)"
    using y(2) reads by (simp add: lease_rely_def lease_live_def stamped_def)
qed

text \<open>A write of \<open>i\<close>'s over an entry it may replace, or where nobody sees an entry.\<close>

lemma write_keeps:
  assumes inv: "lease_inv cs x" and cs: "contenders_ok cs eps"
    and made: "made_by cs x i v" and t: "t = None \<or> t = Some (ct_ttl (cs i))"
    and b: "kv_ok b" "kv_elapsed b = lg_clock x" "kv_revision (lg_bucket x) < r" "kv_revision b = r"
      "kv_view b = (kv_view (lg_bucket x))(key_of cs i \<mapsto> (v, r))"
      "kv_expires b = (kv_expires (lg_bucket x))(key_of cs i := map_option (\<lambda>d. lg_clock x + d) t)"
    and over: "\<And>v0 r0. kv_view (lg_bucket x) (key_of cs i) = Some (v0, r0) \<Longrightarrow> may_update cs x i v r0"
  shows "lease_inv cs (recorded i v (Inr (Some r)) b x)"
    "lease_rely cs eps j x (recorded i v (Inr (Some r)) b x)"
proof -
  let ?y = "recorded i v (Inr (Some r)) b x"
  have y: "lg_bucket ?y = b" "lg_writes ?y = (lg_writes x)(r \<mapsto> (i, v))" "lg_reads ?y = lg_reads x"
      "lg_freed ?y = lg_freed x" by (simp_all add: recorded_def)
  have fresh: "lg_writes x r = None"
    using lease_invD(3) [OF inv, of r] b(3) by (cases "lg_writes x r") fastforce+
  then have le: "lg_writes x \<subseteq>\<^sub>m lg_writes ?y" by (auto simp: map_le_def y)
  have expires: "value_expires v - ct_skew (cs i) \<le> d" if "map_option (\<lambda>d. lg_clock x + d) t = Some d" for d
    using made t lease_invD(2) [OF inv, of _ i] that by (fastforce simp: made_by_def)
  have view: "\<exists>l. lg_writes ?y r' = Some (l, v') \<and> key_of cs l = k
      \<and> (\<forall>d. kv_expires b k = Some d \<longrightarrow> value_expires v' - ct_skew (cs l) \<le> d)"
    if "kv_view b k = Some (v', r')" for k v' r'
  proof (cases "k = key_of cs i")
    case True
    then have "v' = v" "r' = r" using that by (auto simp: b)
    with True expires show ?thesis by (intro exI [of _ i]) (simp add: y b)
  next
    case False
    then have old: "kv_view (lg_bucket x) k = Some (v', r')" using that by (simp add: b)
    then obtain l where l: "lg_writes x r' = Some (l, v')" "key_of cs l = k" using lease_invD(5) [OF inv] by blast
    have "r' \<noteq> r" using l(1) fresh by auto
    with l False lease_invD(7) [OF inv old l(1)] show ?thesis by (auto simp: b y)
  qed
  have made_y: "made_by cs ?y l u = made_by cs x l u" for l u by (simp add: made_by_def y)
  have writes: "r' \<le> kv_revision b \<and> made_by cs ?y l u" if "lg_writes ?y r' = Some (l, u)" for r' l u
  proof (cases "r' = r")
    case True
    then have "l = i" "u = v" using that by (simp_all add: y)
    with True made b(4) show ?thesis by (simp add: made_y)
  next
    case False
    then have old: "lg_writes x r' = Some (l, u)" using that by (simp add: y)
    with lease_invD(3,4) [OF inv old] b(3,4) show ?thesis by (simp add: made_y)
  qed
  have "lg_freed x l \<le> kv_revision b" for l using lease_invD(6) [OF inv, of l] b(3,4) by simp
  then show "lease_inv cs ?y"
    using b(1,2) view writes lease_invD(2) [OF inv] unfolding lease_inv_def y(1,3,4) by simp
  have "lease_live cs eps ?y j e" if live: "lease_live cs eps x j e" for e
  proof -
    have "\<exists>u r'. kv_view b (key_of cs j) = Some (u, r') \<and> lg_writes ?y r' = Some (j, u) \<and> e \<le> value_expires u
        \<and> lg_freed x j < r'" if lt: "lg_clock x + ct_skew (cs j) + eps < e"
    proof -
      obtain u r' where u: "kv_view (lg_bucket x) (key_of cs j) = Some (u, r')" "lg_writes x r' = Some (j, u)"
          "e \<le> value_expires u" "lg_freed x j < r'"
        using live lt by (auto simp: lease_live_def)
      show ?thesis
      proof (cases "key_of cs j = key_of cs i")
        case False
        moreover have "r' \<noteq> r" using u(2) fresh by auto
        ultimately show ?thesis using u by (auto simp: b y)
      next
        case True
        then have "may_update cs x i v r'" using over u(1) by simp
        then have up: "value_expires u \<le> value_expires v" "j = i \<or> value_expires u \<le> lg_clock x + ct_skew (cs i)"
          using u(2) by (auto simp: may_update_def)
        have "ct_skew (cs i) - ct_skew (cs j) \<le> eps" using cs unfolding contenders_ok_def by blast
        then have "j = i" using up(2) u(3) lt by auto
        moreover have "lg_freed x j < r" using lease_invD(6) [OF inv, of j] b(3) by simp
        ultimately show ?thesis using up(1) u(3) by (auto simp: b y)
      qed
    qed
    then show ?thesis by (simp add: lease_live_def y b)
  qed
  then show "lease_rely cs eps j x ?y"
    using le b(2) by (simp add: lease_rely_def y)
qed

lemma create_keeps:
  assumes inv: "lease_inv cs x" and cs: "contenders_ok cs eps"
    and made: "made_by cs x i v" and t: "t = None \<or> t = Some (ct_ttl (cs i))"
    and create: "kv_create now (key_of cs i) v t (lg_bucket x) = (res, b)"
  shows "lease_inv cs (recorded i v res b x)" "lease_rely cs eps j x (recorded i v res b x)"
proof -
  note law = kv.create_law [OF lease_invD(1) [OF inv] create]
  have "lease_inv cs (recorded i v res b x) \<and> lease_rely cs eps j x (recorded i v res b x)"
  proof (cases "\<exists>r. res = Inr (Some r)")
    case True
    then obtain r where r: "res = Inr (Some r)" by blast
    with law have "kv_view (lg_bucket x) (key_of cs i) = None" by simp
    then show ?thesis
      using write_keeps [OF inv cs made t, of b r] law unfolding r by simp
  next
    case False
    then have "recorded i v res b x = x\<lparr>lg_bucket := b\<rparr>" by (auto simp: recorded_def split: sum.splits option.splits)
    with unseen_keeps [OF inv, of b] law False show ?thesis by (auto split: sum.splits option.splits)
  qed
  then show "lease_inv cs (recorded i v res b x)" "lease_rely cs eps j x (recorded i v res b x)" by simp_all
qed

lemma update_keeps:
  assumes inv: "lease_inv cs x" and cs: "contenders_ok cs eps"
    and made: "made_by cs x i v" and t: "t = None \<or> t = Some (ct_ttl (cs i))"
    and may: "may_update cs x i v r"
    and update: "kv_update now (key_of cs i) v r t (lg_bucket x) = (res, b)"
  shows "lease_inv cs (recorded i v res b x)" "lease_rely cs eps j x (recorded i v res b x)"
proof -
  note law = kv.update_law [OF lease_invD(1) [OF inv] update]
  have "lease_inv cs (recorded i v res b x) \<and> lease_rely cs eps j x (recorded i v res b x)"
  proof (cases "\<exists>r'. res = Inr (Some r')")
    case True
    then obtain r' where r': "res = Inr (Some r')" by blast
    have "r0 = r" if "kv_view (lg_bucket x) (key_of cs i) = Some (v0, r0)" for v0 r0
      using law r' kv.view_latest [OF lease_invD(1) [OF inv] that] by simp
    then show ?thesis
      using write_keeps [OF inv cs made t, of b r'] law may unfolding r' by fastforce
  next
    case False
    then have "recorded i v res b x = x\<lparr>lg_bucket := b\<rparr>" by (auto simp: recorded_def split: sum.splits option.splits)
    with unseen_keeps [OF inv, of b] law False show ?thesis by (auto split: sum.splits option.splits)
  qed
  then show "lease_inv cs (recorded i v res b x)" "lease_rely cs eps j x (recorded i v res b x)" by simp_all
qed

text \<open>A delete that names a write of \<open>i\<close>'s disturbs nobody else, and not \<open>i\<close> itself below its mark.\<close>

lemma delete_keeps:
  assumes inv: "lease_inv cs x" and w: "lg_writes x r = Some (i, v)"
    and delete: "kv_delete now k (Some r) t (lg_bucket x) = (res, b)"
  defines "y \<equiv> freeing i r (x\<lparr>lg_bucket := b\<rparr>)"
  shows "lease_inv cs y" "j \<noteq> i \<or> r \<le> lg_freed x i \<Longrightarrow> lease_rely cs eps j x y"
    "lg_writes y = lg_writes x" "lg_reads y = lg_reads x" "lg_clock y = lg_clock x"
proof -
  note law = kv.delete_law [OF lease_invD(1) [OF inv] delete]
  have y: "lg_bucket y = b" "lg_writes y = lg_writes x" "lg_reads y = lg_reads x"
      "lg_freed y = (lg_freed x)(i := max (lg_freed x i) r)" by (simp_all add: y_def freeing_def)
  have r: "r \<le> kv_revision (lg_bucket x)" using lease_invD(3) [OF inv w] .
  have high: "kv_revision (lg_bucket x) \<le> kv_revision b" using law by (auto split: if_splits)
  have view: "kv_view (lg_bucket x) k' = Some (u, r') \<and> kv_expires b k' = kv_expires (lg_bucket x) k'"
    if "kv_view b k' = Some (u, r')" for k' u r'
    using law that by (cases "res = Inr True") (auto split: if_splits)
  show "lease_inv cs y"
  proof -
    have writes: "r' \<le> kv_revision b \<and> made_by cs y l u" if "lg_writes x r' = Some (l, u)" for r' l u
      using lease_invD(3,4) [OF inv that] high by (simp add: made_by_def y)
    have seen: "\<exists>l. lg_writes x r' = Some (l, u) \<and> key_of cs l = k'
        \<and> (\<forall>t. kv_expires b k' = Some t \<longrightarrow> value_expires u - ct_skew (cs l) \<le> t)"
      if "kv_view b k' = Some (u, r')" for k' u r'
      using lease_invD(5) [OF inv] lease_invD(7) [OF inv] view [OF that] by metis
    have "lg_freed y l \<le> kv_revision b" for l
      using lease_invD(6) [OF inv, of l] lease_invD(6) [OF inv, of i] r high by (simp add: y)
    then show ?thesis
      using law writes seen lease_invD(2) [OF inv] unfolding lease_inv_def y(1-3) by simp
  qed
  show "lg_writes y = lg_writes x" "lg_reads y = lg_reads x" "lg_clock y = lg_clock x" using y law by simp_all
  show "lease_rely cs eps j x y" if other: "j \<noteq> i \<or> r \<le> lg_freed x i"
  proof -
    have freed: "lg_freed y j = lg_freed x j" using other by (auto simp: y)
    have "lease_live cs eps y j e" if live: "lease_live cs eps x j e" for e
    proof -
      have "kv_view b (key_of cs j) = Some (u, r')"
        if u: "kv_view (lg_bucket x) (key_of cs j) = Some (u, r')" "lg_writes x r' = Some (j, u)" "lg_freed x j < r'" for u r'
      proof -
        have "r' \<noteq> r" using u(2,3) w other by auto
        then show ?thesis using law u(1) by (cases "res = Inr True") (auto split: if_splits)
      qed
      with live show ?thesis using law by (auto simp: lease_live_def y(1,2) freed)
    qed
    then show ?thesis using law freed by (simp add: lease_rely_def y)
  qed
qed

end
