(* ===== verification/KvLeaseSafe.thy ===== *)
theory KvLeaseSafe
  imports KvLeaseHistory
begin

text \<open>
  \<open>lease_safe\<close>: a coroutine does what the other contenders rely on, whatever happens between its awaits.
  Its rules, one per kind of await, and that a step of a safe coroutine, or its giving up an answer,
  keeps the history's invariant.
\<close>

section \<open>Coroutines that keep the contract\<close>

text \<open>What a coroutine is judged against: whose it is, whether it may delete, what may happen to the
  object it works on while it waits, and what is always true of that object.\<close>

record 's lease_spec =
  sp_contenders :: "nat \<Rightarrow> contender"
  sp_eps :: int
  sp_self :: nat
  sp_deletes :: bool
  sp_disturb :: "'s \<Rightarrow> 's \<Rightarrow> bool"
  sp_inv :: "'s \<Rightarrow> lease_ghost \<Rightarrow> bool"

definition lease_env :: "'s lease_spec \<Rightarrow> 's \<Rightarrow> lease_ghost \<Rightarrow> 's \<Rightarrow> lease_ghost \<Rightarrow> bool" where
  "lease_env sp s x s' x' \<longleftrightarrow>
     sp_disturb sp s s' \<and> lease_rely (sp_contenders sp) (sp_eps sp) (sp_self sp) x x'
     \<and> lease_inv (sp_contenders sp) x'"

definition lease_ext :: "lease_ghost \<Rightarrow> lease_ghost \<Rightarrow> bool" where
  "lease_ext x x' \<longleftrightarrow>
     lg_writes x \<subseteq>\<^sub>m lg_writes x' \<and> lg_reads x \<subseteq>\<^sub>m lg_reads x' \<and> lg_clock x \<le> lg_clock x'
     \<and> (\<forall>i. lg_freed x i \<le> lg_freed x' i)"

abbreviation sp_key :: "'s lease_spec \<Rightarrow> string" where
  "sp_key sp \<equiv> key_of (sp_contenders sp) (sp_self sp)"

definition own_ttl :: "'s lease_spec \<Rightarrow> int option \<Rightarrow> bool" where
  "own_ttl sp t \<longleftrightarrow> t = None \<or> t = Some (ct_ttl (sp_contenders sp (sp_self sp)))"

abbreviation sp_made :: "'s lease_spec \<Rightarrow> lease_ghost \<Rightarrow> lease_value \<Rightarrow> bool" where
  "sp_made sp x v \<equiv> made_by (sp_contenders sp) x (sp_self sp) v"

abbreviation sp_ginv :: "'s lease_spec \<Rightarrow> lease_ghost \<Rightarrow> bool" where
  "sp_ginv sp x \<equiv> lease_inv (sp_contenders sp) x"

primrec lease_safe ::
  "('s, 'a) lease_prog \<Rightarrow> 's lease_spec \<Rightarrow> ('a \<Rightarrow> 's \<Rightarrow> lease_ghost \<Rightarrow> bool)
    \<Rightarrow> (lease_error \<Rightarrow> 's \<Rightarrow> lease_ghost \<Rightarrow> bool) \<Rightarrow> 's \<Rightarrow> lease_ghost \<Rightarrow> bool" where
  "lease_safe (Return a) sp P Q s x = (\<forall>s' x'. lease_env sp s x s' x' \<longrightarrow> P a s' x')"
| "lease_safe (Raise e) sp P Q s x = (\<forall>s' x'. lease_env sp s x s' x' \<longrightarrow> Q e s' x')"
| "lease_safe (Now c) sp P Q s x =
     (\<forall>s' x'. lease_env sp s x s' x' \<longrightarrow> sp_ginv sp (stamped (sp_self sp) x') \<longrightarrow>
        lease_safe (c (lg_clock x' + ct_skew (sp_contenders sp (sp_self sp)))) sp P Q s' (stamped (sp_self sp) x'))"
| "lease_safe (Sleep d p) sp P Q s x = lease_safe p sp P Q s x"
| "lease_safe (Ask c) sp P Q s x =
     (\<forall>s' x'. lease_env sp s x s' x' \<longrightarrow> lease_safe (c s') sp P Q s' x')"
| "lease_safe (Modify f p) sp P Q s x =
     (\<forall>s' x'. lease_env sp s x s' x' \<longrightarrow> sp_inv sp (f s') x' \<and> lease_safe p sp P Q (f s') x')"
| "lease_safe (Create key v t c) sp P Q s x =
     (key = sp_key sp \<and> own_ttl sp t \<and> sp_made sp x v
      \<and> (\<forall>s' x'. lease_env sp s x s' x' \<longrightarrow>
           (\<forall>e. lease_safe (c (Inl e)) sp P Q s' x')
           \<and> (\<forall>now res b. kv_create now key v t (lg_bucket x') = (res, b) \<longrightarrow>
                sp_ginv sp (recorded (sp_self sp) v res b x') \<longrightarrow>
                lease_safe (c res) sp P Q s' (recorded (sp_self sp) v res b x'))))"
| "lease_safe (GetEntry key c) sp P Q s x =
     (\<forall>s' x'. lease_env sp s x s' x' \<longrightarrow>
        (\<forall>e. lease_safe (c (Inl e)) sp P Q s' x')
        \<and> (\<forall>now res b. kv_get_entry now key (lg_bucket x') = (res, b) \<longrightarrow>
             sp_ginv sp (x'\<lparr>lg_bucket := b\<rparr>) \<longrightarrow>
             lease_safe (c res) sp P Q s' (x'\<lparr>lg_bucket := b\<rparr>)))"
| "lease_safe (GetValue key c) sp P Q s x = False"
| "lease_safe (Update key v r t c) sp P Q s x =
     (key = sp_key sp \<and> own_ttl sp t \<and> sp_made sp x v
      \<and> may_update (sp_contenders sp) x (sp_self sp) v r
      \<and> (\<forall>s' x'. lease_env sp s x s' x' \<longrightarrow>
           (\<forall>e. lease_safe (c (Inl e)) sp P Q s' x')
           \<and> (\<forall>now res b. kv_update now key v r t (lg_bucket x') = (res, b) \<longrightarrow>
                sp_ginv sp (recorded (sp_self sp) v res b x') \<longrightarrow>
                lease_safe (c res) sp P Q s' (recorded (sp_self sp) v res b x'))))"
| "lease_safe (Delete key r t c) sp P Q s x =
     (sp_deletes sp \<and> key = sp_key sp
      \<and> (\<exists>n v. r = Some n \<and> lg_writes x n = Some (sp_self sp, v))
      \<and> (\<forall>s' x'. lease_env sp s x s' x' \<longrightarrow>
           (\<forall>e. sp_ginv sp (freeing (sp_self sp) (the r) x') \<longrightarrow>
              lease_safe (c (Inl e)) sp P Q s' (freeing (sp_self sp) (the r) x'))
           \<and> (\<forall>now res b. kv_delete now key r t (lg_bucket x') = (res, b) \<longrightarrow>
                sp_ginv sp (freeing (sp_self sp) (the r) (x'\<lparr>lg_bucket := b\<rparr>)) \<longrightarrow>
                lease_safe (c res) sp P Q s' (freeing (sp_self sp) (the r) (x'\<lparr>lg_bucket := b\<rparr>)))))"
| "lease_safe (DateCreated c) sp P Q s x = False"

text \<open>A specification whose invariant survives what others do.\<close>

definition spec_ok :: "'s lease_spec \<Rightarrow> bool" where
  "spec_ok sp \<longleftrightarrow>
     contenders_ok (sp_contenders sp) (sp_eps sp)
     \<and> (\<forall>s. sp_disturb sp s s)
     \<and> (\<forall>s s' s''. sp_disturb sp s s' \<longrightarrow> sp_disturb sp s' s'' \<longrightarrow> sp_disturb sp s s'')
     \<and> (\<forall>s x s' x'. lease_env sp s x s' x' \<longrightarrow> sp_inv sp s x \<longrightarrow> sp_inv sp s' x')
     \<and> (sp_deletes sp \<longrightarrow> (\<forall>s x x'. lease_ext x x' \<longrightarrow> sp_inv sp s x \<longrightarrow> sp_inv sp s x'))"

lemma lease_env_refl: "spec_ok sp \<Longrightarrow> sp_ginv sp x \<Longrightarrow> lease_env sp s x s x"
  by (simp add: lease_env_def spec_ok_def lease_rely_refl)

lemma lease_env_trans:
  "spec_ok sp \<Longrightarrow> lease_env sp s x s' x' \<Longrightarrow> lease_env sp s' x' s'' x'' \<Longrightarrow> lease_env sp s x s'' x''"
  unfolding lease_env_def spec_ok_def by (blast intro: lease_rely_trans)

lemma env_made: "lease_env sp s x s' x' \<Longrightarrow> sp_made sp x v \<Longrightarrow> sp_made sp x' v"
  by (auto simp: lease_env_def intro: made_by_mono)

lemma env_may_update:
  "lease_env sp s x s' x' \<Longrightarrow> may_update (sp_contenders sp) x i v r \<Longrightarrow> may_update (sp_contenders sp) x' i v r"
  by (auto simp: lease_env_def intro: may_update_mono)

lemma env_writes: "lease_env sp s x s' x' \<Longrightarrow> lg_writes x r = Some w \<Longrightarrow> lg_writes x' r = Some w"
  by (auto simp: lease_env_def intro: writes_mono)

lemma env_inv: "spec_ok sp \<Longrightarrow> lease_env sp s x s' x' \<Longrightarrow> sp_inv sp s x \<Longrightarrow> sp_inv sp s' x'"
  unfolding spec_ok_def by blast

lemma env_ginv: "lease_env sp s x s' x' \<Longrightarrow> sp_ginv sp x'"
  by (simp add: lease_env_def)

lemma lease_safe_env:
  assumes "spec_ok sp" "lease_env sp s x s' x'" "lease_safe p sp P Q s x"
  shows "lease_safe p sp P Q s' x'"
proof -
  note tr = lease_env_trans [OF assms(1,2)]
  show ?thesis
    using assms(3)
  proof (induction p)
    case (Delete key r t c)
    then show ?case using tr env_writes [OF assms(2)] by (simp add: conj_commute) fast
  qed (use tr env_made [OF assms(2)] env_may_update [OF assms(2)] in simp_all)
qed

lemma lease_safe_try_else:
  assumes "spec_ok sp" "lease_safe p sp P' Q' s x" "sp_ginv sp x"
    and "\<And>a s x. sp_ginv sp x \<Longrightarrow> P' a s x \<Longrightarrow> lease_safe (k a) sp P Q s x"
    and "\<And>e s x. sp_ginv sp x \<Longrightarrow> Q' e s x \<Longrightarrow> lease_safe (h e) sp P Q s x"
  shows "lease_safe (try_else p h k) sp P Q s x"
  using assms(2,3)
proof (induction p arbitrary: s x)
  case (Return a)
  then show ?case using lease_env_refl [OF assms(1), of x s] assms(4) by simp
next
  case (Raise e)
  then show ?case using lease_env_refl [OF assms(1), of x s] assms(5) by simp
next
  case (Create key v t c)
  show ?case using Create.prems Create.IH env_ginv [of sp s x] by simp
next
  case (Update key v r t c)
  show ?case using Update.prems Update.IH env_ginv [of sp s x] by simp
next
  case (Delete key r t c)
  show ?case using Delete.prems Delete.IH env_ginv [of sp s x] by simp
next
  case (GetEntry key c)
  show ?case using GetEntry.prems GetEntry.IH env_ginv [of sp s x] by simp
next
  case (Modify f p)
  show ?case using Modify.prems Modify.IH env_ginv [of sp s x] by simp
next
  case (Ask c)
  show ?case using Ask.prems Ask.IH env_ginv [of sp s x] by simp
qed auto

section \<open>Steps\<close>

fun request_ok :: "(nat \<Rightarrow> contender) \<Rightarrow> lease_ghost \<Rightarrow> nat \<Rightarrow> lease_value pending_write \<Rightarrow> bool" where
  "request_ok cs x i (PendingCreate key v t) \<longleftrightarrow>
     key = key_of cs i \<and> (t = None \<or> t = Some (ct_ttl (cs i))) \<and> made_by cs x i v"
| "request_ok cs x i (PendingUpdate key v r t) \<longleftrightarrow>
     key = key_of cs i \<and> (t = None \<or> t = Some (ct_ttl (cs i))) \<and> made_by cs x i v \<and> may_update cs x i v r"
| "request_ok cs x i (PendingDelete key r t) \<longleftrightarrow>
     (\<exists>n v. r = Some n \<and> lg_writes x n = Some (i, v) \<and> n \<le> lg_freed x i)"

definition own_step :: "'s lease_spec \<Rightarrow> lease_ghost \<Rightarrow> lease_ghost \<Rightarrow> bool" where
  "own_step sp x x' \<longleftrightarrow>
     sp_ginv sp x' \<and> lease_ext x x'
     \<and> (\<forall>j. j \<noteq> sp_self sp \<or> \<not> sp_deletes sp \<longrightarrow> lease_rely (sp_contenders sp) (sp_eps sp) j x x')"

lemma rely_ext: "(\<And>j. lease_rely cs eps j x x') \<Longrightarrow> lease_ext x x'"
  by (simp add: lease_rely_def lease_ext_def)

lemma request_ok_ext:
  assumes "lease_ext x x'" and "request_ok cs x i req"
  shows "request_ok cs x' i req"
proof -
  have writes: "lg_writes x r = Some w \<Longrightarrow> lg_writes x' r = Some w" for r w
    using assms(1) by (auto simp: lease_ext_def map_le_def dom_def)
  have made: "made_by cs x i v \<Longrightarrow> made_by cs x' i v" for v
    using assms(1) made_by_reads [of x x'] by (simp add: lease_ext_def)
  have may: "may_update cs x i v r \<Longrightarrow> may_update cs x' i v r" for v r
    using writes [of r] assms(1) by (fastforce simp: may_update_def lease_ext_def)
  show ?thesis
  proof (cases req)
    case (PendingDelete key r t)
    then obtain n v where n: "r = Some n" "lg_writes x n = Some (i, v)" "n \<le> lg_freed x i"
      using assms(2) by auto
    have "lg_freed x i \<le> lg_freed x' i" using assms(1) by (simp add: lease_ext_def)
    with n writes PendingDelete show ?thesis by fastforce
  qed (use assms(2) made may in auto)
qed

text \<open>A step everybody may rely on keeps the coroutine safe and its object's invariant.\<close>

lemma own_step_rely:
  assumes ok: "spec_ok sp" and inv: "sp_inv sp s x" and ginv: "sp_ginv sp x'"
    and rely: "\<And>j. lease_rely (sp_contenders sp) (sp_eps sp) j x x'"
  shows "own_step sp x x'" "sp_inv sp s x'"
proof -
  show "own_step sp x x'" using ginv rely rely_ext [OF rely] by (simp add: own_step_def)
  have "lease_env sp s x s x'" using ok ginv rely by (simp add: lease_env_def spec_ok_def)
  then show "sp_inv sp s x'" using env_inv [OF ok] inv by blast
qed

lemma spec_okD:
  assumes "spec_ok sp"
  shows "contenders_ok (sp_contenders sp) (sp_eps sp)" "0 \<le> sp_eps sp"
proof -
  show "contenders_ok (sp_contenders sp) (sp_eps sp)" using assms unfolding spec_ok_def by blast
  then show "0 \<le> sp_eps sp" unfolding contenders_ok_def by blast
qed

lemma lg_bucket_recorded [simp]: "lg_bucket (recorded i v res b x) = b"
  by (simp add: recorded_def split: sum.split option.split)

lemma freeing_keeps:
  assumes "lease_inv cs x" "lg_writes x n = Some (i, v)"
  shows "lease_inv cs (freeing i n x)" "j \<noteq> i \<Longrightarrow> lease_rely cs eps j x (freeing i n x)" "lease_ext x (freeing i n x)"
proof -
  have "n \<le> kv_revision (lg_bucket x)" using lease_invD(3) [OF assms] .
  then show "lease_inv cs (freeing i n x)"
    using assms(1) by (auto simp: lease_inv_def freeing_def made_by_def)
  show "j \<noteq> i \<Longrightarrow> lease_rely cs eps j x (freeing i n x)" "lease_ext x (freeing i n x)"
    by (auto simp: lease_rely_def lease_ext_def lease_live_def freeing_def)
qed

lemma coroutine_step:
  assumes ok: "spec_ok sp" and ginv: "sp_ginv sp x" and inv: "sp_inv sp s x"
    and safe: "lease_safe p sp P Q s x"
    and step: "prog_step (ct_skew (sp_contenders sp (sp_self sp))) p s (lg_bucket x) = Some (p', s', b')"
  shows "\<exists>x'. lg_bucket x' = b' \<and> own_step sp x x' \<and> sp_inv sp s' x' \<and> lease_safe p' sp P Q s' x'"
proof -
  let ?i = "sp_self sp"
  note refl = lease_env_refl [OF ok ginv, of s]
  note cs = spec_okD [OF ok]
  show ?thesis
  proof (cases p)
    case (Now c)
    note k = stamped_keeps [OF ginv cs(2), where i = ?i]
    have "lease_safe p' sp P Q s' (stamped ?i x)" "s' = s" "b' = lg_bucket (stamped ?i x)"
      using safe step refl k(1) by (auto simp: Now prog_step_def stamped_def)
    then show ?thesis using own_step_rely [OF ok inv k] by blast
  next
    case (Sleep d q)
    then show ?thesis
      using safe step own_step_rely [OF ok inv ginv] lease_rely_refl inv by (auto simp: prog_step_def)
  next
    case (Ask c)
    then show ?thesis
      using safe step refl own_step_rely [OF ok inv ginv] lease_rely_refl inv by (auto simp: prog_step_def)
  next
    case (Modify f q)
    then have "sp_inv sp (f s) x" "lease_safe q sp P Q (f s) x" using safe refl by auto
    then show ?thesis
      using step Modify own_step_rely(1) [OF ok inv ginv] lease_rely_refl by (auto simp: prog_step_def)
  next
    case (Create key v t c)
    obtain res b where op: "kv_create (kv_elapsed (lg_bucket x)) key v t (lg_bucket x) = (res, b)"
      by fastforce
    have pre: "key = sp_key sp" "own_ttl sp t" "sp_made sp x v" using safe by (auto simp: Create)
    note k = create_keeps [OF ginv cs(1) pre(3) pre(2) [unfolded own_ttl_def] op [unfolded pre(1)]]
    have "p' = c res" "s' = s" "b' = b" using step op by (auto simp: Create prog_step_def)
    moreover have "lease_safe (c res) sp P Q s (recorded ?i v res b x)"
      using safe refl k(1) op unfolding Create lease_safe.simps by blast
    ultimately have "lease_safe p' sp P Q s' (recorded ?i v res b x)" "s' = s" "b' = lg_bucket (recorded ?i v res b x)"
      by simp_all
    then show ?thesis using own_step_rely [OF ok inv k] by blast
  next
    case (Update key v r t c)
    obtain res b where op: "kv_update (kv_elapsed (lg_bucket x)) key v r t (lg_bucket x) = (res, b)"
      by fastforce
    have pre: "key = sp_key sp" "own_ttl sp t" "sp_made sp x v" "may_update (sp_contenders sp) x ?i v r"
      using safe by (auto simp: Update)
    note k = update_keeps [OF ginv cs(1) pre(3) pre(2) [unfolded own_ttl_def] pre(4) op [unfolded pre(1)]]
    have "p' = c res" "s' = s" "b' = b" using step op by (auto simp: Update prog_step_def)
    moreover have "lease_safe (c res) sp P Q s (recorded ?i v res b x)"
      using safe refl k(1) op unfolding Update lease_safe.simps by blast
    ultimately have "lease_safe p' sp P Q s' (recorded ?i v res b x)" "s' = s" "b' = lg_bucket (recorded ?i v res b x)"
      by simp_all
    then show ?thesis using own_step_rely [OF ok inv k] by blast
  next
    case (GetEntry key c)
    obtain res b where op: "kv_get_entry (kv_elapsed (lg_bucket x)) key (lg_bucket x) = (res, b)"
      by fastforce
    have law: "kv_ok b" "kv_view b = kv_view (lg_bucket x)" "kv_expires b = kv_expires (lg_bucket x)"
      "kv_revision b = kv_revision (lg_bucket x)" "kv_elapsed b = lg_clock x"
      using kv.get_law [OF lease_invD(1) [OF ginv] op] by simp_all
    note k = unseen_keeps [OF ginv law]
    have "lease_safe p' sp P Q s' (x\<lparr>lg_bucket := b\<rparr>)" "s' = s" "b' = lg_bucket (x\<lparr>lg_bucket := b\<rparr>)"
      using safe step refl k(1) op by (auto simp: GetEntry prog_step_def)
    then show ?thesis using own_step_rely [OF ok inv k] by blast
  next
    case (Delete key r t c)
    obtain n v where n: "r = Some n" "lg_writes x n = Some (?i, v)" "sp_deletes sp" using safe by (auto simp: Delete)
    obtain res b where op: "kv_delete (kv_elapsed (lg_bucket x)) key (Some n) t (lg_bucket x) = (res, b)"
      by fastforce
    let ?y = "freeing ?i n (x\<lparr>lg_bucket := b\<rparr>)"
    note k = delete_keeps [OF ginv n(2) op]
    have "lease_safe p' sp P Q s' ?y" "s' = s" "b' = lg_bucket ?y"
      using safe step refl k(1) op n by (auto simp: Delete prog_step_def freeing_def)
    moreover have ext: "lease_ext x ?y" using k(3-5) by (simp add: lease_ext_def freeing_def)
    moreover have "own_step sp x ?y" using k(1,2) ext n(3) by (auto simp: own_step_def)
    moreover have "sp_inv sp s ?y" using ok n(3) ext inv unfolding spec_ok_def by blast
    ultimately show ?thesis by blast
  qed (use step safe in \<open>auto simp: prog_step_def\<close>)
qed

text \<open>A coroutine that stops waiting leaves a request behind that is as safe as the coroutine was.\<close>

lemma coroutine_unanswered:
  assumes ok: "spec_ok sp" and ginv: "sp_ginv sp x" and inv: "sp_inv sp s x"
    and safe: "lease_safe p sp P Q s x"
  shows "\<exists>x'. lg_bucket x' = lg_bucket x \<and> own_step sp x x' \<and> sp_inv sp s x'
    \<and> lease_safe (give_up_waiting p) sp P Q s x'
    \<and> (\<forall>req \<in> set (unanswered_write p). request_ok (sp_contenders sp) x' (sp_self sp) req)"
proof (cases "\<exists>key r t c. p = Delete key r t c")
  case True
  then obtain key r t c where p: "p = Delete key r t c" by blast
  obtain n v where n: "r = Some n" "lg_writes x n = Some (sp_self sp, v)" "sp_deletes sp" using safe by (auto simp: p)
  let ?y = "freeing (sp_self sp) n x"
  note k = freeing_keeps [OF ginv n(2)]
  have "sp_inv sp s ?y" using ok n(3) k(3) inv unfolding spec_ok_def by blast
  moreover have "own_step sp x ?y" using k n(3) by (auto simp: own_step_def)
  moreover have "lease_safe (give_up_waiting p) sp P Q s ?y"
    using safe lease_env_refl [OF ok ginv, of s] k(1) n(1) by (simp add: p)
  ultimately show ?thesis using n by (intro exI [of _ ?y]) (simp add: p freeing_def)
next
  case False
  note own = own_step_rely [OF ok inv ginv lease_rely_refl]
  show ?thesis
    using False own safe lease_env_refl [OF ok ginv, of s]
    by (intro exI [of _ x]; cases p) (auto simp: own_ttl_def)
qed

section \<open>Rules\<close>

text \<open>Facts about the object and the history that hold through whatever others do.\<close>

definition settled :: "'s lease_spec \<Rightarrow> ('s \<Rightarrow> lease_ghost \<Rightarrow> bool) \<Rightarrow> bool" where
  "settled sp K \<longleftrightarrow> (\<forall>s x s' x'. lease_env sp s x s' x' \<longrightarrow> K s x \<longrightarrow> K s' x')"

named_theorems settled_rules

lemma settledD: "settled sp K \<Longrightarrow> lease_env sp s x s' x' \<Longrightarrow> K s x \<Longrightarrow> K s' x'"
  unfolding settled_def by blast

lemma settled_inv: "spec_ok sp \<Longrightarrow> sp_inv sp = K \<Longrightarrow> settled sp K"
  unfolding settled_def spec_ok_def by blast

lemma settled_conj [settled_rules]:
  "settled sp K \<Longrightarrow> settled sp L \<Longrightarrow> settled sp (\<lambda>s x. K s x \<and> L s x)"
  unfolding settled_def by blast

lemma settled_all [settled_rules]: "(\<And>a. settled sp (K a)) \<Longrightarrow> settled sp (\<lambda>s x. \<forall>a. K a s x)"
  unfolding settled_def by blast

lemma settled_imp [settled_rules]: "settled sp K \<Longrightarrow> settled sp (\<lambda>s x. c \<longrightarrow> K s x)"
  unfolding settled_def by blast

lemma settled_const [settled_rules]: "settled sp (\<lambda>s x. c)"
  unfolding settled_def by blast

lemma settled_made [settled_rules]: "sp_contenders sp = cs \<Longrightarrow> settled sp (\<lambda>s x. made_by cs x i v)"
  by (auto simp: settled_def lease_env_def intro: made_by_mono)

lemma settled_writes [settled_rules]: "settled sp (\<lambda>s x. lg_writes x r = Some w)"
  by (auto simp: settled_def intro: env_writes)

lemma settled_may_update [settled_rules]: "sp_contenders sp = cs \<Longrightarrow> settled sp (\<lambda>s x. may_update cs x i v r)"
  by (auto simp: settled_def intro: env_may_update)

lemma settled_live [settled_rules]:
  "sp_contenders sp = cs \<Longrightarrow> sp_eps sp = eps \<Longrightarrow> sp_self sp = i \<Longrightarrow> settled sp (\<lambda>s x. lease_live cs eps x i e)"
  by (auto simp: settled_def lease_env_def intro: live_mono)

lemma settled_clock [settled_rules]: "settled sp (\<lambda>s x. e \<le> lg_clock x + n)"
  unfolding settled_def lease_env_def lease_rely_def by fastforce

lemma rely_env:
  "spec_ok sp \<Longrightarrow> sp_ginv sp x' \<Longrightarrow> (\<And>j. lease_rely (sp_contenders sp) (sp_eps sp) j x x') \<Longrightarrow> lease_env sp s x s x'"
  by (simp add: lease_env_def spec_ok_def)

lemma safe_Return: "settled sp K \<Longrightarrow> K s x \<Longrightarrow> (\<And>s x. K s x \<Longrightarrow> P a s x) \<Longrightarrow> lease_safe (Return a) sp P Q s x"
  by (auto dest: settledD)

lemma safe_Raise: "(\<And>s x. Q e s x) \<Longrightarrow> lease_safe (Raise e) sp P Q s x"
  by simp

lemma safe_Ask:
  assumes "settled sp K" "K s x" "\<And>s x. sp_ginv sp x \<Longrightarrow> K s x \<Longrightarrow> lease_safe (c s) sp P Q s x"
  shows "lease_safe (Ask c) sp P Q s x"
  unfolding lease_safe.simps using assms(3) settledD [OF assms(1) _ assms(2)] env_ginv [of sp s x] by blast

lemma safe_Modify:
  assumes "settled sp K" "K s x"
    "\<And>s x. sp_ginv sp x \<Longrightarrow> K s x \<Longrightarrow> sp_inv sp (f s) x \<and> lease_safe p sp P Q (f s) x"
  shows "lease_safe (Modify f p) sp P Q s x"
  unfolding lease_safe.simps using assms(3) settledD [OF assms(1) _ assms(2)] env_ginv [of sp s x] by blast

lemma safe_Now:
  assumes ok: "spec_ok sp" and K: "settled sp K" "K s x"
    and c: "\<And>s x. sp_ginv sp x \<Longrightarrow> K s x \<Longrightarrow> K s (stamped (sp_self sp) x) \<Longrightarrow> sp_ginv sp (stamped (sp_self sp) x) \<Longrightarrow>
      lease_safe (c (lg_clock x + ct_skew (sp_contenders sp (sp_self sp)))) sp P Q s (stamped (sp_self sp) x)"
  shows "lease_safe (Now c) sp P Q s x"
  unfolding lease_safe.simps
proof (intro allI impI)
  fix s' x' assume env: "lease_env sp s x s' x'" and y: "sp_ginv sp (stamped (sp_self sp) x')"
  have x': "sp_ginv sp x'" "K s' x'" using env_ginv [OF env] settledD [OF K(1) env K(2)] by simp_all
  have "lease_env sp s' x' s' (stamped (sp_self sp) x')"
    using rely_env [OF ok y] stamped_keeps(2) [OF x'(1) spec_okD(2) [OF ok]] by blast
  then have "K s' (stamped (sp_self sp) x')" using settledD [OF K(1)] x'(2) by blast
  with c x' y show "lease_safe (c (lg_clock x' + ct_skew (sp_contenders sp (sp_self sp)))) sp P Q s' (stamped (sp_self sp) x')"
    by blast
qed

text \<open>A write that landed keeps the key its writer's until the write's expiry.\<close>

lemma landed_live:
  assumes "kv_view b (key_of cs i) = Some (v, r)" "kv_revision (lg_bucket x) < r" "lease_inv cs x"
  shows "lease_live cs eps (recorded i v (Inr (Some r)) b x) i (value_expires v)"
  using assms lease_invD(6) [OF assms(3), of i] by (auto simp: lease_live_def recorded_def)

lemma safe_write:
  assumes ok: "spec_ok sp" and K: "settled sp K" and c:
    "\<And>e s x. sp_ginv sp x \<Longrightarrow> K s x \<Longrightarrow> lease_safe (c (Inl e)) sp P Q s x"
    "\<And>s x. sp_ginv sp x \<Longrightarrow> K s x \<Longrightarrow> lease_safe (c (Inr None)) sp P Q s x"
    "\<And>r s x. sp_ginv sp x \<Longrightarrow> K s x \<Longrightarrow> lg_writes x r = Some (sp_self sp, v) \<Longrightarrow>
      lease_live (sp_contenders sp) (sp_eps sp) x (sp_self sp) (value_expires v) \<Longrightarrow>
      lease_safe (c (Inr (Some r))) sp P Q s x"
    and x: "sp_ginv sp x" "K s x"
    and y: "sp_ginv sp (recorded (sp_self sp) v res b x)"
      "\<And>j. lease_rely (sp_contenders sp) (sp_eps sp) j x (recorded (sp_self sp) v res b x)"
    and landed: "\<And>r. res = Inr (Some r) \<Longrightarrow> kv_view b (sp_key sp) = Some (v, r) \<and> kv_revision (lg_bucket x) < r"
  shows "lease_safe (c res) sp P Q s (recorded (sp_self sp) v res b x)"
proof -
  have "K s (recorded (sp_self sp) v res b x)" using settledD [OF K rely_env [OF ok y]] x(2) by blast
  moreover have "lg_writes (recorded (sp_self sp) v res b x) r = Some (sp_self sp, v)
      \<and> lease_live (sp_contenders sp) (sp_eps sp) (recorded (sp_self sp) v res b x) (sp_self sp) (value_expires v)"
    if "res = Inr (Some r)" for r
    using landed_live [OF _ _ x(1)] landed [OF that] that by (simp add: recorded_def)
  ultimately show ?thesis using c y(1) by (cases res; cases "projr res") auto
qed

lemma safe_Create:
  assumes ok: "spec_ok sp" and K: "settled sp K" "K s x"
    and pre: "key = sp_key sp" "own_ttl sp t" "sp_made sp x v"
    and c: "\<And>e s x. sp_ginv sp x \<Longrightarrow> K s x \<Longrightarrow> lease_safe (c (Inl e)) sp P Q s x"
    "\<And>s x. sp_ginv sp x \<Longrightarrow> K s x \<Longrightarrow> lease_safe (c (Inr None)) sp P Q s x"
    "\<And>r s x. sp_ginv sp x \<Longrightarrow> K s x \<Longrightarrow> lg_writes x r = Some (sp_self sp, v) \<Longrightarrow>
      lease_live (sp_contenders sp) (sp_eps sp) x (sp_self sp) (value_expires v) \<Longrightarrow>
      lease_safe (c (Inr (Some r))) sp P Q s x"
  shows "lease_safe (Create key v t c) sp P Q s x"
  unfolding lease_safe.simps
proof (intro conjI allI impI)
  fix s' x' assume env: "lease_env sp s x s' x'"
  have x': "sp_ginv sp x'" "K s' x'" using env_ginv [OF env] settledD [OF K(1) env K(2)] by simp_all
  show "lease_safe (c (Inl e)) sp P Q s' x'" for e using c(1) x' by blast
  fix now res b assume op: "kv_create now key v t (lg_bucket x') = (res, b)"
  note k = create_keeps [OF x'(1) spec_okD(1) [OF ok] env_made [OF env pre(3)] pre(2) [unfolded own_ttl_def] op [unfolded pre(1)]]
  have "kv_view b (sp_key sp) = Some (v, r) \<and> kv_revision (lg_bucket x') < r" if "res = Inr (Some r)" for r
    using kv.create_law [OF lease_invD(1) [OF x'(1)] op] that pre(1) by simp
  then show "lease_safe (c res) sp P Q s' (recorded (sp_self sp) v res b x')"
    by (intro safe_write [OF ok K(1) c x' k]) auto
qed (use pre in auto)

lemma safe_Update:
  assumes ok: "spec_ok sp" and K: "settled sp K" "K s x"
    and pre: "key = sp_key sp" "own_ttl sp t" "sp_made sp x v" "may_update (sp_contenders sp) x (sp_self sp) v r"
    and c: "\<And>e s x. sp_ginv sp x \<Longrightarrow> K s x \<Longrightarrow> lease_safe (c (Inl e)) sp P Q s x"
    "\<And>s x. sp_ginv sp x \<Longrightarrow> K s x \<Longrightarrow> lease_safe (c (Inr None)) sp P Q s x"
    "\<And>r s x. sp_ginv sp x \<Longrightarrow> K s x \<Longrightarrow> lg_writes x r = Some (sp_self sp, v) \<Longrightarrow>
      lease_live (sp_contenders sp) (sp_eps sp) x (sp_self sp) (value_expires v) \<Longrightarrow>
      lease_safe (c (Inr (Some r))) sp P Q s x"
  shows "lease_safe (Update key v r t c) sp P Q s x"
  unfolding lease_safe.simps
proof (intro conjI allI impI)
  fix s' x' assume env: "lease_env sp s x s' x'"
  have x': "sp_ginv sp x'" "K s' x'" using env_ginv [OF env] settledD [OF K(1) env K(2)] by simp_all
  show "lease_safe (c (Inl e)) sp P Q s' x'" for e using c(1) x' by blast
  fix now res b assume op: "kv_update now key v r t (lg_bucket x') = (res, b)"
  note k = update_keeps [OF x'(1) spec_okD(1) [OF ok] env_made [OF env pre(3)] pre(2) [unfolded own_ttl_def]
      env_may_update [OF env pre(4)] op [unfolded pre(1)]]
  have "kv_view b (sp_key sp) = Some (v, r') \<and> kv_revision (lg_bucket x') < r'" if "res = Inr (Some r')" for r'
    using kv.update_law [OF lease_invD(1) [OF x'(1)] op] that pre(1) by simp
  then show "lease_safe (c res) sp P Q s' (recorded (sp_self sp) v res b x')"
    by (intro safe_write [OF ok K(1) c x' k]) auto
qed (use pre in auto)

lemma safe_GetEntry:
  assumes ok: "spec_ok sp" and K: "settled sp K" "K s x"
    and c: "\<And>e s x. sp_ginv sp x \<Longrightarrow> K s x \<Longrightarrow> lease_safe (c (Inl e)) sp P Q s x"
    "\<And>s x. sp_ginv sp x \<Longrightarrow> K s x \<Longrightarrow> lease_safe (c (Inr None)) sp P Q s x"
    "\<And>v r l s x. sp_ginv sp x \<Longrightarrow> K s x \<Longrightarrow> lg_writes x r = Some (l, v) \<Longrightarrow>
      key_of (sp_contenders sp) l = key \<Longrightarrow> lease_safe (c (Inr (Some (v, r)))) sp P Q s x"
  shows "lease_safe (GetEntry key c) sp P Q s x"
  unfolding lease_safe.simps
proof (intro conjI allI impI)
  fix s' x' assume env: "lease_env sp s x s' x'"
  have x': "sp_ginv sp x'" "K s' x'" using env_ginv [OF env] settledD [OF K(1) env K(2)] by simp_all
  show "lease_safe (c (Inl e)) sp P Q s' x'" for e using c(1) x' by blast
  fix now res b assume op: "kv_get_entry now key (lg_bucket x') = (res, b)" and y: "sp_ginv sp (x'\<lparr>lg_bucket := b\<rparr>)"
  note law = kv.get_law [OF lease_invD(1) [OF x'(1)] op]
  have "lease_env sp s' x' s' (x'\<lparr>lg_bucket := b\<rparr>)"
    by (intro rely_env [OF ok y] unseen_keeps(2) [OF x'(1)]) (use law in auto)
  then have K': "K s' (x'\<lparr>lg_bucket := b\<rparr>)" using settledD [OF K(1)] x'(2) by blast
  show "lease_safe (c res) sp P Q s' (x'\<lparr>lg_bucket := b\<rparr>)"
  proof (cases res)
    case (Inl e)
    then show ?thesis using c(1) y K' by blast
  next
    case (Inr entry)
    show ?thesis
    proof (cases entry)
      case None
      then show ?thesis using c(2) y K' Inr by blast
    next
      case (Some a)
      then obtain v r where a: "res = Inr (Some (v, r))" "kv_view b key = Some (v, r)"
        using law Inr by (cases a) auto
      then obtain l where "lg_writes x' r = Some (l, v)" "key_of (sp_contenders sp) l = key"
        using lease_invD(5) [OF y, of key v r] by auto
      then show ?thesis using c(3) y K' a(1) by simp
    qed
  qed
qed

lemma safe_Delete:
  assumes ok: "spec_ok sp" and K: "settled sp K" "K s x" and ext: "\<And>s x y. lease_ext x y \<Longrightarrow> K s x \<Longrightarrow> K s y"
    and pre: "sp_deletes sp" "key = sp_key sp" "lg_writes x n = Some (sp_self sp, v)"
    and c: "\<And>res s x. sp_ginv sp x \<Longrightarrow> K s x \<Longrightarrow> lease_safe (c res) sp P Q s x"
  shows "lease_safe (Delete key (Some n) t c) sp P Q s x"
  unfolding lease_safe.simps option.sel
proof (intro conjI allI impI)
  fix s' x' assume env: "lease_env sp s x s' x'"
  have x': "sp_ginv sp x'" "K s' x'" using env_ginv [OF env] settledD [OF K(1) env K(2)] by simp_all
  show "lease_safe (c (Inl e)) sp P Q s' (freeing (sp_self sp) n x')"
    if "sp_ginv sp (freeing (sp_self sp) n x')" for e
    using c [OF that] ext [OF _ x'(2)] by (simp add: lease_ext_def freeing_def)
  fix now res b assume op: "kv_delete now key (Some n) t (lg_bucket x') = (res, b)"
    and y: "sp_ginv sp (freeing (sp_self sp) n (x'\<lparr>lg_bucket := b\<rparr>))"
  have "kv_elapsed b = lg_clock x'" using kv.delete_law [OF lease_invD(1) [OF x'(1)] op] by simp
  then show "lease_safe (c res) sp P Q s' (freeing (sp_self sp) n (x'\<lparr>lg_bucket := b\<rparr>))"
    using c [OF y] ext [OF _ x'(2)] by (simp add: lease_ext_def freeing_def)
qed (use pre in auto)

text \<open>A safe coroutine ends with its object's invariant, however it ends.\<close>

lemma lease_safe_inv:
  assumes ok: "spec_ok sp" and "lease_safe p sp P Q s x" "sp_inv sp s x"
  shows "lease_safe p sp (\<lambda>a s x. P a s x \<and> sp_inv sp s x) (\<lambda>e s x. Q e s x \<and> sp_inv sp s x) s x"
  using assms(2,3)
proof (induction p arbitrary: s x)
  case (Return a)
  then show ?case using env_inv [OF ok, of s x] by simp
next
  case (Raise e)
  then show ?case using env_inv [OF ok, of s x] by simp
next
  case (Now c)
  have "sp_inv sp s' (stamped (sp_self sp) x')" if "lease_env sp s x s' x'" "sp_ginv sp (stamped (sp_self sp) x')" for s' x'
    using env_inv [OF ok rely_env [OF ok that(2) stamped_keeps(2) [OF env_ginv [OF that(1)] spec_okD(2) [OF ok]]]]
      env_inv [OF ok that(1) Now.prems(2)] by blast
  then show ?case using Now by simp
next
  case (Ask c)
  then show ?case using env_inv [OF ok, of s x] by simp
next
  case (Create key v t c)
  have pre: "key = sp_key sp" "own_ttl sp t" "sp_made sp x v" using Create.prems(1) by simp_all
  have "sp_inv sp s' (recorded (sp_self sp) v res b x')"
    if env: "lease_env sp s x s' x'" and op: "kv_create now key v t (lg_bucket x') = (res, b)" for s' x' now res b
  proof -
    note k = create_keeps [OF env_ginv [OF env] spec_okD(1) [OF ok] env_made [OF env pre(3)]
        pre(2) [unfolded own_ttl_def] op [unfolded pre(1)]]
    show ?thesis using env_inv [OF ok rely_env [OF ok k]] env_inv [OF ok env Create.prems(2)] by blast
  qed
  then show ?case using Create env_inv [OF ok, of s x] by simp
next
  case (Update key v r t c)
  have pre: "key = sp_key sp" "own_ttl sp t" "sp_made sp x v" "may_update (sp_contenders sp) x (sp_self sp) v r"
    using Update.prems(1) by simp_all
  have "sp_inv sp s' (recorded (sp_self sp) v res b x')"
    if env: "lease_env sp s x s' x'" and op: "kv_update now key v r t (lg_bucket x') = (res, b)" for s' x' now res b
  proof -
    note k = update_keeps [OF env_ginv [OF env] spec_okD(1) [OF ok] env_made [OF env pre(3)]
        pre(2) [unfolded own_ttl_def] env_may_update [OF env pre(4)] op [unfolded pre(1)]]
    show ?thesis using env_inv [OF ok rely_env [OF ok k]] env_inv [OF ok env Update.prems(2)] by blast
  qed
  then show ?case using Update env_inv [OF ok, of s x] by simp
next
  case (GetEntry key c)
  have "sp_inv sp s' (x'\<lparr>lg_bucket := b\<rparr>)"
    if env: "lease_env sp s x s' x'" and op: "kv_get_entry now key (lg_bucket x') = (res, b)"
      and y: "sp_ginv sp (x'\<lparr>lg_bucket := b\<rparr>)" for s' x' now res b
  proof -
    have "lease_env sp s' x' s' (x'\<lparr>lg_bucket := b\<rparr>)"
      by (intro rely_env [OF ok y] unseen_keeps(2) [OF env_ginv [OF env]])
        (use kv.get_law [OF lease_invD(1) [OF env_ginv [OF env]] op] in auto)
    then show ?thesis using env_inv [OF ok] env_inv [OF ok env GetEntry.prems(2)] by blast
  qed
  then show ?case using GetEntry env_inv [OF ok, of s x] by simp
next
  case (Delete key r t c)
  have del: "sp_deletes sp" using Delete.prems(1) by simp
  then have ext: "sp_inv sp s y" if "lease_ext x y" "sp_inv sp s x" for s x y
    using ok that unfolding spec_ok_def by blast
  have "sp_inv sp s' (freeing (sp_self sp) (the r) (x'\<lparr>lg_bucket := b\<rparr>))"
    if env: "lease_env sp s x s' x'" and b: "kv_elapsed b = lg_clock x'" for s' x' b
    using ext [OF _ env_inv [OF ok env Delete.prems(2)]] b by (simp add: lease_ext_def freeing_def)
  moreover have "kv_elapsed b = lg_clock x'"
    if env: "lease_env sp s x s' x'" and op: "kv_delete now key r t (lg_bucket x') = (res, b)" for s' x' now res b
  proof -
    obtain n where "r = Some n" using Delete.prems(1) by auto
    with kv.delete_law [OF lease_invD(1) [OF env_ginv [OF env]], of now key n t res b] op show ?thesis by simp
  qed
  moreover have "sp_inv sp s' (freeing (sp_self sp) (the r) x')" if env: "lease_env sp s x s' x'" for s' x'
    using ext [OF _ env_inv [OF ok env Delete.prems(2)]] by (simp add: lease_ext_def freeing_def)
  ultimately show ?case using Delete by (simp add: Delete.IH)
qed (use env_inv [OF ok] in auto)

end
