(* ===== verification/KvLeaseMutex.thy ===== *)
theory KvLeaseMutex
  imports KvLeaseSafe
begin

text \<open>
  Every coroutine of the lease keeps the contract, so at most one contender at a time may act as the
  holder of a key, through any interleaving, lost answer and late request.
\<close>

declare lease_safe.simps [simp del]

lemma safe_done: "(\<And>s x. P a s x) \<Longrightarrow> lease_safe (Return a) sp P Q s x"
  by (simp add: lease_safe.simps)

lemma safe_fails [simp]: "lease_safe (Raise e) sp P (\<lambda>_ _ _. True) s x"
  by (simp add: lease_safe.simps)

section \<open>What is always true of a handle and of a held lease\<close>

definition handle_ok :: "(nat \<Rightarrow> contender) \<Rightarrow> nat \<Rightarrow> LeaseHandle \<Rightarrow> lease_ghost \<Rightarrow> bool" where
  "handle_ok cs i h x \<longleftrightarrow>
     lh_key h = key_of cs i \<and> lh_holder h = pod_of cs i \<and> lh_ttl_seconds h * SECOND = ct_ttl (cs i)
     \<and> (\<exists>v. lg_writes x (lh_revision h) = Some (i, v))
     \<and> (\<forall>v. lh_in_flight_value h = Some v \<longrightarrow> made_by cs x i v)"

definition hold_ok :: "(nat \<Rightarrow> contender) \<Rightarrow> int \<Rightarrow> nat \<Rightarrow> HeldLease \<Rightarrow> lease_ghost \<Rightarrow> bool" where
  "hold_ok cs eps i hl x \<longleftrightarrow>
     handle_ok cs i (hl_handle hl) x \<and> hl_ttl hl = ct_ttl (cs i) \<and> \<not> hl_retake hl
     \<and> (held hl \<longrightarrow> lease_live cs eps x i (hl_expires_at hl))"

text \<open>While a renewal waits, the expiry timer or a release may end the hold.\<close>

definition disturbed :: "HeldLease \<Rightarrow> HeldLease \<Rightarrow> bool" where
  "disturbed hl hl' \<longleftrightarrow>
     hl_handle hl' = hl_handle hl \<and> hl_retake hl' = hl_retake hl \<and> hl_ttl hl' = hl_ttl hl
     \<and> hl_expires_at hl' = hl_expires_at hl \<and> (held hl' \<longrightarrow> held hl)"

definition acquiring_spec :: "(nat \<Rightarrow> contender) \<Rightarrow> int \<Rightarrow> nat \<Rightarrow> unit lease_spec" where
  "acquiring_spec cs eps i =
     \<lparr>sp_contenders = cs, sp_eps = eps, sp_self = i, sp_deletes = False,
      sp_disturb = (\<lambda>_ _. True), sp_inv = (\<lambda>_ _. True)\<rparr>"

definition holding_spec :: "(nat \<Rightarrow> contender) \<Rightarrow> int \<Rightarrow> nat \<Rightarrow> HeldLease lease_spec" where
  "holding_spec cs eps i =
     \<lparr>sp_contenders = cs, sp_eps = eps, sp_self = i, sp_deletes = False,
      sp_disturb = disturbed, sp_inv = hold_ok cs eps i\<rparr>"

definition releasing_spec :: "(nat \<Rightarrow> contender) \<Rightarrow> int \<Rightarrow> nat \<Rightarrow> HeldLease lease_spec" where
  "releasing_spec cs eps i =
     \<lparr>sp_contenders = cs, sp_eps = eps, sp_self = i, sp_deletes = True,
      sp_disturb = disturbed, sp_inv = (\<lambda>hl x. handle_ok cs i (hl_handle hl) x)\<rparr>"

lemma spec_fields [simp]:
  "sp_contenders (acquiring_spec cs eps i) = cs" "sp_contenders (holding_spec cs eps i) = cs"
  "sp_contenders (releasing_spec cs eps i) = cs"
  "sp_eps (acquiring_spec cs eps i) = eps" "sp_eps (holding_spec cs eps i) = eps" "sp_eps (releasing_spec cs eps i) = eps"
  "sp_self (acquiring_spec cs eps i) = i" "sp_self (holding_spec cs eps i) = i" "sp_self (releasing_spec cs eps i) = i"
  "\<not> sp_deletes (acquiring_spec cs eps i)" "\<not> sp_deletes (holding_spec cs eps i)" "sp_deletes (releasing_spec cs eps i)"
  "sp_inv (acquiring_spec cs eps i) = (\<lambda>_ _. True)" "sp_inv (holding_spec cs eps i) = hold_ok cs eps i"
  "sp_inv (releasing_spec cs eps i) = (\<lambda>hl x. handle_ok cs i (hl_handle hl) x)"
  by (simp_all add: acquiring_spec_def holding_spec_def releasing_spec_def)

lemma handle_ok_ext:
  assumes "lg_writes x \<subseteq>\<^sub>m lg_writes x'" "lg_reads x \<subseteq>\<^sub>m lg_reads x'" "handle_ok cs i h x"
  shows "handle_ok cs i h x'"
  using assms made_by_reads [OF assms(2)] by (auto simp: handle_ok_def map_le_def dom_def)

lemma disturbed_refl: "disturbed s s"
  by (simp add: disturbed_def)

lemma disturbed_trans: "disturbed s t \<Longrightarrow> disturbed t u \<Longrightarrow> disturbed s u"
  by (simp add: disturbed_def)

lemma specs_ok:
  assumes "contenders_ok cs eps"
  shows "spec_ok (acquiring_spec cs eps i)" "spec_ok (holding_spec cs eps i)" "spec_ok (releasing_spec cs eps i)"
proof -
  show "spec_ok (acquiring_spec cs eps i)" using assms by (simp add: spec_ok_def acquiring_spec_def)
  have "hold_ok cs eps i s' x'" if "disturbed s s'" "lease_rely cs eps i x x'" "hold_ok cs eps i s x" for s x s' x'
    using that handle_ok_ext [of x x' cs i] live_mono [OF that(2)]
    by (auto simp: hold_ok_def disturbed_def lease_rely_def)
  then show "spec_ok (holding_spec cs eps i)"
    using assms disturbed_refl disturbed_trans unfolding spec_ok_def lease_env_def holding_spec_def by simp blast
  have "handle_ok cs i (hl_handle s') x'"
    if "disturbed s s'" "lease_rely cs eps i x x'" "handle_ok cs i (hl_handle s) x" for s x s' x'
    using that handle_ok_ext [of x x' cs i] by (auto simp: disturbed_def lease_rely_def)
  moreover have "handle_ok cs i h x'" if "lease_ext x x'" "handle_ok cs i h x" for h x x'
    using that handle_ok_ext [of x x' cs i] by (auto simp: lease_ext_def)
  ultimately show "spec_ok (releasing_spec cs eps i)"
    using assms disturbed_refl disturbed_trans unfolding spec_ok_def lease_env_def releasing_spec_def by simp blast
qed

lemma own_entry_ttl: "n * SECOND = ct_ttl (sp_contenders sp (sp_self sp)) \<Longrightarrow> own_ttl sp (entry_ttl lease n)"
  by (simp add: own_ttl_def entry_ttl_def)

text \<open>A value made from a clock read expires a time to live after it, and later than every value made
  before.\<close>

lemma made_now:
  "made_by cs (stamped i x) i (encode_envelope (pod_of cs i) (lg_clock x + ct_skew (cs i) + ct_ttl (cs i)) a)"
  by (auto simp: made_by_def stamped_def)

lemma made_before:
  assumes "lease_inv cs x" "made_by cs x i v"
  shows "value_expires v \<le> lg_clock x + ct_skew (cs i) + ct_ttl (cs i)"
  using assms(2) lease_invD(2) [OF assms(1)] by (fastforce simp: made_by_def)

lemma may_update_own:
  "lg_writes x r = Some (i, v0) \<Longrightarrow> value_expires v0 \<le> value_expires v \<Longrightarrow> may_update cs x i v r"
  by (auto simp: may_update_def)

section \<open>Taking\<close>

abbreviation taken_ok :: "(nat \<Rightarrow> contender) \<Rightarrow> int \<Rightarrow> nat \<Rightarrow> LeaseHandle option \<Rightarrow> unit \<Rightarrow> lease_ghost \<Rightarrow> bool" where
  "taken_ok cs eps i res s x \<equiv>
     \<forall>h. res = Some h \<longrightarrow> handle_ok cs i h x \<and> lease_live cs eps x i (lh_date_expires h)"

lemma safe_taken:
  assumes "n * SECOND = ct_ttl (cs i)" "lg_writes x r = Some (i, v)" "lease_live cs eps x i e"
  shows "lease_safe (Return (Some (new_LeaseHandle (key_of cs i) (pod_of cs i) r n e))) (acquiring_spec cs eps i)
    (taken_ok cs eps i) Q s x"
  by (rule safe_Return [where K = "\<lambda>s x. lg_writes x r = Some (i, v) \<and> lease_live cs eps x i e"])
    (use assms in \<open>auto intro!: settled_rules simp: handle_ok_def new_LeaseHandle_def\<close>)

lemma safe_not_taken [simp]: "lease_safe (Return None) sp (taken_ok cs eps i) Q s x"
  by (simp add: safe_done)

lemma safe_reclaim:
  assumes cs: "contenders_ok cs eps" and n: "n * SECOND = ct_ttl (cs i)" "0 < n"
    and x: "now \<le> lg_clock x + ct_skew (cs i)" "made_by cs x i (encode_envelope (pod_of cs i) (now + n * SECOND) now)"
  shows "lease_safe (maybe_reclaim_stale (ct_lease (cs i)) (key_of cs i) n now (now + n * SECOND))
    (acquiring_spec cs eps i) (taken_ok cs eps i) (\<lambda>_ _ _. True) s x"
proof -
  let ?sp = "acquiring_spec cs eps i"
  let ?K = "\<lambda>s x. now \<le> lg_clock x + ct_skew (cs i) \<and> made_by cs x i (encode_envelope (pod_of cs i) (now + n * SECOND) now)"
  have K: "settled ?sp ?K" by (intro settled_rules) simp_all
  note ok = specs_ok(1) [OF cs]
  show ?thesis
    unfolding maybe_reclaim_stale_def
    apply (rule safe_GetEntry [where K = ?K, OF ok K])
    subgoal using x by simp
    subgoal by (simp add: answered_def)
    subgoal by (simp add: answered_def)
    subgoal premises p for v r l s x
    proof (cases v)
      case (EnvelopeValue e)
      show ?thesis
      proof (cases "env_date_expires e > now")
        case False
        have "may_update cs x i (encode_envelope (pod_of cs i) (now + n * SECOND) now) r"
          using p(2,3) False n(2) EnvelopeValue by (auto simp: may_update_def SECOND_def)
        then show ?thesis
          using False n p(2)
          by (auto simp: answered_def EnvelopeValue own_entry_ttl
              intro!: safe_Update [where K = ?K, OF ok K] safe_taken)
      qed (simp add: answered_def EnvelopeValue)
    qed (simp add: answered_def)
    done
qed

lemma safe_try_once:
  assumes cs: "contenders_ok cs eps" and n: "n * SECOND = ct_ttl (cs i)" "0 < n"
  shows "lease_safe (try_once (ct_lease (cs i)) (key_of cs i) n) (acquiring_spec cs eps i) (taken_ok cs eps i)
    (\<lambda>_ _ _. True) s x"
proof -
  let ?sp = "acquiring_spec cs eps i"
  note ok = specs_ok(1) [OF cs]
  show ?thesis
    unfolding try_once_def Let_def
    apply (rule safe_Now [where K = "\<lambda>_ _. True", OF ok])
    subgoal by (intro settled_rules)
    subgoal by simp
    subgoal premises p for s x
    proof -
      define now where "now = lg_clock x + ct_skew (cs i)"
      define y where "y = stamped i x"
      let ?K = "\<lambda>s x. now \<le> lg_clock x + ct_skew (cs i) \<and> made_by cs x i (encode_envelope (pod_of cs i) (now + n * SECOND) now)"
      have K: "settled ?sp ?K" by (intro settled_rules) simp_all
      have Ky: "?K s y"
        using made_now [of cs i x now] n by (simp add: now_def y_def stamped_def kv_advance_clock_def)
      have again: "lease_safe (Create (key_of cs i) (encode_envelope (pod_of cs i) (now + n * SECOND) now)
          (entry_ttl (ct_lease (cs i)) n) (answered (\<lambda>revision. case revision of
              Some r \<Rightarrow> Return (Some (new_LeaseHandle (key_of cs i) (pod_of cs i) r n (now + n * SECOND)))
            | None \<Rightarrow> maybe_reclaim_stale (ct_lease (cs i)) (key_of cs i) n now (now + n * SECOND))))
          ?sp (taken_ok cs eps i) (\<lambda>_ _ _. True) s x" if "?K s x" for s x
        by (rule safe_Create [where K = ?K, OF ok K])
          (use that n in \<open>auto simp: answered_def own_entry_ttl intro!: safe_taken safe_reclaim [OF cs n, unfolded n(1)]\<close>)
      show ?thesis
        unfolding now_def [symmetric] y_def [symmetric] spec_fields
        apply (rule safe_Create [where K = ?K, OF ok K Ky])
        subgoal by simp
        subgoal using n by (simp add: own_entry_ttl)
        subgoal using Ky by simp
        subgoal by (simp add: answered_def)
        subgoal premises q for s x
          apply (simp add: answered_def [of _ "Inr None"])
          apply (rule safe_GetEntry [where K = ?K, OF ok K q(2)])
          subgoal by (simp add: answered_def)
          subgoal using again by (simp add: answered_def [of _ "Inr None"])
          subgoal using safe_reclaim [OF cs n] by (simp add: answered_def)
          done
        subgoal using n by (simp add: answered_def safe_taken)
        done
    qed
    done
qed

lemma settled_handle [settled_rules]: "sp_contenders sp = cs \<Longrightarrow> settled sp (\<lambda>s x. handle_ok cs i h x)"
  by (auto simp: settled_def lease_env_def lease_rely_def intro: handle_ok_ext)

abbreviation acquired_ok :: "(nat \<Rightarrow> contender) \<Rightarrow> int \<Rightarrow> nat \<Rightarrow> LeaseHandle \<Rightarrow> unit \<Rightarrow> lease_ghost \<Rightarrow> bool" where
  "acquired_ok cs eps i h s x \<equiv> handle_ok cs i h x \<and> lease_live cs eps x i (lh_date_expires h)"

lemma settled_acquired: "settled (acquiring_spec cs eps i) (acquired_ok cs eps i h)"
  by (intro settled_rules) simp_all

lemma safe_acquire_loop:
  assumes cs: "contenders_ok cs eps" and n: "n * SECOND = ct_ttl (cs i)" "0 < n" and ginv: "lease_inv cs x"
  shows "lease_safe (acquire_loop m (ct_lease (cs i)) (key_of cs i) n w deadline) (acquiring_spec cs eps i)
    (acquired_ok cs eps i) (\<lambda>_ _ _. True) s x"
  using ginv
proof (induction m arbitrary: s x)
  case (Suc m)
  let ?sp = "acquiring_spec cs eps i"
  note ok = specs_ok(1) [OF cs]
  show ?case
    unfolding acquire_loop.simps
    apply (rule lease_safe_try_else [OF ok safe_try_once [OF cs n]])
    subgoal using Suc.prems by simp
    subgoal premises p for a s x
    proof (cases a)
      case (Some h)
      then show ?thesis using p(2) by (auto intro!: safe_Return [where K = "acquired_ok cs eps i h", OF settled_acquired])
    next
      case None
      show ?thesis
        unfolding None option.case
        apply (rule safe_Now [where K = "\<lambda>_ _. True", OF ok settled_const])
        using Suc.IH by (simp_all add: Let_def lease_safe.simps(4))
    qed
    subgoal by simp
    done
qed simp

lemma safe_lease_hold:
  assumes cs: "contenders_ok cs eps" and ginv: "lease_inv cs x"
  shows "lease_safe (lease_hold m (ct_lease (cs i)) (ct_key (cs i)) (ct_ttl (cs i)) renew w False max_hold)
    (acquiring_spec cs eps i) (\<lambda>hl s x. hold_ok cs eps i hl x) (\<lambda>_ _ _. True) s x"
proof (cases "hold_seconds (ct_ttl (cs i)) renew")
  case (Inr timing)
  then obtain n ren where timing: "hold_seconds (ct_ttl (cs i)) renew = Inr (n, ren)" by (cases timing) auto
  then have n: "n * SECOND = ct_ttl (cs i)" "0 < n"
    by (auto simp: hold_seconds_def SECOND_def split: if_splits)
  note ok = specs_ok(1) [OF cs]
  let ?sp = "acquiring_spec cs eps i"
  let ?K = "\<lambda>h s x. acquired_ok cs eps i h s x"
  have acquire: "lease_safe (lease_acquire m (ct_lease (cs i)) (ct_key (cs i)) n w) ?sp (acquired_ok cs eps i)
      (\<lambda>_ _ _. True) s x"
    unfolding lease_acquire_def
    by (rule safe_Now [where K = "\<lambda>_ _. True", OF ok settled_const])
      (use safe_acquire_loop [OF cs n] in simp_all)
  show ?thesis
  proof (cases "case max_hold of None \<Rightarrow> False | Some m \<Rightarrow> m < 0")
    case False
    show ?thesis
      unfolding lease_hold_def timing sum.case prod.case if_not_P [OF False] Let_def
      apply (rule lease_safe_try_else [OF ok acquire])
      subgoal using ginv by simp
      subgoal premises p for h s x
        apply (rule safe_Now [where K = "?K h", OF ok settled_acquired p(2)])
        subgoal premises q for s1 x1
          apply (rule safe_Now [where K = "\<lambda>s x. ?K h s x \<and> lg_clock x1 \<le> lg_clock x + 0", OF ok])
          subgoal by (intro settled_rules) simp_all
          subgoal using q(3) by (simp add: stamped_def kv_advance_clock_def)
          subgoal premises r for s2 x2
            apply (rule safe_Now [where K = "?K h", OF ok settled_acquired])
            subgoal using r(3) by simp
            subgoal premises t for s3 x3
              apply (rule safe_Return [where K = "?K h", OF settled_acquired t(3)])
              subgoal using r(2) n live_weaken by (auto simp: hold_ok_def new_HeldLease_def held_def)
              done
            done
          done
        done
      subgoal by simp
      done
  qed (simp add: lease_hold_def timing)
qed (simp add: lease_hold_def)

section \<open>Renewing\<close>

lemma settled_hold: "contenders_ok cs eps \<Longrightarrow> settled (holding_spec cs eps i) (hold_ok cs eps i)"
  by (intro settled_inv specs_ok) simp_all

lemmas held_update_simps = hold_ok_def handle_ok_def held_def

lemma safe_refresh_settle:
  assumes cs: "contenders_ok cs eps" and n: "n * SECOND = ct_ttl (cs i)"
    and x: "hold_ok cs eps i s x" "lg_writes x r = Some (i, v)" "lease_live cs eps x i e"
  shows "lease_safe (on_handle (refresh_settle n (Some r))) (holding_spec cs eps i)
    (\<lambda>_ s x. lease_live cs eps x i e) Q s x"
  unfolding refresh_settle_def option.case on_field.simps
  apply (rule safe_Modify [where K = "\<lambda>s x. hold_ok cs eps i s x \<and> lg_writes x r = Some (i, v) \<and> lease_live cs eps x i e"])
  subgoal by (intro settled_rules settled_hold cs) simp_all
  subgoal using x by simp
  subgoal premises p for s x
  proof -
    have "lease_safe (Return ()) (holding_spec cs eps i) (\<lambda>_ s x. lease_live cs eps x i e) Q t x" for t
      by (rule safe_Return [where K = "\<lambda>s x. lease_live cs eps x i e"]) (use p in \<open>auto intro!: settled_rules\<close>)
    then show ?thesis using p n by (auto simp: held_update_simps)
  qed
  done

lemma safe_refresh_settle_lost [simp]:
  "lease_safe (on_handle (refresh_settle n None)) sp P (\<lambda>_ _ _. True) s x"
  by (simp add: refresh_settle_def)

lemma safe_refresh_from_landed:
  assumes cs: "contenders_ok cs eps" and n: "n * SECOND = ct_ttl (cs i)"
    and x: "hold_ok cs eps i s x" "made_by cs x i payload" "made_by cs x i sent"
    and e: "value_expires sent \<le> value_expires payload" "e \<le> value_expires payload"
  shows "lease_safe (on_handle (refresh_from_landed (ct_lease (cs i)) n payload sent)) (holding_spec cs eps i)
    (\<lambda>_ s x. lease_live cs eps x i e) (\<lambda>_ _ _. True) s x"
proof -
  let ?sp = "holding_spec cs eps i"
  let ?K = "\<lambda>s x. hold_ok cs eps i s x \<and> made_by cs x i payload \<and> made_by cs x i sent"
  have K: "settled ?sp ?K" by (intro settled_rules settled_hold cs) simp_all
  note ok = specs_ok(2) [OF cs]
  show ?thesis
    unfolding refresh_from_landed_def on_field.simps
    apply (rule safe_Modify [where K = ?K, OF K])
    subgoal using x by simp
    subgoal premises p for s x
      apply (intro conjI)
      subgoal using p(2) by (simp add: held_update_simps)
      subgoal
        apply (rule safe_Ask [where K = ?K, OF K])
        subgoal using p(2) by (simp add: held_update_simps)
        subgoal premises q for s x
          apply (rule safe_GetEntry [where K = ?K, OF ok K q(2)])
          subgoal by (simp add: answered_def)
          subgoal by (simp add: answered_def)
          subgoal premises r for v rev l s' x
          proof (cases "v = sent")
            case True
            have key: "lh_key (hl_handle s) = key_of cs i" using q(2) by (simp add: held_update_simps)
            have "made_by cs x l sent" using lease_invD(4) [of cs x rev l v] r(1,3) True by simp
            then have l: "l = i" using made_by_unique [OF cs] r(2,4) key by fastforce
            let ?L = "\<lambda>s x. ?K s x \<and> lg_writes x rev = Some (i, sent)"
            have L: "settled ?sp ?L" by (intro settled_rules settled_hold cs) simp_all
            have up: "may_update cs x i payload rev" if "lg_writes x rev = Some (i, sent)" for x
              using may_update_own [OF that] e(1) .
            show ?thesis
              apply (simp add: answered_def True key)
              apply (rule safe_Modify [where K = ?L, OF L])
              subgoal using r(2,3) l True by simp
              subgoal premises t for s x
                apply (intro conjI)
                subgoal using t(2) by (auto simp: held_update_simps)
                subgoal
                  apply (rule safe_Update [where K = ?K, OF ok K])
                  subgoal using t(2) by (auto simp: held_update_simps)
                  subgoal by simp
                  subgoal using n by (simp add: own_entry_ttl)
                  subgoal using t(2) by simp
                  subgoal using t(2) up by simp
                  subgoal by (simp add: answered_def)
                  subgoal premises u for s x
                    apply (simp add: answered_def)
                    apply (rule safe_Modify [where K = ?K, OF K u(2)])
                    by (simp add: held_update_simps)
                  subgoal premises u for r s x
                    using u live_weaken [OF _ e(2)]
                    by (simp add: answered_def safe_refresh_settle [OF cs n])
                  done
                done
              done
          qed (simp add: answered_def)
          done
        done
      done
    done
qed

lemma safe_refresh_swap:
  assumes cs: "contenders_ok cs eps"
    and x: "hold_ok cs eps i s x" "\<And>sent. unanswered = Some sent \<Longrightarrow> made_by cs x i sent"
    and e: "e \<le> lg_clock x + (ct_skew (cs i) + ct_ttl (cs i))"
  shows "lease_safe (on_handle (refresh_swap (ct_lease (cs i)) None acquired unanswered)) (holding_spec cs eps i)
    (\<lambda>_ s x. lease_live cs eps x i e) (\<lambda>_ _ _. True) s x"
proof -
  let ?sp = "holding_spec cs eps i"
  let ?K = "\<lambda>s x. hold_ok cs eps i s x \<and> (\<forall>sent. unanswered = Some sent \<longrightarrow> made_by cs x i sent)
    \<and> e \<le> lg_clock x + (ct_skew (cs i) + ct_ttl (cs i))"
  have K: "settled ?sp ?K" by (intro settled_rules settled_hold cs) simp_all
  note ok = specs_ok(2) [OF cs]
  show ?thesis
    unfolding refresh_swap_def on_field.simps Let_def option.case
    apply (rule safe_Ask [where K = ?K, OF K])
    subgoal using x e by simp
    subgoal premises p for s0 x
      apply (rule safe_Now [where K = ?K, OF ok K p(2)])
      subgoal premises q for s x
      proof -
        let ?n = "lh_ttl_seconds (hl_handle s0)"
        have n: "?n * SECOND = ct_ttl (cs i)" "lh_holder (hl_handle s0) = pod_of cs i"
          using p(2) by (simp_all add: held_update_simps)
        define payload where "payload = encode_envelope (pod_of cs i) (lg_clock x + ct_skew (cs i) + ct_ttl (cs i)) acquired"
        have e': "value_expires payload = lg_clock x + ct_skew (cs i) + ct_ttl (cs i)" by (simp add: payload_def)
        define y where "y = stamped i x"
        let ?L = "\<lambda>s x. hold_ok cs eps i s x \<and> made_by cs x i payload
          \<and> (\<forall>sent. unanswered = Some sent \<longrightarrow> made_by cs x i sent)"
        let ?M = "\<lambda>rev s x. ?L s x \<and> may_update cs x i payload rev \<and> lh_revision (hl_handle s) = rev"
        have L: "settled ?sp ?L" by (intro settled_rules settled_hold cs) simp_all
        have rev: "settled ?sp (\<lambda>s x. lh_revision (hl_handle s) = rev)" for rev
          by (auto simp: settled_def lease_env_def holding_spec_def disturbed_def)
        have M: "settled ?sp (?M rev)" for rev by (intro settled_rules settled_hold rev cs) simp_all
        have y: "?L s y" using q(3) made_now [of cs i x acquired] by (simp add: y_def payload_def)
        have older: "value_expires v \<le> value_expires payload" if "made_by cs x i v" for v
          using made_before [OF _ that] q(1) e' by simp
        have sent: "value_expires v \<le> value_expires payload" if "unanswered = Some v" for v
          using q(2) that older by blast
        let ?r = "lh_revision (hl_handle s)"
        obtain v0 where v0: "lg_writes x ?r = Some (i, v0)" using q(2) by (auto simp: held_update_simps)
        then have "value_expires v0 \<le> value_expires payload" using older lease_invD(4) [of cs x ?r i v0] q(1) by simp
        then have "may_update cs y i payload ?r" using may_update_own [of y] v0 by (simp add: y_def stamped_def)
        then have My: "?M ?r s y" using y by simp
        have e: "e \<le> value_expires payload" using q(2) e' by simp
        have n': "encode_envelope (lh_holder (hl_handle s0)) (lg_clock x + ct_skew (cs i) + ?n * SECOND) acquired = payload"
          using n by (simp add: payload_def)
        show ?thesis
          unfolding spec_fields n' y_def [symmetric]
          apply (rule safe_Modify [where K = "?M ?r", OF M My])
          subgoal premises t for s x
            apply (intro conjI)
            subgoal using t(2) by (auto simp: held_update_simps)
            subgoal
              apply (rule safe_Ask [where K = "?M ?r", OF M])
              subgoal using t(2) by (auto simp: held_update_simps)
              subgoal premises u for s x
                apply (rule safe_Update [where K = ?L, OF ok L])
                subgoal using u(2) by simp
                subgoal using u(2) by (simp add: held_update_simps)
                subgoal using n by (simp add: own_entry_ttl)
                subgoal using u(2) by simp
                subgoal using u(2) by simp
                subgoal by (simp add: answered_def)
                subgoal premises w for s x
                proof (cases unanswered)
                  case (Some v)
                  then show ?thesis
                    using w(2) safe_refresh_from_landed [OF cs n(1) _ _ _ sent e] by (simp add: answered_def)
                next
                  case None
                  show ?thesis
                    apply (simp add: answered_def None)
                    apply (rule safe_Modify [where K = ?L, OF L w(2)])
                    by (simp add: held_update_simps)
                qed
                subgoal premises w for r s x
                  using w live_weaken [OF _ e] by (simp add: answered_def safe_refresh_settle [OF cs n(1)])
                done
              done
            done
          done
      qed
      done
    done
qed

lemma safe_refresh_handle:
  assumes cs: "contenders_ok cs eps" and x: "hold_ok cs eps i s x"
    and e: "e \<le> lg_clock x + (ct_skew (cs i) + ct_ttl (cs i))"
  shows "lease_safe (on_handle (refresh_handle (ct_lease (cs i)) None False)) (holding_spec cs eps i)
    (\<lambda>_ s x. lease_live cs eps x i e) (\<lambda>_ _ _. True) s x"
proof -
  let ?sp = "holding_spec cs eps i"
  let ?K = "\<lambda>s x. hold_ok cs eps i s x \<and> e \<le> lg_clock x + (ct_skew (cs i) + ct_ttl (cs i))"
  have K: "settled ?sp ?K" by (intro settled_rules settled_hold cs)
  note ok = specs_ok(2) [OF cs]
  show ?thesis
    unfolding refresh_handle_def on_field.simps
    apply (rule safe_Ask [where K = ?K, OF K])
    subgoal using x e by simp
    subgoal premises p for s0 x
      apply (rule safe_GetEntry [where K = ?K, OF ok K p(2)])
      subgoal by (simp add: answered_def)
      subgoal by (simp add: answered_def)
      subgoal premises q for v r l s x
      proof (cases "\<exists>env. v = EnvelopeValue env \<and> env_holder env = lh_holder (hl_handle s0)")
        case True
        then obtain env where env: "v = EnvelopeValue env" "env_holder env = lh_holder (hl_handle s0)" by blast
        have key: "key_of cs l = key_of cs i" using q(4) p(2) by (simp add: held_update_simps)
        let ?L = "\<lambda>s x. ?K s x \<and> lg_writes x r = Some (l, v)"
        have L: "settled ?sp ?L" by (intro settled_rules settled_hold cs)
        show ?thesis
          apply (simp add: answered_def env)
          apply (rule safe_Ask [where K = ?L, OF L])
          subgoal using q(2,3) by simp
          subgoal premises t for s x
          proof (cases "r \<noteq> lh_revision (hl_handle s) \<and> Some v = lh_in_flight_value (hl_handle s)")
            case True
            have "made_by cs x i v" using t(2) True by (auto simp: held_update_simps)
            moreover have "made_by cs x l v" using lease_invD(4) [of cs x r l v] t by simp
            ultimately have l: "l = i" using made_by_unique [OF cs] key by blast
            show ?thesis
              using True env
              apply (simp add: Let_def)
              apply (rule safe_Modify [where K = ?L, OF L t(2)])
              subgoal premises u for s x
                using u l
                by (intro conjI safe_refresh_swap [OF cs]) (auto simp: held_update_simps)
              done
          next
            case False
            have "lease_safe (on_handle (refresh_swap (ct_lease (cs i)) None (env_date_acquired env)
                (lh_in_flight_value (hl_handle s)))) ?sp (\<lambda>_ s x. lease_live cs eps x i e) (\<lambda>_ _ _. True) s x"
              using t(2) by (intro safe_refresh_swap [OF cs]) (auto simp: held_update_simps)
            with False env show ?thesis by (auto simp: Let_def)
          qed
          done
      qed (cases v; simp add: answered_def)
      done
    done
qed

lemma safe_renew_attempt:
  assumes cs: "contenders_ok cs eps" and x: "hold_ok cs eps i s x"
  shows "lease_safe (renew_attempt (ct_lease (cs i))) (holding_spec cs eps i) (\<lambda>_ _ _. True) (\<lambda>_ _ _. True) s x"
proof -
  let ?sp = "holding_spec cs eps i"
  note K = settled_hold [OF cs, of i] and ok = specs_ok(2) [OF cs, of i]
  show ?thesis
    unfolding renew_attempt_def
    apply (rule safe_Now [where K = "hold_ok cs eps i", OF ok K x])
    subgoal premises p for s x
      apply (rule safe_Ask [where K = "\<lambda>s y. hold_ok cs eps i s y
          \<and> lg_clock x + ct_skew (cs i) + ct_ttl (cs i) \<le> lg_clock y + (ct_skew (cs i) + ct_ttl (cs i))"])
      subgoal by (intro settled_rules K)
      subgoal using p(3) by (simp add: stamped_def kv_advance_clock_def)
      subgoal premises q for s y
      proof (cases "hl_expires_at s - (lg_clock x + ct_skew (cs i)) \<le> 0")
        case False
        have retake: "\<not> hl_retake s" using q(2) by (simp add: hold_ok_def)
        have renew: "lease_safe (renew_once (ct_lease (cs i)) False) ?sp
            (\<lambda>_ s y. lease_live cs eps y i (lg_clock x + ct_skew (cs i) + ct_ttl (cs i))) (\<lambda>_ _ _. True) s y"
          unfolding renew_once_def
          apply (rule lease_safe_try_else [OF ok safe_refresh_handle [OF cs,
                where e = "lg_clock x + ct_skew (cs i) + ct_ttl (cs i)"]])
          using q apply simp_all
          subgoal by (rule safe_Return) (auto intro!: settled_rules)
          subgoal for e by (cases e) simp_all
          done
        have "lease_safe (try_else (renew_once (ct_lease (cs i)) False)
            (\<lambda>e. case e of
                   LeaseLost reason \<Rightarrow>
                     Modify (mark_lost (case reason of Some r \<Rightarrow> r | None \<Rightarrow> TAKEN)) (Return False)
                 | _ \<Rightarrow> Return True)
            (\<lambda>_. Modify (\<lambda>hl. hl\<lparr>hl_expires_at := lg_clock x + ct_skew (cs i) + hl_ttl hl\<rparr>) (Return True)))
            ?sp (\<lambda>_ _ _. True) (\<lambda>_ _ _. True) s y"
          apply (rule lease_safe_try_else [OF ok lease_safe_inv [OF ok renew]])
          subgoal using q(2) by simp
          subgoal using q(1) by simp
          subgoal premises r for a s z
            apply (rule safe_Modify [where K = "\<lambda>s y. hold_ok cs eps i s y
                \<and> lease_live cs eps y i (lg_clock x + ct_skew (cs i) + ct_ttl (cs i))"])
            subgoal by (intro settled_rules K) simp_all
            subgoal using r(2) by simp
            subgoal by (auto simp: hold_ok_def held_def intro: safe_done)
            done
          subgoal premises r for e s z
          proof (cases e)
            case (LeaseLost reason)
            show ?thesis
              unfolding LeaseLost lease_error.case
              by (rule safe_Modify [where K = "hold_ok cs eps i", OF K])
                (use r(2) in \<open>auto simp: hold_ok_def mark_lost_def held_def intro: safe_done\<close>)
          qed (simp_all add: safe_done)
          done
        with False retake show ?thesis by simp
      qed (use q(2) in \<open>simp add: safe_done hold_ok_def\<close>)
      done
    done
qed

lemma safe_renew_pass:
  assumes cs: "contenders_ok cs eps" and x: "hold_ok cs eps i s x"
  shows "lease_safe (renew_pass (ct_lease (cs i))) (holding_spec cs eps i) (\<lambda>_ _ _. True) (\<lambda>_ _ _. True) s x"
proof -
  note K = settled_hold [OF cs, of i] and ok = specs_ok(2) [OF cs, of i]
  show ?thesis
    unfolding renew_pass_def
    apply (rule safe_Ask [where K = "hold_ok cs eps i", OF K x])
    subgoal premises p for s x
    proof (cases "hl_stop s \<or> hl_hold_deadline s = None")
      case False
      then obtain d where d: "hl_hold_deadline s = Some d" by auto
      have "lease_safe (Modify (mark_lost MAX_HOLD) (Return False)) (holding_spec cs eps i) (\<lambda>_ _ _. True)
          (\<lambda>_ _ _. True) s x" if "hold_ok cs eps i s x" for s x
        by (rule safe_Modify [where K = "hold_ok cs eps i", OF K])
          (use that in \<open>auto simp: hold_ok_def mark_lost_def held_def intro: safe_done\<close>)
      moreover have "lease_safe (Now (\<lambda>now. if d \<le> now then Modify (mark_lost MAX_HOLD) (Return False)
          else renew_attempt (ct_lease (cs i)))) (holding_spec cs eps i) (\<lambda>_ _ _. True) (\<lambda>_ _ _. True) s x"
        by (rule safe_Now [where K = "hold_ok cs eps i", OF ok K p(2)])
          (use calculation safe_renew_attempt [OF cs] in simp)
      ultimately show ?thesis using False d by simp
    qed (use p safe_renew_attempt [OF cs] in \<open>auto intro: safe_done\<close>)
    done
qed

section \<open>Letting go\<close>

lemma safe_delete_entry:
  assumes cs: "contenders_ok cs eps" and x: "handle_ok cs i (hl_handle s) x" "lease_inv cs x"
  shows "lease_safe (delete_entry (ct_lease (cs i))) (releasing_spec cs eps i) (\<lambda>_ _ _. True) (\<lambda>_ _ _. True) s x"
proof -
  let ?sp = "releasing_spec cs eps i"
  let ?K = "\<lambda>s x. handle_ok cs i (hl_handle s) x"
  note ok = specs_ok(3) [OF cs, of i]
  have K: "settled ?sp ?K" by (rule settled_inv [OF ok]) simp
  have let_go: "lease_safe (Modify (hl_handle_update (\<lambda>h. h\<lparr>lh_released := True\<rparr>)) (Return ())) ?sp
      (\<lambda>_ _ _. True) (\<lambda>_ _ _. True) s x" if "?K s x" for s x
    by (rule safe_Modify [where K = ?K, OF K that]) (auto simp: handle_ok_def intro: safe_done)
  have "lease_safe (on_handle (release_handle (ct_lease (cs i)))) ?sp (\<lambda>_ _ _. True) (\<lambda>_ _ _. True) s x"
    unfolding release_handle_def Let_def on_field.simps
    apply (rule safe_Ask [where K = ?K, OF K x(1)])
    subgoal premises p for s0 x
    proof (cases "lh_released (hl_handle s0)")
      case False
      have "lease_safe (on_handle (GetEntry (lh_key (hl_handle s0)) (answered (\<lambda>entry. case entry of
            None \<Rightarrow> Modify (\<lambda>h. h\<lparr>lh_released := True\<rparr>) (Return ())
          | Some (value, observed) \<Rightarrow> (case decoded_envelope value of
              None \<Rightarrow> Modify (\<lambda>h. h\<lparr>lh_released := True\<rparr>) (Return ())
            | Some envelope \<Rightarrow>
                if env_holder envelope \<noteq> lh_holder (hl_handle s0) then Modify (\<lambda>h. h\<lparr>lh_released := True\<rparr>) (Return ())
                else Ask (\<lambda>h. if (if observed \<noteq> lh_revision h \<and> Some value = lh_in_flight_value h then observed
                    else lh_revision h) \<le> 0 then Modify (\<lambda>h. h\<lparr>lh_released := True\<rparr>) (Return ())
                  else Delete (lh_key h) (Some (if observed \<noteq> lh_revision h \<and> Some value = lh_in_flight_value h
                      then observed else lh_revision h)) (Some (kl_released_marker_ttl (ct_lease (cs i))))
                    (answered (\<lambda>deleted. Modify (\<lambda>h. h\<lparr>lh_released := True\<rparr>) (Return ())))))))))
          ?sp (\<lambda>_ _ _. True) (\<lambda>_ _ _. True) s0 x"
        unfolding on_field.simps
        apply (rule safe_GetEntry [where K = ?K, OF ok K p(2)])
        subgoal by (simp add: answered_def)
        subgoal using let_go by (simp add: answered_def)
        subgoal premises q for v r l s x
        proof (cases "\<exists>env. v = EnvelopeValue env \<and> env_holder env = lh_holder (hl_handle s0)")
          case True
          then obtain env where env: "v = EnvelopeValue env" "env_holder env = lh_holder (hl_handle s0)" by blast
          have key: "key_of cs l = key_of cs i" using q(4) p(2) by (simp add: handle_ok_def)
          let ?L = "\<lambda>s x. ?K s x \<and> lg_writes x r = Some (l, v)"
          have L: "settled ?sp ?L" by (intro settled_conj K settled_writes)
          show ?thesis
            apply (simp add: answered_def [of _ "Inr (Some _)"] env)
            apply (rule safe_Ask [where K = ?L, OF L])
            subgoal using q(2,3) by simp
            subgoal premises t for s x
            proof -
              define n where "n = (if r \<noteq> lh_revision (hl_handle s) \<and> Some v = lh_in_flight_value (hl_handle s)
                then r else lh_revision (hl_handle s))"
              have "made_by cs x i v \<Longrightarrow> l = i"
                using made_by_unique [OF cs _ _ key [symmetric]] lease_invD(4) [of cs x r l v] t by fastforce
              then have "\<exists>u. lg_writes x n = Some (i, u)"
                using t(2) by (auto simp: n_def handle_ok_def)
              then obtain u where u: "lg_writes x n = Some (i, u)" by blast
              have "lease_safe (Delete (lh_key (hl_handle s)) (Some n) (Some (kl_released_marker_ttl (ct_lease (cs i))))
                  (\<lambda>y. on_handle (answered (\<lambda>deleted. Modify (\<lambda>h. h\<lparr>lh_released := True\<rparr>) (Return ())) y)))
                  ?sp (\<lambda>_ _ _. True) (\<lambda>_ _ _. True) s x"
                apply (rule safe_Delete [where K = ?K and v = u, OF ok K])
                subgoal using t(2) by simp
                subgoal using handle_ok_ext by (auto simp: lease_ext_def)
                subgoal by simp
                subgoal using t(2) by (simp add: handle_ok_def)
                subgoal using u by simp
                subgoal for res using let_go by (cases res) (simp_all add: answered_def)
                done
              then show ?thesis using let_go t(2) env unfolding n_def by (auto simp: if_distrib)
            qed
            done
        qed (use q(2) let_go in \<open>cases v; simp add: answered_def\<close>)
        done
      with False show ?thesis by simp
    qed (simp add: safe_done)
    done
  then show ?thesis
    unfolding delete_entry_def
    by (rule lease_safe_try_else [OF ok]) (use x in \<open>auto intro: safe_done\<close>)
qed

section \<open>Any number of contenders\<close>

fun thread_ok :: "(nat \<Rightarrow> contender) \<Rightarrow> int \<Rightarrow> lease_ghost \<Rightarrow> nat \<Rightarrow> lease_thread \<Rightarrow> bool" where
  "thread_ok cs eps x i Idle \<longleftrightarrow> True"
| "thread_ok cs eps x i (Acquiring p) \<longleftrightarrow>
     lease_safe p (acquiring_spec cs eps i) (\<lambda>hl s x. hold_ok cs eps i hl x) (\<lambda>_ _ _. True) () x"
| "thread_ok cs eps x i (Holding hl None) \<longleftrightarrow> hold_ok cs eps i hl x"
| "thread_ok cs eps x i (Holding hl (Some p)) \<longleftrightarrow>
     hold_ok cs eps i hl x
     \<and> lease_safe p (holding_spec cs eps i) (\<lambda>_ _ _. True) (\<lambda>_ _ _. True) hl x"
| "thread_ok cs eps x i (Releasing hl p) \<longleftrightarrow>
     handle_ok cs i (hl_handle hl) x
     \<and> lease_safe p (releasing_spec cs eps i) (\<lambda>_ _ _. True) (\<lambda>_ _ _. True) hl x"

definition world_at :: "(nat \<Rightarrow> contender) \<Rightarrow> int \<Rightarrow> lease_ghost \<Rightarrow> lease_world \<Rightarrow> bool" where
  "world_at cs eps x w \<longleftrightarrow>
     lg_bucket x = lw_bucket w \<and> lease_inv cs x
     \<and> (\<forall>(i, req) \<in> set (lw_unanswered w). request_ok cs x i req)
     \<and> (\<forall>i. thread_ok cs eps x i (lw_threads w i))"

lemma spec_disturb [simp]:
  "sp_disturb (acquiring_spec cs eps i) = (\<lambda>_ _. True)" "sp_disturb (holding_spec cs eps i) = disturbed"
  "sp_disturb (releasing_spec cs eps i) = disturbed"
  by (simp_all add: acquiring_spec_def holding_spec_def releasing_spec_def)

lemma thread_ok_rely:
  assumes cs: "contenders_ok cs eps" and rely: "lease_rely cs eps i x x'" "lease_inv cs x'"
    and t: "thread_ok cs eps x i t"
  shows "thread_ok cs eps x' i t"
proof -
  have env: "lease_env (acquiring_spec cs eps i) () x () x'" "lease_env (holding_spec cs eps i) hl x hl x'"
    "lease_env (releasing_spec cs eps i) hl x hl x'" for hl
    using rely by (simp_all add: lease_env_def disturbed_refl)
  have inv: "hold_ok cs eps i hl x \<Longrightarrow> hold_ok cs eps i hl x'"
    "handle_ok cs i (hl_handle hl) x \<Longrightarrow> handle_ok cs i (hl_handle hl) x'" for hl
    using env_inv [OF specs_ok(2) [OF cs] env(2)] env_inv [OF specs_ok(3) [OF cs] env(3)] by simp_all
  from t inv show ?thesis
    by (cases rule: thread_ok.cases [of "(cs, eps, x, i, t)"])
      (auto intro: lease_safe_env [OF specs_ok(1) [OF cs] env(1)] lease_safe_env [OF specs_ok(2) [OF cs] env(2)]
        lease_safe_env [OF specs_ok(3) [OF cs] env(3)])
qed

lemma world_rely:
  assumes cs: "contenders_ok cs eps" and w: "world_at cs eps x w"
    and x': "lease_inv cs x'" "\<And>j. lease_rely cs eps j x x'"
    and us: "set us \<subseteq> set (lw_unanswered w)"
  shows "world_at cs eps x' (w\<lparr>lw_bucket := lg_bucket x', lw_unanswered := us\<rparr>)"
  using w us thread_ok_rely [OF cs x'(2) x'(1)] request_ok_ext [OF rely_ext [OF x'(2)]] x'(1)
  unfolding world_at_def by (auto split: prod.splits)

lemma world_own_step:
  assumes cs: "contenders_ok cs eps" and w: "world_at cs eps x w"
    and x': "lease_inv cs x'" "lease_ext x x'" "\<And>j. j \<noteq> i \<Longrightarrow> lease_rely cs eps j x x'"
    and t: "thread_ok cs eps x' i t" and us: "\<forall>req \<in> set reqs. request_ok cs x' i req"
  shows "world_at cs eps x' (set_thread i t (w\<lparr>lw_bucket := lg_bucket x',
    lw_unanswered := map (Pair i) reqs @ lw_unanswered w\<rparr>))"
  using w t us thread_ok_rely [OF cs x'(3) x'(1)] request_ok_ext [OF x'(2)] x'(1)
  unfolding world_at_def by (auto simp: set_thread_def split: prod.splits)

lemma world_same:
  assumes cs: "contenders_ok cs eps" and w: "world_at cs eps x w" and t: "thread_ok cs eps x i t"
  shows "world_at cs eps x (set_thread i t w)"
  using w t by (auto simp: world_at_def set_thread_def)

lemma request_served_keeps:
  assumes cs: "contenders_ok cs eps" and inv: "lease_inv cs x" and req: "request_ok cs x i req"
  shows "\<exists>x'. lg_bucket x' = write_lands now req (lg_bucket x) \<and> lease_inv cs x' \<and> (\<forall>j. lease_rely cs eps j x x')"
proof (cases req)
  case (PendingCreate key v t)
  obtain res b where op: "kv_create now key v t (lg_bucket x) = (res, b)" by fastforce
  have "lease_inv cs (recorded i v res b x) \<and> (\<forall>j. lease_rely cs eps j x (recorded i v res b x))"
    using create_keeps [OF inv cs, of i v t now res b] req op by (auto simp: PendingCreate)
  then show ?thesis using op by (intro exI [of _ "recorded i v res b x"]) (simp add: PendingCreate)
next
  case (PendingUpdate key v r t)
  obtain res b where op: "kv_update now key v r t (lg_bucket x) = (res, b)" by fastforce
  have "lease_inv cs (recorded i v res b x) \<and> (\<forall>j. lease_rely cs eps j x (recorded i v res b x))"
    using update_keeps [OF inv cs, of i v t r now res b] req op by (auto simp: PendingUpdate)
  then show ?thesis using op by (intro exI [of _ "recorded i v res b x"]) (simp add: PendingUpdate)
next
  case (PendingDelete key r t)
  obtain n v where n: "r = Some n" "lg_writes x n = Some (i, v)" "n \<le> lg_freed x i"
    using req by (auto simp: PendingDelete)
  obtain res b where op: "kv_delete now key (Some n) t (lg_bucket x) = (res, b)" by fastforce
  note k = delete_keeps [OF inv n(2) op]
  show ?thesis
    using k(1,2) n op by (intro exI [of _ "freeing i n (x\<lparr>lg_bucket := b\<rparr>)"]) (simp add: PendingDelete freeing_def)
qed

text \<open>One step of one contender's coroutine.\<close>

lemma world_coroutine_step:
  assumes cs: "contenders_ok cs eps" and w: "world_at cs eps x w" and ok: "spec_ok sp"
    and sp: "sp_contenders sp = cs" "sp_eps sp = eps" "sp_self sp = i"
    and safe: "sp_inv sp s x" "lease_safe p sp P Q s x"
    and step: "prog_step (ct_skew (cs i)) p s (lw_bucket w) = Some (p', s', b')"
    and t: "\<And>x'. sp_inv sp s' x' \<Longrightarrow> lease_safe p' sp P Q s' x' \<Longrightarrow> thread_ok cs eps x' i t"
  shows "\<exists>x'. world_at cs eps x' (set_thread i t (w\<lparr>lw_bucket := b'\<rparr>))"
proof -
  have "sp_ginv sp x" "lg_bucket x = lw_bucket w" using w sp by (simp_all add: world_at_def)
  then obtain x' where x': "lg_bucket x' = b'" "own_step sp x x'" "sp_inv sp s' x'" "lease_safe p' sp P Q s' x'"
    using coroutine_step [OF ok _ safe] step sp by metis
  have "world_at cs eps x' (set_thread i t (w\<lparr>lw_bucket := lg_bucket x', lw_unanswered := map (Pair i) [] @ lw_unanswered w\<rparr>))"
    by (rule world_own_step [OF cs w]) (use x' sp t in \<open>auto simp: own_step_def\<close>)
  then show ?thesis using x'(1) by auto
qed

lemma world_unanswered:
  assumes cs: "contenders_ok cs eps" and w: "world_at cs eps x w" and ok: "spec_ok sp"
    and sp: "sp_contenders sp = cs" "sp_eps sp = eps" "sp_self sp = i"
    and safe: "sp_inv sp s x" "lease_safe p sp P Q s x"
    and t: "\<And>x'. lease_inv cs x' \<Longrightarrow> sp_inv sp s x' \<Longrightarrow> lease_safe (give_up_waiting p) sp P Q s x' \<Longrightarrow> thread_ok cs eps x' i t"
  shows "\<exists>x'. world_at cs eps x' (set_thread i t (w\<lparr>lw_unanswered := sent_by i p @ lw_unanswered w\<rparr>))"
proof -
  have ginv: "sp_ginv sp x" and b: "lg_bucket x = lw_bucket w" using w sp by (simp_all add: world_at_def)
  obtain x' where x': "lg_bucket x' = lg_bucket x" "own_step sp x x'" "sp_inv sp s x'"
      "lease_safe (give_up_waiting p) sp P Q s x'"
      "\<forall>req \<in> set (unanswered_write p). request_ok cs x' i req"
    using coroutine_unanswered [OF ok ginv safe] sp by metis
  have "world_at cs eps x' (set_thread i t (w\<lparr>lw_bucket := lg_bucket x',
      lw_unanswered := map (Pair i) (unanswered_write p) @ lw_unanswered w\<rparr>))"
    by (rule world_own_step [OF cs w]) (use x' sp t in \<open>auto simp: own_step_def\<close>)
  moreover have "w\<lparr>lw_bucket := lg_bucket x'\<rparr> = w" using x'(1) b by simp
  ultimately show ?thesis by (auto simp: sent_by_def)
qed

lemma connection_keeps:
  assumes "lease_inv cs x"
  shows "lease_inv cs (x\<lparr>lg_bucket := (lg_bucket x)\<lparr>kv_unreachable := u\<rparr>\<rparr>)"
    "lease_rely cs eps j x (x\<lparr>lg_bucket := (lg_bucket x)\<lparr>kv_unreachable := u\<rparr>\<rparr>)"
proof -
  let ?b = "(lg_bucket x)\<lparr>kv_unreachable := u\<rparr>"
  have lapsed: "kv_lapsed ?b = kv_lapsed (lg_bucket x)" by (simp add: kv_lapsed_def fun_eq_iff split: option.split)
  have view: "kv_view ?b = kv_view (lg_bucket x)" "kv_expires ?b = kv_expires (lg_bucket x)"
    unfolding kv_view_def [abs_def] kv_expires_def [abs_def] lapsed by simp_all
  have "kv_ok ?b" "kv_revision ?b = kv_revision (lg_bucket x)" "kv_elapsed ?b = lg_clock x"
    using lease_invD(1) [OF assms] by (simp_all add: kv_ok_def kv_wf_def)
  from unseen_keeps [OF assms this(1) view this(2,3)] show "lease_inv cs (x\<lparr>lg_bucket := ?b\<rparr>)"
    "lease_rely cs eps j x (x\<lparr>lg_bucket := ?b\<rparr>)" by simp_all
qed

lemma hold_ok_ended: "hold_ok cs eps i hl x \<Longrightarrow> hold_ok cs eps i (mark_lost r hl) x"
  "hold_ok cs eps i hl x \<Longrightarrow> hold_ok cs eps i (begin_release hl) x"
  by (auto simp: hold_ok_def mark_lost_def begin_release_def held_def)

lemma disturbed_ended: "disturbed hl (mark_lost r hl)" "disturbed hl (begin_release hl)"
  by (auto simp: disturbed_def mark_lost_def begin_release_def held_def)

lemma thread_ok_disturbed:
  assumes cs: "contenders_ok cs eps" and inv: "lease_inv cs x" and t: "thread_ok cs eps x i (Holding hl p)"
    and hl': "hl' = mark_lost r hl \<or> hl' = begin_release hl"
  shows "thread_ok cs eps x i (Holding hl' p)"
proof -
  have "lease_env (holding_spec cs eps i) hl x hl' x"
    using hl' inv by (auto simp: lease_env_def lease_rely_refl disturbed_ended)
  from lease_safe_env [OF specs_ok(2) [OF cs] this] t hl' hold_ok_ended show ?thesis
    by (cases p) auto
qed

lemma lease_step_keeps:
  assumes cs: "contenders_ok cs eps" and step: "lease_step cs w w'" and w: "world_at cs eps x w"
  shows "\<exists>x'. world_at cs eps x' w'"
proof -
  have inv: "lease_inv cs x" and b: "lg_bucket x = lw_bucket w" using w by (simp_all add: world_at_def)
  have eps: "0 \<le> eps" using cs unfolding contenders_ok_def by blast
  have thr: "thread_ok cs eps x i (lw_threads w i)" for i using w by (simp add: world_at_def)
  have env: "\<exists>x'. world_at cs eps x' (w\<lparr>lw_bucket := b'\<rparr>)"
    if "lg_bucket x' = b'" "lease_inv cs x'" "\<And>j. lease_rely cs eps j x x'" for x' b'
    using world_rely [OF cs w that(2,3) subset_refl] that(1) by auto
  have same: "\<exists>x'. world_at cs eps x' (set_thread i t w)" if "thread_ok cs eps x i t" for i t
    using world_same [OF cs w that] by blast
  from step show ?thesis
  proof cases
    case (time_passes d)
    show ?thesis unfolding time_passes(1)
      by (rule env [where x' = "x\<lparr>lg_bucket := kv_advance_clock d (lg_bucket x)\<rparr>"])
        (use advance_keeps [OF inv time_passes(2) eps] b in auto)
  next
    case connection_lost
    show ?thesis unfolding connection_lost
      by (rule env [where x' = "x\<lparr>lg_bucket := (lg_bucket x)\<lparr>kv_unreachable := True\<rparr>\<rparr>"])
        (use connection_keeps [OF inv] b in \<open>auto simp: kv_become_unreachable_def\<close>)
  next
    case connection_back
    show ?thesis unfolding connection_back
      by (rule env [where x' = "x\<lparr>lg_bucket := (lg_bucket x)\<lparr>kv_unreachable := False\<rparr>\<rparr>"])
        (use connection_keeps [OF inv] b in \<open>auto simp: kv_become_reachable_def\<close>)
  next
    case (request_served us i req vs)
    then have "request_ok cs x i req" using w by (auto simp: world_at_def)
    then obtain x' where x': "lg_bucket x' = write_lands (kv_elapsed (lw_bucket w)) req (lg_bucket x)"
        "lease_inv cs x'" "\<And>j. lease_rely cs eps j x x'"
      using request_served_keeps [OF cs inv] by blast
    have "set (us @ vs) \<subseteq> set (lw_unanswered w)" using request_served(2) by auto
    from world_rely [OF cs w x'(2,3) this] x'(1) b show ?thesis unfolding request_served(1) by auto
  next
    case (hold_called i n)
    show ?thesis unfolding hold_called(1)
      by (intro same) (simp add: safe_lease_hold [OF cs inv])
  next
    case (acquiring_step i p p' u b')
    have "thread_ok cs eps x i (Acquiring p)" using thr [of i] acquiring_step(2) by simp
    then show ?thesis unfolding acquiring_step(1)
      by (intro world_coroutine_step [OF cs w specs_ok(1) [OF cs, of i] _ _ _ _ _ acquiring_step(3)]) simp_all
  next
    case (acquiring_unanswered i p)
    have "thread_ok cs eps x i (Acquiring p)" using thr [of i] acquiring_unanswered(2) by simp
    then show ?thesis unfolding acquiring_unanswered(1)
      by (intro world_unanswered [OF cs w specs_ok(1) [OF cs, of i], where s = "()"]) simp_all
  next
    case (acquiring_cancelled i p)
    have "thread_ok cs eps x i (Acquiring p)" using thr [of i] acquiring_cancelled(2) by simp
    then show ?thesis unfolding acquiring_cancelled(1)
      by (intro world_unanswered [OF cs w specs_ok(1) [OF cs, of i], where s = "()"]) simp_all
  next
    case (acquired i hl)
    have "thread_ok cs eps x i (Acquiring (Return hl))" using thr [of i] acquired(2) by simp
    then have "hold_ok cs eps i hl x"
      using inv by (auto simp: lease_safe.simps lease_env_def lease_rely_refl)
    then show ?thesis unfolding acquired(1) by (intro same) simp
  next
    case (renewal_due i hl)
    have "thread_ok cs eps x i (Holding hl None)" using thr [of i] renewal_due(2) by simp
    then show ?thesis unfolding renewal_due(1)
      by (intro same) (simp add: safe_renew_pass [OF cs])
  next
    case (renewal_step i hl p p' hl' b')
    have "thread_ok cs eps x i (Holding hl (Some p))" using thr [of i] renewal_step(2) by simp
    then show ?thesis unfolding renewal_step(1)
      by (intro world_coroutine_step [OF cs w specs_ok(2) [OF cs, of i] _ _ _ _ _ renewal_step(3)]) simp_all
  next
    case (renewal_unanswered i hl p)
    have "thread_ok cs eps x i (Holding hl (Some p))" using thr [of i] renewal_unanswered(2) by simp
    then show ?thesis unfolding renewal_unanswered(1)
      by (intro world_unanswered [OF cs w specs_ok(2) [OF cs, of i], where s = hl]) simp_all
  next
    case (renewal_over i hl p)
    have "thread_ok cs eps x i (Holding hl (Some p))" using thr [of i] renewal_over(2) by simp
    then show ?thesis unfolding renewal_over(1) by (intro same) simp
  next
    case (timer_fires i hl p)
    have t: "thread_ok cs eps x i (Holding hl p)" using thr [of i] timer_fires(2) by simp
    have "thread_ok cs eps x i (Holding (on_expired hl) p)"
      using thread_ok_disturbed [OF cs inv t] t by (auto simp: on_expired_def)
    then show ?thesis unfolding timer_fires(1) by (intro same)
  next
    case (release_called i hl)
    have "hold_ok cs eps i hl x" using thr [of i] release_called(2) by simp
    then have "handle_ok cs i (hl_handle (begin_release hl)) x" by (simp add: hold_ok_def begin_release_def)
    then show ?thesis unfolding release_called(1)
      by (intro same) (simp add: safe_delete_entry [OF cs _ inv])
  next
    case (release_waits i hl p)
    have t: "thread_ok cs eps x i (Holding hl (Some p))" using thr [of i] release_waits(2) by simp
    show ?thesis unfolding release_waits(1)
      by (intro same, rule thread_ok_disturbed [OF cs inv t]) simp
  next
    case (release_cancels_renewal i hl p)
    have t: "thread_ok cs eps x i (Holding hl (Some p))" using thr [of i] release_cancels_renewal(2) by simp
    have "thread_ok cs eps y i (Releasing (begin_release hl) (delete_entry (ct_lease (cs i))))"
      if "lease_inv cs y" "hold_ok cs eps i hl y" for y
    proof -
      have "handle_ok cs i (hl_handle (begin_release hl)) y" using that(2) by (simp add: hold_ok_def begin_release_def)
      then show ?thesis using safe_delete_entry [OF cs _ that(1)] by simp
    qed
    with t show ?thesis unfolding release_cancels_renewal(1)
      by (intro world_unanswered [OF cs w specs_ok(2) [OF cs, of i], where s = hl and P = "\<lambda>_ _ _. True" and Q = "\<lambda>_ _ _. True"]) simp_all
  next
    case (releasing_step i hl p p' hl' b')
    have "thread_ok cs eps x i (Releasing hl p)" using thr [of i] releasing_step(2) by simp
    then show ?thesis unfolding releasing_step(1)
      by (intro world_coroutine_step [OF cs w specs_ok(3) [OF cs, of i] _ _ _ _ _ releasing_step(3)]) simp_all
  next
    case (releasing_unanswered i hl p)
    have "thread_ok cs eps x i (Releasing hl p)" using thr [of i] releasing_unanswered(2) by simp
    then show ?thesis unfolding releasing_unanswered(1)
      by (intro world_unanswered [OF cs w specs_ok(3) [OF cs, of i], where s = hl]) simp_all
  next
    case (released i hl p)
    show ?thesis unfolding released(1) by (intro same) simp
  qed
qed

lemma reachable_world:
  assumes cs: "contenders_ok cs eps" and "lease_reachable cs w"
  shows "\<exists>x. world_at cs eps x w"
  using assms(2)
proof induction
  case (start created may_create)
  let ?b = "new_kv_bucket created may_create"
  let ?x = "\<lparr>lg_bucket = ?b, lg_writes = Map.empty, lg_reads = Map.empty, lg_freed = (\<lambda>_. 0)\<rparr>"
  have "world_at cs eps ?x (start_world ?b)"
    by (simp add: world_at_def start_world_def lease_inv_def new_kv_bucket_ok)
  then show ?case ..
next
  case (step w w')
  then show ?case using lease_step_keeps [OF cs] by blast
qed

text \<open>C21: at most one contender may act as the holder of a lease's key at a time: with clocks at most
  eps apart, while one contender's lease says held and its expiry, less the margin, has not passed, no
  other contender for that key is in that position, through every interleaving of acquires, renewals,
  releases and expiry timers, every lost answer and every request served late.\<close>

theorem lease_mutual_exclusion:
  assumes "contenders_ok cs eps" and "lease_reachable cs w"
    and "key_of cs i = key_of cs j" and "i \<noteq> j" and "may_act cs eps w i"
  shows "\<not> may_act cs eps w j"
proof
  assume j: "may_act cs eps w j"
  obtain x where x: "world_at cs eps x w" using reachable_world [OF assms(1,2)] by blast
  have live: "\<exists>v r. kv_view (lg_bucket x) (key_of cs l) = Some (v, r) \<and> lg_writes x r = Some (l, v)"
    if act: "may_act cs eps w l" for l
  proof -
    obtain hl p where hl: "lw_threads w l = Holding hl p" "held hl"
        "contender_clock (cs l) w + eps < hl_expires_at hl"
      using act by (auto simp: may_act_def split: lease_thread.splits)
    have "thread_ok cs eps x l (Holding hl p)" using x hl(1) unfolding world_at_def by metis
    then have "lease_live cs eps x l (hl_expires_at hl)" using hl(2) by (cases p) (simp_all add: hold_ok_def)
    moreover have "lg_clock x + ct_skew (cs l) + eps < hl_expires_at hl"
      using hl(3) x by (simp add: contender_clock_def world_at_def)
    ultimately show ?thesis by (auto simp: lease_live_def)
  qed
  from live [OF assms(5)] live [OF j] assms(3,4) show False by auto
qed

definition two_pods :: "nat \<Rightarrow> contender" where
  "two_pods i =
     \<lparr>ct_lease = \<lparr>kl_pod_id = (if i = 0 then ''pod-a'' else ''pod-b''), kl_key_scope = Some ''owner'',
                  kl_expire_entries = False, kl_released_marker_ttl = 5 * SECOND\<rparr>,
      ct_key = ''writer'', ct_ttl = 30 * SECOND, ct_renew_every = 10 * SECOND, ct_max_wait_seconds = 0,
      ct_max_hold = None, ct_skew = 0\<rparr>"

text \<open>A coroutine may run to its end with nothing in between.\<close>

lemma acquiring_continues:
  assumes "lease_reachable cs w" "lw_threads w i = Acquiring p"
    and "prog_step (ct_skew (cs i)) p () (lw_bucket w) = Some (q, (), mid)"
    and "run_prog (ct_skew (cs i)) q () mid = (Inr hl, u, b)"
    and "\<And>w. lease_reachable cs w \<Longrightarrow> lw_threads w i = Acquiring q \<Longrightarrow>
      run_prog (ct_skew (cs i)) q () (lw_bucket w) = (Inr hl, u, b) \<Longrightarrow>
      lease_reachable cs (set_thread i (Acquiring (Return hl)) (w\<lparr>lw_bucket := b\<rparr>))"
  shows "lease_reachable cs (set_thread i (Acquiring (Return hl)) (w\<lparr>lw_bucket := b\<rparr>))"
proof -
  have "lease_reachable cs (set_thread i (Acquiring q) (w\<lparr>lw_bucket := mid\<rparr>))"
    using lease_reachable.step [OF assms(1)] acquiring_step [of w i p cs q "()" mid, OF assms(2,3)] by blast
  from assms(5) [OF this] assms(4) show ?thesis by (simp add: set_thread_def)
qed

lemma acquiring_runs:
  assumes "lease_reachable cs w" "lw_threads w i = Acquiring p"
    and "run_prog (ct_skew (cs i)) p () (lw_bucket w) = (Inr hl, u, b)"
  shows "lease_reachable cs (set_thread i (Acquiring (Return hl)) (w\<lparr>lw_bucket := b\<rparr>))"
  using assms
proof (induction p arbitrary: w)
  case (Return a)
  then have "set_thread i (Acquiring (Return hl)) (w\<lparr>lw_bucket := b\<rparr>) = w"
    by (auto simp: set_thread_def intro!: lease_world.equality)
  with Return show ?case by simp
next
  case (Sleep d p)
  let ?w = "w\<lparr>lw_bucket := kv_advance_clock (max 0 d) (lw_bucket w)\<rparr>"
  have "lease_reachable cs ?w" using Sleep.prems(1) time_passes [of "max 0 d" cs w] lease_reachable.step by simp
  then have "lease_reachable cs (set_thread i (Acquiring (Return hl)) (?w\<lparr>lw_bucket := b\<rparr>))"
    by (rule acquiring_continues [where p = "Sleep d p" and q = p and mid = "lw_bucket ?w", OF _ _ _ _ Sleep.IH])
      (use Sleep.prems in \<open>simp_all add: prog_step_def\<close>)
  then show ?case by simp
next
  case (Now c)
  show ?case
    by (rule acquiring_continues [OF Now.prems(1,2) _ _ Now.IH [OF rangeI [of c "kv_elapsed (lw_bucket w) + ct_skew (cs i)"]]])
      (use Now.prems(3) in \<open>simp_all add: prog_step_def\<close>)
next
  case (Ask c)
  show ?case
    by (rule acquiring_continues [OF Ask.prems(1,2) _ _ Ask.IH [OF rangeI [of c "()"]]])
      (use Ask.prems(3) in \<open>simp_all add: prog_step_def\<close>)
next
  case (Modify f p)
  show ?case
    by (rule acquiring_continues [OF Modify.prems(1,2) _ _ Modify.IH])
      (use Modify.prems(3) in \<open>simp_all add: prog_step_def\<close>)
next
  case (Create key v t c)
  obtain r b1 where "kv_create (kv_elapsed (lw_bucket w)) key v t (lw_bucket w) = (r, b1)" by fastforce
  then show ?case
    by (intro acquiring_continues [OF Create.prems(1,2) _ _ Create.IH [OF rangeI [of c r]]])
      (use Create.prems(3) in \<open>simp_all add: prog_step_def\<close>)
next
  case (GetEntry key c)
  obtain r b1 where "kv_get_entry (kv_elapsed (lw_bucket w)) key (lw_bucket w) = (r, b1)" by fastforce
  then show ?case
    by (intro acquiring_continues [OF GetEntry.prems(1,2) _ _ GetEntry.IH [OF rangeI [of c r]]])
      (use GetEntry.prems(3) in \<open>simp_all add: prog_step_def\<close>)
next
  case (GetValue key c)
  obtain r b1 where "kv_get (kv_elapsed (lw_bucket w)) key (lw_bucket w) = (r, b1)" by fastforce
  then show ?case
    by (intro acquiring_continues [OF GetValue.prems(1,2) _ _ GetValue.IH [OF rangeI [of c r]]])
      (use GetValue.prems(3) in \<open>simp_all add: prog_step_def\<close>)
next
  case (Update key v n t c)
  obtain r b1 where "kv_update (kv_elapsed (lw_bucket w)) key v n t (lw_bucket w) = (r, b1)" by fastforce
  then show ?case
    by (intro acquiring_continues [OF Update.prems(1,2) _ _ Update.IH [OF rangeI [of c r]]])
      (use Update.prems(3) in \<open>simp_all add: prog_step_def\<close>)
next
  case (Delete key n t c)
  obtain r b1 where "kv_delete (kv_elapsed (lw_bucket w)) key n t (lw_bucket w) = (r, b1)" by fastforce
  then show ?case
    by (intro acquiring_continues [OF Delete.prems(1,2) _ _ Delete.IH [OF rangeI [of c r]]])
      (use Delete.prems(3) in \<open>simp_all add: prog_step_def\<close>)
next
  case (DateCreated c)
  obtain r b1 where "kv_date_created (kv_elapsed (lw_bucket w)) (lw_bucket w) = (r, b1)" by fastforce
  then show ?case
    by (intro acquiring_continues [OF DateCreated.prems(1,2) _ _ DateCreated.IH [OF rangeI [of c r]]])
      (use DateCreated.prems(3) in \<open>simp_all add: prog_step_def\<close>)
qed simp

lemma two_pods_ok: "contenders_ok two_pods SECOND"
  by (auto simp: contenders_ok_def two_pods_def SECOND_def)

lemmas lease_run_simps = kv_create_def kv_run_def kv_arrive_def kv_live_def kv_write_def kv_expiry_def
  new_kv_bucket_def kv_advance_clock_def Let_def

lemma first_pod_acquires:
  "\<exists>hl b. run_prog 0 (lease_hold 1 (ct_lease (two_pods 0)) (ct_key (two_pods 0)) (ct_ttl (two_pods 0))
      (ct_renew_every (two_pods 0)) (ct_max_wait_seconds (two_pods 0)) False (ct_max_hold (two_pods 0))) ()
      (new_kv_bucket 0 False) = (Inr hl, (), b)
    \<and> held hl \<and> kv_elapsed b + SECOND < hl_expires_at hl"
  by (simp add: two_pods_def lease_hold_def hold_seconds_def SECOND_def lease_acquire_def try_once_def
      answered_def entry_ttl_def lease_run_simps new_HeldLease_def new_LeaseHandle_def held_def)

theorem lease_mutual_exclusion_witness:
  "\<exists>w. lease_reachable two_pods w \<and> may_act two_pods SECOND w 0 \<and> \<not> may_act two_pods SECOND w 1"
proof -
  let ?p = "lease_hold 1 (ct_lease (two_pods 0)) (ct_key (two_pods 0)) (ct_ttl (two_pods 0))
      (ct_renew_every (two_pods 0)) (ct_max_wait_seconds (two_pods 0)) False (ct_max_hold (two_pods 0))"
  obtain hl b where run: "run_prog 0 ?p () (new_kv_bucket 0 False) = (Inr hl, (), b)"
      "held hl" "kv_elapsed b + SECOND < hl_expires_at hl"
    using first_pod_acquires by blast
  let ?w0 = "start_world (new_kv_bucket 0 False)"
  let ?w1 = "set_thread 0 (Acquiring ?p) ?w0"
  have "lease_reachable two_pods ?w1"
    by (rule lease_reachable.step [OF start], rule hold_called) (simp add: start_world_def)
  then have "lease_reachable two_pods (set_thread 0 (Acquiring (Return hl)) (?w1\<lparr>lw_bucket := b\<rparr>))" (is "lease_reachable _ ?w2")
    by (rule acquiring_runs) (use run(1) in \<open>simp_all add: set_thread_def start_world_def two_pods_def\<close>)
  then have reach: "lease_reachable two_pods (set_thread 0 (Holding hl None) ?w2)" (is "lease_reachable _ ?w3")
    by (rule lease_reachable.step, intro acquired) (simp add: set_thread_def)
  have act: "may_act two_pods SECOND ?w3 0"
    using run(2,3) by (simp add: may_act_def set_thread_def contender_clock_def two_pods_def)
  have "\<not> may_act two_pods SECOND ?w3 1"
    by (rule lease_mutual_exclusion [OF two_pods_ok reach _ _ act]) (simp_all add: two_pods_def stored_key_def)
  with reach act show ?thesis by blast
qed

end
