(* ===== verification/KeyScope.thy ===== *)
theory KeyScope
  imports PyText
begin

text \<open>
  The two grammars of \<open>threetears.nats.subject_permissions\<close>: of a key scope, and of the suffix an agent
  declares a bucket under.  Both are \<open>re\<close> patterns anchored with \<open>$\<close>, which also matches before a
  trailing newline, so both accept one.
\<close>

definition key_scope_char :: "char \<Rightarrow> bool" where
  "key_scope_char c = (c \<in> set (''-_=0123456789'' @ ''abcdefghijklmnopqrstuvwxyz'' @ ''ABCDEFGHIJKLMNOPQRSTUVWXYZ''))"

definition without_final_newline :: "string \<Rightarrow> string" where
  "without_final_newline s = (if s \<noteq> [] \<and> last s = CHR 0x0A then butlast s else s)"

definition KV_KEY_SCOPE_GRAMMAR :: "string \<Rightarrow> bool" where
  "KV_KEY_SCOPE_GRAMMAR s \<longleftrightarrow>
     (let body = without_final_newline s in body \<noteq> [] \<and> list_all key_scope_char body)"

definition COORDINATION_BUCKET_SUFFIX_GRAMMAR :: "string \<Rightarrow> bool" where
  "COORDINATION_BUCKET_SUFFIX_GRAMMAR s \<longleftrightarrow>
     (let body = without_final_newline s
      in body \<noteq> [] \<and> list_all (\<lambda>c. key_scope_char c \<and> c \<noteq> CHR ''='') body)"

lemma without_final_newline_chars: "set s \<subseteq> insert (CHR 0x0A) (set (without_final_newline s))"
proof (cases "s \<noteq> [] \<and> last s = CHR 0x0A")
  case True
  then have "s = butlast s @ [CHR 0x0A]" by (metis append_butlast_last_id)
  then have "set s = insert (CHR 0x0A) (set (butlast s))" by (metis list.simps(15) rotate1.simps(2) set_rotate1)
  with True show ?thesis by (simp add: without_final_newline_def)
qed (auto simp: without_final_newline_def)

text \<open>A scope is one literal token: it holds no separator, and it is neither wildcard.\<close>

lemma key_scope_chars:
  assumes "KV_KEY_SCOPE_GRAMMAR s" and "c \<in> set s"
  shows "key_scope_char c \<or> c = CHR 0x0A"
  using assms without_final_newline_chars [of s] by (auto simp: KV_KEY_SCOPE_GRAMMAR_def Let_def list_all_iff)

lemma coordination_suffix_scope: "COORDINATION_BUCKET_SUFFIX_GRAMMAR s \<Longrightarrow> KV_KEY_SCOPE_GRAMMAR s"
  by (simp add: COORDINATION_BUCKET_SUFFIX_GRAMMAR_def KV_KEY_SCOPE_GRAMMAR_def Let_def list_all_iff)

lemma key_scope_no_dot: "KV_KEY_SCOPE_GRAMMAR s \<Longrightarrow> CHR ''.'' \<notin> set s"
  using key_scope_chars [of s "CHR ''.''"] by (auto simp: key_scope_char_def)

lemma key_scope_no_wildcard: "KV_KEY_SCOPE_GRAMMAR s \<Longrightarrow> CHR ''*'' \<notin> set s \<and> CHR ''>'' \<notin> set s"
  using key_scope_chars [of s "CHR ''*''"] key_scope_chars [of s "CHR ''>''"] by (auto simp: key_scope_char_def)

end
