(* ===== verification/ReplayGuard.thy ===== *)
theory ReplayGuard
  imports KvLease KeyScope
begin

text \<open>
  The single-use nonce guard of \<open>threetears.core.coordination.replay_guard\<close> with its durable anchor
  (\<open>replay_anchor\<close>), and the steps in which the replicas of a service present artifacts to it while
  the broker loses and recreates the bucket.  The bucket's own time to live is an expiry on each entry.
  The digest that keys a nonce is a parameter, and nothing is assumed of it.  Opening the bucket is an
  operation that arrives, which is what recreates a lost one.
\<close>

section \<open>The guard\<close>

definition CLOCK_DRIFT_ALLOWANCE :: int where
  "CLOCK_DRIFT_ALLOWANCE = 5 * SECOND"

datatype replay_error = ReplayValueError | ReplayTypeError | ReplayBucketError kv_error

record ReplayGuard =
  rg_key_scope :: "string option"
  rg_ttl :: int
  rg_verifier_future_tolerance :: int
  rg_has_anchor :: bool
  rg_create_if_missing :: bool

datatype py_datetime = Naive int | Aware int

definition validated_key_scope :: "string option \<Rightarrow> replay_error + string option" where
  "validated_key_scope key_scope =
     (case key_scope of
        None \<Rightarrow> Inr None
      | Some scope \<Rightarrow> if \<not> KV_KEY_SCOPE_GRAMMAR scope then Inl ReplayValueError else Inr (Some scope))"

definition new_ReplayGuard ::
  "bool \<Rightarrow> int \<Rightarrow> int \<Rightarrow> bool \<Rightarrow> bool \<Rightarrow> string option \<Rightarrow> replay_error + ReplayGuard" where
  "new_ReplayGuard client_declares ttl_seconds verifier_future_tolerance has_anchor create_if_missing key_scope =
     (if ttl_seconds \<le> 0 then Inl ReplayValueError
      else if verifier_future_tolerance < 0 then Inl ReplayValueError
      else if create_if_missing \<and> \<not> client_declares then Inl ReplayTypeError
      else case validated_key_scope key_scope of
             Inl e \<Rightarrow> Inl e
           | Inr scope \<Rightarrow>
               Inr \<lparr>rg_key_scope = scope, rg_ttl = ttl_seconds * SECOND,
                    rg_verifier_future_tolerance = verifier_future_tolerance, rg_has_anchor = has_anchor,
                    rg_create_if_missing = create_if_missing\<rparr>)"

definition require_covers :: "ReplayGuard \<Rightarrow> int \<Rightarrow> replay_error + unit" where
  "require_covers guard future_tolerance =
     (if future_tolerance > rg_verifier_future_tolerance guard then Inl ReplayValueError else Inr ())"

text \<open>What one replica's guard keeps, beside the anchor all of them share.\<close>

record ReplayState =
  rs_bound :: bool
  rs_ledger_first_existed :: "int option"
  rs_anchor :: "int option"

type_synonym 'a replay_prog = "(unit, replay_error, ReplayState, 'a) prog"

definition replay_answered :: "('r \<Rightarrow> 'a replay_prog) \<Rightarrow> kv_error + 'r \<Rightarrow> 'a replay_prog" where
  "replay_answered k reply = (case reply of Inl e \<Rightarrow> Raise (ReplayBucketError e) | Inr r \<Rightarrow> k r)"

text \<open>The anchor's claim-or-read: the first caller's moment is recorded, and everybody reads it.\<close>

definition first_existed :: "int \<Rightarrow> ReplayState \<Rightarrow> ReplayState" where
  "first_existed now s =
     (let anchor = (case rs_anchor s of None \<Rightarrow> now | Some a \<Rightarrow> a)
      in s\<lparr>rs_anchor := Some anchor, rs_ledger_first_existed := Some anchor\<rparr>)"

definition read_anchor :: "ReplayGuard \<Rightarrow> bool \<Rightarrow> unit replay_prog" where
  "read_anchor guard answers =
     Ask (\<lambda>s.
       if rg_has_anchor guard \<and> rs_ledger_first_existed s = None
       then Now (\<lambda>now. if answers then Modify (first_existed now) (Return ()) else Return ())
       else Return ())"

definition bound_bucket :: "ReplayGuard \<Rightarrow> bool \<Rightarrow> unit replay_prog" where
  "bound_bucket guard answers =
     Ask (\<lambda>s.
       if rs_bound s then Return ()
       else DateCreated (replay_answered (\<lambda>_.
              then_do (read_anchor guard answers) (\<lambda>_.
                Modify (\<lambda>s. s\<lparr>rs_bound := True\<rparr>) (Return ())))))"

definition bucket_replaced_a_lost_one :: "ReplayGuard \<Rightarrow> ReplayState \<Rightarrow> int \<Rightarrow> bool" where
  "bucket_replaced_a_lost_one guard s date_created =
     (if rg_has_anchor guard
      then (case rs_ledger_first_existed s of
              None \<Rightarrow> True
            | Some first \<Rightarrow> first < date_created - CLOCK_DRIFT_ALLOWANCE)
      else True)"

definition refuses_artifacts_issued_before :: "ReplayGuard \<Rightarrow> ReplayState \<Rightarrow> int \<Rightarrow> int option" where
  "refuses_artifacts_issued_before guard s date_created =
     (if bucket_replaced_a_lost_one guard s date_created
      then Some (date_created + rg_verifier_future_tolerance guard + CLOCK_DRIFT_ALLOWANCE)
      else None)"

definition replay_key :: "ReplayGuard \<Rightarrow> (string \<Rightarrow> string) \<Rightarrow> string \<Rightarrow> string" where
  "replay_key guard digest nonce = owner_scoped_key (rg_key_scope guard) (digest nonce)"

definition judge_fresh :: "ReplayGuard \<Rightarrow> int \<Rightarrow> bool replay_prog" where
  "judge_fresh guard issued_at =
     DateCreated (replay_answered (\<lambda>date_created. Ask (\<lambda>s.
       Return (case refuses_artifacts_issued_before guard s date_created of
                 None \<Rightarrow> True
               | Some refuses_before \<Rightarrow> \<not> issued_at < refuses_before))))"

text \<open>\<open>at_bind\<close> and \<open>at_record\<close>: whether the anchor's storage answers when it is read then.\<close>

definition record_unique ::
  "ReplayGuard \<Rightarrow> (string \<Rightarrow> string) \<Rightarrow> bool \<Rightarrow> bool \<Rightarrow> string \<Rightarrow> py_datetime \<Rightarrow> bool replay_prog" where
  "record_unique guard digest at_bind at_record nonce issued =
     (case issued of
        Naive _ \<Rightarrow> Raise ReplayValueError
      | Aware issued_at \<Rightarrow>
          then_do (bound_bucket guard at_bind) (\<lambda>_.
          then_do (read_anchor guard at_record) (\<lambda>_.
            Create (replay_key guard digest nonce) () (Some (rg_ttl guard)) (replay_answered (\<lambda>revision.
              if revision = None then Return False else judge_fresh guard issued_at)))))"

definition refusing_until :: "ReplayGuard \<Rightarrow> bool \<Rightarrow> bool \<Rightarrow> int option replay_prog" where
  "refusing_until guard at_bind at_record =
     then_do (bound_bucket guard at_bind) (\<lambda>_.
     then_do (read_anchor guard at_record) (\<lambda>_.
       DateCreated (replay_answered (\<lambda>date_created. Ask (\<lambda>s.
         case refuses_artifacts_issued_before guard s date_created of
           None \<Rightarrow> Return None
         | Some refuses_before \<Rightarrow>
             Now (\<lambda>now. Return (if now < refuses_before then Some refuses_before else None)))))))"

text \<open>The reconnect hook of a guard that declares its bucket, registered once it has bound it: it touches
  the bucket, which recreates a lost one, and contains every failure.\<close>

definition rebind_after_reconnect :: "ReplayGuard \<Rightarrow> unit replay_prog" where
  "rebind_after_reconnect guard =
     Ask (\<lambda>s. if rg_create_if_missing guard \<and> rs_bound s then DateCreated (\<lambda>_. Return ()) else Return ())"

section \<open>A fleet\<close>

text \<open>The replicas of one service: their clocks, the artifacts presented to them (a signed nonce has one
  issue time), the verifier's window, the time a presentation has from its freshness check to its last
  operation, and which faults happen.\<close>

record replay_fleet =
  rf_guard :: ReplayGuard
  rf_digest :: "string \<Rightarrow> string"
  rf_issued_at :: "string \<Rightarrow> int"
  rf_skew :: "nat \<Rightarrow> int"
  rf_future_tolerance :: int
  rf_max_age :: int
  rf_deadline :: int
  rf_anchor_fails :: bool
  rf_early_loss :: bool

record presentation =
  pr_replica :: nat
  pr_nonce :: string
  pr_checked_at :: int
  pr_prog :: "bool replay_prog"

record replay_world =
  rw_bucket :: "unit kv_bucket"
  rw_guards :: "nat \<Rightarrow> ReplayState"
  rw_anchor :: "int option"
  rw_calls :: "nat \<rightharpoonup> presentation"

definition fresh_guard :: ReplayState where
  "fresh_guard = \<lparr>rs_bound = False, rs_ledger_first_existed = None, rs_anchor = None\<rparr>"

fun finished :: "bool replay_prog \<Rightarrow> bool" where
  "finished (Return r) = True"
| "finished (Raise e) = True"
| "finished p = False"

definition replay_start :: "int \<Rightarrow> bool \<Rightarrow> replay_world" where
  "replay_start created may_create =
     \<lparr>rw_bucket = new_kv_bucket created may_create,
      rw_guards = (\<lambda>_. fresh_guard),
      rw_anchor = None, rw_calls = Map.empty\<rparr>"

definition guard_state :: "replay_world \<Rightarrow> nat \<Rightarrow> ReplayState" where
  "guard_state w g = (rw_guards w g)\<lparr>rs_anchor := rw_anchor w\<rparr>"

text \<open>The verifier's own check of the signed issue time, on its replica's clock.\<close>

definition verifier_accepts :: "replay_fleet \<Rightarrow> int \<Rightarrow> string \<Rightarrow> bool" where
  "verifier_accepts fl now nonce \<longleftrightarrow>
     rf_issued_at fl nonce \<le> now + rf_future_tolerance fl \<and> now \<le> rf_issued_at fl nonce + rf_max_age fl"

text \<open>A loss of the bucket within the drift allowance of the anchor's moment cannot be told from a first
  run; \<open>rf_early_loss\<close> says whether it happens.\<close>

definition may_lose :: "replay_fleet \<Rightarrow> replay_world \<Rightarrow> bool" where
  "may_lose fl w \<longleftrightarrow>
     rf_early_loss fl
     \<or> (case rw_anchor w of
          None \<Rightarrow> True
        | Some first \<Rightarrow> first + CLOCK_DRIFT_ALLOWANCE < kv_elapsed (rw_bucket w))"

inductive replay_step :: "replay_fleet \<Rightarrow> replay_world \<Rightarrow> replay_world \<Rightarrow> bool" for fl where
  time_passes: "0 \<le> d \<Longrightarrow>
    replay_step fl w (w\<lparr>rw_bucket := kv_advance_clock d (rw_bucket w)\<rparr>)"
| connection: "b = kv_become_unreachable (rw_bucket w) \<or> b = kv_become_reachable (rw_bucket w) \<Longrightarrow>
    replay_step fl w (w\<lparr>rw_bucket := b\<rparr>)"
| bucket_wiped: "may_lose fl w \<Longrightarrow>
    replay_step fl w (w\<lparr>rw_bucket := kv_wipe (kv_elapsed (rw_bucket w)) (rw_bucket w)\<rparr>)"
| bucket_vanished: "may_lose fl w \<Longrightarrow> replay_step fl w (w\<lparr>rw_bucket := kv_vanish (rw_bucket w)\<rparr>)"
| guard_restarts: "replay_step fl w (w\<lparr>rw_guards := (rw_guards w)(g := fresh_guard),
      rw_calls := (\<lambda>c. case rw_calls w c of
                          None \<Rightarrow> None
                        | Some p \<Rightarrow> if pr_replica p = g \<and> \<not> finished (pr_prog p) then None else Some p)\<rparr>)"
| other_record: "replay_step fl w (w\<lparr>rw_bucket :=
      snd (kv_create (kv_elapsed (rw_bucket w)) key () (Some (rg_ttl (rf_guard fl))) (rw_bucket w))\<rparr>)"
| reconnected: "run_prog (rf_skew fl g) (rebind_after_reconnect (rf_guard fl)) (guard_state w g) (rw_bucket w) = (r, s, b) \<Longrightarrow>
    replay_step fl w (w\<lparr>rw_bucket := b\<rparr>)"
| presented: "rw_calls w c = None \<Longrightarrow>
    verifier_accepts fl (kv_elapsed (rw_bucket w) + rf_skew fl g) nonce \<Longrightarrow>
    at_bind \<or> rf_anchor_fails fl \<Longrightarrow> at_record \<or> rf_anchor_fails fl \<Longrightarrow>
    replay_step fl w (w\<lparr>rw_calls := (rw_calls w)(c \<mapsto>
      \<lparr>pr_replica = g, pr_nonce = nonce, pr_checked_at = kv_elapsed (rw_bucket w),
       pr_prog = record_unique (rf_guard fl) (rf_digest fl) at_bind at_record nonce (Aware (rf_issued_at fl nonce))\<rparr>)\<rparr>)"
| call_step: "rw_calls w c = Some p \<Longrightarrow>
    kv_elapsed (rw_bucket w) \<le> pr_checked_at p + rf_deadline fl \<Longrightarrow>
    prog_step (rf_skew fl (pr_replica p)) (pr_prog p) (guard_state w (pr_replica p)) (rw_bucket w)
      = Some (q, s, b) \<Longrightarrow>
    replay_step fl w (w\<lparr>rw_bucket := b, rw_guards := (rw_guards w)(pr_replica p := s), rw_anchor := rs_anchor s,
      rw_calls := (rw_calls w)(c \<mapsto> p\<lparr>pr_prog := q\<rparr>)\<rparr>)"
| call_unanswered: "rw_calls w c = Some p \<Longrightarrow>
    replay_step fl w (w\<lparr>rw_calls := (rw_calls w)(c \<mapsto> p\<lparr>pr_prog := give_up_waiting (pr_prog p)\<rparr>)\<rparr>)"

inductive replay_reachable :: "replay_fleet \<Rightarrow> replay_world \<Rightarrow> bool" for fl where
  start: "replay_reachable fl (replay_start created may_create)"
| step: "replay_reachable fl w \<Longrightarrow> replay_step fl w w' \<Longrightarrow> replay_reachable fl w'"

fun accepts :: "bool replay_prog \<Rightarrow> bool" where
  "accepts (Return r) = r"
| "accepts p = False"

definition call_accepted :: "replay_world \<Rightarrow> nat \<Rightarrow> string \<Rightarrow> bool" where
  "call_accepted w c nonce \<longleftrightarrow>
     (case rw_calls w c of None \<Rightarrow> False | Some p \<Rightarrow> pr_nonce p = nonce \<and> accepts (pr_prog p))"

end
