(* ===== verification/ReplayOnce.thy ===== *)
theory ReplayOnce
  imports ReplayGuard
begin

text \<open>
  A nonce is accepted at most once, across replicas, expiries and losses of the bucket.  The argument
  numbers the bucket's incarnations: two presentations that recorded one nonce did so in different
  incarnations or a time to live apart, and a presentation judged in a later incarnation is refused.
\<close>

section \<open>Presentations\<close>

datatype stage = Before bool | Landed | Dated int | Judged int "int option"

definition refused :: "ReplayGuard \<Rightarrow> int option \<Rightarrow> int \<Rightarrow> int \<Rightarrow> bool" where
  "refused guard first date_created issued_at \<longleftrightarrow>
     (rg_has_anchor guard \<longrightarrow> (case first of None \<Rightarrow> True | Some f \<Rightarrow> f < date_created - CLOCK_DRIFT_ALLOWANCE))
     \<and> issued_at < date_created + rg_verifier_future_tolerance guard + CLOCK_DRIFT_ALLOWANCE"

definition anchor_update :: "(ReplayState \<Rightarrow> ReplayState) \<Rightarrow> bool" where
  "anchor_update f \<longleftrightarrow>
     (\<forall>s. (rs_anchor s = None \<or> rs_anchor (f s) = rs_anchor s)
        \<and> (rs_ledger_first_existed (f s) = rs_ledger_first_existed s \<and> rs_anchor (f s) = rs_anchor s
           \<or> rs_ledger_first_existed (f s) = rs_anchor (f s) \<and> rs_anchor (f s) \<noteq> None))"

definition raises :: "'a replay_prog \<Rightarrow> bool" where
  "raises p \<longleftrightarrow> (\<exists>e. p = Raise e)"

text \<open>What a presentation may still do: record its key once, read the creation time after that, and accept
  only what the wipe rule does not refuse.  \<open>Before b\<close>: \<open>b\<close> says its guard has read the anchor.\<close>

primrec call_safe :: "bool replay_prog \<Rightarrow> ReplayGuard \<Rightarrow> string \<Rightarrow> int \<Rightarrow> stage \<Rightarrow> bool" where
  "call_safe (Return a) guard key issued_at st \<longleftrightarrow>
     (a \<longrightarrow> (\<exists>d first. st = Judged d first \<and> \<not> refused guard first d issued_at))"
| "call_safe (Raise e) guard key issued_at st \<longleftrightarrow> True"
| "call_safe (Now c) guard key issued_at st \<longleftrightarrow>
     (\<exists>b. st = Before b) \<and> (\<forall>t. call_safe (c t) guard key issued_at st)"
| "call_safe (Sleep d p) guard key issued_at st \<longleftrightarrow> False"
| "call_safe (Ask c) guard key issued_at st \<longleftrightarrow>
     (case st of
        Before b \<Rightarrow> \<forall>s. call_safe (c s) guard key issued_at (Before (b \<or> rs_ledger_first_existed s \<noteq> None))
      | Dated d \<Rightarrow> \<forall>s. call_safe (c s) guard key issued_at (Judged d (rs_ledger_first_existed s))
      | _ \<Rightarrow> False)"
| "call_safe (Modify f p) guard key issued_at st \<longleftrightarrow>
     anchor_update f
     \<and> (\<exists>b. st = Before b
          \<and> call_safe p guard key issued_at (Before (b \<or> (\<forall>s. rs_ledger_first_existed (f s) \<noteq> None))))"
| "call_safe (Create k v t c) guard key issued_at st \<longleftrightarrow>
     (\<exists>b. st = Before b \<and> (rg_has_anchor guard \<longrightarrow> b)) \<and> k = key \<and> t = Some (rg_ttl guard)
     \<and> (\<forall>e. raises (c (Inl e))) \<and> c (Inr None) = Return False
     \<and> (\<forall>r. call_safe (c (Inr (Some r))) guard key issued_at Landed)"
| "call_safe (GetEntry k c) guard key issued_at st \<longleftrightarrow> False"
| "call_safe (GetValue k c) guard key issued_at st \<longleftrightarrow> False"
| "call_safe (Update k v r t c) guard key issued_at st \<longleftrightarrow> False"
| "call_safe (Delete k r t c) guard key issued_at st \<longleftrightarrow> False"
| "call_safe (DateCreated c) guard key issued_at st \<longleftrightarrow>
     (\<forall>e. raises (c (Inl e)))
     \<and> (case st of
          Before b \<Rightarrow> \<forall>d. call_safe (c (Inr d)) guard key issued_at (Before b)
        | Landed \<Rightarrow> \<forall>d. call_safe (c (Inr d)) guard key issued_at (Dated d)
        | _ \<Rightarrow> False)"

lemma refused_rule:
  "(case refuses_artifacts_issued_before guard s d of None \<Rightarrow> False | Some m \<Rightarrow> issued_at < m)
     = refused guard (rs_ledger_first_existed s) d issued_at"
  by (auto simp: refuses_artifacts_issued_before_def bucket_replaced_a_lost_one_def refused_def split: option.splits)

lemma anchor_updates:
  "anchor_update (first_existed now)" "anchor_update (\<lambda>s. s\<lparr>rs_bound := True\<rparr>)"
  by (auto simp: anchor_update_def first_existed_def Let_def split: option.split)

lemma first_existed_known: "rs_ledger_first_existed (first_existed now s) \<noteq> None"
  by (simp add: first_existed_def Let_def)

lemma judge_fresh_safe: "call_safe (judge_fresh guard issued_at) guard key issued_at Landed"
  by (auto simp: judge_fresh_def replay_answered_def raises_def refused_rule [symmetric] split: option.splits)

lemma record_step_safe:
  assumes "rg_has_anchor guard \<longrightarrow> b"
  shows "call_safe (Create key () (Some (rg_ttl guard)) (replay_answered (\<lambda>revision.
      if revision = None then Return False else judge_fresh guard issued_at))) guard key issued_at (Before b)"
  using assms judge_fresh_safe by (auto simp: replay_answered_def raises_def)

lemma read_anchor_safe:
  assumes "\<And>b'. (rg_has_anchor guard \<and> answers \<longrightarrow> b') \<Longrightarrow> (b \<longrightarrow> b') \<Longrightarrow> call_safe k guard key issued_at (Before b')"
  shows "call_safe (then_do (read_anchor guard answers) (\<lambda>_. k)) guard key issued_at (Before b)"
  using assms anchor_updates first_existed_known by (auto simp: read_anchor_def)

lemma record_unique_safe:
  assumes "rg_has_anchor guard \<longrightarrow> at_record"
  shows "call_safe (record_unique guard digest at_bind at_record nonce (Aware issued_at)) guard
    (replay_key guard digest nonce) issued_at (Before False)"
proof -
  have last: "call_safe (then_do (read_anchor guard at_record) (\<lambda>_.
      Create (replay_key guard digest nonce) () (Some (rg_ttl guard)) (replay_answered (\<lambda>revision.
         if revision = None then Return False else judge_fresh guard issued_at))))
      guard (replay_key guard digest nonce) issued_at (Before b)" (is "call_safe ?last _ _ _ _") for b
    by (rule read_anchor_safe) (use assms record_step_safe in blast)
  have bind: "then_do (then_do (read_anchor guard at_bind) (\<lambda>_. Modify (\<lambda>s. s\<lparr>rs_bound := True\<rparr>) (Return ()))) (\<lambda>_. ?last)
      = then_do (read_anchor guard at_bind) (\<lambda>_. Modify (\<lambda>s. s\<lparr>rs_bound := True\<rparr>) ?last)"
    by (simp add: try_else_assoc)
  have "call_safe (then_do (read_anchor guard at_bind) (\<lambda>_. Modify (\<lambda>s. s\<lparr>rs_bound := True\<rparr>) ?last)) guard
      (replay_key guard digest nonce) issued_at (Before b)" for b
    by (rule read_anchor_safe) (use last anchor_updates in auto)
  then show ?thesis
    using last bind
    by (auto simp: record_unique_def bound_bucket_def replay_answered_def raises_def)
qed

section \<open>The bucket under a presentation\<close>

definition kept_until :: "unit kv_bucket \<Rightarrow> string \<Rightarrow> int \<Rightarrow> bool" where
  "kept_until b key until \<longleftrightarrow>
     (kv_elapsed b < until \<longrightarrow> kv_view b key \<noteq> None \<and> (\<forall>e. kv_expires b key = Some e \<longrightarrow> until \<le> e))"

definition bucket_good :: "unit kv_bucket \<Rightarrow> bool" where
  "bucket_good b \<longleftrightarrow> kv_wf b \<and> (kv_vanished b \<longrightarrow> kv_entries b = Map.empty)"

text \<open>Everything but a loss: time does not go back, a record stays until its time, and the bucket is
  created again only when it is absent.\<close>

definition evolves :: "unit kv_bucket \<Rightarrow> unit kv_bucket \<Rightarrow> bool" where
  "evolves b b' \<longleftrightarrow>
     bucket_good b' \<and> kv_elapsed b \<le> kv_elapsed b'
     \<and> (kv_vanished b' \<or> (\<not> kv_vanished b \<and> kv_created b' = kv_created b) \<or> kv_elapsed b \<le> kv_created b')
     \<and> (\<forall>key until. kept_until b key until \<longrightarrow> kept_until b' key until)"

lemma evolves_refl: "bucket_good b \<Longrightarrow> evolves b b"
  by (simp add: evolves_def)

lemma evolves_trans: "evolves b b' \<Longrightarrow> evolves b' b'' \<Longrightarrow> evolves b b''"
  unfolding evolves_def by fastforce

lemma kv_arrive_evolves:
  assumes "bucket_good b" and "kv_arrive (kv_elapsed b) b = Inr b1"
  shows "kv_ok b1" "evolves b b1" "kv_view b1 = kv_view b" "kv_elapsed b1 = kv_elapsed b"
proof -
  have "b1 = b \<and> \<not> kv_vanished b \<or> kv_vanished b \<and> b1 = b\<lparr>kv_vanished := False, kv_created := kv_elapsed b,
      kv_revision := 0, kv_markers := Map.empty, kv_marker_expiry := Map.empty\<rparr>" (is "_ \<or> _ \<and> b1 = ?healed")
    using assms(2) by (auto simp: kv_arrive_def split: if_splits)
  moreover have "kv_lapsed ?healed = kv_lapsed b" by (simp add: kv_lapsed_def fun_eq_iff split: option.split)
  ultimately show ok: "kv_ok b1" and view: "kv_view b1 = kv_view b" and "kv_elapsed b1 = kv_elapsed b" and "evolves b b1"
    using assms(1)
    by (auto simp: kv_ok_def kv_wf_def bucket_good_def kv_view_def kv_expires_def fun_eq_iff evolves_def kept_until_def)
qed

lemma kv_run_evolves:
  assumes "bucket_good b" and "kv_run (kv_elapsed b) f b = (res, b')"
    and "\<And>b1. kv_ok b1 \<Longrightarrow> f b1 = (res, b') \<Longrightarrow> evolves b1 b'"
  shows "evolves b b'"
proof (cases "kv_arrive (kv_elapsed b) b")
  case (Inl e)
  then show ?thesis using assms by (simp add: kv_run_def evolves_refl)
next
  case (Inr b1)
  then show ?thesis
    using assms kv_arrive_evolves [OF assms(1) Inr] by (auto simp: kv_run_def intro: evolves_trans)
qed

lemma kv_date_created_evolves:
  assumes "bucket_good b" and "kv_date_created (kv_elapsed b) b = (res, b')"
  shows "evolves b b'" "\<And>d. res = Inr d \<Longrightarrow> \<not> kv_vanished b' \<and> d = kv_created b'"
proof -
  show "evolves b b'"
    using assms(2) unfolding kv_date_created_def
    by (rule kv_run_evolves [OF assms(1)]) (auto simp: kv_ok_def bucket_good_def intro: evolves_refl)
  show "\<not> kv_vanished b' \<and> d = kv_created b'" if "res = Inr d" for d
    using assms(2) that kv_arrive_evolves [OF assms(1)]
    by (auto simp: kv_date_created_def kv_run_def kv_ok_def split: sum.splits)
qed

text \<open>A create on a bucket that is there.\<close>

lemma kv_create_created:
  assumes "kv_ok b" and "kv_create now k v t b = (res, b')"
  shows "kv_created b' = kv_created b \<and> kv_ok b'"
proof -
  obtain e b1 where live: "kv_live k b = (e, b1)" by fastforce
  note l = kv_live_spec [OF live]
  show ?thesis
    using assms l(5,8) kv_write_spec(5,6) [OF _ l(5) [OF assms(1)]] kv_write_failed [where b = b1]
    by (auto simp: kv_create_def kv_run_ok live split: if_splits sum.splits prod.splits)
       (metis old.sum.exhaust)+
qed

lemma kv_create_evolves:
  assumes "bucket_good b" and "kv_create (kv_elapsed b) k v (Some t) b = (res, b')"
  shows "evolves b b'" "kv_elapsed b' = kv_elapsed b"
    "\<And>r. res = Inr (Some r) \<Longrightarrow> kv_view b k = None \<and> \<not> kv_vanished b' \<and> kept_until b' k (kv_elapsed b + t)"
proof -
  have "evolves b b' \<and> kv_elapsed b' = kv_elapsed b
      \<and> (\<forall>r. res = Inr (Some r) \<longrightarrow> kv_view b k = None \<and> \<not> kv_vanished b' \<and> kept_until b' k (kv_elapsed b + t))"
  proof (cases "kv_arrive (kv_elapsed b) b")
    case (Inl e)
    then show ?thesis using assms by (auto simp: kv_create_def kv_run_def evolves_refl)
  next
    case (Inr b1)
    note a = kv_arrive_evolves [OF assms(1) Inr]
    have reach: "\<not> kv_unreachable b1" using Inr by (auto simp: kv_arrive_def split: if_splits)
    have run: "kv_create (kv_elapsed b) k v (Some t) b1 = (res, b')"
      using assms(2) Inr a(1) reach by (simp add: kv_create_def kv_run_ok) (simp add: kv_run_def)
    note law = kv.create_law [OF a(1) run] and made = kv_create_created [OF a(1) run]
    have "evolves b1 b'"
      using law made a(1)
      by (cases res)
         (auto simp: evolves_def kept_until_def bucket_good_def kv_ok_def split: option.splits)
    with a(2) have "evolves b b'" by (rule evolves_trans)
    moreover have "kv_view b k = None \<and> \<not> kv_vanished b' \<and> kept_until b' k (kv_elapsed b + t)" if "res = Inr (Some r)" for r
      using law a(3,4) that by (auto simp: kept_until_def kv_ok_def)
    ultimately show ?thesis using law a(4) by auto
  qed
  then show "evolves b b'" "kv_elapsed b' = kv_elapsed b"
    "\<And>r. res = Inr (Some r) \<Longrightarrow> kv_view b k = None \<and> \<not> kv_vanished b' \<and> kept_until b' k (kv_elapsed b + t)" by auto
qed

lemma kv_advance_evolves:
  assumes "bucket_good b" and "0 \<le> d"
  shows "evolves b (kv_advance_clock d b)"
proof -
  have "kept_until (kv_advance_clock d b) key until" if "kept_until b key until" for key until
    using that assms(2)
    by (cases "kv_entries b key"; cases "kve_expires_at (the (kv_entries b key))")
       (auto simp: kept_until_def kv_view_def kv_expires_def kv_lapsed_def kv_advance_clock_def split: if_splits)
  then show ?thesis
    using assms by (auto simp: evolves_def bucket_good_def kv_wf_def kv_advance_clock_def)
qed

lemma kv_connection_evolves:
  assumes "bucket_good b"
  shows "evolves b (kv_become_unreachable b)" "evolves b (kv_become_reachable b)"
proof -
  have "evolves b (b\<lparr>kv_unreachable := u\<rparr>)" for u
  proof -
    have same: "kv_lapsed (b\<lparr>kv_unreachable := u\<rparr>) = kv_lapsed b"
      by (simp add: kv_lapsed_def fun_eq_iff split: option.split)
    have "kv_view (b\<lparr>kv_unreachable := u\<rparr>) = kv_view b" "kv_expires (b\<lparr>kv_unreachable := u\<rparr>) = kv_expires b"
      by (simp_all add: kv_view_def kv_expires_def same fun_eq_iff cong: option.case_cong)
    then show ?thesis
      using assms by (auto simp: evolves_def bucket_good_def kv_wf_def kept_until_def)
  qed
  then show "evolves b (kv_become_unreachable b)" "evolves b (kv_become_reachable b)"
    by (simp_all add: kv_become_unreachable_def kv_become_reachable_def)
qed

section \<open>Incarnations\<close>

text \<open>The history the argument keeps: how often the bucket was lost, when each incarnation began, and in
  which one, and when, a call's record landed.\<close>

record replay_ghost =
  rx_incarnation :: nat
  rx_began :: "nat \<Rightarrow> int"
  rx_landed :: "nat \<rightharpoonup> nat \<times> int"

definition call_key :: "replay_fleet \<Rightarrow> presentation \<Rightarrow> string" where
  "call_key fl p = replay_key (rf_guard fl) (rf_digest fl) (pr_nonce p)"

definition incarnations_ok :: "replay_ghost \<Rightarrow> unit kv_bucket \<Rightarrow> bool" where
  "incarnations_ok x b \<longleftrightarrow>
     bucket_good b \<and> rx_began x (rx_incarnation x) \<le> kv_elapsed b
     \<and> (kv_vanished b \<or> rx_began x (rx_incarnation x) \<le> kv_created b)
     \<and> (\<forall>m n. m \<le> n \<longrightarrow> n \<le> rx_incarnation x \<longrightarrow> rx_began x m \<le> rx_began x n)"

definition record_ok :: "replay_fleet \<Rightarrow> replay_ghost \<Rightarrow> replay_world \<Rightarrow> nat \<Rightarrow> nat \<Rightarrow> int \<Rightarrow> bool" where
  "record_ok fl x w c n t \<longleftrightarrow>
     (\<exists>p. rw_calls w c = Some p \<and> pr_checked_at p \<le> t \<and> t \<le> pr_checked_at p + rf_deadline fl
        \<and> (n = rx_incarnation x \<longrightarrow> kept_until (rw_bucket w) (call_key fl p) (t + rg_ttl (rf_guard fl))))
     \<and> n \<le> rx_incarnation x \<and> t \<le> kv_elapsed (rw_bucket w)
     \<and> (rg_has_anchor (rf_guard fl) \<longrightarrow> rw_anchor w \<noteq> None)
     \<and> (\<forall>m. n < m \<longrightarrow> m \<le> rx_incarnation x \<longrightarrow>
          t \<le> rx_began x m
          \<and> (\<forall>first. rg_has_anchor (rf_guard fl) \<longrightarrow> rw_anchor w = Some first \<longrightarrow>
               first + CLOCK_DRIFT_ALLOWANCE < rx_began x m))"

definition apart :: "replay_fleet \<Rightarrow> replay_ghost \<Rightarrow> replay_world \<Rightarrow> bool" where
  "apart fl x w \<longleftrightarrow>
     (\<forall>c c' p p' n t t'. c \<noteq> c' \<longrightarrow> rx_landed x c = Some (n, t) \<longrightarrow> rx_landed x c' = Some (n, t') \<longrightarrow>
        rw_calls w c = Some p \<longrightarrow> rw_calls w c' = Some p' \<longrightarrow> call_key fl p = call_key fl p' \<longrightarrow>
        t + rg_ttl (rf_guard fl) \<le> t' \<or> t' + rg_ttl (rf_guard fl) \<le> t)"

fun stage_ok :: "replay_ghost \<Rightarrow> replay_world \<Rightarrow> nat \<Rightarrow> nat \<Rightarrow> stage \<Rightarrow> bool" where
  "stage_ok x w c g (Before b) \<longleftrightarrow>
     rx_landed x c = None \<and> (b \<longrightarrow> rs_ledger_first_existed (rw_guards w g) \<noteq> None)"
| "stage_ok x w c g Landed \<longleftrightarrow> rx_landed x c \<noteq> None"
| "stage_ok x w c g (Dated d) \<longleftrightarrow> (\<exists>n t. rx_landed x c = Some (n, t) \<and> rx_began x n \<le> d)"
| "stage_ok x w c g (Judged d first) \<longleftrightarrow>
     (\<exists>n t. rx_landed x c = Some (n, t) \<and> rx_began x n \<le> d) \<and> (\<forall>f. first = Some f \<longrightarrow> rw_anchor w = Some f)"

definition call_ok :: "replay_fleet \<Rightarrow> replay_ghost \<Rightarrow> replay_world \<Rightarrow> nat \<Rightarrow> presentation \<Rightarrow> bool" where
  "call_ok fl x w c p \<longleftrightarrow>
     pr_checked_at p \<le> kv_elapsed (rw_bucket w)
     \<and> verifier_accepts fl (pr_checked_at p + rf_skew fl (pr_replica p)) (pr_nonce p)
     \<and> (\<exists>st. call_safe (pr_prog p) (rf_guard fl) (call_key fl p) (rf_issued_at fl (pr_nonce p)) st
          \<and> (finished (pr_prog p) \<and> \<not> accepts (pr_prog p) \<or> stage_ok x w c (pr_replica p) st))"

definition replay_inv :: "replay_fleet \<Rightarrow> replay_ghost \<Rightarrow> replay_world \<Rightarrow> bool" where
  "replay_inv fl x w \<longleftrightarrow>
     incarnations_ok x (rw_bucket w)
     \<and> (\<forall>c n t. rx_landed x c = Some (n, t) \<longrightarrow> record_ok fl x w c n t)
     \<and> apart fl x w
     \<and> (\<forall>g first. rs_ledger_first_existed (rw_guards w g) = Some first \<longrightarrow> rw_anchor w = Some first)
     \<and> (\<forall>c p. rw_calls w c = Some p \<longrightarrow> call_ok fl x w c p)"

definition anchor_sound :: "replay_fleet \<Rightarrow> bool" where
  "anchor_sound fl \<longleftrightarrow> (rg_has_anchor (rf_guard fl) \<longrightarrow> \<not> rf_anchor_fails fl \<and> \<not> rf_early_loss fl)"

lemma replay_inv_start:
  "replay_inv fl \<lparr>rx_incarnation = 0, rx_began = (\<lambda>_. min 0 created), rx_landed = Map.empty\<rparr> (replay_start created may_create)"
  by (auto simp: replay_inv_def replay_start_def incarnations_ok_def bucket_good_def kv_wf_def apart_def
      fresh_guard_def new_kv_bucket_def)

text \<open>The bucket moves on and no call does.\<close>

lemma replay_inv_evolves:
  assumes "replay_inv fl x w" and "evolves (rw_bucket w) b"
  shows "replay_inv fl x (w\<lparr>rw_bucket := b\<rparr>)"
proof -
  have "incarnations_ok x b"
    using assms by (auto simp: replay_inv_def evolves_def incarnations_ok_def)
  moreover have "record_ok fl x (w\<lparr>rw_bucket := b\<rparr>) c n t" if "rx_landed x c = Some (n, t)" for c n t
    using assms that unfolding replay_inv_def evolves_def record_ok_def by simp (metis order_trans)
  moreover have "stage_ok x (w\<lparr>rw_bucket := b\<rparr>) c g st = stage_ok x w c g st" for c g st by (cases st) simp_all
  ultimately show ?thesis
    using assms unfolding replay_inv_def call_ok_def apart_def evolves_def by simp (meson order_trans)
qed

text \<open>A loss begins an incarnation in which nothing has landed.\<close>

lemma replay_inv_loss:
  assumes "replay_inv fl x w" and "may_lose fl w" and "anchor_sound fl"
    and "bucket_good b" and "kv_elapsed b = kv_elapsed (rw_bucket w)" and "kv_vanished b \<or> kv_created b = kv_elapsed b"
  shows "\<exists>x'. replay_inv fl x' (w\<lparr>rw_bucket := b\<rparr>)"
proof -
  define x' where "x' = x\<lparr>rx_incarnation := Suc (rx_incarnation x),
    rx_began := (rx_began x)(Suc (rx_incarnation x) := kv_elapsed b)\<rparr>"
  have old: "rx_began x n \<le> kv_elapsed b" if "n \<le> rx_incarnation x" for n
    using assms(1,5) that by (auto simp: replay_inv_def incarnations_ok_def intro: order_trans)
  have "incarnations_ok x' b"
    using assms(1,4,6) old by (auto simp: replay_inv_def incarnations_ok_def x'_def le_Suc_eq)
  moreover have "record_ok fl x' (w\<lparr>rw_bucket := b\<rparr>) c n t" if "rx_landed x' c = Some (n, t)" for c n t
  proof -
    have r: "record_ok fl x w c n t" using assms(1) that by (auto simp: replay_inv_def x'_def)
    then have "n \<le> rx_incarnation x" by (simp add: record_ok_def)
    with r assms(2,3,5) show ?thesis
      by (auto simp: record_ok_def x'_def le_Suc_eq may_lose_def anchor_sound_def)
  qed
  moreover have "stage_ok x' (w\<lparr>rw_bucket := b\<rparr>) c g st" if "stage_ok x w c g st" for c g st
  proof -
    have "n \<noteq> Suc (rx_incarnation x)" if "rx_landed x c = Some (n, t)" for n t
    proof -
      have "record_ok fl x w c n t" using assms(1) that unfolding replay_inv_def by blast
      then show ?thesis by (auto simp: record_ok_def)
    qed
    with that show ?thesis by (cases st) (auto simp: x'_def)
  qed
  ultimately have "replay_inv fl x' (w\<lparr>rw_bucket := b\<rparr>)"
    using assms(1,5) unfolding replay_inv_def call_ok_def apart_def by (simp add: x'_def) meson
  then show ?thesis ..
qed

text \<open>A guard reads or stamps the anchor.\<close>

lemma replay_inv_guard:
  assumes "replay_inv fl x w"
    and "rw_anchor w = None \<or> rs_anchor s = rw_anchor w"
    and "\<And>f. rs_ledger_first_existed s = Some f \<Longrightarrow> rs_anchor s = Some f"
    and "rs_ledger_first_existed (rw_guards w g) \<noteq> None \<Longrightarrow> rs_ledger_first_existed s \<noteq> None"
  shows "replay_inv fl x (w\<lparr>rw_guards := (rw_guards w)(g := s), rw_anchor := rs_anchor s\<rparr>)" (is "replay_inv fl x ?w")
proof -
  have "record_ok fl x ?w c n t" if "rx_landed x c = Some (n, t)" for c n t
  proof -
    have "record_ok fl x w c n t" using assms(1) that unfolding replay_inv_def by blast
    then show ?thesis using assms(2) by (auto simp: record_ok_def)
  qed
  moreover have "stage_ok x ?w c h st" if "stage_ok x w c h st" for c h st
    using that assms(2,4) by (cases st) auto
  then have "call_ok fl x ?w c p" if "rw_calls w c = Some p" for c p
  proof -
    have "call_ok fl x w c p" using assms(1) that unfolding replay_inv_def by blast
    then show ?thesis unfolding call_ok_def using \<open>\<And>st h c. stage_ok x w c h st \<Longrightarrow> stage_ok x ?w c h st\<close> by auto
  qed
  moreover have "rs_anchor s = Some f" if "rs_ledger_first_existed (((rw_guards w)(g := s)) h) = Some f" for h f
  proof (cases "h = g")
    case True
    then show ?thesis using that assms(3) by simp
  next
    case False
    then have "rw_anchor w = Some f" using that assms(1) by (simp add: replay_inv_def)
    then show ?thesis using assms(2) by simp
  qed
  moreover have "apart fl x ?w" using assms(1) by (simp add: replay_inv_def apart_def)
  ultimately show ?thesis using assms(1) unfolding replay_inv_def by simp
qed

text \<open>A call goes on.\<close>

lemma replay_inv_call:
  assumes "replay_inv fl x w" and "rw_calls w c = Some p"
    and "call_safe q (rf_guard fl) (call_key fl p) (rf_issued_at fl (pr_nonce p)) st"
    and "finished q \<and> \<not> accepts q \<or> stage_ok x w c (pr_replica p) st"
  shows "replay_inv fl x (w\<lparr>rw_calls := (rw_calls w)(c \<mapsto> p\<lparr>pr_prog := q\<rparr>)\<rparr>)" (is "replay_inv fl x ?w")
proof -
  have key: "call_key fl (p\<lparr>pr_prog := q\<rparr>) = call_key fl p" by (simp add: call_key_def)
  have "record_ok fl x ?w d n t" if "rx_landed x d = Some (n, t)" for d n t
  proof -
    have "record_ok fl x w d n t" using assms(1) that unfolding replay_inv_def by blast
    then show ?thesis using assms(2) by (auto simp: record_ok_def key)
  qed
  moreover have stage: "stage_ok x ?w d h st = stage_ok x w d h st" for d h st by (cases st) simp_all
  moreover have "call_ok fl x ?w d p'" if "rw_calls ?w d = Some p'" for d p'
  proof (cases "d = c")
    case True
    then have p': "p' = p\<lparr>pr_prog := q\<rparr>" using that by simp
    have "call_ok fl x w c p" using assms(1,2) unfolding replay_inv_def by blast
    then show ?thesis unfolding call_ok_def p' key stage True using assms(3,4) by auto
  next
    case False
    then have "call_ok fl x w d p'" using assms(1) that by (auto simp: replay_inv_def)
    then show ?thesis unfolding call_ok_def stage by simp
  qed
  moreover have "apart fl x ?w"
  proof -
    have "\<exists>r. rw_calls w d = Some r \<and> call_key fl r = call_key fl p'" if "rw_calls ?w d = Some p'" for d p'
      using that assms(2) key by (auto split: if_splits)
    moreover have "apart fl x w" using assms(1) by (simp add: replay_inv_def)
    ultimately show ?thesis unfolding apart_def by metis
  qed
  ultimately show ?thesis using assms(1) by (simp add: replay_inv_def)
qed

text \<open>A record lands: nothing of this incarnation that recorded the key is younger than a time to live.\<close>

lemma replay_inv_lands:
  assumes inv: "replay_inv fl x w" and c: "rw_calls w c = Some p" "rx_landed x c = None"
    and anchored: "rg_has_anchor (rf_guard fl) \<longrightarrow> rw_anchor w \<noteq> None"
    and run: "kv_create (kv_elapsed (rw_bucket w)) (call_key fl p) () (Some (rg_ttl (rf_guard fl))) (rw_bucket w)
      = (Inr (Some r), b)"
    and deadline: "kv_elapsed (rw_bucket w) \<le> pr_checked_at p + rf_deadline fl"
  shows "replay_inv fl (x\<lparr>rx_landed := (rx_landed x)(c \<mapsto> (rx_incarnation x, kv_elapsed (rw_bucket w)))\<rparr>)
    (w\<lparr>rw_bucket := b, rw_calls := (rw_calls w)(c \<mapsto> p\<lparr>pr_prog := Raise e\<rparr>)\<rparr>)" (is "replay_inv fl ?x ?w")
proof -
  let ?v = "w\<lparr>rw_bucket := b, rw_calls := (rw_calls w)(c \<mapsto> p\<lparr>pr_prog := Raise e\<rparr>)\<rparr>"
  let ?now = "kv_elapsed (rw_bucket w)"
  have good: "bucket_good (rw_bucket w)" using inv by (simp add: replay_inv_def incarnations_ok_def)
  note land = kv_create_evolves [OF good run]
  have v: "replay_inv fl x ?v"
    using replay_inv_call [OF replay_inv_evolves [OF inv land(1)], of c p "Raise e"] c by simp
  have key: "call_key fl (p\<lparr>pr_prog := Raise e\<rparr>) = call_key fl p" by (simp add: call_key_def)
  have checked: "pr_checked_at p \<le> ?now" using inv c(1) by (auto simp: replay_inv_def call_ok_def)
  have "record_ok fl ?x ?v d n t" if "rx_landed ?x d = Some (n, t)" for d n t
  proof (cases "d = c")
    case True
    then show ?thesis
      using that land(2,3) anchored deadline checked by (simp add: record_ok_def key)
  next
    case False
    then have "record_ok fl x ?v d n t" using v that unfolding replay_inv_def by simp
    then show ?thesis by (simp add: record_ok_def)
  qed
  moreover have "apart fl ?x ?v"
  proof -
    have old: "t + rg_ttl (rf_guard fl) \<le> ?now"
      if "rx_landed x d = Some (rx_incarnation x, t)" "rw_calls w d = Some r'" "call_key fl r' = call_key fl p" for d t r'
    proof -
      have "record_ok fl x w d (rx_incarnation x) t" using inv that(1) unfolding replay_inv_def by blast
      then have "kept_until (rw_bucket w) (call_key fl p) (t + rg_ttl (rf_guard fl))"
        using that(2,3) by (auto simp: record_ok_def)
      then show ?thesis using land(3) by (auto simp: kept_until_def)
    qed
    have "apart fl x ?v" using v by (simp add: replay_inv_def)
    then show ?thesis
      unfolding apart_def using old by (auto simp: key split: if_splits)
  qed
  moreover have "call_ok fl ?x ?v d p'" if "rw_calls ?v d = Some p'" for d p'
  proof -
    have ok: "call_ok fl x ?v d p'" using v that unfolding replay_inv_def by blast
    show ?thesis
    proof (cases "d = c")
      case True
      then have "pr_prog p' = Raise e" using that by auto
      then show ?thesis using ok by (simp add: call_ok_def)
    next
      case False
      then have "stage_ok ?x ?v d h st = stage_ok x ?v d h st" for h st by (cases st) simp_all
      then show ?thesis using ok by (simp add: call_ok_def)
    qed
  qed
  ultimately show ?thesis using v by (simp add: replay_inv_def incarnations_ok_def)
qed

lemma raises_finished: "raises q \<Longrightarrow> finished q \<and> \<not> accepts q" "raises q \<Longrightarrow> call_safe q guard key t st"
  by (auto simp: raises_def)

lemma guard_state_unchanged:
  assumes "replay_inv fl x w"
  shows "replay_inv fl x (w\<lparr>rw_guards := (rw_guards w)(g := guard_state w g), rw_anchor := rw_anchor w\<rparr>)"
  using replay_inv_guard [OF assms, of "guard_state w g" g] assms by (simp add: guard_state_def replay_inv_def)

text \<open>One node of a presentation.\<close>

lemma replay_inv_call_step:
  assumes inv: "replay_inv fl x w" and c: "rw_calls w c = Some p"
    and deadline: "kv_elapsed (rw_bucket w) \<le> pr_checked_at p + rf_deadline fl"
    and step: "prog_step (rf_skew fl (pr_replica p)) (pr_prog p) (guard_state w (pr_replica p)) (rw_bucket w) = Some (q, s, b)"
  shows "\<exists>x'. replay_inv fl x' (w\<lparr>rw_bucket := b, rw_guards := (rw_guards w)(pr_replica p := s),
    rw_anchor := rs_anchor s, rw_calls := (rw_calls w)(c \<mapsto> p\<lparr>pr_prog := q\<rparr>)\<rparr>)" (is "\<exists>x'. replay_inv fl x' ?w")
proof -
  let ?g = "pr_replica p" and ?guard = "rf_guard fl" and ?key = "call_key fl p"
  let ?at = "rf_issued_at fl (pr_nonce p)" and ?now = "kv_elapsed (rw_bucket w)"
  have good: "bucket_good (rw_bucket w)" using inv by (simp add: replay_inv_def incarnations_ok_def)
  have "call_ok fl x w c p" using inv c unfolding replay_inv_def by blast
  then obtain st where st: "call_safe (pr_prog p) ?guard ?key ?at st" "stage_ok x w c ?g st"
    using step by (auto simp: call_ok_def prog_step_def elim!: finished.elims)
  have go: "replay_inv fl x' ?w"
    if "evolves (rw_bucket w) b" "s = guard_state w ?g" "replay_inv fl x' w" "call_safe q ?guard ?key ?at st'"
      "finished q \<and> \<not> accepts q \<or> stage_ok x' (w\<lparr>rw_bucket := b, rw_guards := (rw_guards w)(?g := s)\<rparr>) c ?g st'" for x' st'
  proof -
    have "stage_ok x' (w\<lparr>rw_bucket := b, rw_guards := (rw_guards w)(?g := s), rw_anchor := rs_anchor s\<rparr>) c ?g st'
      = stage_ok x' (w\<lparr>rw_bucket := b, rw_guards := (rw_guards w)(?g := s)\<rparr>) c ?g st'"
      using that(2) by (cases st') (simp_all add: guard_state_def)
    then show ?thesis
      using replay_inv_call [OF guard_state_unchanged [OF replay_inv_evolves [OF that(3,1)], of ?g], where c = c and p = p and q = q and st = st'] c that
      by (simp add: guard_state_def)
  qed
  show ?thesis
  proof (cases "pr_prog p")
    case (Now k)
    then have "b = kv_advance_clock 1 (rw_bucket w)" "s = guard_state w ?g" "q = k (?now + rf_skew fl ?g)"
      using step by (auto simp: prog_step_def)
    then show ?thesis
      using go [of x st] st inv Now kv_advance_evolves [OF good, of 1] by (cases st) (auto simp: guard_state_def)
  next
    case (Ask k)
    then have q: "b = rw_bucket w" "s = guard_state w ?g" "q = k s"
      using step by (auto simp: prog_step_def)
    have known: "rs_ledger_first_existed s = Some f \<Longrightarrow> rw_anchor w = Some f" for f
      using inv q(2) by (auto simp: replay_inv_def guard_state_def)
    show ?thesis
    proof (cases st)
      case (Before k')
      then have "call_safe q ?guard ?key ?at (Before (k' \<or> rs_ledger_first_existed s \<noteq> None))"
        using st(1) Ask q(3) by simp
      moreover have "stage_ok x (w\<lparr>rw_bucket := b, rw_guards := (rw_guards w)(?g := s)\<rparr>) c ?g
          (Before (k' \<or> rs_ledger_first_existed s \<noteq> None))"
        using st(2) Before q(2) by (auto simp: guard_state_def)
      moreover have "evolves (rw_bucket w) b" using q(1) evolves_refl [OF good] by simp
      ultimately have "replay_inv fl x ?w" using go q(2) inv by blast
      then show ?thesis ..
    next
      case (Dated d)
      then show ?thesis
        using go [of x "Judged d (rs_ledger_first_existed s)"] st inv Ask q evolves_refl [OF good] known by auto
    qed (use st Ask in simp_all)
  next
    case (Modify f k)
    then have q: "b = rw_bucket w" "s = f (guard_state w ?g)" "q = k" using step by (auto simp: prog_step_def)
    obtain k' where b: "anchor_update f" "st = Before k'"
      "call_safe k ?guard ?key ?at (Before (k' \<or> (\<forall>s. rs_ledger_first_existed (f s) \<noteq> None)))"
      using st Modify by auto
    define s0 where "s0 = guard_state w ?g"
    have s0: "rs_anchor s0 = rw_anchor w" "rs_ledger_first_existed s0 = rs_ledger_first_existed (rw_guards w ?g)"
      by (simp_all add: s0_def guard_state_def)
    have known: "rs_ledger_first_existed s0 = Some f \<Longrightarrow> rw_anchor w = Some f" for f
      using inv s0(2) by (simp add: replay_inv_def)
    have upd: "rs_anchor s0 = None \<or> rs_anchor s = rs_anchor s0"
      "rs_ledger_first_existed s = rs_ledger_first_existed s0 \<and> rs_anchor s = rs_anchor s0
       \<or> rs_ledger_first_existed s = rs_anchor s \<and> rs_anchor s \<noteq> None"
      using b(1) q(2) unfolding anchor_update_def s0_def by blast+
    have moved: "replay_inv fl x (w\<lparr>rw_guards := (rw_guards w)(?g := s), rw_anchor := rs_anchor s\<rparr>)"
    proof (rule replay_inv_guard [OF inv])
      show "rw_anchor w = None \<or> rs_anchor s = rw_anchor w" using upd(1) s0(1) by simp
      show "rs_anchor s = Some f" if "rs_ledger_first_existed s = Some f" for f
        using upd(2) known [of f] s0(1) that by argo
      show "rs_ledger_first_existed s \<noteq> None" if "rs_ledger_first_existed (rw_guards w ?g) \<noteq> None"
        using upd(2) s0(2) that by argo
    qed
    have "replay_inv fl x ?w"
      using replay_inv_call [OF moved, where c = c and p = p and q = q and st = "Before (k' \<or> (\<forall>s. rs_ledger_first_existed (f s) \<noteq> None))"] b c q(1,3) st(2)
        upd(2) s0(2) q(2)
      by auto
    then show ?thesis ..
  next
    case (DateCreated k)
    then obtain r where r: "kv_date_created ?now (rw_bucket w) = (r, b)" "s = guard_state w ?g" "q = k r"
      using step by (auto simp: prog_step_def Let_def split: prod.splits)
    note e = kv_date_created_evolves [OF good r(1)]
    show ?thesis
    proof (cases r)
      case (Inl e')
      then show ?thesis
        using go [of x st] e(1) r st inv DateCreated raises_finished by auto
    next
      case (Inr d)
      have inv': "replay_inv fl x (w\<lparr>rw_bucket := b\<rparr>)" by (rule replay_inv_evolves [OF inv e(1)])
      then have began: "rx_began x n \<le> d" if "n \<le> rx_incarnation x" for n
        using e(2) [OF Inr] that by (auto simp: replay_inv_def incarnations_ok_def intro: order_trans)
      have landed: "n \<le> rx_incarnation x" if "rx_landed x c = Some (n, t)" for n t
        using inv that by (auto simp: replay_inv_def record_ok_def)
      show ?thesis
      proof (cases st)
        case (Before k')
        then show ?thesis using go [of x st] e(1) r st inv DateCreated Inr by (auto simp: guard_state_def)
      next
        case Landed
        then show ?thesis
          using go [of x "Dated d"] e(1) r st inv DateCreated Inr began landed by fastforce
      qed (use st DateCreated in simp_all)
    qed
  next
    case (Create k v t cont)
    then obtain r where r: "kv_create ?now k v t (rw_bucket w) = (r, b)" "s = guard_state w ?g" "q = cont r"
      using step by (auto simp: prog_step_def Let_def split: prod.splits)
    from Create st obtain k' where b: "st = Before k'" "rg_has_anchor ?guard \<longrightarrow> k'" "k = ?key" "t = Some (rg_ttl ?guard)"
      "\<And>e. raises (cont (Inl e))" "cont (Inr None) = Return False"
      "\<And>r. call_safe (cont (Inr (Some r))) ?guard ?key ?at Landed" by auto
    have run: "kv_create ?now ?key () (Some (rg_ttl ?guard)) (rw_bucket w) = (r, b)" using r(1) b(3,4) by simp
    note e = kv_create_evolves [OF good run]
    consider (failed) err where "r = Inl err" | (seen) "r = Inr None" | (lands) n where "r = Inr (Some n)"
      by (metis option.exhaust sum.exhaust)
    then show ?thesis
    proof cases
      case failed
      then show ?thesis using go [of x st] e(1) r(2,3) inv b(5) raises_finished by auto
    next
      case seen
      then show ?thesis using go [of x st] e(1) r(2,3) inv b(6) by auto
    next
      case lands
      have free: "rx_landed x c = None" and "k' \<longrightarrow> rs_ledger_first_existed (rw_guards w ?g) \<noteq> None"
        using st(2) b(1) by auto
      then have "rg_has_anchor ?guard \<longrightarrow> rw_anchor w \<noteq> None"
        using b(2) inv by (auto simp: replay_inv_def)
      note landed = replay_inv_lands [OF inv c free this run [unfolded lands] deadline, of undefined]
      let ?x = "x\<lparr>rx_landed := (rx_landed x)(c \<mapsto> (rx_incarnation x, ?now))\<rparr>"
      have "replay_inv fl ?x ?w"
        using replay_inv_call [OF guard_state_unchanged [OF landed, of ?g], where c = c and p = "p\<lparr>pr_prog := Raise undefined\<rparr>" and q = q and st = Landed]
          b(7) r(2,3) lands
        by (simp add: guard_state_def call_key_def)
      then show ?thesis ..
    qed
  qed (use step st in \<open>auto simp: prog_step_def\<close>)
qed

lemma replay_inv_unanswered:
  assumes "replay_inv fl x w" and "rw_calls w c = Some p"
  shows "replay_inv fl x (w\<lparr>rw_calls := (rw_calls w)(c \<mapsto> p\<lparr>pr_prog := give_up_waiting (pr_prog p)\<rparr>)\<rparr>)"
proof -
  have "call_ok fl x w c p" using assms unfolding replay_inv_def by blast
  then obtain st where st: "call_safe (pr_prog p) (rf_guard fl) (call_key fl p) (rf_issued_at fl (pr_nonce p)) st"
    "finished (pr_prog p) \<and> \<not> accepts (pr_prog p) \<or> stage_ok x w c (pr_replica p) st" by (auto simp: call_ok_def)
  let ?q = "give_up_waiting (pr_prog p)"
  have "?q = pr_prog p \<or> raises ?q"
    using st(1) by (cases "pr_prog p") auto
  then show ?thesis using replay_inv_call [OF assms, of ?q st] st raises_finished by auto
qed

lemma replay_inv_restart:
  assumes "replay_inv fl x w"
  shows "\<exists>x'. replay_inv fl x' (w\<lparr>rw_guards := (rw_guards w)(g := fresh_guard),
    rw_calls := (\<lambda>c. case rw_calls w c of
                        None \<Rightarrow> None
                      | Some p \<Rightarrow> if pr_replica p = g \<and> \<not> finished (pr_prog p) then None else Some p)\<rparr>)"
    (is "\<exists>x'. replay_inv fl x' ?w")
proof -
  define x' where "x' = x\<lparr>rx_landed := (\<lambda>c. if rw_calls ?w c = None then None else rx_landed x c)\<rparr>"
  have old: "rw_calls w c = Some p \<and> (pr_replica p = g \<longrightarrow> finished (pr_prog p))" if "rw_calls ?w c = Some p" for c p
    using that by (auto split: option.splits if_splits)
  have kept: "rx_landed x c = Some (n, t) \<and> (\<exists>p. rw_calls ?w c = Some p)" if "rx_landed x' c = Some (n, t)" for c n t
    using that by (auto simp: x'_def split: if_splits)
  have "record_ok fl x' ?w c n t" if "rx_landed x' c = Some (n, t)" for c n t
  proof -
    from kept [OF that] obtain p where p: "rw_calls ?w c = Some p" by blast
    from kept [OF that] have "record_ok fl x w c n t" using assms unfolding replay_inv_def by blast
    then show ?thesis using old [OF p] p by (auto simp: record_ok_def x'_def)
  qed
  moreover have "apart fl x' ?w"
  proof -
    have "apart fl x w" using assms by (simp add: replay_inv_def)
    then show ?thesis
      unfolding apart_def using kept(1) [THEN conjunct1] old [THEN conjunct1] by blast
  qed
  moreover have "call_ok fl x' ?w c p" if p: "rw_calls ?w c = Some p" for c p
  proof -
    have "call_ok fl x w c p" using assms old [OF p] unfolding replay_inv_def by blast
    then obtain st where ok: "pr_checked_at p \<le> kv_elapsed (rw_bucket w)"
      "verifier_accepts fl (pr_checked_at p + rf_skew fl (pr_replica p)) (pr_nonce p)"
      and st: "call_safe (pr_prog p) (rf_guard fl) (call_key fl p) (rf_issued_at fl (pr_nonce p)) st"
        "finished (pr_prog p) \<and> \<not> accepts (pr_prog p) \<or> stage_ok x w c (pr_replica p) st" by (auto simp: call_ok_def)
    have same: "rx_landed x' c = rx_landed x c" using p by (simp add: x'_def)
    have "finished (pr_prog p) \<and> \<not> accepts (pr_prog p) \<or> stage_ok x' ?w c (pr_replica p) st"
    proof (cases st)
      case (Before b)
      show ?thesis
      proof (cases "pr_replica p = g")
        case True
        then have "finished (pr_prog p)" using old [OF p] by simp
        then show ?thesis using st(1) Before by (cases "pr_prog p") auto
      next
        case False
        then show ?thesis using st(2) Before same by simp
      qed
    qed (use st(2) same in \<open>auto simp: x'_def\<close>)
    then show ?thesis using ok st(1) unfolding call_ok_def by auto
  qed
  ultimately have "replay_inv fl x' ?w"
    using assms by (simp add: replay_inv_def incarnations_ok_def x'_def fresh_guard_def)
  then show ?thesis ..
qed

lemma replay_inv_presented:
  assumes inv: "replay_inv fl x w" and free: "rw_calls w c = None"
    and ok: "verifier_accepts fl (kv_elapsed (rw_bucket w) + rf_skew fl g) nonce"
    and at: "at_record \<or> rf_anchor_fails fl" and sound: "anchor_sound fl"
  shows "replay_inv fl x (w\<lparr>rw_calls := (rw_calls w)(c \<mapsto>
      \<lparr>pr_replica = g, pr_nonce = nonce, pr_checked_at = kv_elapsed (rw_bucket w),
       pr_prog = record_unique (rf_guard fl) (rf_digest fl) at_bind at_record nonce (Aware (rf_issued_at fl nonce))\<rparr>)\<rparr>)"
    (is "replay_inv fl x ?w")
proof -
  have landed: "rx_landed x c = None"
  proof (rule ccontr)
    assume "rx_landed x c \<noteq> None"
    then obtain n t where "rx_landed x c = Some (n, t)" by auto
    then have "record_ok fl x w c n t" using inv unfolding replay_inv_def by blast
    then show False using free by (simp add: record_ok_def)
  qed
  have stage: "stage_ok x ?w d h st = stage_ok x w d h st" for d h st by (cases st) simp_all
  have "rg_has_anchor (rf_guard fl) \<longrightarrow> at_record" using at sound by (auto simp: anchor_sound_def)
  note safe = record_unique_safe [OF this]
  have "record_ok fl x ?w d n t" if "rx_landed x d = Some (n, t)" for d n t
  proof -
    have "record_ok fl x w d n t" using inv that unfolding replay_inv_def by blast
    moreover have "d \<noteq> c" using that landed by auto
    ultimately show ?thesis by (simp add: record_ok_def)
  qed
  moreover have "call_ok fl x ?w d p" if "rw_calls ?w d = Some p" for d p
  proof (cases "d = c")
    case True
    with that have p: "p = \<lparr>pr_replica = g, pr_nonce = nonce, pr_checked_at = kv_elapsed (rw_bucket w),
       pr_prog = record_unique (rf_guard fl) (rf_digest fl) at_bind at_record nonce (Aware (rf_issued_at fl nonce))\<rparr>" by simp
    have "stage_ok x ?w c g (Before False)" using landed by simp
    then show ?thesis using ok safe unfolding call_ok_def True p call_key_def
      by (intro conjI exI [of _ "Before False"]) auto
  next
    case False
    then have "call_ok fl x w d p" using inv that unfolding replay_inv_def by simp
    then show ?thesis unfolding call_ok_def stage by simp
  qed
  moreover have "apart fl x ?w"
  proof -
    have "apart fl x w" using inv by (simp add: replay_inv_def)
    moreover have "rw_calls ?w d = Some p \<Longrightarrow> rx_landed x d = Some (n, t) \<Longrightarrow> rw_calls w d = Some p" for d p n t
      using landed by (auto split: if_splits)
    ultimately show ?thesis unfolding apart_def by blast
  qed
  ultimately show ?thesis using inv by (simp add: replay_inv_def)
qed

lemma kv_wipe_good: "bucket_good (kv_wipe now b)" "bucket_good (kv_vanish b)"
  by (simp_all add: bucket_good_def kv_wf_def kv_wipe_def kv_vanish_def)

lemma replay_inv_step:
  assumes "replay_step fl w w'" and "replay_inv fl x w" and "anchor_sound fl"
  shows "\<exists>x'. replay_inv fl x' w'"
  using assms(1)
proof cases
  case (time_passes d)
  have "bucket_good (rw_bucket w)" using assms(2) by (simp add: replay_inv_def incarnations_ok_def)
  then show ?thesis using time_passes replay_inv_evolves [OF assms(2) kv_advance_evolves] by blast
next
  case (connection b)
  have "bucket_good (rw_bucket w)" using assms(2) by (simp add: replay_inv_def incarnations_ok_def)
  then show ?thesis using connection replay_inv_evolves [OF assms(2)] kv_connection_evolves by metis
next
  case bucket_wiped
  show ?thesis unfolding bucket_wiped(1)
    by (rule replay_inv_loss [OF assms(2) bucket_wiped(2) assms(3) kv_wipe_good(1)]) (simp_all add: kv_wipe_def)
next
  case bucket_vanished
  show ?thesis unfolding bucket_vanished(1)
    by (rule replay_inv_loss [OF assms(2) bucket_vanished(2) assms(3) kv_wipe_good(2)]) (simp_all add: kv_vanish_def)
next
  case (guard_restarts g)
  show ?thesis unfolding guard_restarts by (rule replay_inv_restart [OF assms(2)])
next
  case (other_record key)
  have good: "bucket_good (rw_bucket w)" using assms(2) by (simp add: replay_inv_def incarnations_ok_def)
  obtain r b where "kv_create (kv_elapsed (rw_bucket w)) key () (Some (rg_ttl (rf_guard fl))) (rw_bucket w) = (r, b)"
    by fastforce
  then have "replay_inv fl x w'"
    using other_record replay_inv_evolves [OF assms(2) kv_create_evolves(1) [OF good]] by auto
  then show ?thesis ..
next
  case (reconnected g r s b)
  have good: "bucket_good (rw_bucket w)" using assms(2) by (simp add: replay_inv_def incarnations_ok_def)
  have "b = rw_bucket w \<or> (\<exists>d. kv_date_created (kv_elapsed (rw_bucket w)) (rw_bucket w) = (d, b))"
    using reconnected(2) by (auto simp: rebind_after_reconnect_def split: if_splits prod.splits)
  then show ?thesis
    using reconnected(1) replay_inv_evolves [OF assms(2)] evolves_refl [OF good] kv_date_created_evolves(1) [OF good] by blast
next
  case (presented c g nonce at_bind at_record)
  then show ?thesis using replay_inv_presented [OF assms(2)] assms(3) by blast
next
  case (call_step c p q s b)
  show ?thesis unfolding call_step(1) by (rule replay_inv_call_step [OF assms(2) call_step(2,3,4)])
next
  case (call_unanswered c p)
  then show ?thesis using replay_inv_unanswered [OF assms(2)] by blast
qed

lemma replay_reachable_inv:
  "replay_reachable fl w \<Longrightarrow> anchor_sound fl \<Longrightarrow> \<exists>x. replay_inv fl x w"
  by (induction rule: replay_reachable.induct) (use replay_inv_start replay_inv_step in blast)+

end
