(* ===== verification/ReplayRuns.thy ===== *)
theory ReplayRuns
  imports ReplayOnce
begin

text \<open>
  What the replay guard promises a fleet, and the two runs in which an anchored guard lets a nonce in
  twice.  Runs are given as lists of events, which an executable function carries out.
\<close>

section \<open>At most once\<close>

text \<open>A deployment the guard is meant for: the verifier accepts no more of the future than the guard was
  told, every clock is within the drift allowance, a record outlives the span in which its artifact can be
  accepted, and an anchored guard reads its anchor and meets no loss within the allowance of it.\<close>

definition fleet_covered :: "replay_fleet \<Rightarrow> bool" where
  "fleet_covered fl \<longleftrightarrow>
     require_covers (rf_guard fl) (rf_future_tolerance fl) = Inr ()
     \<and> (\<forall>g. \<bar>rf_skew fl g\<bar> < CLOCK_DRIFT_ALLOWANCE)
     \<and> rf_future_tolerance fl + rf_max_age fl + rf_deadline fl + 2 * CLOCK_DRIFT_ALLOWANCE \<le> rg_ttl (rf_guard fl)
     \<and> anchor_sound fl"

text \<open>An accepted call recorded its nonce, at a time its verifier's window allows, and the incarnation it
  was judged in is not one that refuses it.\<close>

lemma accepted_call:
  assumes "replay_inv fl x w" and "call_accepted w c nonce"
  obtains p n t d where "rw_calls w c = Some p" "pr_nonce p = nonce" "rx_landed x c = Some (n, t)" "rx_began x n \<le> d"
    "rf_issued_at fl nonce \<le> t + rf_skew fl (pr_replica p) + rf_future_tolerance fl"
    "t + rf_skew fl (pr_replica p) \<le> rf_issued_at fl nonce + rf_max_age fl + rf_deadline fl"
    "rg_has_anchor (rf_guard fl) \<and> (\<exists>first. rw_anchor w = Some first \<and> d - CLOCK_DRIFT_ALLOWANCE \<le> first)
     \<or> d + rg_verifier_future_tolerance (rf_guard fl) + CLOCK_DRIFT_ALLOWANCE \<le> rf_issued_at fl nonce"
proof -
  obtain p where p: "rw_calls w c = Some p" "pr_nonce p = nonce" "accepts (pr_prog p)"
    using assms(2) by (auto simp: call_accepted_def split: option.splits)
  then have prog: "pr_prog p = Return True" by (cases "pr_prog p") auto
  have "call_ok fl x w c p" using assms(1) p(1) unfolding replay_inv_def by blast
  then obtain d first n t where j: "\<not> refused (rf_guard fl) first d (rf_issued_at fl nonce)"
    "rx_landed x c = Some (n, t)" "rx_began x n \<le> d" "\<And>f. first = Some f \<Longrightarrow> rw_anchor w = Some f"
    "verifier_accepts fl (pr_checked_at p + rf_skew fl (pr_replica p)) nonce"
    by (auto simp: call_ok_def prog p(2))
  have "record_ok fl x w c n t" using assms(1) j(2) unfolding replay_inv_def by blast
  then have t: "pr_checked_at p \<le> t" "t \<le> pr_checked_at p + rf_deadline fl" using p(1) by (auto simp: record_ok_def)
  show thesis
  proof (rule that [OF p(1,2) j(2,3)])
    show "rf_issued_at fl nonce \<le> t + rf_skew fl (pr_replica p) + rf_future_tolerance fl"
      "t + rf_skew fl (pr_replica p) \<le> rf_issued_at fl nonce + rf_max_age fl + rf_deadline fl"
      using j(5) t by (simp_all add: verifier_accepts_def)
    show "rg_has_anchor (rf_guard fl) \<and> (\<exists>first. rw_anchor w = Some first \<and> d - CLOCK_DRIFT_ALLOWANCE \<le> first)
      \<or> d + rg_verifier_future_tolerance (rf_guard fl) + CLOCK_DRIFT_ALLOWANCE \<le> rf_issued_at fl nonce"
      using j(1,4) by (auto simp: refused_def split: option.splits)
  qed
qed

text \<open>A call judged in a later incarnation than the one an accepted call recorded in is refused.\<close>

lemma later_incarnation_refuses:
  assumes inv: "replay_inv fl x w" and cov: "fleet_covered fl"
    and landed: "rx_landed x c = Some (n, t)" "rx_landed x c' = Some (n', t')"
    and p: "rf_issued_at fl nonce \<le> t + rf_skew fl g + rf_future_tolerance fl"
    and d: "rx_began x n' \<le> d"
      "rg_has_anchor (rf_guard fl) \<and> (\<exists>first. rw_anchor w = Some first \<and> d - CLOCK_DRIFT_ALLOWANCE \<le> first)
       \<or> d + rg_verifier_future_tolerance (rf_guard fl) + CLOCK_DRIFT_ALLOWANCE \<le> rf_issued_at fl nonce"
  shows "\<not> n < n'"
proof
  assume less: "n < n'"
  have "record_ok fl x w c n t" "record_ok fl x w c' n' t'" using inv landed unfolding replay_inv_def by blast+
  then have began: "t \<le> rx_began x n'"
    "\<And>first. rg_has_anchor (rf_guard fl) \<Longrightarrow> rw_anchor w = Some first \<Longrightarrow> first + CLOCK_DRIFT_ALLOWANCE < rx_began x n'"
    using less by (auto simp: record_ok_def)
  have "rf_skew fl g < CLOCK_DRIFT_ALLOWANCE" "rf_future_tolerance fl \<le> rg_verifier_future_tolerance (rf_guard fl)"
    using cov unfolding fleet_covered_def by (auto simp: require_covers_def abs_less_iff split: if_splits)
  then show False using d p began by (auto dest: began(2))
qed


section \<open>Runs\<close>

datatype replay_event =
    Passes int
  | Wiped
  | Presents nat nat string bool
  | Runs nat nat

text \<open>\<open>Presents c g nonce answers\<close>: \<open>answers\<close> says whether the anchor's storage answers this call.
  \<open>Runs c k\<close> runs \<open>k\<close> nodes of it.\<close>

primrec run_nodes :: "replay_fleet \<Rightarrow> nat \<Rightarrow> nat \<Rightarrow> replay_world \<Rightarrow> replay_world option" where
  "run_nodes fl c 0 w = Some w"
| "run_nodes fl c (Suc k) w =
     (case rw_calls w c of
        None \<Rightarrow> None
      | Some p \<Rightarrow>
          if kv_elapsed (rw_bucket w) \<le> pr_checked_at p + rf_deadline fl
          then (case prog_step (rf_skew fl (pr_replica p)) (pr_prog p) (guard_state w (pr_replica p)) (rw_bucket w) of
                  None \<Rightarrow> None
                | Some (q, s, b) \<Rightarrow>
                    run_nodes fl c k (w\<lparr>rw_bucket := b, rw_guards := (rw_guards w)(pr_replica p := s),
                      rw_anchor := rs_anchor s, rw_calls := (rw_calls w)(c \<mapsto> p\<lparr>pr_prog := q\<rparr>)\<rparr>))
          else None)"

fun happens :: "replay_fleet \<Rightarrow> replay_event \<Rightarrow> replay_world \<Rightarrow> replay_world option" where
  "happens fl (Passes d) w =
     (if 0 \<le> d then Some (w\<lparr>rw_bucket := kv_advance_clock d (rw_bucket w)\<rparr>) else None)"
| "happens fl Wiped w =
     (if may_lose fl w then Some (w\<lparr>rw_bucket := kv_wipe (kv_elapsed (rw_bucket w)) (rw_bucket w)\<rparr>) else None)"
| "happens fl (Presents c g nonce answers) w =
     (if rw_calls w c = None \<and> verifier_accepts fl (kv_elapsed (rw_bucket w) + rf_skew fl g) nonce
         \<and> (answers \<or> rf_anchor_fails fl)
      then Some (w\<lparr>rw_calls := (rw_calls w)(c \<mapsto>
        \<lparr>pr_replica = g, pr_nonce = nonce, pr_checked_at = kv_elapsed (rw_bucket w),
         pr_prog = record_unique (rf_guard fl) (rf_digest fl) answers answers nonce (Aware (rf_issued_at fl nonce))\<rparr>)\<rparr>)
      else None)"
| "happens fl (Runs c k) w = run_nodes fl c k w"

fun replay_events :: "replay_fleet \<Rightarrow> replay_event list \<Rightarrow> replay_world \<Rightarrow> replay_world option" where
  "replay_events fl [] w = Some w"
| "replay_events fl (e # es) w = (case happens fl e w of None \<Rightarrow> None | Some w' \<Rightarrow> replay_events fl es w')"

lemma run_nodes_reachable: "replay_reachable fl w \<Longrightarrow> run_nodes fl c k w = Some w' \<Longrightarrow> replay_reachable fl w'"
proof (induction k arbitrary: w)
  case (Suc k)
  then show ?case
    by (auto split: option.splits if_splits prod.splits
        intro!: Suc.IH [OF replay_reachable.step [OF Suc.prems(1) replay_step.call_step]])
qed simp

lemma happens_reachable: "replay_reachable fl w \<Longrightarrow> happens fl e w = Some w' \<Longrightarrow> replay_reachable fl w'"
  by (cases e) (auto split: if_splits intro: run_nodes_reachable replay_reachable.step replay_step.intros)

lemma replay_events_reachable: "replay_reachable fl w \<Longrightarrow> replay_events fl es w = Some w' \<Longrightarrow> replay_reachable fl w'"
  by (induction es arbitrary: w) (auto split: option.splits dest: happens_reachable)

definition plain_fleet :: replay_fleet where
  "plain_fleet =
     \<lparr>rf_guard = \<lparr>rg_key_scope = None, rg_ttl = 400 * SECOND, rg_verifier_future_tolerance = 60 * SECOND, rg_has_anchor = False,
        rg_create_if_missing = True\<rparr>,
      rf_digest = (\<lambda>n. n), rf_issued_at = (\<lambda>_. 100 * SECOND), rf_skew = (\<lambda>_. 0), rf_future_tolerance = 60 * SECOND,
      rf_max_age = 300 * SECOND, rf_deadline = 30 * SECOND, rf_anchor_fails = False, rf_early_loss = True\<rparr>"

definition twice :: "replay_event list" where
  "twice = [Passes (100 * SECOND), Presents 0 0 ''n'' True, Presents 1 1 ''n'' True, Runs 0 8, Runs 1 6]"

definition accepted_of_run :: "replay_fleet \<Rightarrow> replay_event list \<Rightarrow> (bool \<times> bool) option" where
  "accepted_of_run fl es =
     map_option (\<lambda>w. (call_accepted w 0 ''n'', call_accepted w 1 ''n'')) (replay_events fl es (replay_start 0 True))"

lemma accepted_of_run_reachable:
  assumes "accepted_of_run fl es = Some (a, a')"
  obtains w where "replay_reachable fl w" "call_accepted w 0 ''n'' = a" "call_accepted w 1 ''n'' = a'"
proof -
  obtain w where w: "replay_events fl es (replay_start 0 True) = Some w" "call_accepted w 0 ''n'' = a" "call_accepted w 1 ''n'' = a'"
    using assms by (auto simp: accepted_of_run_def)
  show thesis by (rule that [OF replay_events_reachable [OF replay_reachable.start w(1)] w(2,3)])
qed

lemma twice_runs: "accepted_of_run plain_fleet twice = Some (True, False)"
  by code_simp


section \<open>Where an anchor lets a nonce in twice\<close>

definition anchored_fleet :: "bool \<Rightarrow> bool \<Rightarrow> replay_fleet" where
  "anchored_fleet anchor_fails early_loss =
     plain_fleet\<lparr>rf_guard := (rf_guard plain_fleet)\<lparr>rg_has_anchor := True\<rparr>,
       rf_anchor_fails := anchor_fails, rf_early_loss := early_loss\<rparr>"



end
