(* ===== verification/Sha256.thy ===== *)
theory Sha256
  imports PyText
begin

text \<open>
  \<open>hashlib.sha256(value.encode("utf-8")).hexdigest()\<close>, which the program uses to turn any string into one
  subject token.  Messages are lists of bytes and the compression runs on 32-bit words, whose addition
  wraps.  What the program relies on is proved: a digest is 64 lower-case hex characters.
\<close>

unbundle bit_operations_syntax

section \<open>Bytes\<close>

text \<open>\<open>str.encode("utf-8")\<close> on the characters of Latin-1.\<close>

definition utf8_char :: "char \<Rightarrow> nat list" where
  "utf8_char c = (let n = of_char c in if n < 128 then [n] else [192 + n div 64, 128 + n mod 64])"

definition utf8_encode :: "string \<Rightarrow> nat list" where
  "utf8_encode s = concat (map utf8_char s)"

text \<open>A number as so many bytes, the highest first.\<close>

fun big_endian :: "nat \<Rightarrow> nat \<Rightarrow> nat list" where
  "big_endian 0 v = []"
| "big_endian (Suc k) v = big_endian k (v div 256) @ [v mod 256]"

definition padded :: "nat list \<Rightarrow> nat list" where
  "padded msg =
     msg @ [128] @ replicate ((119 - length msg mod 64) mod 64) 0 @ big_endian 8 (8 * length msg)"

fun words_of :: "nat list \<Rightarrow> 32 word list" where
  "words_of (a # b # c # d # rest) = of_nat (((a * 256 + b) * 256 + c) * 256 + d) # words_of rest"
| "words_of _ = []"

section \<open>Compression\<close>

definition sha_constants :: "32 word list" where
  "sha_constants = [
    1116352408, 1899447441, 3049323471, 3921009573, 961987163, 1508970993, 2453635748, 2870763221,
    3624381080, 310598401, 607225278, 1426881987, 1925078388, 2162078206, 2614888103, 3248222580,
    3835390401, 4022224774, 264347078, 604807628, 770255983, 1249150122, 1555081692, 1996064986,
    2554220882, 2821834349, 2952996808, 3210313671, 3336571891, 3584528711, 113926993, 338241895,
    666307205, 773529912, 1294757372, 1396182291, 1695183700, 1986661051, 2177026350, 2456956037,
    2730485921, 2820302411, 3259730800, 3345764771, 3516065817, 3600352804, 4094571909, 275423344,
    430227734, 506948616, 659060556, 883997877, 958139571, 1322822218, 1537002063, 1747873779, 1955562222,
    2024104815, 2227730452, 2361852424, 2428436474, 2756734187, 3204031479, 3329325298]"

definition sha_start :: "32 word list" where
  "sha_start = [
    1779033703, 3144134277, 1013904242, 2773480762, 1359893119, 2600822924, 528734635, 1541459225]"

definition rotated :: "nat \<Rightarrow> 32 word \<Rightarrow> 32 word" where
  "rotated n x = drop_bit n x OR push_bit (32 - n) x"

text \<open>The schedule, latest word first.\<close>

fun extended :: "nat \<Rightarrow> 32 word list \<Rightarrow> 32 word list" where
  "extended 0 ws = ws"
| "extended (Suc k) ws =
     (let x = ws ! 14;
          y = ws ! 1;
          s0 = rotated 7 x XOR rotated 18 x XOR drop_bit 3 x;
          s1 = rotated 17 y XOR rotated 19 y XOR drop_bit 10 y
      in extended k ((ws ! 15 + s0 + ws ! 6 + s1) # ws))"

fun sha_round :: "32 word list \<Rightarrow> 32 word \<times> 32 word \<Rightarrow> 32 word list" where
  "sha_round [a, b, c, d, e, f, g, h] (k, w) =
     (let s1 = rotated 6 e XOR rotated 11 e XOR rotated 25 e;
          choice = (e AND f) XOR (NOT e AND g);
          t1 = h + s1 + choice + k + w;
          s0 = rotated 2 a XOR rotated 13 a XOR rotated 22 a;
          majority = (a AND b) XOR (a AND c) XOR (b AND c)
      in [t1 + s0 + majority, a, b, c, d + t1, e, f, g])"
| "sha_round st _ = st"

definition compress :: "32 word list \<Rightarrow> 32 word list \<Rightarrow> 32 word list" where
  "compress st block =
     map2 (+) st (foldl sha_round st (zip sha_constants (rev (extended 48 (rev block)))))"

text \<open>The blocks of a padded message.\<close>

fun compress_blocks :: "nat \<Rightarrow> 32 word list \<Rightarrow> 32 word list \<Rightarrow> 32 word list" where
  "compress_blocks 0 st ws = st"
| "compress_blocks (Suc k) st ws = compress_blocks k (compress st (take 16 ws)) (drop 16 ws)"

definition sha256 :: "nat list \<Rightarrow> 32 word list" where
  "sha256 msg = (let ws = words_of (padded msg) in compress_blocks (length ws div 16) sha_start ws)"

definition sha256_hexdigest :: "nat list \<Rightarrow> string" where
  "sha256_hexdigest msg = concat (map (\<lambda>w. hex_digits 8 (unat w)) (sha256 msg))"

section \<open>What a digest looks like\<close>

lemma length_sha_round [simp]: "length (sha_round st kw) = length st"
  by (cases "(st, kw)" rule: sha_round.cases) (auto simp: Let_def)

lemma length_sha_rounds [simp]: "length (foldl sha_round st kws) = length st"
  by (induction kws arbitrary: st) simp_all

lemma length_compress_blocks: "length st = 8 \<Longrightarrow> length (compress_blocks k st ws) = 8"
  by (induction k arbitrary: st ws) (simp_all add: compress_def)

lemma length_sha256: "length (sha256 msg) = 8"
  by (simp add: sha256_def Let_def length_compress_blocks sha_start_def)

lemma sha256_hexdigest_length: "length (sha256_hexdigest msg) = 64"
proof -
  have "sum_list (map (\<lambda>w. length (hex_digits 8 (unat w))) (sha256 msg)) = 64"
    by (simp add: length_sha256 sum_list_triv)
  then show ?thesis by (simp add: sha256_hexdigest_def length_concat comp_def)
qed

lemma sha256_hexdigest_chars: "set (sha256_hexdigest msg) \<subseteq> hex_chars"
  unfolding sha256_hexdigest_def using hex_digits_chars [of 8] by fastforce

end
