(* ===== verification/NatsSubjects.thy ===== *)
theory NatsSubjects
  imports Complex_Main Namespaces Sha256
begin

text \<open>
  The subject builders of \<open>threetears.nats.subjects\<close>: one definition per builder of the \<open>Subjects\<close>
  factory, over the namespace prefix the process is configured with, the parsers of pod ids and audit
  subjects, and the delivery rules of \<open>threetears.nats.result_delivery\<close>.  An f-string of tokens is
  \<open>dotted\<close> of the list of its parts; an id argument is its \<open>str\<close>.
\<close>

section \<open>Namespace and segments\<close>

datatype nats_error = NatsValueError | NatsTypeError | NamespaceNotConfiguredError

datatype SubjectKind = SUBJECT_POINT | SUBJECT_PATTERN | SUBJECT_REPLY

record Subject =
  sub_path :: string
  sub_kind :: SubjectKind

definition dotted :: "string list \<Rightarrow> string" where
  "dotted parts = join_on (CHR ''.'') parts"

definition tokens :: "string \<Rightarrow> string list" where
  "tokens subject = split_on (CHR ''.'') subject"

abbreviation point :: "string list \<Rightarrow> Subject" where
  "point parts \<equiv> \<lparr>sub_path = dotted parts, sub_kind = SUBJECT_POINT\<rparr>"

abbreviation pattern :: "string list \<Rightarrow> Subject" where
  "pattern parts \<equiv> \<lparr>sub_path = dotted parts, sub_kind = SUBJECT_PATTERN\<rparr>"

definition Subject_raw :: "string \<Rightarrow> SubjectKind \<Rightarrow> nats_error + Subject" where
  "Subject_raw full_subject kind =
     (if full_subject = [] then Inl NatsValueError else Inr \<lparr>sub_path = full_subject, sub_kind = kind\<rparr>)"

text \<open>The process-wide default, and the environment variable behind it.\<close>

definition set_default_namespace :: "string \<Rightarrow> nats_error + string option" where
  "set_default_namespace namespace = (if namespace = [] then Inl NatsValueError else Inr (Some namespace))"

definition get_default_namespace :: "string option \<Rightarrow> string option \<Rightarrow> nats_error + string" where
  "get_default_namespace configured env =
     (case configured of
        Some namespace \<Rightarrow> Inr namespace
      | None \<Rightarrow>
          (case env of
             None \<Rightarrow> Inl NamespaceNotConfiguredError
           | Some value \<Rightarrow> if value = [] then Inl NamespaceNotConfiguredError else Inr value))"

definition digest_token :: "string \<Rightarrow> string" where
  "digest_token value = sha256_hexdigest (utf8_encode value)"

definition routing_token :: "string \<Rightarrow> string" where
  "routing_token pod_id = dotted (map sanitize_subject_segment (tokens pod_id))"

section \<open>Agents and tools\<close>

definition agent_register :: "string \<Rightarrow> Subject" where
  "agent_register ns = point [ns, ''agents'', ''register'']"

definition agent_deregister :: "string \<Rightarrow> Subject" where
  "agent_deregister ns = point [ns, ''agents'', ''deregister'']"

definition agent_heartbeat :: "string \<Rightarrow> string \<Rightarrow> string \<Rightarrow> Subject" where
  "agent_heartbeat ns agent_id pod_id = point [ns, ''agents'', ''heartbeat'', sanitize_subject_segment agent_id, sanitize_subject_segment pod_id]"

definition agent_heartbeat_wildcard :: "string \<Rightarrow> Subject" where
  "agent_heartbeat_wildcard ns = pattern [ns, ''agents'', ''heartbeat'', ''>'']"

definition agent_reregister_request :: "string \<Rightarrow> string \<Rightarrow> string \<Rightarrow> Subject" where
  "agent_reregister_request ns agent_id pod_id = point [ns, ''agents'', ''reregister_request'', sanitize_subject_segment agent_id, sanitize_subject_segment pod_id]"

definition agent_route :: "string \<Rightarrow> string \<Rightarrow> Subject" where
  "agent_route ns agent_id = point [ns, ''agents'', ''route'', sanitize_subject_segment agent_id]"

definition agent_route_wildcard :: "string \<Rightarrow> Subject" where
  "agent_route_wildcard ns = pattern [ns, ''agents'', ''route'', ''>'']"

definition agent_internal :: "string \<Rightarrow> string \<Rightarrow> string \<Rightarrow> Subject" where
  "agent_internal ns agent_id pod_id = point [ns, ''agents'', ''internal'', sanitize_subject_segment agent_id, sanitize_subject_segment pod_id]"

definition agent_turn :: "string \<Rightarrow> string \<Rightarrow> Subject" where
  "agent_turn ns agent_id = point [ns, ''agents'', ''turn'', sanitize_subject_segment agent_id]"

definition agent_turn_wildcard :: "string \<Rightarrow> Subject" where
  "agent_turn_wildcard ns = pattern [ns, ''agents'', ''turn'', ''>'']"

definition agent_turn_deadletter :: "string \<Rightarrow> Subject" where
  "agent_turn_deadletter ns = point [ns, ''agents'', ''turn-deadletter'']"

definition agent_complete :: "string \<Rightarrow> string \<Rightarrow> Subject" where
  "agent_complete ns correlation_id = point [ns, ''agents'', ''complete'', sanitize_subject_segment correlation_id]"

definition agent_reply :: "string \<Rightarrow> string \<Rightarrow> Subject" where
  "agent_reply ns correlation_id = point [ns, ''agents'', ''reply'', sanitize_subject_segment correlation_id]"

definition tools_register :: "string \<Rightarrow> Subject" where
  "tools_register ns = point [ns, ''tools'', ''register'']"

definition tools_heartbeat :: "string \<Rightarrow> string \<Rightarrow> Subject" where
  "tools_heartbeat ns pod_id = point [ns, ''tools'', ''heartbeat'', routing_token pod_id]"

definition tools_heartbeat_wildcard :: "string \<Rightarrow> Subject" where
  "tools_heartbeat_wildcard ns = pattern [ns, ''tools'', ''heartbeat'', ''>'']"

definition tools_heartbeat_agent_subtree :: "string \<Rightarrow> string \<Rightarrow> Subject" where
  "tools_heartbeat_agent_subtree ns agent_id = pattern [ns, ''tools'', ''heartbeat'', sanitize_subject_segment agent_id, ''>'']"

definition tools_discover :: "string \<Rightarrow> Subject" where
  "tools_discover ns = point [ns, ''tools'', ''discover'']"

definition tools_call :: "string \<Rightarrow> Subject" where
  "tools_call ns = point [ns, ''tools'', ''call'']"

definition tools_internal :: "string \<Rightarrow> string \<Rightarrow> Subject" where
  "tools_internal ns pod_id = point [ns, ''tools'', ''internal'', routing_token pod_id]"

definition tools_internal_wildcard :: "string \<Rightarrow> Subject" where
  "tools_internal_wildcard ns = pattern [ns, ''tools'', ''internal'', ''>'']"

definition tools_internal_agent_subtree :: "string \<Rightarrow> string \<Rightarrow> Subject" where
  "tools_internal_agent_subtree ns agent_id = pattern [ns, ''tools'', ''internal'', sanitize_subject_segment agent_id, ''>'']"

definition tools_probe :: "string \<Rightarrow> string \<Rightarrow> Subject" where
  "tools_probe ns pod_id = point [ns, ''tools'', ''probe'', routing_token pod_id]"

definition tools_probe_wildcard :: "string \<Rightarrow> Subject" where
  "tools_probe_wildcard ns = pattern [ns, ''tools'', ''probe'', ''>'']"

definition tools_probe_agent_subtree :: "string \<Rightarrow> string \<Rightarrow> Subject" where
  "tools_probe_agent_subtree ns agent_id = pattern [ns, ''tools'', ''probe'', sanitize_subject_segment agent_id, ''>'']"

text \<open>The pod id of an agent's in-process tool server, and the agent a routing pod id belongs to.\<close>

definition agent_inprocess_pod_id :: "uuid \<Rightarrow> string \<Rightarrow> string" where
  "agent_inprocess_pod_id agent_id instance_id = dotted [uuid_str agent_id, sanitize_subject_segment instance_id]"

definition agent_inprocess_owner_id :: "string \<Rightarrow> nats_error + uuid option" where
  "agent_inprocess_owner_id pod_id =
     (if [] \<in> set (tokens pod_id) then Inl NatsValueError
      else if length (tokens pod_id) = 1 then Inr None
      else case uuid_parse (hd (tokens pod_id)) of
             None \<Rightarrow> Inl NatsValueError
           | Some owner \<Rightarrow>
               if uuid_str owner \<noteq> hd (tokens pod_id) then Inl NatsValueError else Inr (Some owner))"

definition tools_result :: "string \<Rightarrow> string \<Rightarrow> string \<Rightarrow> Subject" where
  "tools_result ns pod_id call_id = point [ns, ''tools'', ''result'', routing_token pod_id, sanitize_subject_segment call_id]"

definition tools_result_pod_wildcard :: "string \<Rightarrow> string \<Rightarrow> Subject" where
  "tools_result_pod_wildcard ns pod_id = pattern [ns, ''tools'', ''result'', routing_token pod_id, ''>'']"

definition tools_result_agent_subtree :: "string \<Rightarrow> string \<Rightarrow> Subject" where
  "tools_result_agent_subtree ns agent_id = pattern [ns, ''tools'', ''result'', sanitize_subject_segment agent_id, ''>'']"

definition tools_result_wildcard :: "string \<Rightarrow> Subject" where
  "tools_result_wildcard ns = pattern [ns, ''tools'', ''result'', ''>'']"

definition tools_reply :: "string \<Rightarrow> string \<Rightarrow> string \<Rightarrow> Subject" where
  "tools_reply ns agent_id call_id = point [ns, ''tools'', ''reply'', sanitize_subject_segment agent_id, sanitize_subject_segment call_id]"

definition tools_reply_agent_subtree :: "string \<Rightarrow> string \<Rightarrow> Subject" where
  "tools_reply_agent_subtree ns agent_id = pattern [ns, ''tools'', ''reply'', sanitize_subject_segment agent_id, ''*'']"

definition tools_reply_wildcard :: "string \<Rightarrow> Subject" where
  "tools_reply_wildcard ns = pattern [ns, ''tools'', ''reply'', ''*'', ''*'']"

definition gateway_completion :: "string \<Rightarrow> Subject" where
  "gateway_completion ns = point [ns, ''gateway'', ''completion'']"

definition gateway_embedding :: "string \<Rightarrow> Subject" where
  "gateway_embedding ns = point [ns, ''gateway'', ''embedding'']"

definition gateway_health :: "string \<Rightarrow> Subject" where
  "gateway_health ns = point [ns, ''gateway'', ''health'']"

definition gateway_stream :: "string \<Rightarrow> string \<Rightarrow> string \<Rightarrow> Subject" where
  "gateway_stream ns agent_id correlation_id = point [ns, ''gateway'', ''stream'', sanitize_subject_segment agent_id, sanitize_subject_segment correlation_id]"

definition hub_handshake :: "string \<Rightarrow> Subject" where
  "hub_handshake ns = point [ns, ''hub'', ''handshake'']"

definition hub_jwks :: "string \<Rightarrow> Subject" where
  "hub_jwks ns = point [ns, ''hub'', ''jwks'']"

definition hub_secrets_request :: "string \<Rightarrow> Subject" where
  "hub_secrets_request ns = point [ns, ''hub'', ''secrets'', ''request'']"

definition hub_user_resolve :: "string \<Rightarrow> Subject" where
  "hub_user_resolve ns = point [ns, ''hub'', ''user'', ''resolve'']"

definition hub_object_commit :: "string \<Rightarrow> Subject" where
  "hub_object_commit ns = point [ns, ''hub'', ''object'', ''commit'']"

definition hub_object_resolve :: "string \<Rightarrow> Subject" where
  "hub_object_resolve ns = point [ns, ''hub'', ''object'', ''resolve'']"

definition hub_memory_namespace_ensure :: "string \<Rightarrow> Subject" where
  "hub_memory_namespace_ensure ns = point [ns, ''hub'', ''memory'', ''namespace'', ''ensure'']"

definition hub_engagement_scope :: "string \<Rightarrow> Subject" where
  "hub_engagement_scope ns = point [ns, ''hub'', ''engagement'', ''scope'']"

definition hub_audit_anonymize :: "string \<Rightarrow> Subject" where
  "hub_audit_anonymize ns = point [ns, ''hub'', ''audit'', ''anonymize'']"

definition hub_geo_layers_reloaded :: "string \<Rightarrow> Subject" where
  "hub_geo_layers_reloaded ns = point [ns, ''hub'', ''geo'', ''layers'', ''reloaded'']"

definition hub_object_store_declare :: "string \<Rightarrow> Subject" where
  "hub_object_store_declare ns = point [ns, ''hub'', ''object_store'', ''declare'']"

definition hub_object_store_retire :: "string \<Rightarrow> Subject" where
  "hub_object_store_retire ns = point [ns, ''hub'', ''object_store'', ''retire'']"

definition hub_collection_keys_purge :: "string \<Rightarrow> Subject" where
  "hub_collection_keys_purge ns = point [ns, ''hub'', ''collection_keys'', ''purge'']"

definition hub_cache_index_moved :: "string \<Rightarrow> Subject" where
  "hub_cache_index_moved ns = point [ns, ''hub'', ''cache'', ''index'', ''moved'']"

definition hub_channel_engagement_default_resolve :: "string \<Rightarrow> Subject" where
  "hub_channel_engagement_default_resolve ns = point [ns, ''hub'', ''channel'', ''engagement'', ''default'', ''resolve'']"

definition hub_approval_record :: "string \<Rightarrow> Subject" where
  "hub_approval_record ns = point [ns, ''hub'', ''approval'', ''record'']"

definition hub_approval_resolve :: "string \<Rightarrow> Subject" where
  "hub_approval_resolve ns = point [ns, ''hub'', ''approval'', ''resolve'']"

definition hub_channel_installs :: "string \<Rightarrow> Subject" where
  "hub_channel_installs ns = point [ns, ''hub'', ''channel'', ''installs'']"

definition channels_deliver :: "string \<Rightarrow> string \<Rightarrow> Subject" where
  "channels_deliver ns channel_type = point [ns, ''channels'', ''deliver'', sanitize_subject_segment channel_type]"

definition channels_deliver_wildcard :: "string \<Rightarrow> Subject" where
  "channels_deliver_wildcard ns = pattern [ns, ''channels'', ''deliver'', ''*'']"

definition hub_usage_track :: "string \<Rightarrow> Subject" where
  "hub_usage_track ns = point [ns, ''hub'', ''usage'', ''track'']"

definition hub_endpoint_usage_track :: "string \<Rightarrow> Subject" where
  "hub_endpoint_usage_track ns = point [ns, ''hub'', ''usage'', ''endpoint'']"

definition hub_stream :: "string \<Rightarrow> string \<Rightarrow> string \<Rightarrow> Subject" where
  "hub_stream ns agent_id correlation_id = point [ns, ''hub'', ''stream'', sanitize_subject_segment agent_id, sanitize_subject_segment correlation_id]"

section \<open>Audit and inbox subjects\<close>

definition TOOL_POD_AUDIT_TOKEN :: string where
  "TOOL_POD_AUDIT_TOKEN = ''tool_pod''"

definition audit_event :: "string \<Rightarrow> string \<Rightarrow> string option \<Rightarrow> nats_error + Subject" where
  "audit_event ns event_type namespace =
     (if event_type = [] then Inl NatsValueError
      else Inr (point [case namespace of Some n \<Rightarrow> n | None \<Rightarrow> ns, ''audit'', event_type]))"

definition audit_wildcard :: "string \<Rightarrow> string option \<Rightarrow> Subject" where
  "audit_wildcard ns area =
     (case area of None \<Rightarrow> pattern [ns, ''audit'', ''>''] | Some a \<Rightarrow> pattern [ns, ''audit'', a, ''>''])"

definition CREDENTIAL_REFUSAL_SUBJECT_TOKEN :: string where
  "CREDENTIAL_REFUSAL_SUBJECT_TOKEN = ''credential-refused''"

definition CREDENTIAL_RENEWAL_SUBJECT_TOKEN :: string where
  "CREDENTIAL_RENEWAL_SUBJECT_TOKEN = ''credential-renew''"

definition credential_refusal :: "string \<Rightarrow> nats_error + Subject" where
  "credential_refusal inbox_prefix =
     (if inbox_prefix = [] \<or> list_ex (\<lambda>c. c \<in> set inbox_prefix) ''*> '' then Inl NatsValueError
      else Inr (point [inbox_prefix, CREDENTIAL_REFUSAL_SUBJECT_TOKEN]))"

definition credential_renewal_request :: "string \<Rightarrow> nats_error + Subject" where
  "credential_renewal_request inbox_prefix =
     (if inbox_prefix = [] \<or> list_ex (\<lambda>c. c \<in> set inbox_prefix) ''*> '' then Inl NatsValueError
      else Inr (point [inbox_prefix, CREDENTIAL_RENEWAL_SUBJECT_TOKEN]))"

definition tool_pod_audit_wildcard :: "string \<Rightarrow> string \<Rightarrow> string option \<Rightarrow> nats_error + Subject" where
  "tool_pod_audit_wildcard ns pod_id namespace =
     (case uuid_parse pod_id of
        None \<Rightarrow> Inl NatsValueError
      | Some pod \<Rightarrow>
          Inr (pattern [case namespace of Some n \<Rightarrow> n | None \<Rightarrow> ns, ''audit'', TOOL_POD_AUDIT_TOKEN, uuid_str pod, ''>'']))"

definition removesuffix_char :: "char \<Rightarrow> string \<Rightarrow> string" where
  "removesuffix_char c s = (if s \<noteq> [] \<and> last s = c then butlast s else s)"

definition tool_pod_audit_event :: "string \<Rightarrow> string \<Rightarrow> string \<Rightarrow> string option \<Rightarrow> nats_error + Subject" where
  "tool_pod_audit_event ns pod_id event_type namespace =
     (if event_type = [] then Inl NatsValueError
      else case tool_pod_audit_wildcard ns pod_id namespace of
             Inl e \<Rightarrow> Inl e
           | Inr wildcard \<Rightarrow>
               Inr \<lparr>sub_path = removesuffix_char (CHR ''>'') (sub_path wildcard) @ event_type, sub_kind = SUBJECT_POINT\<rparr>)"

definition audit_deadletter :: "string \<Rightarrow> string option \<Rightarrow> Subject" where
  "audit_deadletter ns namespace = point [case namespace of Some n \<Rightarrow> n | None \<Rightarrow> ns, ''audit-deadletter'']"

text \<open>\<open>s.partition(".")\<close> without its separator, and the canonical form of a pod token.\<close>

fun partition_dot :: "string \<Rightarrow> string \<times> string" where
  "partition_dot [] = ([], [])"
| "partition_dot (c # cs) =
     (if c = CHR ''.'' then ([], cs) else let (a, b) = partition_dot cs in (c # a, b))"

definition POD_ID_TOKEN :: "string \<Rightarrow> bool" where
  "POD_ID_TOKEN token =
     (length token = 36
      \<and> list_all (\<lambda>i. if i \<in> {8, 13, 18, 23} then token ! i = CHR ''-'' else token ! i \<in> hex_chars) [0..<36])"

definition parse_tool_pod_audit_subject :: "string \<Rightarrow> string \<Rightarrow> (uuid \<times> string) option" where
  "parse_tool_pod_audit_subject subject namespace =
     (let pre = dotted [namespace, ''audit'', TOOL_POD_AUDIT_TOKEN, []]
      in if prefix pre subject
         then (let (pod_token, event_type) = partition_dot (drop (length pre) subject)
               in if POD_ID_TOKEN pod_token \<and> event_type \<noteq> []
                  then map_option (\<lambda>pod. (pod, event_type)) (uuid_parse pod_token) else None)
         else None)"

section \<open>Workspaces, operation logs, rooms, forwards and pipes\<close>

definition workspaces_create :: "string \<Rightarrow> Subject" where
  "workspaces_create ns = point [ns, ''workspaces'', ''create'']"

definition oplog :: "string \<Rightarrow> string \<Rightarrow> string \<Rightarrow> nats_error + Subject" where
  "oplog ns repo branch =
     (if repo = [] then Inl NatsValueError
      else if branch = [] then Inl NatsValueError
      else Inr (point [ns, ''oplog'', sanitize_subject_segment repo, sanitize_subject_segment branch]))"

definition git_store_advanced :: "string \<Rightarrow> Subject" where
  "git_store_advanced ns = point [ns, ''git-store'', ''advanced'']"

definition room :: "string \<Rightarrow> string \<Rightarrow> nats_error + Subject" where
  "room ns room_id =
     (if room_id = [] then Inl NatsValueError else Inr (point [ns, ''channels'', ''room'', digest_token room_id]))"

definition forward :: "string \<Rightarrow> string \<Rightarrow> nats_error + Subject" where
  "forward ns key = (if key = [] then Inl NatsValueError else Inr (point [ns, ''forward'', digest_token key]))"

definition forward_scoped :: "string \<Rightarrow> string \<Rightarrow> string \<Rightarrow> nats_error + Subject" where
  "forward_scoped ns family key =
     (if family = [] then Inl NatsValueError
      else if key = [] then Inl NatsValueError
      else Inr (point [ns, ''forward'', digest_token family, digest_token key]))"

definition forward_scoped_wildcard :: "string \<Rightarrow> string \<Rightarrow> nats_error + Subject" where
  "forward_scoped_wildcard ns family =
     (if family = [] then Inl NatsValueError else Inr (pattern [ns, ''forward'', digest_token family, ''*'']))"

definition provider_node :: "string \<Rightarrow> nats_error + string" where
  "provider_node owned_node = map_sum (\<lambda>_. NatsValueError) (\<lambda>n. n) (tool_provider_node owned_node)"

definition hitl_pipe_family :: "string \<Rightarrow> nats_error + string" where
  "hitl_pipe_family owned_node = map_sum (\<lambda>e. e) (\<lambda>node. ''hitl-pipe-'' @ node) (provider_node owned_node)"

definition hitl_forward_family :: "string \<Rightarrow> nats_error + string" where
  "hitl_forward_family owned_node = map_sum (\<lambda>e. e) (\<lambda>node. ''hitl-'' @ node) (provider_node owned_node)"

definition pipe :: "string \<Rightarrow> string \<Rightarrow> string \<Rightarrow> string \<Rightarrow> string \<Rightarrow> nats_error + Subject" where
  "pipe ns owned_node pod_id nonce direction =
     (case provider_node owned_node of
        Inl e \<Rightarrow> Inl e
      | Inr node \<Rightarrow>
          if nonce = [] then Inl NatsValueError
          else Inr (point [ns, ''pipe'', digest_token node, sanitize_subject_segment pod_id,
                           sanitize_subject_segment nonce, direction]))"

definition pipe_pod_wildcard :: "string \<Rightarrow> string \<Rightarrow> string \<Rightarrow> string \<Rightarrow> nats_error + Subject" where
  "pipe_pod_wildcard ns owned_node pod_id direction =
     map_sum (\<lambda>e. e) (\<lambda>node. pattern [ns, ''pipe'', digest_token node, sanitize_subject_segment pod_id, ''*'', direction])
       (provider_node owned_node)"

definition forward_scoped_any_family :: "string \<Rightarrow> Subject" where
  "forward_scoped_any_family ns = pattern [ns, ''forward'', ''*'', ''*'']"

definition pipe_any_pod_wildcard :: "string \<Rightarrow> string \<Rightarrow> Subject" where
  "pipe_any_pod_wildcard ns direction = pattern [ns, ''pipe'', ''*'', ''*'', ''*'', direction]"

definition knowledge_draft :: "string \<Rightarrow> Subject" where
  "knowledge_draft ns = point [ns, ''knowledge'', ''draft'']"

section \<open>Storage, access control and epochs\<close>

text \<open>\<open>namespace or _ns()\<close>: an empty namespace is replaced too.\<close>

definition namespace_or :: "string option \<Rightarrow> string \<Rightarrow> string" where
  "namespace_or namespace ns = (case namespace of None \<Rightarrow> ns | Some n \<Rightarrow> if n = [] then ns else n)"

definition l3_query :: "string \<Rightarrow> string option \<Rightarrow> Subject" where
  "l3_query ns namespace = point [namespace_or namespace ns, ''l3'', ''query'']"

definition l3_batch :: "string \<Rightarrow> string option \<Rightarrow> Subject" where
  "l3_batch ns namespace = point [namespace_or namespace ns, ''l3'', ''batch'']"

definition l3_truncate :: "string \<Rightarrow> string option \<Rightarrow> Subject" where
  "l3_truncate ns namespace = point [namespace_or namespace ns, ''l3'', ''truncate'']"

definition l3_load_files :: "string \<Rightarrow> string option \<Rightarrow> Subject" where
  "l3_load_files ns namespace = point [namespace_or namespace ns, ''l3'', ''load_files'']"

definition l3_tx :: "string \<Rightarrow> string \<Rightarrow> string option \<Rightarrow> Subject" where
  "l3_tx ns tx_op namespace = point [namespace_or namespace ns, ''l3'', ''tx'', tx_op]"

definition datasource_query :: "string \<Rightarrow> string \<Rightarrow> nats_error + Subject" where
  "datasource_query ns name =
     (if name = [] then Inl NatsValueError else Inr (point [ns, ''datasource'', sanitize_subject_segment name, ''query'']))"

definition cache_invalidate :: Subject where
  "cache_invalidate = point [''threetears'', ''cache'', ''invalidate'']"

definition datasource_tile_epoch :: "string \<Rightarrow> string \<Rightarrow> string \<Rightarrow> nats_error + Subject" where
  "datasource_tile_epoch ns datasource_id layer =
     (if datasource_id = [] then Inl NatsValueError
      else if layer = [] then Inl NatsValueError
      else Inr (point [ns, ''datasource'', sanitize_subject_segment datasource_id, ''tiles'',
                       sanitize_subject_segment layer, ''epoch'']))"

definition acl_invalidate :: "string \<Rightarrow> string \<Rightarrow> Subject" where
  "acl_invalidate ns kind = point [ns, ''acl'', kind, ''invalidate'']"

definition namespace_discover :: "string \<Rightarrow> Subject" where
  "namespace_discover ns = point [ns, ''namespace'', ''discover'']"

definition datasource_query_wildcard :: "string \<Rightarrow> Subject" where
  "datasource_query_wildcard ns = pattern [ns, ''datasource'', ''*'', ''query'']"

definition capabilities_epoch :: "string \<Rightarrow> Subject" where
  "capabilities_epoch ns = point [ns, ''capabilities'', ''epoch'']"

definition gateway_catalog_epoch :: "string \<Rightarrow> Subject" where
  "gateway_catalog_epoch ns = point [ns, ''gateway'', ''catalog'', ''epoch'']"

definition collection_generation_epoch :: "string \<Rightarrow> string \<Rightarrow> Subject" where
  "collection_generation_epoch ns table_name = point [ns, ''collections'', table_name, ''epoch'']"

definition mcp_rbac_epoch :: "string \<Rightarrow> Subject" where
  "mcp_rbac_epoch ns = point [ns, ''mcp'', ''rbac'', ''epoch'']"

definition identity_epoch :: "string \<Rightarrow> Subject" where
  "identity_epoch ns = point [ns, ''identity'', ''epoch'']"

definition deadletter :: "string \<Rightarrow> string \<Rightarrow> Subject" where
  "deadletter ns original_path = point [ns, ''deadletter'', original_path]"

section \<open>Durable results\<close>

definition RESULT_STREAM_SUFFIX :: string where
  "RESULT_STREAM_SUFFIX = ''tools-results''"

definition SYNC_REPLY_BUDGET_SECONDS :: int where
  "SYNC_REPLY_BUDGET_SECONDS = 30"

text \<open>A timeout in seconds, an unknown one being long.\<close>

definition requires_async_result :: "rat option \<Rightarrow> bool" where
  "requires_async_result timeout_seconds =
     (case timeout_seconds of None \<Rightarrow> True | Some t \<Rightarrow> t > of_int SYNC_REPLY_BUDGET_SECONDS)"

definition result_stream_name :: "string \<Rightarrow> string" where
  "result_stream_name ns = ns @ ''-'' @ RESULT_STREAM_SUFFIX"

definition result_subject_prefix_for_pod :: "string \<Rightarrow> string \<Rightarrow> string" where
  "result_subject_prefix_for_pod ns pod_id = removesuffix_char (CHR ''>'') (sub_path (tools_result_pod_wildcard ns pod_id))"

definition reply_subject_prefix_for_agent :: "string \<Rightarrow> string \<Rightarrow> string" where
  "reply_subject_prefix_for_agent ns agent_id = removesuffix_char (CHR ''*'') (sub_path (tools_reply_agent_subtree ns agent_id))"

definition is_single_token_under :: "string \<Rightarrow> string \<Rightarrow> bool" where
  "is_single_token_under subject pre =
     (if prefix pre subject
      then (let tail = drop (length pre) subject
            in tail \<noteq> [] \<and> CHR ''.'' \<notin> set tail \<and> CHR ''*'' \<notin> set tail \<and> CHR ''>'' \<notin> set tail)
      else False)"

definition result_subject_is_owned_by_pod :: "string \<Rightarrow> string \<Rightarrow> string \<Rightarrow> bool" where
  "result_subject_is_owned_by_pod ns subject pod_id =
     is_single_token_under subject (result_subject_prefix_for_pod ns pod_id)"

definition reply_subject_is_owned_by_agent :: "string \<Rightarrow> string \<Rightarrow> string \<Rightarrow> bool" where
  "reply_subject_is_owned_by_agent ns subject agent_id =
     is_single_token_under subject (reply_subject_prefix_for_agent ns agent_id)"

lemmas subject_defs =
  agent_register_def agent_deregister_def agent_heartbeat_def agent_heartbeat_wildcard_def
  agent_reregister_request_def agent_route_def agent_route_wildcard_def agent_internal_def
  agent_turn_def agent_turn_wildcard_def agent_turn_deadletter_def agent_complete_def
  agent_reply_def tools_register_def tools_heartbeat_def tools_heartbeat_wildcard_def
  tools_heartbeat_agent_subtree_def tools_discover_def tools_call_def tools_internal_def
  tools_internal_wildcard_def tools_internal_agent_subtree_def tools_probe_def tools_probe_wildcard_def
  tools_probe_agent_subtree_def tools_result_def tools_result_pod_wildcard_def tools_result_agent_subtree_def
  tools_result_wildcard_def tools_reply_def tools_reply_agent_subtree_def tools_reply_wildcard_def
  gateway_completion_def gateway_embedding_def gateway_health_def gateway_stream_def
  hub_handshake_def hub_jwks_def hub_secrets_request_def hub_user_resolve_def
  hub_object_commit_def hub_object_resolve_def hub_memory_namespace_ensure_def hub_engagement_scope_def
  hub_audit_anonymize_def hub_geo_layers_reloaded_def hub_object_store_declare_def hub_object_store_retire_def
  hub_collection_keys_purge_def hub_cache_index_moved_def hub_channel_engagement_default_resolve_def hub_approval_record_def
  hub_approval_resolve_def hub_channel_installs_def channels_deliver_def channels_deliver_wildcard_def
  hub_usage_track_def hub_endpoint_usage_track_def hub_stream_def workspaces_create_def
  git_store_advanced_def forward_scoped_any_family_def pipe_any_pod_wildcard_def knowledge_draft_def
  acl_invalidate_def namespace_discover_def datasource_query_wildcard_def capabilities_epoch_def
  gateway_catalog_epoch_def collection_generation_epoch_def mcp_rbac_epoch_def identity_epoch_def
  deadletter_def
  l3_query_def l3_batch_def l3_truncate_def l3_load_files_def l3_tx_def cache_invalidate_def audit_wildcard_def
  namespace_or_def

end
