(* ===== verification/NatsPermissions.thy ===== *)
theory NatsPermissions
  imports NatsSubjects KeyScope
begin

text \<open>
  The per-principal allow-lists of \<open>threetears.nats.subject_permissions\<close> and the grants
  \<open>threetears.nats.user_jwt\<close> mints from them: the resources a principal declares with their validation,
  the key scopes and bucket names, one resolver per principal, and the composition of a user claim's
  publish and subscribe lists.  Signing and encoding the claim is not modelled.
\<close>

section \<open>Principals and resources\<close>

datatype Principal =
    AGENT_POD | TOOL_POD | REGISTRY | HUB | GATEWAY | CHANNEL_ADAPTER | AGENT_ROUTER | DATASET_EXECUTOR

fun principal_value :: "Principal \<Rightarrow> string" where
  "principal_value AGENT_POD = ''agent_pod''"
| "principal_value TOOL_POD = ''tool_pod''"
| "principal_value REGISTRY = ''registry''"
| "principal_value HUB = ''hub''"
| "principal_value GATEWAY = ''gateway''"
| "principal_value CHANNEL_ADAPTER = ''channel_adapter''"
| "principal_value AGENT_ROUTER = ''agent_router''"
| "principal_value DATASET_EXECUTOR = ''dataset_executor''"

definition all_principals :: "Principal list" where
  "all_principals =
     [AGENT_POD, TOOL_POD, REGISTRY, HUB, GATEWAY, CHANNEL_ADAPTER, AGENT_ROUTER, DATASET_EXECUTOR]"

datatype JsResourceKind = KV_BUCKET | STREAM | OBJECT_STORE

datatype JsCapability =
    CAP_FULL | KV_SCOPED | KV_SCOPED_DECLARE | KV_KEY_READ | KV_TABLE_SCOPED | KV_BUCKET_KEYS
  | KV_OWNER_KEYS | STREAM_CONSUMER | OBJECT_STORE_OBJECTS

definition SCOPED_CAPABILITIES :: "JsCapability list" where
  "SCOPED_CAPABILITIES = [KV_SCOPED, KV_SCOPED_DECLARE, KV_KEY_READ, KV_TABLE_SCOPED, KV_OWNER_KEYS]"

definition capability_is_scoped :: "JsCapability \<Rightarrow> bool" where
  "capability_is_scoped capability \<longleftrightarrow> capability \<in> set SCOPED_CAPABILITIES"

definition capability_declares :: "JsCapability \<Rightarrow> bool" where
  "capability_declares capability \<longleftrightarrow> capability \<in> set [KV_SCOPED_DECLARE]"

record JsResource =
  jr_name :: string
  jr_kind :: JsResourceKind
  jr_capability :: JsCapability
  jr_scope :: "string option"
  jr_writable :: bool
  jr_table :: "string option"
  jr_filter_subject :: "string option"

definition validate_consumer_filter :: "string option \<Rightarrow> nats_error + unit" where
  "validate_consumer_filter filter_subject =
     (case filter_subject of
        None \<Rightarrow> Inl NatsValueError
      | Some f \<Rightarrow>
          if f = [] then Inl NatsValueError
          else if length (tokens f) < 3
               \<or> list_ex (\<lambda>token. token = [] \<or> token \<noteq> py_strip token \<or> CHR '' '' \<in> set token) (tokens f)
               \<or> list_ex (\<lambda>token. token = ''>'') (tokens f)
               \<or> ''*'' \<in> set (take 2 (tokens f))
            then Inl NatsValueError else Inr ())"

definition KV_STREAM_PREFIX :: string where
  "KV_STREAM_PREFIX = ''KV_''"

definition kv_stream_name :: "string \<Rightarrow> string" where
  "kv_stream_name bucket = KV_STREAM_PREFIX @ bucket"

text \<open>\<open>__post_init__\<close>: a record whose fields disagree is refused.\<close>

definition check_JsResource :: "JsResource \<Rightarrow> nats_error + JsResource" where
  "check_JsResource r =
     (if (if jr_capability r = STREAM_CONSUMER then validate_consumer_filter (jr_filter_subject r) \<noteq> Inr ()
          else jr_filter_subject r \<noteq> None) then Inl NatsValueError
      else if (if jr_capability r = KV_TABLE_SCOPED
               then (case jr_table r of None \<Rightarrow> True | Some t \<Rightarrow> \<not> KV_KEY_SCOPE_GRAMMAR t)
               else jr_table r \<noteq> None) then Inl NatsValueError
      else if (if capability_is_scoped (jr_capability r)
               then jr_kind r \<noteq> KV_BUCKET
                    \<or> (case jr_scope r of None \<Rightarrow> True | Some s \<Rightarrow> \<not> KV_KEY_SCOPE_GRAMMAR s)
               else jr_scope r \<noteq> None) then Inl NatsValueError
      else if jr_capability r = KV_KEY_READ \<and> jr_writable r then Inl NatsValueError
      else if jr_capability r = KV_BUCKET_KEYS \<and> jr_kind r \<noteq> KV_BUCKET then Inl NatsValueError
      else if jr_capability r = STREAM_CONSUMER \<and> jr_kind r \<noteq> STREAM then Inl NatsValueError
      else if (jr_capability r = OBJECT_STORE_OBJECTS) \<noteq> (jr_kind r = OBJECT_STORE) then Inl NatsValueError
      else if jr_kind r = STREAM \<and> jr_writable r then Inl NatsValueError
      else Inr r)"

definition stream_name :: "JsResource \<Rightarrow> string" where
  "stream_name r =
     (case jr_kind r of
        KV_BUCKET \<Rightarrow> kv_stream_name (jr_name r)
      | OBJECT_STORE \<Rightarrow> ''OBJ_'' @ jr_name r
      | STREAM \<Rightarrow> jr_name r)"

text \<open>A record with a table and no scope does not pass the check; its prefix is not rendered here.\<close>

definition key_prefix :: "JsResource \<Rightarrow> string option" where
  "key_prefix r =
     (case jr_table r of
        Some table \<Rightarrow> map_option (\<lambda>scope. dotted [scope, table]) (jr_scope r)
      | None \<Rightarrow> jr_scope r)"

definition res_kv_table :: "string \<Rightarrow> string \<Rightarrow> string \<Rightarrow> bool \<Rightarrow> nats_error + JsResource" where
  "res_kv_table name scope table writable =
     check_JsResource \<lparr>jr_name = name, jr_kind = KV_BUCKET, jr_capability = KV_TABLE_SCOPED,
       jr_scope = Some scope, jr_writable = writable, jr_table = Some table, jr_filter_subject = None\<rparr>"

definition res_kv_bucket_keys :: "string \<Rightarrow> bool \<Rightarrow> nats_error + JsResource" where
  "res_kv_bucket_keys name writable =
     check_JsResource \<lparr>jr_name = name, jr_kind = KV_BUCKET, jr_capability = KV_BUCKET_KEYS,
       jr_scope = None, jr_writable = writable, jr_table = None, jr_filter_subject = None\<rparr>"

definition res_kv_owner_keys :: "string \<Rightarrow> string \<Rightarrow> bool \<Rightarrow> nats_error + JsResource" where
  "res_kv_owner_keys name scope writable =
     check_JsResource \<lparr>jr_name = name, jr_kind = KV_BUCKET, jr_capability = KV_OWNER_KEYS,
       jr_scope = Some scope, jr_writable = writable, jr_table = None, jr_filter_subject = None\<rparr>"

definition res_kv :: "string \<Rightarrow> string option \<Rightarrow> bool \<Rightarrow> bool \<Rightarrow> nats_error + JsResource" where
  "res_kv name scope writable declare =
     (if declare \<and> scope = None then Inl NatsValueError
      else check_JsResource \<lparr>jr_name = name, jr_kind = KV_BUCKET,
        jr_capability = (if scope = None then CAP_FULL else if declare then KV_SCOPED_DECLARE else KV_SCOPED),
        jr_scope = scope, jr_writable = writable, jr_table = None, jr_filter_subject = None\<rparr>)"

definition res_kv_key_read :: "string \<Rightarrow> string \<Rightarrow> nats_error + JsResource" where
  "res_kv_key_read name key =
     check_JsResource \<lparr>jr_name = name, jr_kind = KV_BUCKET, jr_capability = KV_KEY_READ,
       jr_scope = Some key, jr_writable = False, jr_table = None, jr_filter_subject = None\<rparr>"

definition res_object_store :: "string \<Rightarrow> bool \<Rightarrow> nats_error + JsResource" where
  "res_object_store name writable =
     check_JsResource \<lparr>jr_name = name, jr_kind = OBJECT_STORE, jr_capability = OBJECT_STORE_OBJECTS,
       jr_scope = None, jr_writable = writable, jr_table = None, jr_filter_subject = None\<rparr>"

definition res_stream :: "string \<Rightarrow> nats_error + JsResource" where
  "res_stream name =
     check_JsResource \<lparr>jr_name = name, jr_kind = STREAM, jr_capability = CAP_FULL,
       jr_scope = None, jr_writable = False, jr_table = None, jr_filter_subject = None\<rparr>"

definition res_stream_consumer :: "string \<Rightarrow> string \<Rightarrow> nats_error + JsResource" where
  "res_stream_consumer name filter_subject =
     check_JsResource \<lparr>jr_name = name, jr_kind = STREAM, jr_capability = STREAM_CONSUMER,
       jr_scope = None, jr_writable = False, jr_table = None, jr_filter_subject = Some filter_subject\<rparr>"

record PrincipalPermissions =
  pp_publish :: "string list"
  pp_subscribe :: "string list"
  pp_allow_responses :: bool
  pp_inbox_prefix :: string
  pp_js_resources :: "JsResource list"

definition kv_bucket_names :: "PrincipalPermissions \<Rightarrow> string list" where
  "kv_bucket_names permissions =
     map jr_name (List.filter (\<lambda>r. jr_kind r = KV_BUCKET) (pp_js_resources permissions))"

section \<open>Scopes and bucket names\<close>

text \<open>An id a caller passes: a \<open>UUID\<close> or its text.\<close>

datatype id_value = IdUuid uuid | IdText string

definition scope_id :: "id_value \<Rightarrow> nats_error + string" where
  "scope_id value =
     (case value of
        IdUuid u \<Rightarrow> Inr (uuid_hex u)
      | IdText s \<Rightarrow> (case uuid_parse s of None \<Rightarrow> Inl NatsValueError | Some u \<Rightarrow> Inr (uuid_hex u)))"

definition BARE_PRINCIPAL_SCOPES :: "string list" where
  "BARE_PRINCIPAL_SCOPES = map principal_value all_principals"

definition pod_scope :: "Principal \<Rightarrow> string \<Rightarrow> nats_error + string" where
  "pod_scope who ident =
     (let scope = principal_value who @ ''-'' @ ident
      in if scope \<in> set BARE_PRINCIPAL_SCOPES then Inl NatsValueError
         else if \<not> KV_KEY_SCOPE_GRAMMAR scope then Inl NatsValueError
         else Inr scope)"

definition kv_key_scope_for :: "Principal \<Rightarrow> id_value option \<Rightarrow> id_value option \<Rightarrow> nats_error + string" where
  "kv_key_scope_for who agent_id pod_id =
     (if who = AGENT_POD
      then (if pod_id \<noteq> None then Inl NatsValueError
            else case agent_id of
                   None \<Rightarrow> Inl NatsValueError
                 | Some a \<Rightarrow> (case scope_id a of Inl e \<Rightarrow> Inl e | Inr h \<Rightarrow> pod_scope who h))
      else if who = TOOL_POD
      then (if agent_id \<noteq> None then Inl NatsValueError
            else case pod_id of
                   None \<Rightarrow> Inl NatsValueError
                 | Some p \<Rightarrow> (case scope_id p of Inl e \<Rightarrow> Inl e | Inr h \<Rightarrow> pod_scope who h))
      else if agent_id \<noteq> None \<or> pod_id \<noteq> None then Inl NatsValueError
      else Inr (principal_value who))"

definition SERVICE_SCOPE_PREFIX :: string where
  "SERVICE_SCOPE_PREFIX = ''svc''"

definition kv_key_scope_for_service :: "string \<Rightarrow> nats_error + string" where
  "kv_key_scope_for_service service =
     (if service = [] then Inl NatsValueError
      else let scope = SERVICE_SCOPE_PREFIX @ ''-'' @ service
           in if scope \<in> set BARE_PRINCIPAL_SCOPES then Inl NatsValueError
              else if \<not> KV_KEY_SCOPE_GRAMMAR scope then Inl NatsValueError
              else Inr scope)"

definition inbox_prefix_for :: "Principal \<Rightarrow> string \<Rightarrow> string" where
  "inbox_prefix_for who conn_id =
     ''_INBOX_'' @ principal_value who @ ''_'' @ sanitize_subject_segment conn_id"

definition DATA_VERSIONS_BUCKET_SUFFIX :: string where
  "DATA_VERSIONS_BUCKET_SUFFIX = ''data-versions''"

definition WORKSPACE_LOCKS_BUCKET_SUFFIX :: string where
  "WORKSPACE_LOCKS_BUCKET_SUFFIX = ''workspace-locks''"

definition AGENT_POD_PLATFORM_BUCKET_SUFFIXES :: "string list" where
  "AGENT_POD_PLATFORM_BUCKET_SUFFIXES = [WORKSPACE_LOCKS_BUCKET_SUFFIX]"

definition TOOL_POD_OBJECTS_BUCKET_SUFFIX :: string where
  "TOOL_POD_OBJECTS_BUCKET_SUFFIX = ''objects''"

definition TOOL_POD_POINTERS_BUCKET_SUFFIX :: string where
  "TOOL_POD_POINTERS_BUCKET_SUFFIX = ''pointers''"

definition GATEWAY_DOOR_PROOF_NONCE_BUCKET :: string where
  "GATEWAY_DOOR_PROOF_NONCE_BUCKET = ''gateway-door-proof-nonces''"

definition SERVER_USER_INFO_SUBJECT :: string where
  "SERVER_USER_INFO_SUBJECT = ''$SYS.REQ.USER.INFO''"

definition AGENT_CONFIG_BUCKET_SUFFIX :: string where
  "AGENT_CONFIG_BUCKET_SUFFIX = ''_agent_config''"

definition CROSS_PLATFORM_CACHE_INVALIDATE :: string where
  "CROSS_PLATFORM_CACHE_INVALIDATE = ''threetears.cache.invalidate''"

definition MAX_COORDINATION_BUCKETS :: nat where
  "MAX_COORDINATION_BUCKETS = 16"

definition MAX_COORDINATION_BUCKET_SUFFIX_CHARS :: nat where
  "MAX_COORDINATION_BUCKET_SUFFIX_CHARS = 64"

definition data_versions_bucket_name :: "string \<Rightarrow> string" where
  "data_versions_bucket_name ns = ns @ ''-'' @ DATA_VERSIONS_BUCKET_SUFFIX"

definition data_version_kv_key :: "id_value \<Rightarrow> nats_error + string" where
  "data_version_kv_key owner_id =
     (case owner_id of
        IdUuid u \<Rightarrow> Inr (uuid_hex u)
      | IdText s \<Rightarrow> (case uuid_parse s of None \<Rightarrow> Inl NatsValueError | Some u \<Rightarrow> Inr (uuid_hex u)))"

definition agent_config_bucket_name :: "string \<Rightarrow> string" where
  "agent_config_bucket_name ns = ns @ AGENT_CONFIG_BUCKET_SUFFIX"

definition agent_config_kv_key :: "id_value \<Rightarrow> nats_error + string" where
  "agent_config_kv_key agent_id =
     (case agent_id of
        IdUuid u \<Rightarrow> Inr (uuid_str u)
      | IdText s \<Rightarrow> (case uuid_parse s of None \<Rightarrow> Inl NatsValueError | Some u \<Rightarrow> Inr (uuid_str u)))"

definition validate_coordination_suffix :: "string \<Rightarrow> nats_error + unit" where
  "validate_coordination_suffix sfx =
     (if sfx = [] \<or> length sfx > MAX_COORDINATION_BUCKET_SUFFIX_CHARS then Inl NatsValueError
      else if \<not> COORDINATION_BUCKET_SUFFIX_GRAMMAR sfx then Inl NatsValueError
      else Inr ())"

definition coordination_bucket_name :: "string \<Rightarrow> string \<Rightarrow> string \<Rightarrow> nats_error + string" where
  "coordination_bucket_name ns scope sfx =
     (case validate_coordination_suffix sfx of
        Inl e \<Rightarrow> Inl e
      | Inr _ \<Rightarrow> Inr (ns @ ''-'' @ scope @ ''-'' @ sfx))"

definition agent_platform_bucket_suffix :: "id_value \<Rightarrow> string \<Rightarrow> nats_error + string" where
  "agent_platform_bucket_suffix agent_id sfx =
     (if sfx \<notin> set AGENT_POD_PLATFORM_BUCKET_SUFFIXES then Inl NatsValueError
      else case kv_key_scope_for AGENT_POD (Some agent_id) None of
             Inl e \<Rightarrow> Inl e
           | Inr scope \<Rightarrow>
               (case validate_coordination_suffix sfx of Inl e \<Rightarrow> Inl e | Inr _ \<Rightarrow> Inr (scope @ ''-'' @ sfx)))"

definition tool_pod_bucket_name :: "string \<Rightarrow> id_value \<Rightarrow> string \<Rightarrow> nats_error + string" where
  "tool_pod_bucket_name ns pod_id sfx =
     (case kv_key_scope_for TOOL_POD None (Some pod_id) of
        Inl e \<Rightarrow> Inl e
      | Inr scope \<Rightarrow> coordination_bucket_name ns scope sfx)"

definition tool_pod_object_store_name :: "string \<Rightarrow> id_value \<Rightarrow> nats_error + string" where
  "tool_pod_object_store_name ns pod_id = tool_pod_bucket_name ns pod_id TOOL_POD_OBJECTS_BUCKET_SUFFIX"

definition tool_pod_pointers_bucket_name :: "string \<Rightarrow> id_value \<Rightarrow> nats_error + string" where
  "tool_pod_pointers_bucket_name ns pod_id = tool_pod_bucket_name ns pod_id TOOL_POD_POINTERS_BUCKET_SUFFIX"

record AgentTableGrant =
  atg_owner_agent_id :: uuid
  atg_table :: string
  atg_writable :: bool

definition new_AgentTableGrant :: "uuid \<Rightarrow> string \<Rightarrow> bool \<Rightarrow> nats_error + AgentTableGrant" where
  "new_AgentTableGrant owner_agent_id table writable =
     (if \<not> KV_KEY_SCOPE_GRAMMAR table then Inl NatsValueError
      else Inr \<lparr>atg_owner_agent_id = owner_agent_id, atg_table = table, atg_writable = writable\<rparr>)"

record AgentBucketGrant =
  abg_owner_agent_id :: uuid
  abg_suffix :: string
  abg_writable :: bool

definition new_AgentBucketGrant :: "uuid \<Rightarrow> string \<Rightarrow> bool \<Rightarrow> nats_error + AgentBucketGrant" where
  "new_AgentBucketGrant owner_agent_id sfx writable =
     (case validate_coordination_suffix sfx of
        Inl e \<Rightarrow> Inl e
      | Inr _ \<Rightarrow> Inr \<lparr>abg_owner_agent_id = owner_agent_id, abg_suffix = sfx, abg_writable = writable\<rparr>)"

definition owner_scope :: "uuid \<Rightarrow> nats_error + string" where
  "owner_scope owner_agent_id = kv_key_scope_for AGENT_POD (Some (IdUuid owner_agent_id)) None"

definition AgentBucketGrant_bucket_name :: "string \<Rightarrow> AgentBucketGrant \<Rightarrow> nats_error + string" where
  "AgentBucketGrant_bucket_name ns g =
     (case owner_scope (abg_owner_agent_id g) of
        Inl e \<Rightarrow> Inl e
      | Inr scope \<Rightarrow> coordination_bucket_name ns scope (abg_suffix g))"

section \<open>Resolvers\<close>

definition require :: "string option \<Rightarrow> nats_error + string" where
  "require value = (case value of None \<Rightarrow> Inl NatsValueError | Some v \<Rightarrow> if v = [] then Inl NatsValueError else Inr v)"

definition retired_subscriptions :: "string \<Rightarrow> string list" where
  "retired_subscriptions ns = map (\<lambda>kind. sub_path (acl_invalidate ns kind)) [''membership'', ''assignment'', ''role'']"

definition deadletters :: "string \<Rightarrow> string list \<Rightarrow> string \<Rightarrow> string list" where
  "deadletters ns subscribe inbox =
     map (\<lambda>subject. sub_path (deadletter ns subject))
       (List.filter (\<lambda>subject. \<not> prefix (inbox @ ''.'') subject \<and> subject \<notin> set (retired_subscriptions ns)) subscribe)"

text \<open>What every resolver is given.\<close>

record principal_ids =
  pi_agent_id :: "string option"
  pi_pod_id :: "string option"
  pi_conn_id :: "string option"
  pi_tool_namespaces :: "string list"
  pi_coordination_buckets :: "string list"
  pi_agent_table_grants :: "AgentTableGrant list"
  pi_agent_bucket_grants :: "AgentBucketGrant list"

definition coordination_resources :: "string \<Rightarrow> string \<Rightarrow> string list \<Rightarrow> nats_error + JsResource list" where
  "coordination_resources ns scope coordination_buckets =
     (if length coordination_buckets > MAX_COORDINATION_BUCKETS then Inl NatsValueError
      else all_ok (map (\<lambda>sfx. and_then (coordination_bucket_name ns scope sfx) (\<lambda>name. res_kv_bucket_keys name True))
                     coordination_buckets))"

definition agent_bucket_resources :: "string \<Rightarrow> AgentBucketGrant list \<Rightarrow> nats_error + JsResource list" where
  "agent_bucket_resources ns grants =
     (if \<not> distinct (map (\<lambda>g. (abg_owner_agent_id g, abg_suffix g)) grants) then Inl NatsValueError
      else all_ok (map (\<lambda>g. and_then (AgentBucketGrant_bucket_name ns g) (\<lambda>name. res_kv_bucket_keys name (abg_writable g)))
                     grants))"

definition agent_table_resources :: "string \<Rightarrow> AgentTableGrant list \<Rightarrow> nats_error + JsResource list" where
  "agent_table_resources ns grants =
     (if \<not> distinct (map (\<lambda>g. (atg_owner_agent_id g, atg_table g)) grants) then Inl NatsValueError
      else all_ok (map (\<lambda>g. and_then (owner_scope (atg_owner_agent_id g)) (\<lambda>scope.
                         res_kv_table (ns @ ''-collections'') scope (atg_table g) (atg_writable g))) grants))"

definition agent_pod_publish :: "string \<Rightarrow> string \<Rightarrow> string \<Rightarrow> string list" where
  "agent_pod_publish ns a p =
         [sub_path (agent_register ns),
          sub_path (agent_deregister ns),
          sub_path (agent_heartbeat ns a p),
          sub_path (hub_handshake ns),
          sub_path (hub_secrets_request ns),
          sub_path (hub_object_commit ns),
          sub_path (hub_object_resolve ns),
          sub_path (hub_approval_record ns),
          sub_path (hub_memory_namespace_ensure ns),
          sub_path (hub_audit_anonymize ns),
          sub_path (hub_channel_engagement_default_resolve ns),
          sub_path (hub_jwks ns),
          sub_path (gateway_completion ns),
          sub_path (gateway_embedding ns),
          sub_path (tools_discover ns),
          sub_path (tools_call ns),
          sub_path (tools_register ns),
          sub_path (tools_heartbeat_agent_subtree ns a),
          sub_path (tools_result_agent_subtree ns a),
          dotted [ns, ''audit'', ''tool.call''],
          sub_path (knowledge_draft ns),
          sub_path (workspaces_create ns),
          sub_path (namespace_discover ns),
          sub_path (l3_query ns None),
          sub_path (l3_batch ns None),
          sub_path (l3_truncate ns None),
          sub_path (l3_load_files ns None),
          dotted [ns, ''l3'', ''tx'', ''*''],
          dotted [ns, ''channels'', ''deliver'', ''*''],
          dotted [ns, ''hub'', ''stream'', sanitize_subject_segment a, ''*''],
          dotted [ns, ''agents'', ''complete'', ''*''],
          CROSS_PLATFORM_CACHE_INVALIDATE]"

definition agent_pod_subscribe :: "string \<Rightarrow> string \<Rightarrow> string \<Rightarrow> string \<Rightarrow> string list" where
  "agent_pod_subscribe ns inbox a p =
         [inbox @ ''.>'',
          sub_path (agent_internal ns a p),
          sub_path (agent_reregister_request ns a p),
          sub_path (tools_internal_agent_subtree ns a),
          sub_path (tools_probe_agent_subtree ns a),
          sub_path (acl_invalidate ns ''membership''),
          sub_path (acl_invalidate ns ''assignment''),
          sub_path (acl_invalidate ns ''role''),
          CROSS_PLATFORM_CACHE_INVALIDATE,
          dotted [ns, ''gateway'', ''stream'', sanitize_subject_segment a, ''*'']]"

definition agent_pod_resources :: "string \<Rightarrow> string \<Rightarrow> string \<Rightarrow> string list \<Rightarrow> nats_error + JsResource list" where
  "agent_pod_resources ns scope a coordination_buckets =
     and_then (all_ok (
         [res_kv_bucket_keys (ns @ ''-epochs'') False,
          and_then (agent_config_kv_key (IdText a)) (res_kv_key_read (agent_config_bucket_name ns)),
          res_kv (ns @ ''-collections'') (Some scope) True False,
          res_kv_owner_keys (ns @ ''-ratelimits'') scope True,
          res_kv_owner_keys (ns @ ''-proxy_assertion_nonces'') scope True,
          res_stream_consumer (result_stream_name ns) (sub_path (tools_reply_agent_subtree ns a)),
          and_then (data_version_kv_key (IdText a)) (res_kv_key_read (data_versions_bucket_name ns))]
         @ map (\<lambda>sfx. and_then (coordination_bucket_name ns scope sfx) (\<lambda>name. res_kv_bucket_keys name True))
             AGENT_POD_PLATFORM_BUCKET_SUFFIXES)) (\<lambda>fixed.
     and_then (coordination_resources ns scope coordination_buckets) (\<lambda>declared. Inr (fixed @ declared)))"

definition conn_or :: "string option \<Rightarrow> string \<Rightarrow> string" where
  "conn_or conn_id p = (case conn_id of None \<Rightarrow> p | Some c \<Rightarrow> if c = [] then p else c)"

definition agent_pod :: "string \<Rightarrow> principal_ids \<Rightarrow> nats_error + PrincipalPermissions" where
  "agent_pod ns ids =
     and_then (require (pi_agent_id ids)) (\<lambda>a.
     and_then (require (pi_pod_id ids)) (\<lambda>p.
     and_then (kv_key_scope_for AGENT_POD (Some (IdText a)) None) (\<lambda>scope.
     and_then (agent_pod_resources ns scope a (pi_coordination_buckets ids)) (\<lambda>resources.
       let inbox = inbox_prefix_for AGENT_POD (conn_or (pi_conn_id ids) p);
           subscribe = agent_pod_subscribe ns inbox a p
       in Inr \<lparr>pp_publish = agent_pod_publish ns a p @ deadletters ns subscribe inbox, pp_subscribe = subscribe,
               pp_allow_responses = True, pp_inbox_prefix = inbox, pp_js_resources = resources\<rparr>))))"

definition hitl_sessions :: "string \<Rightarrow> string list \<Rightarrow> nats_error + string list" where
  "hitl_sessions ns tool_namespaces =
     all_ok (concat (map (\<lambda>name. map (\<lambda>derive. and_then (derive name) (\<lambda>family.
       map_sum (\<lambda>e. e) sub_path (forward_scoped_wildcard ns family))) [hitl_forward_family, hitl_pipe_family])
       tool_namespaces))"

definition pipe_halves :: "string \<Rightarrow> string list \<Rightarrow> string \<Rightarrow> string \<Rightarrow> nats_error + string list" where
  "pipe_halves ns tool_namespaces p direction =
     all_ok (map (\<lambda>name. map_sum (\<lambda>e. e) sub_path (pipe_pod_wildcard ns name p direction)) tool_namespaces)"

definition tool_pod_publish :: "string \<Rightarrow> string \<Rightarrow> string \<Rightarrow> string list" where
  "tool_pod_publish ns audit p =
         [sub_path (tools_register ns),
          sub_path (tools_heartbeat ns p),
          sub_path (tools_discover ns),
          sub_path (hub_handshake ns),
          sub_path (l3_query ns None),
          sub_path (l3_batch ns None),
          sub_path (l3_truncate ns None),
          sub_path (l3_load_files ns None),
          dotted [ns, ''l3'', ''tx'', ''*''],
          sub_path (datasource_query_wildcard ns),
          sub_path (tools_call ns),
          sub_path (hub_jwks ns),
          dotted [ns, ''audit'', ''tool.call''],
          audit,
          sub_path (hub_audit_anonymize ns),
          sub_path (hub_geo_layers_reloaded ns),
          sub_path (hub_collection_keys_purge ns),
          sub_path (hub_cache_index_moved ns),
          sub_path (hub_object_resolve ns),
          sub_path (hub_engagement_scope ns),
          sub_path (namespace_discover ns),
          sub_path (tools_result_pod_wildcard ns p),
          SERVER_USER_INFO_SUBJECT,
          CROSS_PLATFORM_CACHE_INVALIDATE]"

definition tool_pod_subscribe :: "string \<Rightarrow> string \<Rightarrow> string \<Rightarrow> string list" where
  "tool_pod_subscribe ns inbox p =
         [inbox @ ''.>'',
          sub_path (tools_internal ns p),
          sub_path (tools_probe ns p),
          CROSS_PLATFORM_CACHE_INVALIDATE]"

definition tool_pod_resources ::
  "string \<Rightarrow> string \<Rightarrow> string \<Rightarrow> AgentTableGrant list \<Rightarrow> AgentBucketGrant list \<Rightarrow> nats_error + JsResource list" where
  "tool_pod_resources ns scope p table_grants bucket_grants =
     and_then (all_ok (
         [res_kv_owner_keys (ns @ ''-proxy_assertion_nonces'') scope True,
          res_kv_owner_keys (ns @ ''-leases'') scope True,
          res_kv (ns @ ''-collections'') (Some scope) True False,
          res_kv_bucket_keys (ns @ ''-epochs'') False,
          and_then (data_version_kv_key (IdText p)) (res_kv_key_read (data_versions_bucket_name ns))])) (\<lambda>fixed.
     and_then (agent_table_resources ns table_grants) (\<lambda>tables.
     and_then (agent_bucket_resources ns bucket_grants) (\<lambda>buckets. Inr (fixed @ tables @ buckets))))"

definition tool_pod :: "string \<Rightarrow> principal_ids \<Rightarrow> nats_error + PrincipalPermissions" where
  "tool_pod ns ids =
     and_then (require (pi_pod_id ids)) (\<lambda>p.
     and_then (kv_key_scope_for TOOL_POD None (Some (IdText p))) (\<lambda>scope.
     and_then (hitl_sessions ns (pi_tool_namespaces ids)) (\<lambda>sessions.
     and_then (pipe_halves ns (pi_tool_namespaces ids) p ''down'') (\<lambda>pipe_down.
     and_then (pipe_halves ns (pi_tool_namespaces ids) p ''up'') (\<lambda>pipe_up.
     and_then (tool_pod_audit_wildcard ns p None) (\<lambda>audit.
     and_then (tool_pod_resources ns scope p (pi_agent_table_grants ids) (pi_agent_bucket_grants ids)) (\<lambda>resources.
       let inbox = inbox_prefix_for TOOL_POD (conn_or (pi_conn_id ids) p);
           subscribe = tool_pod_subscribe ns inbox p @ sessions @ pipe_up
       in Inr \<lparr>pp_publish = tool_pod_publish ns (sub_path audit) p @ pipe_down @ deadletters ns subscribe inbox,
               pp_subscribe = subscribe, pp_allow_responses = True, pp_inbox_prefix = inbox,
               pp_js_resources = resources\<rparr>)))))))"

definition registry :: "string \<Rightarrow> principal_ids \<Rightarrow> nats_error + PrincipalPermissions" where
  "registry ns ids =
     and_then (require (pi_conn_id ids)) (\<lambda>c.
     and_then (kv_key_scope_for REGISTRY None None) (\<lambda>scope.
     and_then (all_ok
         [res_kv (''tool_catalog'') None True False,
          res_kv (ns @ ''-pop_nonces'') None True False,
          res_kv (ns @ ''-collections'') (Some scope) True False,
          res_kv_bucket_keys (ns @ ''-epochs'') False,
          res_stream (result_stream_name ns)]) (\<lambda>resources.
       let inbox = inbox_prefix_for REGISTRY c;
           subscribe =
         [inbox @ ''.>'',
          sub_path (tools_call ns),
          sub_path (tools_discover ns),
          sub_path (tools_register ns),
          sub_path (tools_heartbeat_wildcard ns),
          CROSS_PLATFORM_CACHE_INVALIDATE]
       in Inr \<lparr>pp_publish =
         [sub_path (tools_internal_wildcard ns),
          sub_path (tools_probe_wildcard ns),
          sub_path (hub_jwks ns),
          sub_path (tools_reply_wildcard ns),
          sub_path (hub_handshake ns),
          sub_path (l3_query ns None),
          sub_path (l3_batch ns None),
          dotted [ns, ''l3'', ''tx'', ''*''],
          sub_path (hub_endpoint_usage_track ns),
          CROSS_PLATFORM_CACHE_INVALIDATE]
           @ deadletters ns subscribe inbox,
               pp_subscribe = subscribe, pp_allow_responses = True, pp_inbox_prefix = inbox,
               pp_js_resources = resources\<rparr>)))"

definition hub :: "string \<Rightarrow> principal_ids \<Rightarrow> nats_error + PrincipalPermissions" where
  "hub ns ids =
     and_then (require (pi_conn_id ids)) (\<lambda>c.
     and_then (kv_key_scope_for HUB None None) (\<lambda>scope.
     and_then (all_ok
         [res_kv (ns @ ''-epochs'') None True False,
          res_kv (ns @ ''_agent_config'') None True False,
          res_kv (ns @ ''_agent_sessions'') None True False,
          res_kv (ns @ ''_revoked_tokens'') None True False,
          res_kv (ns @ ''_login_lockouts'') None True False,
          res_kv (ns @ ''_rate_limits'') None True False,
          res_kv (ns @ ''_ratelimit'') None True False,
          res_kv (ns @ ''-collections'') (Some scope) True True,
          res_stream (ns @ ''-channels-deliver''),
          res_kv (ns @ ''-ratelimits'') None True False,
          res_kv (ns @ ''-proxy_assertion_nonces'') None True False,
          res_kv (ns @ ''-leases'') None True False]) (\<lambda>resources.
       let inbox = inbox_prefix_for HUB c;
           subscribe =
         [inbox @ ''.>'',
          sub_path (pipe_any_pod_wildcard ns ''down''),
          sub_path (hub_handshake ns),
          sub_path (hub_jwks ns),
          sub_path (hub_secrets_request ns),
          sub_path (hub_user_resolve ns),
          sub_path (hub_object_commit ns),
          sub_path (hub_object_resolve ns),
          sub_path (hub_engagement_scope ns),
          sub_path (hub_channel_engagement_default_resolve ns),
          sub_path (hub_approval_record ns),
          sub_path (hub_approval_resolve ns),
          sub_path (hub_memory_namespace_ensure ns),
          sub_path (hub_audit_anonymize ns),
          sub_path (hub_geo_layers_reloaded ns),
          sub_path (hub_object_store_declare ns),
          sub_path (hub_object_store_retire ns),
          sub_path (hub_collection_keys_purge ns),
          sub_path (hub_cache_index_moved ns),
          sub_path (hub_channel_installs ns),
          sub_path (namespace_discover ns),
          sub_path (agent_register ns),
          sub_path (agent_deregister ns),
          sub_path (agent_heartbeat_wildcard ns),
          sub_path (l3_query ns None),
          sub_path (l3_batch ns None),
          sub_path (l3_truncate ns None),
          sub_path (l3_load_files ns None),
          dotted [ns, ''l3'', ''tx'', ''*''],
          sub_path (datasource_query_wildcard ns),
          sub_path (tools_register ns),
          sub_path (workspaces_create ns),
          sub_path (knowledge_draft ns),
          sub_path (hub_usage_track ns),
          sub_path (audit_wildcard ns None),
          dotted [ns, ''hub'', ''stream'', ''*'', ''*''],
          sub_path (gateway_catalog_epoch ns),
          sub_path (mcp_rbac_epoch ns),
          CROSS_PLATFORM_CACHE_INVALIDATE]
       in Inr \<lparr>pp_publish =
         [dotted [ns, ''agents'', ''route'', ''*''],
          dotted [ns, ''agents'', ''reregister_request'', ''*'', ''*''],
          sub_path (gateway_completion ns),
          sub_path (gateway_embedding ns),
          sub_path (gateway_catalog_epoch ns),
          sub_path (mcp_rbac_epoch ns),
          dotted [ns, ''hub'', ''channel'', ''installs'', ''changed''],
          sub_path (forward_scoped_any_family ns),
          sub_path (pipe_any_pod_wildcard ns ''up''),
          CROSS_PLATFORM_CACHE_INVALIDATE]
           @ deadletters ns subscribe inbox,
               pp_subscribe = subscribe, pp_allow_responses = True, pp_inbox_prefix = inbox,
               pp_js_resources = resources\<rparr>)))"

definition gateway :: "string \<Rightarrow> principal_ids \<Rightarrow> nats_error + PrincipalPermissions" where
  "gateway ns ids =
     and_then (require (pi_conn_id ids)) (\<lambda>c.
     and_then (kv_key_scope_for GATEWAY None None) (\<lambda>scope.
     and_then (all_ok
         [res_kv (ns @ ''-epochs'') None True False,
          res_kv (ns @ ''-collections'') (Some scope) True False,
          res_kv (ns @ ''-'' @ GATEWAY_DOOR_PROOF_NONCE_BUCKET) None True False]) (\<lambda>resources.
       let inbox = inbox_prefix_for GATEWAY c;
           subscribe =
         [inbox @ ''.>'',
          sub_path (gateway_completion ns),
          sub_path (gateway_embedding ns),
          sub_path (gateway_health ns),
          sub_path (gateway_catalog_epoch ns),
          CROSS_PLATFORM_CACHE_INVALIDATE]
       in Inr \<lparr>pp_publish =
         [dotted [ns, ''gateway'', ''stream'', ''*'', ''*''],
          sub_path (hub_usage_track ns),
          sub_path (hub_object_resolve ns),
          sub_path (hub_jwks ns),
          CROSS_PLATFORM_CACHE_INVALIDATE]
           @ deadletters ns subscribe inbox,
               pp_subscribe = subscribe, pp_allow_responses = True, pp_inbox_prefix = inbox,
               pp_js_resources = resources\<rparr>)))"

definition channel_adapter :: "string \<Rightarrow> principal_ids \<Rightarrow> nats_error + PrincipalPermissions" where
  "channel_adapter ns ids =
     and_then (require (pi_conn_id ids)) (\<lambda>c.
     and_then (kv_key_scope_for CHANNEL_ADAPTER None None) (\<lambda>scope.
     and_then (all_ok
         [res_kv (ns @ ''-collections'') (Some scope) True False,
          res_stream (ns @ ''-channels-deliver'')]) (\<lambda>resources.
       let inbox = inbox_prefix_for CHANNEL_ADAPTER c;
           subscribe =
         [inbox @ ''.>'',
          dotted [ns, ''hub'', ''channel'', ''installs'', ''changed''],
          dotted [ns, ''agents'', ''reply'', ''*''],
          CROSS_PLATFORM_CACHE_INVALIDATE]
       in Inr \<lparr>pp_publish =
         [sub_path (hub_channel_installs ns),
          sub_path (hub_user_resolve ns),
          sub_path (hub_approval_resolve ns),
          dotted [ns, ''agents'', ''turn'', ''*''],
          dotted [ns, ''hub'', ''channel'', ''installs'', ''changed''],
          sub_path (hub_jwks ns),
          sub_path (channels_deliver ns ''deadletter''),
          CROSS_PLATFORM_CACHE_INVALIDATE]
           @ deadletters ns subscribe inbox,
               pp_subscribe = subscribe, pp_allow_responses = True, pp_inbox_prefix = inbox,
               pp_js_resources = resources\<rparr>)))"

definition agent_router :: "string \<Rightarrow> principal_ids \<Rightarrow> nats_error + PrincipalPermissions" where
  "agent_router ns ids =
     and_then (require (pi_conn_id ids)) (\<lambda>c.
     and_then (kv_key_scope_for AGENT_ROUTER None None) (\<lambda>scope.
     and_then (all_ok
         [res_kv (''agent_router_catalog'') None True False,
          res_kv (ns @ ''_agent_config'') None False False,
          res_kv (ns @ ''-collections'') (Some scope) True False,
          res_stream (ns @ ''-agents-turn'')]) (\<lambda>resources.
       let inbox = inbox_prefix_for AGENT_ROUTER c;
           subscribe =
         [inbox @ ''.>'',
          sub_path (agent_register ns),
          sub_path (agent_deregister ns),
          sub_path (agent_heartbeat_wildcard ns),
          dotted [ns, ''agents'', ''complete'', ''*''],
          CROSS_PLATFORM_CACHE_INVALIDATE]
       in Inr \<lparr>pp_publish =
         [dotted [ns, ''agents'', ''internal'', ''*'', ''*''],
          dotted [ns, ''agents'', ''reregister_request'', ''*'', ''*''],
          sub_path (agent_turn_deadletter ns),
          dotted [ns, ''agents'', ''reply'', ''*''],
          sub_path (hub_jwks ns),
          CROSS_PLATFORM_CACHE_INVALIDATE]
           @ deadletters ns subscribe inbox,
               pp_subscribe = subscribe, pp_allow_responses = True, pp_inbox_prefix = inbox,
               pp_js_resources = resources\<rparr>)))"

definition dataset_executor :: "string \<Rightarrow> principal_ids \<Rightarrow> nats_error + PrincipalPermissions" where
  "dataset_executor ns ids =
     and_then (require (pi_conn_id ids)) (\<lambda>c.
     and_then (kv_key_scope_for DATASET_EXECUTOR None None) (\<lambda>scope.
     and_then (all_ok
         [res_kv (ns @ ''-collections'') (Some scope) True False]) (\<lambda>resources.
       let inbox = inbox_prefix_for DATASET_EXECUTOR c;
           subscribe =
         [inbox @ ''.>'',
          CROSS_PLATFORM_CACHE_INVALIDATE]
       in Inr \<lparr>pp_publish =
         [CROSS_PLATFORM_CACHE_INVALIDATE]
           @ deadletters ns subscribe inbox,
               pp_subscribe = subscribe, pp_allow_responses = True, pp_inbox_prefix = inbox,
               pp_js_resources = resources\<rparr>)))"

fun resolver :: "Principal \<Rightarrow> string \<Rightarrow> principal_ids \<Rightarrow> nats_error + PrincipalPermissions" where
  "resolver AGENT_POD = agent_pod"
| "resolver TOOL_POD = tool_pod"
| "resolver REGISTRY = registry"
| "resolver HUB = hub"
| "resolver GATEWAY = gateway"
| "resolver CHANNEL_ADAPTER = channel_adapter"
| "resolver AGENT_ROUTER = agent_router"
| "resolver DATASET_EXECUTOR = dataset_executor"

definition with_object_store :: "string \<Rightarrow> string \<Rightarrow> PrincipalPermissions \<Rightarrow> nats_error + PrincipalPermissions" where
  "with_object_store ns pod_id permissions =
     and_then (tool_pod_object_store_name ns (IdText pod_id)) (\<lambda>objects.
     and_then (res_object_store objects True) (\<lambda>store.
     and_then (tool_pod_pointers_bucket_name ns (IdText pod_id)) (\<lambda>pointers.
     and_then (res_kv_bucket_keys pointers True) (\<lambda>bucket.
       Inr (permissions\<lparr>
         pp_publish := pp_publish permissions @ [sub_path (hub_object_store_declare ns), sub_path (hub_object_store_retire ns)],
         pp_js_resources := pp_js_resources permissions @ [store, bucket]\<rparr>)))))"

definition build_permissions :: "string \<Rightarrow> Principal \<Rightarrow> principal_ids \<Rightarrow> bool \<Rightarrow> nats_error + PrincipalPermissions" where
  "build_permissions ns who ids object_store =
     (if object_store \<and> who \<noteq> TOOL_POD then Inl NatsValueError
      else and_then (resolver who ns ids) (\<lambda>permissions.
        if object_store
        then and_then (require (pi_pod_id ids)) (\<lambda>pod_id. with_object_store ns pod_id permissions)
        else Inr permissions))"

section \<open>Minted grants\<close>

definition JS_API_ACCOUNT :: "string list" where
  "JS_API_ACCOUNT = [''$JS.API.INFO'', ''$JS.API.STREAM.NAMES'']"

definition js_api :: "string list \<Rightarrow> string" where
  "js_api parts = dotted (''$JS'' # ''API'' # parts)"

definition js_api_grants_for_stream ::
  "string \<Rightarrow> JsCapability \<Rightarrow> string option \<Rightarrow> string option \<Rightarrow> string option \<Rightarrow> nats_error + string list" where
  "js_api_grants_for_stream stream capability bucket scope filter_subject =
     (case capability of
        KV_BUCKET_KEYS \<Rightarrow>
          (case bucket of
             None \<Rightarrow> Inl NatsValueError
           | Some b \<Rightarrow>
               Inr [js_api [''STREAM'', ''INFO'', stream],
                    js_api [''STREAM'', ''MSG'', ''GET'', stream],
                    js_api [''DIRECT'', ''GET'', stream, ''$KV'', b, ''>''],
                    js_api [''CONSUMER'', ''CREATE'', stream, ''*'', ''$KV'', b, ''>'']])
      | OBJECT_STORE_OBJECTS \<Rightarrow>
          (case bucket of
             None \<Rightarrow> Inl NatsValueError
           | Some b \<Rightarrow>
               Inr [js_api [''STREAM'', ''INFO'', stream],
                    js_api [''DIRECT'', ''GET'', stream, ''$O'', b, ''M'', ''>''],
                    js_api [''CONSUMER'', ''CREATE'', stream, ''*'', ''$O'', b, ''>'']])
      | STREAM_CONSUMER \<Rightarrow>
          (case filter_subject of
             None \<Rightarrow> Inl NatsValueError
           | Some f \<Rightarrow>
               if f = [] then Inl NatsValueError
               else Inr [js_api [''CONSUMER'', ''CREATE'', stream, ''*'', f]])
      | CAP_FULL \<Rightarrow>
          Inr [js_api [''STREAM'', ''*'', stream],
               js_api [''STREAM'', ''MSG'', ''*'', stream],
               js_api [''DIRECT'', ''GET'', stream],
               js_api [''DIRECT'', ''GET'', stream, ''>''],
               js_api [''CONSUMER'', ''*'', stream],
               js_api [''CONSUMER'', ''*'', stream, ''>''],
               js_api [''CONSUMER'', ''*'', ''*'', stream, ''>'']]
      | _ \<Rightarrow>
          (case (bucket, scope) of
             (Some b, Some s) \<Rightarrow>
               Inr ((if capability = KV_KEY_READ
                     then [js_api [''STREAM'', ''INFO'', stream],
                           js_api [''DIRECT'', ''GET'', stream, ''$KV'', b, s],
                           js_api [''CONSUMER'', ''CREATE'', stream, ''*'', ''$KV'', b, s]]
                     else if capability = KV_OWNER_KEYS
                     then [js_api [''STREAM'', ''INFO'', stream],
                           js_api [''DIRECT'', ''GET'', stream, ''$KV'', b, s, ''>''],
                           js_api [''CONSUMER'', ''CREATE'', stream, ''*'', ''$KV'', b, s, ''>'']]
                     else [js_api [''STREAM'', ''INFO'', stream],
                           js_api [''DIRECT'', ''GET'', stream, ''$KV'', b, s, ''>'']])
                    @ (if capability_declares capability
                       then [js_api [''STREAM'', ''CREATE'', stream], js_api [''STREAM'', ''UPDATE'', stream]] else []))
           | _ \<Rightarrow> Inl NatsValueError))"

definition kv_data_grants :: "JsResource \<Rightarrow> string list" where
  "kv_data_grants r =
     (if jr_kind r = KV_BUCKET \<and> jr_writable r
      then [case key_prefix r of
              None \<Rightarrow> dotted [''$KV'', jr_name r, ''>'']
            | Some pre \<Rightarrow> dotted [''$KV'', jr_name r, pre, ''>'']]
      else [])
     @ (if jr_kind r = OBJECT_STORE \<and> jr_writable r then [dotted [''$O'', jr_name r, ''>'']] else [])"

definition js_control_grants :: "JsResource \<Rightarrow> nats_error + string list" where
  "js_control_grants r =
     js_api_grants_for_stream (stream_name r) (jr_capability r)
       (if jr_kind r = KV_BUCKET \<or> jr_kind r = OBJECT_STORE then Some (jr_name r) else None)
       (key_prefix r) (jr_filter_subject r)"

record user_claim =
  uc_pub_allow :: "string list"
  uc_sub_allow :: "string list"
  uc_resp :: "(nat \<times> nat) option"

definition mint_claim :: "PrincipalPermissions \<Rightarrow> nats_error + user_claim" where
  "mint_claim permissions =
     and_then (all_ok (map js_control_grants (pp_js_resources permissions))) (\<lambda>control.
       Inr \<lparr>uc_pub_allow =
              pp_publish permissions @ concat (map kv_data_grants (pp_js_resources permissions))
                @ (if pp_js_resources permissions = [] then [] else JS_API_ACCOUNT) @ concat control,
            uc_sub_allow = pp_subscribe permissions,
            uc_resp = (if pp_allow_responses permissions then Some (1, 0) else None)\<rparr>)"

end
