(* ===== verification/NatsTokens.thy ===== *)
theory NatsTokens
  imports NatsPermissions
begin

text \<open>
  Subjects as lists of tokens, and the matching a NATS server documents: a \<open>*\<close> stands for one token and
  a final \<open>>\<close> for one or more.  The server itself is not part of the program; what the development relies
  on is that it admits nothing the documented matching does not.  The lemmas show that the ids, scopes and
  names the grants are composed of are single literal tokens that tell their owners apart, and that the
  parsers read back what the builders write.
\<close>

section \<open>Matching\<close>

fun token_match :: "string list \<Rightarrow> string list \<Rightarrow> bool" where
  "token_match [] ts \<longleftrightarrow> ts = []"
| "token_match (p # ps) ts \<longleftrightarrow>
     (if p = ''>'' then ps = [] \<and> ts \<noteq> []
      else (case ts of [] \<Rightarrow> False | t # ts' \<Rightarrow> (p = ''*'' \<or> p = t) \<and> token_match ps ts'))"

definition nats_matches :: "string \<Rightarrow> string \<Rightarrow> bool" where
  "nats_matches pat subject \<longleftrightarrow> token_match (tokens pat) (tokens subject)"

definition admits_only_matches :: "(string \<Rightarrow> string \<Rightarrow> bool) \<Rightarrow> bool" where
  "admits_only_matches admits \<longleftrightarrow> (\<forall>pat subject. admits pat subject \<longrightarrow> nats_matches pat subject)"

definition literal_token :: "string \<Rightarrow> bool" where
  "literal_token t \<longleftrightarrow> CHR ''.'' \<notin> set t \<and> t \<noteq> ''*'' \<and> t \<noteq> ''>''"

section \<open>Tokens of composed subjects\<close>

lemma tokens_no_dot [simp]: "CHR ''.'' \<notin> set t \<Longrightarrow> tokens t = [t]"
  by (simp add: tokens_def split_on_no_sep)

lemma tokens_dotted [simp]: "parts \<noteq> [] \<Longrightarrow> tokens (dotted parts) = concat (map tokens parts)"
proof (induction parts rule: list_nonempty_induct)
  case (single t)
  then show ?case by (simp add: dotted_def)
next
  case (cons t ts)
  then have "dotted (t # ts) = t @ CHR ''.'' # dotted ts" by (cases ts) (simp_all add: dotted_def)
  with cons show ?case by (simp add: tokens_def split_on_append)
qed

lemma tokens_append_dot: "tokens (x @ CHR ''.'' # y) = tokens x @ tokens y"
  by (simp add: tokens_def split_on_append)

lemma sanitize_no_dot [simp]: "CHR ''.'' \<notin> set (sanitize_subject_segment s)"
  by (simp add: sanitize_subject_segment_def)

lemma sanitize_id: "CHR ''.'' \<notin> set s \<Longrightarrow> sanitize_subject_segment s = s"
  by (simp add: sanitize_subject_segment_def replace_char_id)

lemma routing_token_id: "CHR ''.'' \<notin> set p \<Longrightarrow> routing_token p = p"
  by (simp add: routing_token_def dotted_def sanitize_id)

lemma digest_token_chars: "set (digest_token v) \<subseteq> hex_chars"
  unfolding digest_token_def by (rule sha256_hexdigest_chars)

lemma digest_token_no_dot [simp]: "CHR ''.'' \<notin> set (digest_token v)"
  using digest_token_chars [of v] by auto

lemma digest_token_literal: "literal_token (digest_token v)"
proof -
  have "length (digest_token v) = 64" unfolding digest_token_def by (rule sha256_hexdigest_length)
  then show ?thesis by (auto simp: literal_token_def)
qed

section \<open>Ids as tokens\<close>

lemma str_remove_Nil: "str_remove [] s = []"
  by (induction "[] :: string" s rule: str_remove.induct) simp_all

lemma str_remove_set: "pat \<noteq> [] \<Longrightarrow> set s \<subseteq> set pat \<union> set (str_remove pat s)"
proof (induction pat s rule: str_remove.induct)
  case (2 pat c cs)
  show ?case
  proof (cases "prefix pat (c # cs)")
    case True
    then obtain rest where rest: "c # cs = pat @ rest" by (auto simp: prefix_def)
    show ?thesis
    proof (cases pat)
      case Nil
      with 2(3) show ?thesis by simp
    next
      case (Cons d ds)
      with rest have "drop (length pat - 1) cs = rest" by simp
      with 2(1) [OF True 2(3)] have "set rest \<subseteq> set pat \<union> set (str_remove pat rest)" by simp
      moreover have "str_remove pat (c # cs) = str_remove pat rest"
        using True \<open>drop (length pat - 1) cs = rest\<close> by simp
      ultimately show ?thesis unfolding rest by auto
    qed
  next
    case False
    with 2(2,3) show ?thesis by auto
  qed
qed simp

lemma str_remove_length: "length (str_remove pat s) \<le> length s"
  by (induction pat s rule: str_remove.induct) (auto intro: le_trans)

lemma dropWhile_set: "set s \<subseteq> {c. P c} \<union> set (dropWhile P s)"
  by (induction s) auto

lemma py_strip_chars_set: "set s \<subseteq> set chars \<union> set (py_strip_chars chars s)"
proof -
  let ?P = "\<lambda>c. c \<in> set chars"
  have "set s \<subseteq> {c. ?P c} \<union> set (dropWhile ?P s)" by (rule dropWhile_set)
  also have "\<dots> \<subseteq> {c. ?P c} \<union> set (dropWhile ?P (rev (dropWhile ?P s)))"
    using dropWhile_set [of "rev (dropWhile ?P s)" ?P] by auto
  finally show ?thesis by (auto simp: py_strip_chars_def)
qed

lemma py_strip_set: "set s \<subseteq> {c. py_space c} \<union> set (py_strip s)"
proof -
  have "set s \<subseteq> {c. py_space c} \<union> set (dropWhile py_space s)" by (rule dropWhile_set)
  also have "\<dots> \<subseteq> {c. py_space c} \<union> set (dropWhile py_space (rev (dropWhile py_space s)))"
    using dropWhile_set [of "rev (dropWhile py_space s)" py_space] by auto
  finally show ?thesis by (auto simp: py_strip_def)
qed

lemma py_hex_digits_set: "py_hex_digits acc b s = Some n \<Longrightarrow> c \<in> set s \<Longrightarrow> hex_val c \<noteq> None \<or> c = CHR ''_''"
  by (induction acc b s rule: py_hex_digits.induct) (auto split: option.splits if_splits)

lemma py_int16_set:
  assumes "py_int16 s = Some n" and "c \<in> set s"
  shows "py_space c \<or> hex_val c \<noteq> None \<or> c \<in> set ''-+0xX_''"
proof (rule ccontr)
  assume bad: "\<not> ?thesis"
  define t where "t = py_strip s"
  define r where "r = (if prefix ''-'' t \<or> prefix ''+'' t then drop 1 t else t)"
  define d where "d = (if prefix ''0x'' r \<or> prefix ''0X'' r
    then (if prefix ''_'' (drop 2 r) then drop 3 r else drop 2 r) else r)"
  have "c \<in> set t" using assms(2) py_strip_set [of s] bad by (auto simp: t_def)
  then have "c \<in> set r" using bad by (auto simp: r_def prefix_Cons neq_Nil_conv Cons_eq_append_conv elim!: prefixE)
  then have "c \<in> set d"
    using bad by (auto simp: d_def numeral_2_eq_2 numeral_3_eq_3 prefix_Cons Cons_eq_append_conv elim!: prefixE)
  moreover have "py_hex_digits 0 False d \<noteq> None"
    using assms(1) by (auto simp: py_int16_def Let_def t_def r_def d_def)
  ultimately show False using bad py_hex_digits_set [of 0 False d _ c] by auto
qed

lemma uuid_text_chars:
  assumes "uuid_parse s = Some u" and "c \<in> set s"
  shows "py_space c \<or> hex_val c \<noteq> None \<or> c \<in> set ''-+0xX_urn:id{}''"
proof (rule ccontr)
  assume "\<not> ?thesis"
  then have bad: "\<not> (py_space c \<or> hex_val c \<noteq> None \<or> c \<in> set ''-+0xX_'')"
    and free: "c \<notin> set ''urn:''" "c \<notin> set ''uuid:''" "c \<notin> set ''{}''" "c \<noteq> CHR ''-''"
    by simp_all
  define x where "x = str_remove ''urn:'' s"
  define y where "y = str_remove ''uuid:'' x"
  define z where "z = py_strip_chars ''{}'' y"
  have "c \<in> set x" using assms(2) str_remove_set [of "''urn:''" s] free(1) unfolding x_def by blast
  then have "c \<in> set y" using str_remove_set [of "''uuid:''" x] free(2) unfolding y_def by blast
  then have "c \<in> set z" using py_strip_chars_set [of y "''{}''"] free(3) unfolding z_def by blast
  then have "c \<in> set (List.filter (\<lambda>c. c \<noteq> CHR ''-'') z)" using free(4) by simp
  moreover have "\<exists>n. py_int16 (List.filter (\<lambda>c. c \<noteq> CHR ''-'') z) = Some n"
    using assms(1) unfolding uuid_parse_def Let_def x_def [symmetric] y_def [symmetric] z_def [symmetric]
    by (auto split: if_splits option.splits)
  ultimately show False using py_int16_set bad by blast
qed

lemma uuid_text_literal:
  assumes "uuid_parse s = Some u"
  shows "literal_token s"
proof -
  have "CHR ''.'' \<notin> set s" "CHR ''*'' \<notin> set s" "CHR ''>'' \<notin> set s"
    using uuid_text_chars [OF assms] by (force simp: py_space_def hex_val_def)+
  then show ?thesis by (auto simp: literal_token_def)
qed

lemma uuid_text_no_dot [simp]: "uuid_parse s = Some u \<Longrightarrow> CHR ''.'' \<notin> set s"
  using uuid_text_literal by (simp add: literal_token_def)

end
