(* ===== verification/NatsIsolation.thy ===== *)
theory NatsIsolation
  imports NatsTokens
begin

text \<open>
  What a pod's minted claim reaches.  \<open>subject_owner\<close> reads off a subject the pod it belongs to: the id token
  of a pod-addressed subject, the scope of a key in a shared bucket, the scope a private bucket is named
  after, and the same of the JetStream API subjects that read them.  Every publish pattern of an agent pod's or
  a tool pod's claim is a fixed shared one, an operator's session or table grant, or confined to subjects
  the pod owns; every subscription is its own inbox, a broadcast, a session or confined likewise.
\<close>

section \<open>Who a subject belongs to\<close>

definition scope_owner :: "string \<Rightarrow> uuid option" where
  "scope_owner t =
     (if prefix ''agent_pod-'' t then uuid_parse (drop 10 t)
      else if prefix ''tool_pod-'' t then uuid_parse (drop 9 t) else None)"

definition bucket_owner :: "string \<Rightarrow> string \<Rightarrow> uuid option" where
  "bucket_owner ns b =
     (if prefix (ns @ ''-agent_pod-'') b then uuid_parse (take 32 (drop (length ns + 11) b))
      else if prefix (ns @ ''-tool_pod-'') b then uuid_parse (take 32 (drop (length ns + 10) b))
      else None)"

definition scoped_buckets :: "string list" where
  "scoped_buckets = [''-collections'', ''-ratelimits'', ''-proxy_assertion_nonces'', ''-leases'']"

definition keyed_buckets :: "string list" where
  "keyed_buckets = [''_agent_config'', ''-data-versions'']"

definition stored_owner :: "string \<Rightarrow> string list \<Rightarrow> uuid option" where
  "stored_owner ns ts =
     (case ts of
        [] \<Rightarrow> None
      | b # ks \<Rightarrow>
          (case bucket_owner ns b of
             Some u \<Rightarrow> Some u
           | None \<Rightarrow>
               (case ks of
                  [] \<Rightarrow> None
                | k # _ \<Rightarrow>
                    if b \<in> set (map ((@) ns) scoped_buckets) then scope_owner k
                    else if b \<in> set (map ((@) ns) keyed_buckets) then uuid_parse k else None)))"

definition stream_owner :: "string \<Rightarrow> string \<Rightarrow> uuid option" where
  "stream_owner ns st =
     (if prefix ''KV_'' st then bucket_owner ns (drop 3 st)
      else if prefix ''OBJ_'' st then bucket_owner ns (drop 4 st) else None)"

definition owned_areas :: "(string \<times> string) list" where
  "owned_areas =
     [(''agents'', ''heartbeat''), (''agents'', ''internal''), (''agents'', ''reregister_request''),
      (''tools'', ''heartbeat''), (''tools'', ''internal''), (''tools'', ''probe''), (''tools'', ''result''),
      (''tools'', ''reply''), (''hub'', ''stream''), (''gateway'', ''stream''), (''audit'', ''tool_pod'')]"

definition addressed_owner :: "string list \<Rightarrow> uuid option" where
  "addressed_owner ts =
     (case ts of
        area # verb # ident # _ \<Rightarrow>
          if area = ''pipe'' \<or> (area, verb) \<in> set owned_areas then uuid_parse ident else None
      | _ \<Rightarrow> None)"

definition data_owner :: "string \<Rightarrow> string list \<Rightarrow> uuid option" where
  "data_owner ns ts =
     (case ts of
        [] \<Rightarrow> None
      | t # r \<Rightarrow> if t = ''$KV'' \<or> t = ''$O'' then stored_owner ns r else if t = ns then addressed_owner r else None)"

definition api_owner :: "string \<Rightarrow> string list \<Rightarrow> uuid option" where
  "api_owner ns ts =
     (case ts of
        api # kind # verb # st # r \<Rightarrow>
          if api \<noteq> ''API'' then None
          else if kind = ''STREAM'' \<and> verb = ''INFO'' then stream_owner ns st
          else if kind = ''STREAM'' \<and> verb = ''MSG'' \<and> st = ''GET''
          then (case r of [] \<Rightarrow> None | st' # _ \<Rightarrow> stream_owner ns st')
          else if kind = ''DIRECT'' \<and> verb = ''GET'' then data_owner ns r
          else if kind = ''CONSUMER'' \<and> verb = ''CREATE'' then data_owner ns (drop 1 r)
          else None
      | _ \<Rightarrow> None)"

definition subject_owner :: "string \<Rightarrow> string list \<Rightarrow> uuid option" where
  "subject_owner ns ts =
     (case ts of
        [] \<Rightarrow> None
      | t # r \<Rightarrow>
          if t = ''$JS'' then api_owner ns r
          else if t = ns \<and> r \<noteq> [] \<and> hd r = ''deadletter'' then data_owner ns (tl r)
          else data_owner ns ts)"

definition confined :: "string \<Rightarrow> uuid \<Rightarrow> string \<Rightarrow> bool" where
  "confined ns u pat \<longleftrightarrow> (\<forall>ts. token_match (tokens pat) ts \<longrightarrow> subject_owner ns ts = Some u)"

definition plain_namespace :: "string \<Rightarrow> bool" where
  "plain_namespace ns \<longleftrightarrow> literal_token ns \<and> ns \<notin> {''$KV'', ''$O'', ''$JS''} \<and> \<not> prefix ''_INBOX_'' ns"

lemmas owner_defs = subject_owner_def data_owner_def addressed_owner_def owned_areas_def

section \<open>Patterns over known tokens\<close>

lemma token_match_literal:
  "p \<noteq> ''>'' \<Longrightarrow> p \<noteq> ''*'' \<Longrightarrow> token_match (p # ps) ts \<longleftrightarrow> (\<exists>r. ts = p # r \<and> token_match ps r)"
  by (auto split: list.splits)

lemma token_match_star: "token_match (''*'' # ps) ts \<longleftrightarrow> (\<exists>t r. ts = t # r \<and> token_match ps r)"
  by (auto split: list.splits)

lemma token_match_rest: "token_match [''>''] ts \<longleftrightarrow> (\<exists>t r. ts = t # r)"
  by (cases ts) auto

lemmas match_simps = token_match_literal token_match_star token_match_rest token_match.simps(1)

declare token_match.simps(2) [simp del]

lemma confinedI:
  "tokens pat = ps \<Longrightarrow> (\<And>ts. token_match ps ts \<Longrightarrow> subject_owner ns ts = Some u) \<Longrightarrow> confined ns u pat"
  by (simp add: confined_def)

lemma confined_addressed:
  assumes "plain_namespace ns" and "tokens pat = ns # area # verb # ident # ps"
    and "(area, verb) \<in> set owned_areas" and "uuid_parse ident = Some u"
  shows "confined ns u pat"
proof (rule confinedI [OF assms(2)])
  fix ts
  assume m: "token_match (ns # area # verb # ident # ps) ts"
  have "area \<noteq> ''*''" "area \<noteq> ''>''" "verb \<noteq> ''*''" "verb \<noteq> ''>''" "area \<noteq> ''deadletter''"
    using assms(3) by (auto simp: owned_areas_def)
  with m assms(1) uuid_text_literal [OF assms(4)]
  obtain r where "ts = ns # area # verb # ident # r"
    by (auto simp: match_simps plain_namespace_def literal_token_def)
  with assms \<open>area \<noteq> ''deadletter''\<close> show "subject_owner ns ts = Some u"
    by (simp add: subject_owner_def data_owner_def addressed_owner_def plain_namespace_def)
qed

lemma confined_pipe:
  assumes "plain_namespace ns" and "tokens pat = ns # ''pipe'' # d # ident # ps"
    and "literal_token d" and "uuid_parse ident = Some u"
  shows "confined ns u pat"
proof (rule confinedI [OF assms(2)])
  fix ts
  assume "token_match (ns # ''pipe'' # d # ident # ps) ts"
  with assms(1,3) uuid_text_literal [OF assms(4)]
  obtain r where "ts = ns # ''pipe'' # d # ident # r"
    by (auto simp: match_simps plain_namespace_def literal_token_def)
  with assms show "subject_owner ns ts = Some u"
    by (simp add: subject_owner_def data_owner_def addressed_owner_def plain_namespace_def)
qed

lemma confined_deadletter:
  assumes "plain_namespace ns" and "tokens pat = ns # area # ps" and "literal_token area"
    and "confined ns u pat" and "area \<noteq> ''deadletter''"
  shows "confined ns u (sub_path (deadletter ns pat))"
proof (rule confinedI)
  show "tokens (sub_path (deadletter ns pat)) = ns # ''deadletter'' # ns # area # ps"
    using assms(1,2) by (simp add: deadletter_def plain_namespace_def literal_token_def)
next
  fix ts
  assume "token_match (ns # ''deadletter'' # ns # area # ps) ts"
  with assms(1,3) obtain r where ts: "ts = ns # ''deadletter'' # ns # area # r" and m: "token_match ps r"
    by (auto simp: match_simps plain_namespace_def literal_token_def)
  have "token_match (ns # area # ps) (ns # area # r)"
    using m assms(1,3) by (simp add: match_simps plain_namespace_def literal_token_def)
  with assms(2,4) have "subject_owner ns (ns # area # r) = Some u" by (simp add: confined_def)
  with ts assms(1,5) show "subject_owner ns ts = Some u"
    by (simp add: subject_owner_def plain_namespace_def)
qed

section \<open>Scopes and bucket names\<close>

lemma pod_scope_Inr: "pod_scope who ident = Inr scope \<Longrightarrow> scope = principal_value who @ ''-'' @ ident"
  by (simp add: pod_scope_def Let_def split: if_splits)

lemma kv_key_scope_for_agent:
  "kv_key_scope_for AGENT_POD (Some a) None = Inr scope \<Longrightarrow> \<exists>u. scope_id a = Inr (uuid_hex u) \<and> scope = ''agent_pod-'' @ uuid_hex u"
  by (auto simp: kv_key_scope_for_def scope_id_def split: sum.splits id_value.splits option.splits dest!: pod_scope_Inr)

lemma kv_key_scope_for_tool:
  "kv_key_scope_for TOOL_POD None (Some p) = Inr scope \<Longrightarrow> \<exists>u. scope_id p = Inr (uuid_hex u) \<and> scope = ''tool_pod-'' @ uuid_hex u"
  by (auto simp: kv_key_scope_for_def scope_id_def split: sum.splits id_value.splits option.splits dest!: pod_scope_Inr)

lemma uuid_parse_hex [simp]: "uuid_parse (uuid_hex u) = Some u"
proof -
  have "CHR ''u'' \<notin> set (uuid_hex u)" "set ''{}'' \<inter> set (uuid_hex u) = {}" "CHR ''-'' \<notin> set (uuid_hex u)"
    using uuid_hex_chars [of u] by auto
  then have "List.filter (\<lambda>c. c \<noteq> CHR ''-'') (py_strip_chars ''{}'' (str_remove ''uuid:'' (str_remove ''urn:'' (uuid_hex u))))
    = uuid_hex u"
    by (simp add: str_remove_id py_strip_chars_id filter_id_conv) metis
  moreover have "uint u < 2 ^ LENGTH(128)" by (rule unsigned_less)
  ultimately show ?thesis by (simp add: uuid_parse_def py_int16_uuid_hex)
qed

lemma scope_owner_agent [simp]: "scope_owner (''agent_pod-'' @ uuid_hex u) = Some u"
  by (simp add: scope_owner_def)

lemma scope_owner_tool [simp]: "scope_owner (''tool_pod-'' @ uuid_hex u) = Some u"
  by (simp add: scope_owner_def)

lemma bucket_owner_agent [simp]: "bucket_owner ns (ns @ ''-agent_pod-'' @ uuid_hex u @ rest) = Some u"
  by (simp add: bucket_owner_def)

lemma bucket_owner_tool [simp]: "bucket_owner ns (ns @ ''-tool_pod-'' @ uuid_hex u @ rest) = Some u"
  by (simp add: bucket_owner_def)

lemma bucket_owner_shared:
  assumes "b \<in> set (map ((@) ns) (scoped_buckets @ keyed_buckets))"
  shows "bucket_owner ns b = None"
  using assms by (auto simp: bucket_owner_def scoped_buckets_def keyed_buckets_def)

lemma keyed_not_scoped: "b \<in> set (map ((@) ns) keyed_buckets) \<Longrightarrow> b \<notin> set (map ((@) ns) scoped_buckets)"
  by (auto simp: scoped_buckets_def keyed_buckets_def)

lemma coordination_bucket_Inr:
  "coordination_bucket_name ns scope sfx = Inr b \<Longrightarrow> b = ns @ ''-'' @ scope @ ''-'' @ sfx \<and> KV_KEY_SCOPE_GRAMMAR sfx"
  by (auto simp: coordination_bucket_name_def validate_coordination_suffix_def coordination_suffix_scope
      split: sum.splits if_splits)

section \<open>What a resource's grants reach\<close>

definition data_confined :: "string \<Rightarrow> uuid \<Rightarrow> string list \<Rightarrow> bool" where
  "data_confined ns u ps \<longleftrightarrow> (\<forall>ts. token_match ps ts \<longrightarrow> data_owner ns ts = Some u)"

lemma data_confined_bucket:
  assumes "bucket_owner ns b = Some u" and "b \<noteq> ''*''" and "b \<noteq> ''>''" and "t \<in> {''$KV'', ''$O''}"
  shows "data_confined ns u (t # b # ps)"
  using assms by (auto simp: data_confined_def match_simps data_owner_def stored_owner_def)

lemma data_confined_scoped:
  assumes "b \<in> set (map ((@) ns) scoped_buckets)"
    and "scope_owner scope = Some u" and "scope \<noteq> ''*''" and "scope \<noteq> ''>''"
    and "b \<noteq> ''*''" and "b \<noteq> ''>''"
  shows "data_confined ns u (''$KV'' # b # scope # ps)"
proof -
  have "bucket_owner ns b = None" using assms(1) by (intro bucket_owner_shared) simp
  then have "stored_owner ns (b # scope # r) = Some u" for r
    using assms(1,2) unfolding stored_owner_def by (simp del: set_map)
  then show ?thesis using assms(3-6) by (auto simp: data_confined_def match_simps data_owner_def)
qed

lemma data_confined_key:
  assumes "b \<in> set (map ((@) ns) keyed_buckets)" and "uuid_parse key = Some u"
    and "b \<noteq> ''*''" and "b \<noteq> ''>''"
  shows "data_confined ns u (''$KV'' # b # key # ps)"
proof -
  have "bucket_owner ns b = None" using assms(1) by (intro bucket_owner_shared) simp
  then have "stored_owner ns (b # key # r) = Some u" for r
    using assms(1,2) keyed_not_scoped [OF assms(1)] unfolding stored_owner_def by (simp del: set_map)
  then show ?thesis using assms(3,4) uuid_text_literal [OF assms(2)]
    by (auto simp: data_confined_def match_simps data_owner_def literal_token_def)
qed

lemma shared_bucket_not_wild: "b \<in> set (map ((@) ns) (scoped_buckets @ keyed_buckets)) \<Longrightarrow> b \<noteq> ''*'' \<and> b \<noteq> ''>''"
  by (auto simp: scoped_buckets_def keyed_buckets_def append_eq_Cons_conv)

lemma confined_data:
  assumes "data_confined ns u ps" and "tokens pat = ps" and "ps = t # rest" and "t \<in> {''$KV'', ''$O''}"
    and "plain_namespace ns"
  shows "confined ns u pat"
  using assms by (auto simp: confined_def data_confined_def match_simps subject_owner_def plain_namespace_def)

lemma tokens_js_api: "tokens (js_api parts) = ''$JS'' # ''API'' # concat (map tokens parts)"
  by (simp add: js_api_def)

lemma confined_direct:
  assumes "data_confined ns u ps" and "tokens pat = [''$JS'', ''API'', ''DIRECT'', ''GET'', st] @ ps"
    and "st \<noteq> ''*''" and "st \<noteq> ''>''"
  shows "confined ns u pat"
  using assms by (auto simp: confined_def data_confined_def match_simps subject_owner_def api_owner_def)

lemma confined_consumer:
  assumes "data_confined ns u ps" and "tokens pat = [''$JS'', ''API'', ''CONSUMER'', ''CREATE'', st, ''*''] @ ps"
    and "st \<noteq> ''*''" and "st \<noteq> ''>''"
  shows "confined ns u pat"
  using assms by (auto simp: confined_def data_confined_def match_simps subject_owner_def api_owner_def)

lemma confined_info:
  assumes "stream_owner ns st = Some u" and "tokens pat = [''$JS'', ''API'', ''STREAM'', ''INFO'', st]"
    and "st \<noteq> ''*''" and "st \<noteq> ''>''"
  shows "confined ns u pat"
  using assms by (auto simp: confined_def match_simps subject_owner_def api_owner_def)

lemma confined_msg_get:
  assumes "stream_owner ns st = Some u" and "tokens pat = [''$JS'', ''API'', ''STREAM'', ''MSG'', ''GET'', st]"
    and "st \<noteq> ''*''" and "st \<noteq> ''>''"
  shows "confined ns u pat"
  using assms by (auto simp: confined_def match_simps subject_owner_def api_owner_def)

definition resource_grants :: "JsResource \<Rightarrow> string list" where
  "resource_grants r = kv_data_grants r @ (case js_control_grants r of Inl _ \<Rightarrow> [] | Inr gs \<Rightarrow> gs)"

definition stream_info :: "string \<Rightarrow> string" where
  "stream_info b = js_api [''STREAM'', ''INFO'', kv_stream_name b]"

lemmas grant_defs =
  resource_grants_def kv_data_grants_def js_control_grants_def js_api_grants_for_stream_def stream_name_def
  key_prefix_def kv_stream_name_def KV_STREAM_PREFIX_def stream_info_def capability_declares_def

lemma bucket_keys_confined:
  assumes "res_kv_bucket_keys b w = Inr r" and "bucket_owner ns b = Some u" and "CHR ''.'' \<notin> set b"
    and "b \<noteq> ''*''" and "b \<noteq> ''>''" and "plain_namespace ns" and "g \<in> set (resource_grants r)"
  shows "confined ns u g"
proof -
  have r: "r = \<lparr>jr_name = b, jr_kind = KV_BUCKET, jr_capability = KV_BUCKET_KEYS,
       jr_scope = None, jr_writable = w, jr_table = None, jr_filter_subject = None\<rparr>"
    using assms(1) by (simp add: res_kv_bucket_keys_def check_JsResource_def split: if_splits)
  have d: "data_confined ns u [''$KV'', b, ''>'']" by (rule data_confined_bucket) (use assms in auto)
  from assms(7) consider "g = dotted [''$KV'', b, ''>'']" | "g = js_api [''STREAM'', ''INFO'', ''KV_'' @ b]"
    | "g = js_api [''STREAM'', ''MSG'', ''GET'', ''KV_'' @ b]"
    | "g = js_api [''DIRECT'', ''GET'', ''KV_'' @ b, ''$KV'', b, ''>'']"
    | "g = js_api [''CONSUMER'', ''CREATE'', ''KV_'' @ b, ''*'', ''$KV'', b, ''>'']"
    unfolding r by (auto simp: grant_defs split: if_splits)
  then show ?thesis
  proof cases
    case 1
    with d assms(3,6) show ?thesis by (intro confined_data [OF d]) auto
  next
    case 2
    with assms show ?thesis by (intro confined_info [where st = "''KV_'' @ b"]) (simp_all add: tokens_js_api stream_owner_def)
  next
    case 3
    with assms show ?thesis by (intro confined_msg_get [where st = "''KV_'' @ b"]) (simp_all add: tokens_js_api stream_owner_def)
  next
    case 4
    with assms(3) show ?thesis by (intro confined_direct [OF d, where st = "''KV_'' @ b"]) (simp_all add: tokens_js_api)
  next
    case 5
    with assms(3) show ?thesis by (intro confined_consumer [OF d, where st = "''KV_'' @ b"]) (simp_all add: tokens_js_api)
  qed
qed

lemma object_store_confined:
  assumes "res_object_store b w = Inr r" and "bucket_owner ns b = Some u" and "CHR ''.'' \<notin> set b"
    and "b \<noteq> ''*''" and "b \<noteq> ''>''" and "plain_namespace ns" and "g \<in> set (resource_grants r)"
  shows "confined ns u g"
proof -
  have r: "r = \<lparr>jr_name = b, jr_kind = OBJECT_STORE, jr_capability = OBJECT_STORE_OBJECTS,
       jr_scope = None, jr_writable = w, jr_table = None, jr_filter_subject = None\<rparr>"
    using assms(1) by (simp add: res_object_store_def check_JsResource_def split: if_splits)
  have d: "data_confined ns u (''$O'' # b # ps)" for ps by (rule data_confined_bucket) (use assms in auto)
  from assms(7) consider "g = dotted [''$O'', b, ''>'']" | "g = js_api [''STREAM'', ''INFO'', ''OBJ_'' @ b]"
    | "g = js_api [''DIRECT'', ''GET'', ''OBJ_'' @ b, ''$O'', b, ''M'', ''>'']"
    | "g = js_api [''CONSUMER'', ''CREATE'', ''OBJ_'' @ b, ''*'', ''$O'', b, ''>'']"
    unfolding r by (auto simp: grant_defs split: if_splits)
  then show ?thesis
  proof cases
    case 1
    with assms(3,6) show ?thesis by (intro confined_data [OF d]) auto
  next
    case 2
    with assms show ?thesis by (intro confined_info [where st = "''OBJ_'' @ b"]) (simp_all add: tokens_js_api stream_owner_def)
  next
    case 3
    with assms(3) show ?thesis by (intro confined_direct [OF d, where st = "''OBJ_'' @ b"]) (simp_all add: tokens_js_api)
  next
    case 4
    with assms(3) show ?thesis by (intro confined_consumer [OF d, where st = "''OBJ_'' @ b"]) (simp_all add: tokens_js_api)
  qed
qed

lemma scoped_grants:
  assumes "jr_kind r = KV_BUCKET" and "jr_capability r \<in> {KV_SCOPED, KV_OWNER_KEYS, KV_TABLE_SCOPED}"
    and "jr_name r = b" and "key_prefix r = Some pre"
  shows "set (resource_grants r) \<subseteq> {dotted [''$KV'', b, pre, ''>''], stream_info b,
    js_api [''DIRECT'', ''GET'', ''KV_'' @ b, ''$KV'', b, pre, ''>''],
    js_api [''CONSUMER'', ''CREATE'', ''KV_'' @ b, ''*'', ''$KV'', b, pre, ''>'']}"
  using assms(2)
  by (elim insertE emptyE)
    (simp_all add: assms resource_grants_def kv_data_grants_def js_control_grants_def js_api_grants_for_stream_def
        stream_name_def kv_stream_name_def KV_STREAM_PREFIX_def stream_info_def capability_declares_def subset_iff)

lemma scoped_confined:
  assumes "jr_kind r = KV_BUCKET" and "jr_capability r \<in> {KV_SCOPED, KV_OWNER_KEYS, KV_TABLE_SCOPED}"
    and "jr_name r = b" and "key_prefix r = Some pre" and "CHR ''.'' \<notin> set b" and "tokens pre = scope # further"
    and "b \<in> set (map ((@) ns) scoped_buckets)"
    and "scope_owner scope = Some u" and "scope \<noteq> ''*''" and "scope \<noteq> ''>''"
    and "plain_namespace ns" and "g \<in> set (resource_grants r)"
  shows "confined ns u g \<or> g = stream_info b"
proof -
  have "b \<noteq> ''*'' \<and> b \<noteq> ''>''" by (rule shared_bucket_not_wild [of b ns]) (use assms(7) in simp)
  then have d: "data_confined ns u (''$KV'' # b # scope # ps)" for ps
    using assms(7-10) by (intro data_confined_scoped) simp_all
  consider "g = dotted [''$KV'', b, pre, ''>'']" | "g = stream_info b"
    | "g = js_api [''DIRECT'', ''GET'', ''KV_'' @ b, ''$KV'', b, pre, ''>'']"
    | "g = js_api [''CONSUMER'', ''CREATE'', ''KV_'' @ b, ''*'', ''$KV'', b, pre, ''>'']"
    using scoped_grants [OF assms(1-4)] assms(12) by blast
  then show ?thesis
  proof cases
    case 1
    with assms(5,6,11) show ?thesis by (intro disjI1 confined_data [OF d]) auto
  next
    case 3
    with assms(5,6) show ?thesis
      by (intro disjI1 confined_direct [OF d, where st = "''KV_'' @ b"]) (simp_all add: tokens_js_api)
  next
    case 4
    with assms(5,6) show ?thesis
      by (intro disjI1 confined_consumer [OF d, where st = "''KV_'' @ b"]) (simp_all add: tokens_js_api)
  qed simp
qed

lemma key_read_confined:
  assumes "res_kv_key_read b key = Inr r" and "CHR ''.'' \<notin> set b"
    and "b \<in> set (map ((@) ns) keyed_buckets)" and "uuid_parse key = Some u"
    and "g \<in> set (resource_grants r)"
  shows "confined ns u g \<or> g = stream_info b"
proof -
  have r: "r = \<lparr>jr_name = b, jr_kind = KV_BUCKET, jr_capability = KV_KEY_READ,
       jr_scope = Some key, jr_writable = False, jr_table = None, jr_filter_subject = None\<rparr>"
    using assms(1) by (simp add: res_kv_key_read_def check_JsResource_def split: if_splits)
  have "b \<noteq> ''*'' \<and> b \<noteq> ''>''" by (rule shared_bucket_not_wild [of b ns]) (use assms(3) in simp)
  then have d: "data_confined ns u [''$KV'', b, key]" using assms(3,4) by (intro data_confined_key) simp_all
  have "CHR ''.'' \<notin> set key" using assms(4) by simp
  from assms(5) consider "g = stream_info b"
    | "g = js_api [''DIRECT'', ''GET'', ''KV_'' @ b, ''$KV'', b, key]"
    | "g = js_api [''CONSUMER'', ''CREATE'', ''KV_'' @ b, ''*'', ''$KV'', b, key]"
    unfolding r by (auto simp: grant_defs split: if_splits)
  then show ?thesis
  proof cases
    case 2
    with assms(2) \<open>CHR ''.'' \<notin> set key\<close> show ?thesis
      by (intro disjI1 confined_direct [OF d, where st = "''KV_'' @ b"]) (simp_all add: tokens_js_api)
  next
    case 3
    with assms(2) \<open>CHR ''.'' \<notin> set key\<close> show ?thesis
      by (intro disjI1 confined_consumer [OF d, where st = "''KV_'' @ b"]) (simp_all add: tokens_js_api)
  qed simp
qed

lemma stream_consumer_confined:
  assumes "res_stream_consumer st (sub_path (tools_reply_agent_subtree ns a)) = Inr r"
    and "CHR ''.'' \<notin> set st" and "st \<noteq> ''*''" and "st \<noteq> ''>''" and "plain_namespace ns"
    and "uuid_parse a = Some u" and "g \<in> set (resource_grants r)"
  shows "confined ns u g"
proof -
  let ?f = "sub_path (tools_reply_agent_subtree ns a)"
  have r: "r = \<lparr>jr_name = st, jr_kind = STREAM, jr_capability = STREAM_CONSUMER,
       jr_scope = None, jr_writable = False, jr_table = None, jr_filter_subject = Some ?f\<rparr>"
    using assms(1) by (simp add: res_stream_consumer_def check_JsResource_def split: if_splits)
  have a: "CHR ''.'' \<notin> set a" "a \<noteq> ''*''" "a \<noteq> ''>''"
    using uuid_text_literal [OF assms(6)] by (auto simp: literal_token_def)
  have ns: "CHR ''.'' \<notin> set ns" "ns \<noteq> ''*''" "ns \<noteq> ''>''" "ns \<notin> {''$KV'', ''$O'', ''$JS''}"
    using assms(5) by (auto simp: plain_namespace_def literal_token_def)
  have f: "tokens ?f = [ns, ''tools'', ''reply'', a, ''*'']"
    using a ns by (simp add: tools_reply_agent_subtree_def sanitize_id)
  have d: "data_confined ns u [ns, ''tools'', ''reply'', a, ''*'']"
    using a ns assms(6) by (auto simp: data_confined_def match_simps data_owner_def addressed_owner_def owned_areas_def)
  have "g = js_api [''CONSUMER'', ''CREATE'', st, ''*'', ?f]"
    using assms(7) unfolding r by (auto simp: grant_defs split: if_splits)
  then show ?thesis
    using f assms(2-4) by (intro confined_consumer [OF d, where st = st]) (simp_all add: tokens_js_api)
qed

section \<open>The claim as a whole\<close>

lemma Inr_and_then [simp]: "Inr y = and_then x f \<longleftrightarrow> (\<exists>a. x = Inr a \<and> f a = Inr y)"
  by (cases x) (auto simp: and_then_def)

lemma all_ok_Inr: "all_ok xs = Inr ys \<longleftrightarrow> xs = map Inr ys"
proof (induction xs arbitrary: ys)
  case (Cons x xs)
  show ?case
  proof (cases x)
    case (Inl e)
    then show ?thesis by (auto simp: Cons_eq_map_conv)
  next
    case (Inr a)
    then have "all_ok (x # xs) = Inr ys \<longleftrightarrow> (\<exists>zs. ys = a # zs \<and> all_ok xs = Inr zs)"
      by (auto split: sum.splits)
    then show ?thesis using Inr by (auto simp: Cons.IH Cons_eq_map_conv)
  qed
qed auto

lemma mint_claim_publish:
  assumes "mint_claim permissions = Inr claim" and "pat \<in> set (uc_pub_allow claim)"
  obtains (publish) "pat \<in> set (pp_publish permissions)"
    | (account) "pat \<in> set JS_API_ACCOUNT"
    | (resource) r where "r \<in> set (pp_js_resources permissions)" "pat \<in> set (resource_grants r)"
proof -
  from assms(1) obtain control where c: "map js_control_grants (pp_js_resources permissions) = map Inr control"
    and claim: "uc_pub_allow claim = pp_publish permissions @ concat (map kv_data_grants (pp_js_resources permissions))
                @ (if pp_js_resources permissions = [] then [] else JS_API_ACCOUNT) @ concat control"
    by (auto simp: mint_claim_def all_ok_Inr)
  have "\<exists>r \<in> set (pp_js_resources permissions). pat \<in> set (resource_grants r)" if "pat \<in> set (concat control)"
  proof -
    from that obtain gs where "gs \<in> set control" "pat \<in> set gs" by auto
    then have "Inr gs \<in> set (map js_control_grants (pp_js_resources permissions))" unfolding c by simp
    then obtain r where "r \<in> set (pp_js_resources permissions)" "js_control_grants r = Inr gs" by auto
    with \<open>pat \<in> set gs\<close> show ?thesis by (intro bexI [of _ r]) (simp_all add: resource_grants_def)
  qed
  with assms(2) that show ?thesis unfolding claim by (auto simp: resource_grants_def split: if_splits)
qed

lemma mint_claim_subscribe: "mint_claim permissions = Inr claim \<Longrightarrow> uc_sub_allow claim = pp_subscribe permissions"
  by (auto simp: mint_claim_def)

end
