(* ===== verification/NatsPods.thy ===== *)
theory NatsPods
  imports NatsIsolation
begin

text \<open>
  The publish and subscribe lists of an agent pod and of a tool pod, pattern by pattern: which are shared by
  every pod, which come from the operator, and that the rest are confined to the pod's own id.
\<close>

section \<open>What pods share\<close>

definition shared_parts :: "string list list" where
  "shared_parts =
       [[''agents'', ''register''], [''agents'', ''deregister''], [''agents'', ''complete'', ''*''],
        [''hub'', ''handshake''], [''hub'', ''secrets'', ''request''], [''hub'', ''object'', ''commit''],
        [''hub'', ''object'', ''resolve''], [''hub'', ''approval'', ''record''],
        [''hub'', ''memory'', ''namespace'', ''ensure''], [''hub'', ''audit'', ''anonymize''],
        [''hub'', ''channel'', ''engagement'', ''default'', ''resolve''], [''hub'', ''jwks''],
        [''hub'', ''geo'', ''layers'', ''reloaded''], [''hub'', ''collection_keys'', ''purge''],
        [''hub'', ''cache'', ''index'', ''moved''], [''hub'', ''engagement'', ''scope''],
        [''hub'', ''object_store'', ''declare''], [''hub'', ''object_store'', ''retire''],
        [''gateway'', ''completion''], [''gateway'', ''embedding''],
        [''tools'', ''discover''], [''tools'', ''call''], [''tools'', ''register''],
        [''audit'', ''tool.call''], [''knowledge'', ''draft''], [''workspaces'', ''create''],
        [''namespace'', ''discover''], [''datasource'', ''*'', ''query''],
        [''l3'', ''query''], [''l3'', ''batch''], [''l3'', ''truncate''], [''l3'', ''load_files''], [''l3'', ''tx'', ''*''],
        [''channels'', ''deliver'', ''*''], [''deadletter'', ''threetears.cache.invalidate'']]"

definition fixed_subjects :: "string list" where
  "fixed_subjects =
     [''threetears.cache.invalidate'', ''$SYS.REQ.USER.INFO'', ''$JS.API.INFO'', ''$JS.API.STREAM.NAMES'']"

definition shared_subjects :: "string \<Rightarrow> string list" where
  "shared_subjects ns = map (\<lambda>parts. dotted (ns # parts)) shared_parts @ fixed_subjects"

lemmas shared_subjects_defs = shared_subjects_def shared_parts_def fixed_subjects_def

definition shared_streams :: "string \<Rightarrow> string list" where
  "shared_streams ns =
     map (\<lambda>name. stream_info (ns @ name))
         (''-epochs'' # scoped_buckets @ keyed_buckets)
     @ [js_api [''STREAM'', ''MSG'', ''GET'', ''KV_'' @ ns @ ''-epochs''],
        js_api [''DIRECT'', ''GET'', ''KV_'' @ ns @ ''-epochs'', ''$KV'', ns @ ''-epochs'', ''>''],
        js_api [''CONSUMER'', ''CREATE'', ''KV_'' @ ns @ ''-epochs'', ''*'', ''$KV'', ns @ ''-epochs'', ''>'']]"

definition shared_publish :: "string \<Rightarrow> string list" where
  "shared_publish ns = shared_subjects ns @ shared_streams ns"

definition broadcasts :: "string \<Rightarrow> string list" where
  "broadcasts ns =
     [dotted [ns, ''acl'', ''membership'', ''invalidate''], dotted [ns, ''acl'', ''assignment'', ''invalidate''],
      dotted [ns, ''acl'', ''role'', ''invalidate''], ''threetears.cache.invalidate'']"

lemma plain_dotless [simp]: "plain_namespace ns \<Longrightarrow> CHR ''.'' \<notin> set ns"
  by (simp add: plain_namespace_def literal_token_def)

lemma res_kv_bucket_keys_Inr:
  "res_kv_bucket_keys b w = Inr r \<Longrightarrow> r = \<lparr>jr_name = b, jr_kind = KV_BUCKET, jr_capability = KV_BUCKET_KEYS,
       jr_scope = None, jr_writable = w, jr_table = None, jr_filter_subject = None\<rparr>"
  by (simp add: res_kv_bucket_keys_def check_JsResource_def split: if_splits)

lemma res_kv_scoped_Inr:
  "res_kv b (Some scope) w False = Inr r \<Longrightarrow> r = \<lparr>jr_name = b, jr_kind = KV_BUCKET, jr_capability = KV_SCOPED,
       jr_scope = Some scope, jr_writable = w, jr_table = None, jr_filter_subject = None\<rparr>"
  by (simp add: res_kv_def check_JsResource_def split: if_splits)

lemma res_kv_owner_keys_Inr:
  "res_kv_owner_keys b scope w = Inr r \<Longrightarrow> r = \<lparr>jr_name = b, jr_kind = KV_BUCKET, jr_capability = KV_OWNER_KEYS,
       jr_scope = Some scope, jr_writable = w, jr_table = None, jr_filter_subject = None\<rparr>"
  by (simp add: res_kv_owner_keys_def check_JsResource_def split: if_splits)

lemma epochs_shared:
  assumes "res_kv_bucket_keys (ns @ ''-epochs'') False = Inr r" and "g \<in> set (resource_grants r)"
  shows "g \<in> set (shared_publish ns)"
proof -
  have "g \<in> set (shared_streams ns)"
    using assms(2) unfolding res_kv_bucket_keys_Inr [OF assms(1)]
    by (simp add: grant_defs shared_streams_def) blast
  then show ?thesis by (simp add: shared_publish_def)
qed

lemma info_shared: "name \<in> set (scoped_buckets @ keyed_buckets) \<Longrightarrow> stream_info (ns @ name) \<in> set (shared_publish ns)"
  by (simp add: shared_publish_def shared_streams_def) blast

lemma shared_bucket_dotless: "name \<in> set (scoped_buckets @ keyed_buckets) \<Longrightarrow> CHR ''.'' \<notin> set name"
  by (auto simp: scoped_buckets_def keyed_buckets_def)

section \<open>Private buckets and scoped keys of a pod\<close>

lemma scope_literal: "scope_owner scope = Some u \<Longrightarrow> scope \<noteq> ''*'' \<and> scope \<noteq> ''>''"
  by (auto simp: scope_owner_def split: if_splits)

lemma scope_resource:
  assumes "jr_kind r = KV_BUCKET" and "jr_capability r \<in> {KV_SCOPED, KV_OWNER_KEYS, KV_TABLE_SCOPED}"
    and "jr_name r = ns @ name" and "key_prefix r = Some pre" and "tokens pre = scope # further"
    and "name \<in> set scoped_buckets" and "scope_owner scope = Some u" and "plain_namespace ns"
    and "g \<in> set (resource_grants r)"
  shows "confined ns u g \<or> g \<in> set (shared_publish ns)"
proof -
  have "CHR ''.'' \<notin> set (ns @ name)" using assms(6,8) shared_bucket_dotless [of name] by simp
  moreover have "ns @ name \<in> set (map ((@) ns) scoped_buckets)" using assms(6) by simp
  moreover have "scope \<noteq> ''*''" "scope \<noteq> ''>''" using scope_literal [OF assms(7)] by blast+
  ultimately have "confined ns u g \<or> g = stream_info (ns @ name)"
    using scoped_confined [OF assms(1-4) _ assms(5) _ assms(7)] assms(8,9) by blast
  moreover have "stream_info (ns @ name) \<in> set (shared_publish ns)"
    using assms(6) by (intro info_shared) simp
  ultimately show ?thesis by blast
qed

lemma collections_resource:
  assumes "res_kv (ns @ ''-collections'') (Some scope) True False = Inr r"
    and "scope_owner scope = Some u" and "CHR ''.'' \<notin> set scope" and "plain_namespace ns"
    and "g \<in> set (resource_grants r)"
  shows "confined ns u g \<or> g \<in> set (shared_publish ns)"
  using assms(2-5) by (intro scope_resource [where r = r and name = "''-collections''" and pre = scope and scope = scope and further = "[]"])
    (simp_all add: res_kv_scoped_Inr [OF assms(1)] key_prefix_def scoped_buckets_def)

lemma owner_keys_resource:
  assumes "res_kv_owner_keys (ns @ name) scope True = Inr r"
    and "name \<in> set scoped_buckets"
    and "scope_owner scope = Some u" and "CHR ''.'' \<notin> set scope" and "plain_namespace ns"
    and "g \<in> set (resource_grants r)"
  shows "confined ns u g \<or> g \<in> set (shared_publish ns)"
  using assms(2-6) by (intro scope_resource [where r = r and name = name and pre = scope and scope = scope and further = "[]"])
    (simp_all add: res_kv_owner_keys_Inr [OF assms(1)] key_prefix_def)

lemma table_resource:
  assumes "res_kv_table (ns @ ''-collections'') scope table w = Inr r"
    and "scope_owner scope = Some u" and "CHR ''.'' \<notin> set scope" and "plain_namespace ns"
    and "g \<in> set (resource_grants r)"
  shows "confined ns u g \<or> g \<in> set (shared_publish ns)"
proof -
  have r: "r = \<lparr>jr_name = ns @ ''-collections'', jr_kind = KV_BUCKET, jr_capability = KV_TABLE_SCOPED,
       jr_scope = Some scope, jr_writable = w, jr_table = Some table, jr_filter_subject = None\<rparr>"
    and "KV_KEY_SCOPE_GRAMMAR table"
    using assms(1) by (simp_all add: res_kv_table_def check_JsResource_def split: if_splits)
  then have "tokens (dotted [scope, table]) = [scope, table]" using assms(3) by (simp add: key_scope_no_dot)
  then show ?thesis
    using assms(2,4,5) by (intro scope_resource [where r = r and name = "''-collections''" and pre = "dotted [scope, table]"
        and scope = scope and further = "[table]"])
      (simp_all add: r key_prefix_def scoped_buckets_def)
qed

lemma key_read_resource:
  assumes "res_kv_key_read (ns @ name) key = Inr r" and "name \<in> set keyed_buckets"
    and "uuid_parse key = Some u" and "plain_namespace ns" and "g \<in> set (resource_grants r)"
  shows "confined ns u g \<or> g \<in> set (shared_publish ns)"
proof -
  have "CHR ''.'' \<notin> set (ns @ name)" using assms(2,4) shared_bucket_dotless [of name] by simp
  moreover have "ns @ name \<in> set (map ((@) ns) keyed_buckets)" using assms(2) by simp
  ultimately have "confined ns u g \<or> g = stream_info (ns @ name)"
    using key_read_confined [OF assms(1) _ _ assms(3,5)] by blast
  then show ?thesis using assms(2) info_shared [of name ns] by auto
qed

lemma private_bucket:
  assumes "coordination_bucket_name ns scope sfx = Inr b" and "scope \<in> {''agent_pod-'' @ uuid_hex u, ''tool_pod-'' @ uuid_hex u}"
    and "plain_namespace ns"
  shows "bucket_owner ns b = Some u" and "CHR ''.'' \<notin> set b" and "b \<noteq> ''*''" and "b \<noteq> ''>''"
proof -
  from coordination_bucket_Inr [OF assms(1)] have b: "b = ns @ ''-'' @ scope @ ''-'' @ sfx" and sfx: "KV_KEY_SCOPE_GRAMMAR sfx"
    by auto
  from assms(2) consider "scope = ''agent_pod-'' @ uuid_hex u" | "scope = ''tool_pod-'' @ uuid_hex u" by blast
  then show "bucket_owner ns b = Some u"
    using bucket_owner_agent [of ns u "''-'' @ sfx"] bucket_owner_tool [of ns u "''-'' @ sfx"] by cases (simp_all add: b)
  show "CHR ''.'' \<notin> set b" using assms(2,3) key_scope_no_dot [OF sfx] by (auto simp: b)
  have "length b > 1" using assms(2) by (auto simp: b)
  then show "b \<noteq> ''*''" "b \<noteq> ''>''" by auto
qed

lemma private_bucket_resource:
  assumes "coordination_bucket_name ns scope sfx = Inr b" and "scope \<in> {''agent_pod-'' @ uuid_hex u, ''tool_pod-'' @ uuid_hex u}"
    and "plain_namespace ns" and "res_kv_bucket_keys b w = Inr r \<or> res_object_store b w = Inr r"
    and "g \<in> set (resource_grants r)"
  shows "confined ns u g"
  using assms(4)
proof
  assume "res_kv_bucket_keys b w = Inr r"
  then show ?thesis using private_bucket [OF assms(1-3)] assms(3,5) by (rule bucket_keys_confined)
next
  assume "res_object_store b w = Inr r"
  then show ?thesis using private_bucket [OF assms(1-3)] assms(3,5) by (rule object_store_confined)
qed

section \<open>Agent pods\<close>

lemma all_ok_member: "all_ok xs = Inr ys \<Longrightarrow> y \<in> set ys \<Longrightarrow> Inr y \<in> set xs"
  by (simp add: all_ok_Inr)

lemma fixed_or_declared:
  "and_then (all_ok xs) (\<lambda>fixed. and_then y (\<lambda>declared. Inr (fixed @ declared))) = Inr rs \<Longrightarrow> r \<in> set rs
    \<Longrightarrow> Inr r \<in> set xs \<or> (\<exists>declared. y = Inr declared \<and> r \<in> set declared)"
  by (auto dest: all_ok_member)

lemma coordination_resource:
  assumes "coordination_resources ns scope names = Inr rs" and "r \<in> set rs"
  obtains sfx b where "coordination_bucket_name ns scope sfx = Inr b" "res_kv_bucket_keys b True = Inr r"
proof -
  from assms(1) have "all_ok (map (\<lambda>sfx. and_then (coordination_bucket_name ns scope sfx)
      (\<lambda>name. res_kv_bucket_keys name True)) names) = Inr rs"
    by (simp add: coordination_resources_def split: if_splits)
  from all_ok_member [OF this assms(2)] obtain sfx
    where "Inr r = and_then (coordination_bucket_name ns scope sfx) (\<lambda>name. res_kv_bucket_keys name True)"
    unfolding set_map by blast
  with that show ?thesis by auto
qed

lemma agent_resource_cases:
  assumes "agent_pod_resources ns scope a names = Inr rs" and "uuid_parse a = Some u" and "r \<in> set rs"
  obtains (epochs) "res_kv_bucket_keys (ns @ ''-epochs'') False = Inr r"
    | (config) "res_kv_key_read (ns @ ''_agent_config'') (uuid_str u) = Inr r"
    | (collections) "res_kv (ns @ ''-collections'') (Some scope) True False = Inr r"
    | (owner) name where "res_kv_owner_keys (ns @ name) scope True = Inr r" "name \<in> set scoped_buckets"
    | (reply) "res_stream_consumer (result_stream_name ns) (sub_path (tools_reply_agent_subtree ns a)) = Inr r"
    | (version) "res_kv_key_read (ns @ ''-data-versions'') (uuid_hex u) = Inr r"
    | (bucket) sfx b where "coordination_bucket_name ns scope sfx = Inr b" "res_kv_bucket_keys b True = Inr r"
proof -
  consider
      (declared) declared where "coordination_resources ns scope names = Inr declared" "r \<in> set declared"
    | (fixed) "Inr r \<in> set (
         [res_kv_bucket_keys (ns @ ''-epochs'') False,
          and_then (agent_config_kv_key (IdText a)) (res_kv_key_read (agent_config_bucket_name ns)),
          res_kv (ns @ ''-collections'') (Some scope) True False,
          res_kv_owner_keys (ns @ ''-ratelimits'') scope True,
          res_kv_owner_keys (ns @ ''-proxy_assertion_nonces'') scope True,
          res_stream_consumer (result_stream_name ns) (sub_path (tools_reply_agent_subtree ns a)),
          and_then (data_version_kv_key (IdText a)) (res_kv_key_read (data_versions_bucket_name ns))]
         @ map (\<lambda>sfx. and_then (coordination_bucket_name ns scope sfx) (\<lambda>name. res_kv_bucket_keys name True))
             AGENT_POD_PLATFORM_BUCKET_SUFFIXES)"
    using fixed_or_declared [OF assms(1) [unfolded agent_pod_resources_def] assms(3)] by blast
  then show thesis
  proof cases
    case declared
    from coordination_resource [OF this] bucket show thesis by blast
  next
    case fixed
    have keys: "agent_config_kv_key (IdText a) = Inr (uuid_str u)" "data_version_kv_key (IdText a) = Inr (uuid_hex u)"
      using assms(2) by (simp_all add: agent_config_kv_key_def data_version_kv_key_def)
    have known: "''-ratelimits'' \<in> set scoped_buckets" "''-proxy_assertion_nonces'' \<in> set scoped_buckets"
      by (simp_all add: scoped_buckets_def)
    have names: "agent_config_bucket_name ns = ns @ ''_agent_config''" "data_versions_bucket_name ns = ns @ ''-data-versions''"
      by (simp_all add: agent_config_bucket_name_def AGENT_CONFIG_BUCKET_SUFFIX_def data_versions_bucket_name_def
          DATA_VERSIONS_BUCKET_SUFFIX_def)
    from fixed show thesis
      unfolding set_append list.set set_map keys names
      using epochs config collections owner [OF _ known(1)] owner [OF _ known(2)] reply version bucket
      by (elim UnE insertE imageE emptyE) (simp_all add: and_then_def split: sum.splits)
  qed
qed

lemma agent_resources_confined:
  assumes "agent_pod_resources ns scope a names = Inr rs" and "uuid_parse a = Some u"
    and "scope = ''agent_pod-'' @ uuid_hex u" and "plain_namespace ns"
    and "r \<in> set rs" and "g \<in> set (resource_grants r)"
  shows "confined ns u g \<or> g \<in> set (shared_publish ns)"
proof -
  have scope: "scope_owner scope = Some u" "CHR ''.'' \<notin> set scope"
    unfolding assms(3) by (rule scope_owner_agent) simp
  have stream: "CHR ''.'' \<notin> set (result_stream_name ns)" "result_stream_name ns \<noteq> ''*''" "result_stream_name ns \<noteq> ''>''"
    using assms(4) by (auto simp: result_stream_name_def RESULT_STREAM_SUFFIX_def append_eq_Cons_conv)
  from assms(1,2,5) show ?thesis
  proof (cases rule: agent_resource_cases)
    case epochs
    from epochs_shared [OF this assms(6)] show ?thesis ..
  next
    case config
    then show ?thesis by (rule key_read_resource) (simp_all add: keyed_buckets_def assms)
  next
    case collections
    from collections_resource [OF this scope assms(4,6)] show ?thesis .
  next
    case owner
    from owner_keys_resource [OF this scope assms(4,6)] show ?thesis .
  next
    case reply
    from stream_consumer_confined [OF this stream assms(4,2,6)] show ?thesis ..
  next
    case version
    then show ?thesis by (rule key_read_resource) (simp_all add: keyed_buckets_def assms)
  next
    case bucket
    then show ?thesis using private_bucket_resource [OF bucket(1) _ assms(4), of u] assms(3,6) by blast
  qed
qed

definition agent_owned_publish :: "string \<Rightarrow> string \<Rightarrow> string \<Rightarrow> string list" where
  "agent_owned_publish ns a p =
     [sub_path (agent_heartbeat ns a p), sub_path (tools_heartbeat_agent_subtree ns a),
      sub_path (tools_result_agent_subtree ns a), dotted [ns, ''hub'', ''stream'', sanitize_subject_segment a, ''*'']]"

definition agent_owned_subscribe :: "string \<Rightarrow> string \<Rightarrow> string \<Rightarrow> string list" where
  "agent_owned_subscribe ns a p =
     [sub_path (agent_internal ns a p), sub_path (agent_reregister_request ns a p),
      sub_path (tools_internal_agent_subtree ns a), sub_path (tools_probe_agent_subtree ns a),
      dotted [ns, ''gateway'', ''stream'', sanitize_subject_segment a, ''*'']]"

lemma agent_publish_split:
  "set (agent_pod_publish ns a p) \<subseteq> set (shared_subjects ns) \<union> set (agent_owned_publish ns a p)"
  by (simp add: agent_pod_publish_def agent_owned_publish_def shared_subjects_defs subject_defs
      CROSS_PLATFORM_CACHE_INVALIDATE_def)

lemma agent_subscribe_split:
  "set (agent_pod_subscribe ns inbox a p) = {inbox @ ''.>''} \<union> set (broadcasts ns) \<union> set (agent_owned_subscribe ns a p)"
  by (auto simp: agent_pod_subscribe_def agent_owned_subscribe_def broadcasts_def acl_invalidate_def
      CROSS_PLATFORM_CACHE_INVALIDATE_def)

lemma owned_tokens:
  assumes "plain_namespace ns" and "uuid_parse a = Some u"
    and "pat \<in> set (agent_owned_publish ns a p) \<union> set (agent_owned_subscribe ns a p)"
  obtains area verb ps where "tokens pat = ns # area # verb # a # ps" "(area, verb) \<in> set owned_areas"
proof -
  have "\<exists>area verb ps. tokens pat = ns # area # verb # a # ps \<and> (area, verb) \<in> set owned_areas"
    using assms by (auto simp: agent_owned_publish_def agent_owned_subscribe_def subject_defs sanitize_id owned_areas_def)
  with that show ?thesis by blast
qed

lemma owned_area_literal: "(area, verb) \<in> set owned_areas \<Longrightarrow> literal_token area \<and> area \<noteq> ''deadletter''"
  by (auto simp: owned_areas_def literal_token_def)

lemma agent_owned_confined:
  assumes "plain_namespace ns" and "uuid_parse a = Some u"
    and "pat \<in> set (agent_owned_publish ns a p) \<union> set (agent_owned_subscribe ns a p)"
  shows "confined ns u pat" and "confined ns u (sub_path (deadletter ns pat))"
proof -
  from owned_tokens [OF assms] obtain area verb ps
    where t: "tokens pat = ns # area # verb # a # ps" "(area, verb) \<in> set owned_areas" .
  show "confined ns u pat" by (rule confined_addressed [OF assms(1) t assms(2)])
  then show "confined ns u (sub_path (deadletter ns pat))"
    using confined_deadletter [OF assms(1) t(1)] owned_area_literal [OF t(2)] by blast
qed

lemma deadletter_cache_shared: "sub_path (deadletter ns ''threetears.cache.invalidate'') \<in> set (shared_publish ns)"
  by (simp add: deadletter_def shared_publish_def shared_subjects_defs)

lemma retired_broadcasts: "set (broadcasts ns) = set (retired_subscriptions ns) \<union> {''threetears.cache.invalidate''}"
  by (auto simp: broadcasts_def retired_subscriptions_def acl_invalidate_def)

lemma agent_deadletters:
  assumes "plain_namespace ns" and "uuid_parse a = Some u"
    and "pat \<in> set (deadletters ns (agent_pod_subscribe ns inbox a p) inbox)"
  shows "confined ns u pat \<or> pat \<in> set (shared_publish ns)"
proof -
  from assms(3) obtain subject where "subject \<in> set (agent_pod_subscribe ns inbox a p)"
    "\<not> prefix (inbox @ ''.'') subject" "subject \<notin> set (retired_subscriptions ns)"
    and pat: "pat = sub_path (deadletter ns subject)"
    by (auto simp: deadletters_def)
  then consider "subject \<in> set (agent_owned_subscribe ns a p)" | "subject = ''threetears.cache.invalidate''"
    unfolding agent_subscribe_split retired_broadcasts by auto
  then show ?thesis
    by cases (use agent_owned_confined(2) [OF assms(1,2), of subject p] deadletter_cache_shared [of ns] pat in auto)
qed

lemma agent_pod_Inr:
  assumes "agent_pod ns ids = Inr permissions"
  obtains a p u resources inbox where
    "pi_agent_id ids = Some a" "pi_pod_id ids = Some p" "uuid_parse a = Some u"
    "inbox = inbox_prefix_for AGENT_POD (conn_or (pi_conn_id ids) p)"
    "agent_pod_resources ns (''agent_pod-'' @ uuid_hex u) a (pi_coordination_buckets ids) = Inr resources"
    "pp_publish permissions = agent_pod_publish ns a p @ deadletters ns (agent_pod_subscribe ns inbox a p) inbox"
    "pp_subscribe permissions = agent_pod_subscribe ns inbox a p" "pp_js_resources permissions = resources"
proof -
  from assms obtain a p scope resources where
    "require (pi_agent_id ids) = Inr a" "require (pi_pod_id ids) = Inr p"
    "kv_key_scope_for AGENT_POD (Some (IdText a)) None = Inr scope"
    "agent_pod_resources ns scope a (pi_coordination_buckets ids) = Inr resources"
    "permissions = (let inbox = inbox_prefix_for AGENT_POD (conn_or (pi_conn_id ids) p);
           subscribe = agent_pod_subscribe ns inbox a p
       in \<lparr>pp_publish = agent_pod_publish ns a p @ deadletters ns subscribe inbox, pp_subscribe = subscribe,
               pp_allow_responses = True, pp_inbox_prefix = inbox, pp_js_resources = resources\<rparr>)"
    unfolding agent_pod_def and_then_Inr by (auto simp: Let_def)
  moreover from kv_key_scope_for_agent [OF this(3)] obtain u
    where "uuid_parse a = Some u" "scope = ''agent_pod-'' @ uuid_hex u"
    by (auto simp: scope_id_def split: option.splits)
  ultimately show ?thesis
    using that [of a p u "inbox_prefix_for AGENT_POD (conn_or (pi_conn_id ids) p)" resources]
    by (auto simp: require_def Let_def split: option.splits if_splits)
qed

lemma agent_claim_publish:
  assumes "agent_pod ns ids = Inr permissions" and "mint_claim permissions = Inr claim" and "plain_namespace ns"
    and "pat \<in> set (uc_pub_allow claim)" and "pi_agent_id ids = Some a" and "uuid_parse a = Some u"
  shows "confined ns u pat \<or> pat \<in> set (shared_publish ns)"
proof -
  from agent_pod_Inr [OF assms(1)] assms(5,6) obtain p resources inbox where
    r: "agent_pod_resources ns (''agent_pod-'' @ uuid_hex u) a (pi_coordination_buckets ids) = Inr resources"
    and p: "pp_publish permissions = agent_pod_publish ns a p @ deadletters ns (agent_pod_subscribe ns inbox a p) inbox"
    and js: "pp_js_resources permissions = resources"
    by (metis option.inject)
  from assms(2,4) show ?thesis
  proof (cases rule: mint_claim_publish)
    case publish
    with agent_publish_split [of ns a p] consider "pat \<in> set (shared_subjects ns)" | "pat \<in> set (agent_owned_publish ns a p)"
      | "pat \<in> set (deadletters ns (agent_pod_subscribe ns inbox a p) inbox)"
      unfolding p by auto
    then show ?thesis
      by cases (use agent_owned_confined(1) [OF assms(3,6), of pat p] agent_deadletters [OF assms(3,6)] in
          \<open>auto simp: shared_publish_def\<close>)
  next
    case account
    then show ?thesis by (auto simp: JS_API_ACCOUNT_def shared_publish_def shared_subjects_defs)
  next
    case (resource r)
    then show ?thesis using agent_resources_confined [OF r assms(6) refl assms(3)] js by auto
  qed
qed

end
