(* ===== verification/NatsToolPods.thy ===== *)
theory NatsToolPods
  imports NatsPods
begin

text \<open>
  The same for a tool pod, whose claim also carries what an operator granted it: the sessions of its tool
  namespaces, and tables and buckets of agents.  The last section states what a whole fleet of pods gets.
\<close>

section \<open>Tool pods\<close>

definition tool_owned_publish :: "string \<Rightarrow> uuid \<Rightarrow> string \<Rightarrow> string list" where
  "tool_owned_publish ns u p =
     [sub_path (tools_heartbeat ns p), sub_path (tools_result_pod_wildcard ns p),
      dotted [ns, ''audit'', ''tool_pod'', uuid_str u, ''>'']]"

definition tool_owned_subscribe :: "string \<Rightarrow> string \<Rightarrow> string list" where
  "tool_owned_subscribe ns p = [sub_path (tools_internal ns p), sub_path (tools_probe ns p)]"

lemma tool_publish_split:
  "set (tool_pod_publish ns (dotted [ns, ''audit'', ''tool_pod'', uuid_str u, ''>'']) p)
    \<subseteq> set (shared_subjects ns) \<union> set (tool_owned_publish ns u p)"
  by (simp add: tool_pod_publish_def tool_owned_publish_def shared_subjects_defs subject_defs
      CROSS_PLATFORM_CACHE_INVALIDATE_def SERVER_USER_INFO_SUBJECT_def)

lemma tool_subscribe_split:
  "set (tool_pod_subscribe ns inbox p)
    = {inbox @ ''.>''} \<union> {''threetears.cache.invalidate''} \<union> set (tool_owned_subscribe ns p)"
  by (auto simp: tool_pod_subscribe_def tool_owned_subscribe_def CROSS_PLATFORM_CACHE_INVALIDATE_def)

lemma tool_owned_tokens:
  assumes "plain_namespace ns" and "uuid_parse p = Some u"
    and "pat \<in> set (tool_owned_publish ns u p) \<union> set (tool_owned_subscribe ns p)"
  obtains area verb ident ps where "tokens pat = ns # area # verb # ident # ps" "(area, verb) \<in> set owned_areas"
    "uuid_parse ident = Some u"
proof -
  have "\<exists>area verb ident ps. tokens pat = ns # area # verb # ident # ps \<and> (area, verb) \<in> set owned_areas
      \<and> uuid_parse ident = Some u"
    using assms
    by (auto simp: tool_owned_publish_def tool_owned_subscribe_def subject_defs routing_token_id owned_areas_def)
  with that show ?thesis by blast
qed

lemma tool_owned_confined:
  assumes "plain_namespace ns" and "uuid_parse p = Some u"
    and "pat \<in> set (tool_owned_publish ns u p) \<union> set (tool_owned_subscribe ns p)"
  shows "confined ns u pat" and "confined ns u (sub_path (deadletter ns pat))"
proof -
  from tool_owned_tokens [OF assms] obtain area verb ident ps
    where t: "tokens pat = ns # area # verb # ident # ps" "(area, verb) \<in> set owned_areas" "uuid_parse ident = Some u" .
  show "confined ns u pat" by (rule confined_addressed [OF assms(1) t])
  then show "confined ns u (sub_path (deadletter ns pat))"
    using confined_deadletter [OF assms(1) t(1)] owned_area_literal [OF t(2)] by blast
qed

lemma pipe_confined:
  assumes "plain_namespace ns" and "uuid_parse p = Some u"
    and "pipe_halves ns names p direction = Inr halves" and "pat \<in> set halves"
  shows "confined ns u pat" and "confined ns u (sub_path (deadletter ns pat))"
proof -
  from all_ok_member [OF assms(3) [unfolded pipe_halves_def] assms(4)] obtain name
    where "Inr pat = map_sum (\<lambda>e. e) sub_path (pipe_pod_wildcard ns name p direction)" by auto
  then obtain node where "pat = dotted [ns, ''pipe'', digest_token node, sanitize_subject_segment p, ''*'', direction]"
    by (cases "provider_node name") (auto simp: pipe_pod_wildcard_def)
  then have t: "tokens pat = ns # ''pipe'' # digest_token node # p # ''*'' # tokens direction"
    using assms(1,2) by (simp add: sanitize_id)
  show "confined ns u pat" by (rule confined_pipe [OF assms(1) t digest_token_literal assms(2)])
  then show "confined ns u (sub_path (deadletter ns pat))"
    using confined_deadletter [OF assms(1) t] by (simp add: literal_token_def)
qed

lemma fixed_tables_buckets:
  "and_then (all_ok xs) (\<lambda>fixed. and_then y (\<lambda>tables. and_then z (\<lambda>buckets. Inr (fixed @ tables @ buckets)))) = Inr rs
    \<Longrightarrow> r \<in> set rs \<Longrightarrow> Inr r \<in> set xs \<or> (\<exists>ts. y = Inr ts \<and> r \<in> set ts) \<or> (\<exists>bs. z = Inr bs \<and> r \<in> set bs)"
  by (auto dest: all_ok_member)

lemma owner_scope_Inr: "owner_scope v = Inr scope \<Longrightarrow> scope = ''agent_pod-'' @ uuid_hex v"
  using kv_key_scope_for_agent [of "IdUuid v" scope] by (auto simp: owner_scope_def scope_id_def)

lemma agent_table_resource:
  assumes "agent_table_resources ns tables = Inr ts" and "r \<in> set ts"
  obtains grant where "grant \<in> set tables"
    "res_kv_table (ns @ ''-collections'') (''agent_pod-'' @ uuid_hex (atg_owner_agent_id grant)) (atg_table grant)
       (atg_writable grant) = Inr r"
proof -
  from assms(1) have "all_ok (map (\<lambda>g. and_then (owner_scope (atg_owner_agent_id g)) (\<lambda>scope.
      res_kv_table (ns @ ''-collections'') scope (atg_table g) (atg_writable g))) tables) = Inr ts"
    by (simp add: agent_table_resources_def split: if_splits)
  from all_ok_member [OF this assms(2)] obtain g scope where "g \<in> set tables"
    "owner_scope (atg_owner_agent_id g) = Inr scope"
    "res_kv_table (ns @ ''-collections'') scope (atg_table g) (atg_writable g) = Inr r"
    by auto
  with owner_scope_Inr that show ?thesis by blast
qed

lemma agent_bucket_resource:
  assumes "agent_bucket_resources ns buckets = Inr bs" and "r \<in> set bs"
  obtains grant b where "grant \<in> set buckets"
    "coordination_bucket_name ns (''agent_pod-'' @ uuid_hex (abg_owner_agent_id grant)) (abg_suffix grant) = Inr b"
    "res_kv_bucket_keys b (abg_writable grant) = Inr r"
proof -
  from assms(1) have "all_ok (map (\<lambda>g. and_then (AgentBucketGrant_bucket_name ns g)
      (\<lambda>name. res_kv_bucket_keys name (abg_writable g))) buckets) = Inr bs"
    by (simp add: agent_bucket_resources_def split: if_splits)
  from all_ok_member [OF this assms(2)] obtain g b where g: "g \<in> set buckets"
    "AgentBucketGrant_bucket_name ns g = Inr b" "res_kv_bucket_keys b (abg_writable g) = Inr r"
    by auto
  from g(2) obtain scope where "owner_scope (abg_owner_agent_id g) = Inr scope"
    "coordination_bucket_name ns scope (abg_suffix g) = Inr b"
    by (auto simp: AgentBucketGrant_bucket_name_def split: sum.splits)
  with owner_scope_Inr g that show ?thesis by blast
qed

lemma tool_resource_cases:
  assumes "tool_pod_resources ns scope p tables buckets = Inr rs" and "uuid_parse p = Some u" and "r \<in> set rs"
  obtains (epochs) "res_kv_bucket_keys (ns @ ''-epochs'') False = Inr r"
    | (collections) "res_kv (ns @ ''-collections'') (Some scope) True False = Inr r"
    | (owner) name where "res_kv_owner_keys (ns @ name) scope True = Inr r" "name \<in> set scoped_buckets"
    | (version) "res_kv_key_read (ns @ ''-data-versions'') (uuid_hex u) = Inr r"
    | (table) grant where "grant \<in> set tables"
        "res_kv_table (ns @ ''-collections'') (''agent_pod-'' @ uuid_hex (atg_owner_agent_id grant)) (atg_table grant)
           (atg_writable grant) = Inr r"
    | (bucket) grant b where "grant \<in> set buckets"
        "coordination_bucket_name ns (''agent_pod-'' @ uuid_hex (abg_owner_agent_id grant)) (abg_suffix grant) = Inr b"
        "res_kv_bucket_keys b (abg_writable grant) = Inr r"
proof -
  consider
      (tables) ts where "agent_table_resources ns tables = Inr ts" "r \<in> set ts"
    | (buckets) bs where "agent_bucket_resources ns buckets = Inr bs" "r \<in> set bs"
    | (fixed) "Inr r \<in> set
         [res_kv_owner_keys (ns @ ''-proxy_assertion_nonces'') scope True,
          res_kv_owner_keys (ns @ ''-leases'') scope True,
          res_kv (ns @ ''-collections'') (Some scope) True False,
          res_kv_bucket_keys (ns @ ''-epochs'') False,
          and_then (data_version_kv_key (IdText p)) (res_kv_key_read (data_versions_bucket_name ns))]"
    using fixed_tables_buckets [OF assms(1) [unfolded tool_pod_resources_def] assms(3)] by blast
  then show thesis
  proof cases
    case tables
    from agent_table_resource [OF this] table show thesis by blast
  next
    case buckets
    from agent_bucket_resource [OF this] bucket show thesis by blast
  next
    case fixed
    have version_key: "data_version_kv_key (IdText p) = Inr (uuid_hex u)"
      using assms(2) by (simp add: data_version_kv_key_def)
    have known: "''-leases'' \<in> set scoped_buckets" "''-proxy_assertion_nonces'' \<in> set scoped_buckets"
      by (simp_all add: scoped_buckets_def)
    have name: "data_versions_bucket_name ns = ns @ ''-data-versions''"
      by (simp add: data_versions_bucket_name_def DATA_VERSIONS_BUCKET_SUFFIX_def)
    from fixed show thesis
      unfolding list.set version_key name
      using epochs collections owner [OF _ known(1)] owner [OF _ known(2)] version
      by (elim insertE emptyE) (simp_all add: and_then_def)
  qed
qed

text \<open>The agents whose tables or buckets a pod was granted, or granted to write.\<close>

definition grant_owners :: "AgentTableGrant list \<Rightarrow> AgentBucketGrant list \<Rightarrow> bool \<Rightarrow> uuid list" where
  "grant_owners tables buckets writing =
     map atg_owner_agent_id (List.filter (\<lambda>g. writing \<longrightarrow> atg_writable g) tables)
     @ map abg_owner_agent_id (List.filter (\<lambda>g. writing \<longrightarrow> abg_writable g) buckets)"

lemma res_kv_table_writable: "res_kv_table b scope table w = Inr r \<Longrightarrow> jr_writable r = w"
  by (auto simp: res_kv_table_def check_JsResource_def split: if_splits)

lemma res_kv_bucket_keys_writable: "res_kv_bucket_keys b w = Inr r \<Longrightarrow> jr_writable r = w"
  by (auto dest: res_kv_bucket_keys_Inr)

lemma data_grant_writable: "g \<in> set (kv_data_grants r) \<Longrightarrow> jr_writable r"
  by (auto simp: kv_data_grants_def split: if_splits)

lemma tool_resources_confined:
  assumes "tool_pod_resources ns scope p tables buckets = Inr rs" and "uuid_parse p = Some u"
    and "scope = ''tool_pod-'' @ uuid_hex u" and "plain_namespace ns"
    and "r \<in> set rs" and "g \<in> set (resource_grants r)"
  shows "(\<exists>v \<in> insert u (set (grant_owners tables buckets (g \<in> set (kv_data_grants r)))). confined ns v g)
    \<or> g \<in> set (shared_publish ns)"
proof -
  have scope: "scope_owner scope = Some u" "CHR ''.'' \<notin> set scope"
    unfolding assms(3) by (rule scope_owner_tool) simp
  from assms(1,2,5) show ?thesis
  proof (cases rule: tool_resource_cases)
    case epochs
    from epochs_shared [OF this assms(6)] show ?thesis ..
  next
    case collections
    from collections_resource [OF this scope assms(4,6)] show ?thesis by blast
  next
    case owner
    from owner_keys_resource [OF this scope assms(4,6)] show ?thesis by blast
  next
    case version
    then have "confined ns u g \<or> g \<in> set (shared_publish ns)"
      by (rule key_read_resource) (simp_all add: keyed_buckets_def assms)
    then show ?thesis by blast
  next
    case (table grant)
    have "confined ns (atg_owner_agent_id grant) g \<or> g \<in> set (shared_publish ns)"
      by (rule table_resource [OF table(2) scope_owner_agent _ assms(4,6)]) simp
    moreover have "atg_owner_agent_id grant \<in> set (grant_owners tables buckets (g \<in> set (kv_data_grants r)))"
      using table(1) res_kv_table_writable [OF table(2)] data_grant_writable [of g r] by (auto simp: grant_owners_def)
    ultimately show ?thesis by blast
  next
    case (bucket grant b)
    have "confined ns (abg_owner_agent_id grant) g"
      using private_bucket_resource [OF bucket(2) _ assms(4) _ assms(6)] bucket(3) by blast
    moreover have "abg_owner_agent_id grant \<in> set (grant_owners tables buckets (g \<in> set (kv_data_grants r)))"
      using bucket(1) res_kv_bucket_keys_writable [OF bucket(3)] data_grant_writable [of g r] by (auto simp: grant_owners_def)
    ultimately show ?thesis by blast
  qed
qed

lemma tool_pod_Inr:
  assumes "tool_pod ns ids = Inr permissions"
  obtains p u sessions pipe_down pipe_up resources inbox where
    "pi_pod_id ids = Some p" "uuid_parse p = Some u" "hitl_sessions ns (pi_tool_namespaces ids) = Inr sessions"
    "pipe_halves ns (pi_tool_namespaces ids) p ''down'' = Inr pipe_down"
    "pipe_halves ns (pi_tool_namespaces ids) p ''up'' = Inr pipe_up"
    "inbox = inbox_prefix_for TOOL_POD (conn_or (pi_conn_id ids) p)"
    "tool_pod_resources ns (''tool_pod-'' @ uuid_hex u) p (pi_agent_table_grants ids) (pi_agent_bucket_grants ids)
       = Inr resources"
    "pp_publish permissions = tool_pod_publish ns (dotted [ns, ''audit'', ''tool_pod'', uuid_str u, ''>'']) p @ pipe_down
       @ deadletters ns (tool_pod_subscribe ns inbox p @ sessions @ pipe_up) inbox"
    "pp_subscribe permissions = tool_pod_subscribe ns inbox p @ sessions @ pipe_up"
    "pp_js_resources permissions = resources"
proof -
  from assms obtain p scope sessions pipe_down pipe_up audit resources where
    t: "require (pi_pod_id ids) = Inr p" "kv_key_scope_for TOOL_POD None (Some (IdText p)) = Inr scope"
    "hitl_sessions ns (pi_tool_namespaces ids) = Inr sessions"
    "pipe_halves ns (pi_tool_namespaces ids) p ''down'' = Inr pipe_down"
    "pipe_halves ns (pi_tool_namespaces ids) p ''up'' = Inr pipe_up"
    "tool_pod_audit_wildcard ns p None = Inr audit"
    "tool_pod_resources ns scope p (pi_agent_table_grants ids) (pi_agent_bucket_grants ids) = Inr resources"
    "permissions = (let inbox = inbox_prefix_for TOOL_POD (conn_or (pi_conn_id ids) p);
           subscribe = tool_pod_subscribe ns inbox p @ sessions @ pipe_up
       in \<lparr>pp_publish = tool_pod_publish ns (sub_path audit) p @ pipe_down @ deadletters ns subscribe inbox,
           pp_subscribe = subscribe, pp_allow_responses = True, pp_inbox_prefix = inbox, pp_js_resources = resources\<rparr>)"
    unfolding tool_pod_def and_then_Inr by (auto simp: Let_def)
  from kv_key_scope_for_tool [OF t(2)] obtain u where u: "uuid_parse p = Some u" "scope = ''tool_pod-'' @ uuid_hex u"
    by (auto simp: scope_id_def split: option.splits)
  from t(1) have "pi_pod_id ids = Some p" by (auto simp: require_def split: option.splits if_splits)
  moreover from t(6) u(1) have "sub_path audit = dotted [ns, ''audit'', ''tool_pod'', uuid_str u, ''>'']"
    by (auto simp: tool_pod_audit_wildcard_def TOOL_POD_AUDIT_TOKEN_def)
  ultimately show ?thesis
    using that [OF _ u(1) t(3-5) refl] t(7,8) u(2) by (simp add: Let_def)
qed

definition pod_sessions :: "string \<Rightarrow> Principal \<Rightarrow> principal_ids \<Rightarrow> string list" where
  "pod_sessions ns who ids =
     (if who = TOOL_POD
      then (case hitl_sessions ns (pi_tool_namespaces ids) of Inl _ \<Rightarrow> [] | Inr sessions \<Rightarrow> sessions)
      else [])"

definition granted_owners :: "Principal \<Rightarrow> principal_ids \<Rightarrow> bool \<Rightarrow> uuid list" where
  "granted_owners who ids writing =
     (if who = TOOL_POD then grant_owners (pi_agent_table_grants ids) (pi_agent_bucket_grants ids) writing else [])"

definition pod_uuid :: "Principal \<Rightarrow> principal_ids \<Rightarrow> uuid option" where
  "pod_uuid who ids =
     (case (if who = AGENT_POD then pi_agent_id ids else pi_pod_id ids) of None \<Rightarrow> None | Some ident \<Rightarrow> uuid_parse ident)"

lemma tool_deadletters:
  assumes "plain_namespace ns" and "uuid_parse p = Some u" and "pipe_halves ns names p ''up'' = Inr pipe_up"
    and "pat \<in> set (deadletters ns (tool_pod_subscribe ns inbox p @ sessions @ pipe_up) inbox)"
  shows "confined ns u pat \<or> pat \<in> set (shared_publish ns) \<or> pat \<in> (\<lambda>q. sub_path (deadletter ns q)) ` set sessions"
proof -
  from assms(4) obtain subject where "subject \<in> set (tool_pod_subscribe ns inbox p @ sessions @ pipe_up)"
    "\<not> prefix (inbox @ ''.'') subject" and pat: "pat = sub_path (deadletter ns subject)"
    by (auto simp: deadletters_def)
  then consider "subject \<in> set (tool_owned_subscribe ns p)" | "subject = ''threetears.cache.invalidate''"
    | "subject \<in> set sessions" | "subject \<in> set pipe_up"
    unfolding set_append tool_subscribe_split by auto
  then show ?thesis
    by cases (use tool_owned_confined(2) [OF assms(1,2), of subject] pipe_confined(2) [OF assms(1-3), of subject]
        deadletter_cache_shared [of ns] pat in auto)
qed

lemma tool_publish_confined:
  assumes "tool_pod ns ids = Inr permissions" and "plain_namespace ns" and "pod_uuid TOOL_POD ids = Some u"
    and "pat \<in> set (pp_publish permissions)"
  shows "confined ns u pat \<or> pat \<in> set (shared_publish ns)
    \<or> pat \<in> (\<lambda>q. sub_path (deadletter ns q)) ` set (pod_sessions ns TOOL_POD ids)"
  using assms(1)
proof (cases rule: tool_pod_Inr)
  case (1 p u' sessions pipe_down pipe_up resources inbox)
  with assms(3) have u: "u' = u" "set (pod_sessions ns TOOL_POD ids) = set sessions"
    by (simp_all add: pod_uuid_def pod_sessions_def)
  from assms(4) 1(8) tool_publish_split [of ns u p] u(1)
  consider "pat \<in> set (shared_subjects ns)" | "pat \<in> set (tool_owned_publish ns u p)" | "pat \<in> set pipe_down"
    | "pat \<in> set (deadletters ns (tool_pod_subscribe ns inbox p @ sessions @ pipe_up) inbox)"
    by auto
  then show ?thesis
    by cases (use tool_owned_confined(1) [OF assms(2), of p u pat] pipe_confined(1) [OF assms(2) _ 1(4), of u pat]
        tool_deadletters [OF assms(2) _ 1(5), of u pat inbox sessions] 1(2) u in \<open>auto simp: shared_publish_def\<close>)
qed

lemma tool_resource_confined:
  assumes "tool_pod ns ids = Inr permissions" and "plain_namespace ns" and "pod_uuid TOOL_POD ids = Some u"
    and "r \<in> set (pp_js_resources permissions)" and "g \<in> set (resource_grants r)"
  shows "(\<exists>v \<in> insert u (set (granted_owners TOOL_POD ids (g \<in> set (kv_data_grants r)))). confined ns v g)
    \<or> g \<in> set (shared_publish ns)"
  using assms(1)
proof (cases rule: tool_pod_Inr)
  case (1 p u' sessions pipe_down pipe_up resources inbox)
  with assms(3) have "u' = u" by (simp add: pod_uuid_def)
  with tool_resources_confined [OF 1(7,2) refl assms(2)] 1(10) assms(4,5)
  show ?thesis by (auto simp: granted_owners_def)
qed

lemma with_object_store_Inr:
  assumes "with_object_store ns p permissions = Inr wider" and "uuid_parse p = Some u"
  obtains objects store pointers bucket where
    "coordination_bucket_name ns (''tool_pod-'' @ uuid_hex u) ''objects'' = Inr objects" "res_object_store objects True = Inr store"
    "coordination_bucket_name ns (''tool_pod-'' @ uuid_hex u) ''pointers'' = Inr pointers"
    "res_kv_bucket_keys pointers True = Inr bucket"
    "pp_publish wider = pp_publish permissions @
       [dotted [ns, ''hub'', ''object_store'', ''declare''], dotted [ns, ''hub'', ''object_store'', ''retire'']]"
    "pp_subscribe wider = pp_subscribe permissions"
    "pp_js_resources wider = pp_js_resources permissions @ [store, bucket]"
proof -
  have name: "\<exists>scope. scope = ''tool_pod-'' @ uuid_hex u \<and> coordination_bucket_name ns scope sfx = Inr b"
    if "tool_pod_bucket_name ns (IdText p) sfx = Inr b" for sfx b
    using that kv_key_scope_for_tool [of "IdText p"] assms(2)
    by (auto simp: tool_pod_bucket_name_def scope_id_def split: sum.splits)
  from assms(1) obtain objects store pointers bucket where
    "tool_pod_bucket_name ns (IdText p) ''objects'' = Inr objects" "res_object_store objects True = Inr store"
    "tool_pod_bucket_name ns (IdText p) ''pointers'' = Inr pointers" "res_kv_bucket_keys pointers True = Inr bucket"
    "wider = permissions\<lparr>
         pp_publish := pp_publish permissions @ [sub_path (hub_object_store_declare ns), sub_path (hub_object_store_retire ns)],
         pp_js_resources := pp_js_resources permissions @ [store, bucket]\<rparr>"
    unfolding with_object_store_def tool_pod_object_store_name_def tool_pod_pointers_bucket_name_def
      TOOL_POD_OBJECTS_BUCKET_SUFFIX_def TOOL_POD_POINTERS_BUCKET_SUFFIX_def
    by auto
  with name [OF this(1)] name [OF this(3)] that [of objects store pointers bucket] show ?thesis
    by (simp add: hub_object_store_declare_def hub_object_store_retire_def)
qed

section \<open>Pods\<close>

text \<open>A subject of a claim's publish or subscribe list, as the server decides.\<close>

definition may_publish :: "(string \<Rightarrow> string \<Rightarrow> bool) \<Rightarrow> user_claim \<Rightarrow> string \<Rightarrow> bool" where
  "may_publish admits claim subject \<longleftrightarrow> (\<exists>pat \<in> set (uc_pub_allow claim). admits pat subject)"

definition may_subscribe :: "(string \<Rightarrow> string \<Rightarrow> bool) \<Rightarrow> user_claim \<Rightarrow> string \<Rightarrow> bool" where
  "may_subscribe admits claim subject \<longleftrightarrow> (\<exists>pat \<in> set (uc_sub_allow claim). admits pat subject)"

definition pod_claim :: "string \<Rightarrow> Principal \<Rightarrow> principal_ids \<Rightarrow> bool \<Rightarrow> nats_error + user_claim" where
  "pod_claim ns who ids object_store = and_then (build_permissions ns who ids object_store) mint_claim"

lemma build_tool_permissions:
  assumes "build_permissions ns TOOL_POD ids object_store = Inr permissions" and "pod_uuid TOOL_POD ids = Some u"
    and "plain_namespace ns"
  obtains base where "tool_pod ns ids = Inr base" "pp_subscribe permissions = pp_subscribe base"
    "set (pp_publish permissions) \<subseteq> set (pp_publish base) \<union> set (shared_publish ns)"
    "\<forall>r \<in> set (pp_js_resources permissions).
      r \<in> set (pp_js_resources base) \<or> (\<forall>g \<in> set (resource_grants r). confined ns u g)"
proof (cases object_store)
  case False
  with assms(1) that [of permissions] show ?thesis by (auto simp: build_permissions_def)
next
  case True
  with assms(1,2) obtain base p where base: "tool_pod ns ids = Inr base" and p: "uuid_parse p = Some u"
    and store: "with_object_store ns p base = Inr permissions"
    by (auto simp: build_permissions_def require_def pod_uuid_def split: option.splits if_splits)
  from store p show ?thesis
  proof (cases rule: with_object_store_Inr)
    case (1 objects store pointers bucket)
    have "dotted [ns, ''hub'', ''object_store'', ''declare''] \<in> set (shared_publish ns)"
      "dotted [ns, ''hub'', ''object_store'', ''retire''] \<in> set (shared_publish ns)"
      by (simp_all add: shared_publish_def shared_subjects_defs)
    moreover have "\<forall>g \<in> set (resource_grants store). confined ns u g" "\<forall>g \<in> set (resource_grants bucket). confined ns u g"
      using private_bucket_resource [OF 1(1) _ assms(3)] private_bucket_resource [OF 1(3) _ assms(3)] 1(2,4) by blast+
    ultimately show ?thesis using that [OF base 1(6)] unfolding 1(5,7) by auto
  qed
qed

text \<open>Where a pattern of a pod's publish list comes from.\<close>

lemma pod_claim_publish:
  assumes "pod_claim ns who ids object_store = Inr claim" and "who \<in> {AGENT_POD, TOOL_POD}" and "plain_namespace ns"
    and "pod_uuid who ids = Some u" and "pat \<in> set (uc_pub_allow claim)"
  obtains (own) "confined ns u pat" | (shared) "pat \<in> set (shared_publish ns)"
    | (session) q where "q \<in> set (pod_sessions ns who ids)" "pat = sub_path (deadletter ns q)"
    | (granted) r v where "pat \<in> set (resource_grants r)" "v \<in> set (granted_owners who ids (pat \<in> set (kv_data_grants r)))"
        "confined ns v pat"
proof (cases "who = AGENT_POD")
  case True
  with assms(1,4) obtain permissions a where "agent_pod ns ids = Inr permissions" "mint_claim permissions = Inr claim"
    "pi_agent_id ids = Some a" "uuid_parse a = Some u"
    by (auto simp: pod_claim_def build_permissions_def pod_uuid_def split: option.splits if_splits)
  with agent_claim_publish [OF _ _ assms(3,5)] own shared show ?thesis by blast
next
  case False
  with assms(2) have who: "who = TOOL_POD" by blast
  note u = assms(4) [unfolded who]
  from assms(1) who obtain permissions where built: "build_permissions ns TOOL_POD ids object_store = Inr permissions"
    and mint: "mint_claim permissions = Inr claim"
    by (auto simp: pod_claim_def)
  from build_tool_permissions [OF built u assms(3)] obtain base where base: "tool_pod ns ids = Inr base"
    and "pp_subscribe permissions = pp_subscribe base"
    and publish: "set (pp_publish permissions) \<subseteq> set (pp_publish base) \<union> set (shared_publish ns)"
    and resources: "\<forall>r \<in> set (pp_js_resources permissions).
      r \<in> set (pp_js_resources base) \<or> (\<forall>g \<in> set (resource_grants r). confined ns u g)" .
  from mint assms(5) show ?thesis
  proof (cases rule: mint_claim_publish)
    case 1: publish
    then have "pat \<in> set (pp_publish base) \<or> pat \<in> set (shared_publish ns)" using publish by blast
    then have "confined ns u pat \<or> pat \<in> set (shared_publish ns)
        \<or> pat \<in> (\<lambda>q. sub_path (deadletter ns q)) ` set (pod_sessions ns TOOL_POD ids)"
      using tool_publish_confined [OF base assms(3) u, of pat] by blast
    then show ?thesis using own shared session unfolding who by auto
  next
    case account
    then have "pat \<in> set (shared_publish ns)" by (auto simp: JS_API_ACCOUNT_def shared_publish_def shared_subjects_defs)
    then show ?thesis by (rule shared)
  next
    case (resource r)
    from resources [rule_format, OF this(1)] show ?thesis
    proof
      assume "r \<in> set (pp_js_resources base)"
      from tool_resource_confined [OF base assms(3) u this resource(2)] show ?thesis
        using own shared granted [OF resource(2)] unfolding who by auto
    qed (use own resource(2) in auto)
  qed
qed

end
