(* ===== verification/NatsConfinement.thy ===== *)
theory NatsConfinement
  imports NatsToolPods
begin

text \<open>
  What the minted claims of agent pods and tool pods let them do on the wire: whose subjects a pod publishes
  on, whose stored keys and objects it writes, which JetStream requests it makes and what two pods both hear.
\<close>

section \<open>First tokens\<close>

lemma confined_owner:
  "confined ns u pat \<Longrightarrow> nats_matches pat subject \<Longrightarrow> subject_owner ns (tokens subject) = Some u"
  by (simp add: confined_def nats_matches_def)

lemma admits_matches: "admits_only_matches admits \<Longrightarrow> admits pat subject \<Longrightarrow> nats_matches pat subject"
  by (simp add: admits_only_matches_def)

lemma session_tokens:
  assumes "plain_namespace ns" and "q \<in> set (pod_sessions ns who ids)"
  obtains d where "tokens q = [ns, ''forward'', d, ''*'']" "literal_token d"
proof -
  from assms(2) obtain sessions where "hitl_sessions ns (pi_tool_namespaces ids) = Inr sessions" "q \<in> set sessions"
    unfolding pod_sessions_def
    by (cases "who = TOOL_POD"; cases "hitl_sessions ns (pi_tool_namespaces ids)") simp_all
  from all_ok_member [OF this(1) [unfolded hitl_sessions_def] this(2)]
  obtain family where "map_sum (\<lambda>e. e) sub_path (forward_scoped_wildcard ns family) = Inr q" by auto
  then have "q = dotted [ns, ''forward'', digest_token family, ''*'']"
    by (auto simp: forward_scoped_wildcard_def split: if_splits)
  with assms(1) have "tokens q = [ns, ''forward'', digest_token family, ''*'']" by simp
  then show ?thesis by (rule that [OF _ digest_token_literal])
qed

lemma session_deadletter_first:
  assumes "plain_namespace ns" and "q \<in> set (pod_sessions ns who ids)"
    and "nats_matches (sub_path (deadletter ns q)) subject"
  shows "\<exists>r. tokens subject = ns # r"
proof -
  from session_tokens [OF assms(1,2)] obtain d where "tokens q = [ns, ''forward'', d, ''*'']" by blast
  then have "tokens (sub_path (deadletter ns q)) = ns # ''deadletter'' # ns # [''forward'', d, ''*'']"
    using assms(1) by (simp add: deadletter_def)
  with assms(1,3) show ?thesis
    by (auto simp: nats_matches_def token_match_literal plain_namespace_def literal_token_def)
qed

lemma literal_texts:
  "tokens ''threetears.cache.invalidate'' = [''threetears'', ''cache'', ''invalidate'']"
  "tokens ''$SYS.REQ.USER.INFO'' = [''$SYS'', ''REQ'', ''USER'', ''INFO'']"
  "tokens ''$JS.API.INFO'' = [''$JS'', ''API'', ''INFO'']"
  "tokens ''$JS.API.STREAM.NAMES'' = [''$JS'', ''API'', ''STREAM'', ''NAMES'']"
  by code_simp+

lemma shared_subject_first:
  assumes "plain_namespace ns" and "pat \<in> set (shared_subjects ns)"
  obtains r where "tokens pat = ns # r" | r where "tokens pat = ''threetears'' # r" | "tokens pat = [''$SYS'', ''REQ'', ''USER'', ''INFO'']"
    | "tokens pat = [''$JS'', ''API'', ''INFO'']" | "tokens pat = [''$JS'', ''API'', ''STREAM'', ''NAMES'']"
proof -
  from assms(2) consider parts where "pat = dotted (ns # parts)"
    | "pat \<in> set fixed_subjects"
    unfolding shared_subjects_def set_append set_map by blast
  then show ?thesis
  proof cases
    case 1
    with assms(1) that(1) show ?thesis by simp
  next
    case 2
    with that(2-5) literal_texts show ?thesis by (auto simp: fixed_subjects_def)
  qed
qed

lemma shared_stream_tokens:
  assumes "plain_namespace ns" and "pat \<in> set (shared_streams ns)"
  obtains kind verb r where "tokens pat = ''$JS'' # ''API'' # kind # verb # r"
    "(kind, verb) \<in> {(''STREAM'', ''INFO''), (''DIRECT'', ''GET''), (''CONSUMER'', ''CREATE'')}"
  | st where "tokens pat = [''$JS'', ''API'', ''STREAM'', ''MSG'', ''GET'', st]"
  using assms(2) unfolding shared_streams_def set_append set_map list.set stream_info_def
  by (elim UnE insertE imageE emptyE) (auto simp: tokens_js_api assms(1))

lemma control_grant_tokens:
  assumes "pat \<in> set (resource_grants r)" and "pat \<notin> set (kv_data_grants r)"
  shows "\<exists>ps. tokens pat = ''$JS'' # ''API'' # ps"
proof -
  from assms obtain gs where "js_control_grants r = Inr gs" "pat \<in> set gs"
    by (cases "js_control_grants r") (auto simp: resource_grants_def)
  then have "\<exists>parts. pat = js_api parts"
    unfolding js_control_grants_def js_api_grants_for_stream_def
    by (auto split: JsCapability.splits option.splits if_splits)
  then show ?thesis by (auto simp: tokens_js_api)
qed

lemma js_first: "tokens pat = ''$JS'' # ps \<Longrightarrow> nats_matches pat subject \<Longrightarrow> \<exists>r. tokens subject = ''$JS'' # r"
  by (auto simp: nats_matches_def token_match_literal)

lemma shared_publish_first:
  assumes "plain_namespace ns" and "pat \<in> set (shared_publish ns)" and "nats_matches pat subject"
  shows "\<exists>t r. tokens subject = t # r \<and> t \<in> {ns, ''threetears'', ''$SYS'', ''$JS''}"
proof -
  have "\<exists>t r. tokens pat = t # r \<and> t \<in> {ns, ''threetears'', ''$SYS'', ''$JS''}"
    using assms(1,2) unfolding shared_publish_def set_append
    by (elim UnE) (blast elim: shared_subject_first, blast elim: shared_stream_tokens)
  then obtain t r where t: "tokens pat = t # r" "t \<in> {ns, ''threetears'', ''$SYS'', ''$JS''}" by blast
  moreover have "t \<noteq> ''*''" "t \<noteq> ''>''" using t(2) assms(1) by (auto simp: plain_namespace_def literal_token_def)
  ultimately show ?thesis using assms(3) by (auto simp: nats_matches_def token_match_literal)
qed

section \<open>Properties\<close>



text \<open>The requests of the JetStream API that read.\<close>

definition js_read_request :: "string list \<Rightarrow> bool" where
  "js_read_request ts \<longleftrightarrow>
     ts = [''API'', ''INFO''] \<or> ts = [''API'', ''STREAM'', ''NAMES'']
     \<or> list_ex (\<lambda>p. prefix p ts)
         [[''API'', ''STREAM'', ''INFO''], [''API'', ''STREAM'', ''MSG'', ''GET''], [''API'', ''DIRECT'', ''GET''],
          [''API'', ''CONSUMER'', ''CREATE'']]"

lemma owned_api_reads: "subject_owner ns (''$JS'' # r) = Some u \<Longrightarrow> js_read_request r"
  by (auto simp: subject_owner_def api_owner_def js_read_request_def split: list.splits if_splits)

lemma shared_api_reads:
  assumes "plain_namespace ns" and "pat \<in> set (shared_publish ns)" and "nats_matches pat subject"
    and "tokens subject = ''$JS'' # r"
  shows "js_read_request r"
proof -
  from assms(2) consider "pat \<in> set (shared_subjects ns)" | "pat \<in> set (shared_streams ns)"
    by (auto simp: shared_publish_def)
  then show ?thesis
  proof cases
    case 1
    from assms(1) 1 show ?thesis
      by (rule shared_subject_first)
        (use assms in \<open>auto simp: nats_matches_def match_simps plain_namespace_def literal_token_def js_read_request_def\<close>)
  next
    case 2
    from assms(1) 2 show ?thesis
    proof (cases rule: shared_stream_tokens)
      case (1 kind verb ps)
      from 1(2) have "kind \<noteq> ''*''" "kind \<noteq> ''>''" "verb \<noteq> ''*''" "verb \<noteq> ''>''" by auto
      with 1(1) assms(3,4) obtain r' where "r = ''API'' # kind # verb # r'"
        by (auto simp: nats_matches_def token_match_literal)
      with 1(2) show ?thesis by (elim insertE emptyE) (simp_all add: js_read_request_def)
    next
      case (2 st)
      with assms(3,4) obtain r' where "r = ''API'' # ''STREAM'' # ''MSG'' # ''GET'' # r'"
        by (auto simp: nats_matches_def token_match_literal)
      then show ?thesis by (simp add: js_read_request_def)
    qed
  qed
qed


section \<open>What pods hear\<close>

definition pod_inbox :: "Principal \<Rightarrow> principal_ids \<Rightarrow> string" where
  "pod_inbox who ids =
     inbox_prefix_for who (conn_or (pi_conn_id ids) (case pi_pod_id ids of None \<Rightarrow> [] | Some p \<Rightarrow> p))"

lemma pod_claim_subscribe:
  assumes "pod_claim ns who ids object_store = Inr claim" and "who \<in> {AGENT_POD, TOOL_POD}" and "plain_namespace ns"
    and "pod_uuid who ids = Some u" and "pat \<in> set (uc_sub_allow claim)"
  obtains (inbox) "pat = pod_inbox who ids @ ''.>''" | (broadcast) "pat \<in> set (broadcasts ns)"
    | (own) "confined ns u pat" | (session) "pat \<in> set (pod_sessions ns who ids)"
proof (cases "who = AGENT_POD")
  case True
  with assms(1) obtain permissions where p: "agent_pod ns ids = Inr permissions" and "mint_claim permissions = Inr claim"
    by (auto simp: pod_claim_def build_permissions_def split: if_splits)
  then have sub: "pat \<in> set (pp_subscribe permissions)" using assms(5) mint_claim_subscribe by simp
  from p show ?thesis
  proof (cases rule: agent_pod_Inr)
    case (1 a p u' resources inbox)
    with True assms(4) have "u' = u" "inbox = pod_inbox who ids" by (simp_all add: pod_uuid_def pod_inbox_def)
    with sub show ?thesis
      using agent_owned_confined(1) [OF assms(3) 1(3), of pat p] that(1-3) unfolding 1(7) agent_subscribe_split by blast
  qed
next
  case False
  with assms(2) have who: "who = TOOL_POD" by blast
  from assms(1) who obtain permissions where built: "build_permissions ns TOOL_POD ids object_store = Inr permissions"
    and "mint_claim permissions = Inr claim"
    by (auto simp: pod_claim_def)
  with assms(5) have sub: "pat \<in> set (pp_subscribe permissions)" using mint_claim_subscribe by simp
  from build_tool_permissions [OF built assms(4) [unfolded who] assms(3)] obtain base
    where base: "tool_pod ns ids = Inr base" and same: "pp_subscribe permissions = pp_subscribe base" by metis
  from base show ?thesis
  proof (cases rule: tool_pod_Inr)
    case (1 p u' sessions pipe_down pipe_up resources inbox)
    with who assms(4) have u: "u' = u" "inbox = pod_inbox who ids" "pod_sessions ns who ids = sessions"
      by (simp_all add: pod_uuid_def pod_inbox_def pod_sessions_def)
    have "''threetears.cache.invalidate'' \<in> set (broadcasts ns)" by (simp add: broadcasts_def)
    moreover from sub same have "pat \<in> {inbox @ ''.>''} \<union> {''threetears.cache.invalidate''} \<union> set (tool_owned_subscribe ns p)
        \<union> (set sessions \<union> set pipe_up)"
      using tool_subscribe_split [of ns inbox p] unfolding 1(9) by auto
    ultimately show ?thesis
      using tool_owned_confined(1) [OF assms(3) 1(2), of pat] pipe_confined(1) [OF assms(3) 1(2,5), of pat] that
      unfolding u by auto
  qed
qed

lemma inbox_tokens: "tokens (pod_inbox who ids @ ''.>'') = [pod_inbox who ids, ''>'']"
proof -
  have "CHR ''.'' \<notin> set (pod_inbox who ids)" by (cases who) (simp_all add: pod_inbox_def inbox_prefix_for_def)
  then show ?thesis using tokens_append_dot [of "pod_inbox who ids" "''>''"] by simp
qed

lemma inbox_form: "pod_inbox who ids \<noteq> ''*''" "pod_inbox who ids \<noteq> ''>''" "pod_inbox who ids \<notin> {''$KV'', ''$O'', ''$JS''}"
  "prefix ''_INBOX_'' (pod_inbox who ids)"
  by (simp_all add: pod_inbox_def inbox_prefix_for_def)

lemma inbox_first:
  "nats_matches (pod_inbox who ids @ ''.>'') subject \<Longrightarrow> \<exists>r. tokens subject = pod_inbox who ids # r"
  by (auto simp: nats_matches_def inbox_tokens token_match_literal inbox_form)

lemma inbox_unowned:
  assumes "plain_namespace ns" and "tokens subject = pod_inbox who ids # r"
  shows "subject_owner ns (tokens subject) = None" and "hd (tokens subject) \<noteq> ns"
proof -
  have "pod_inbox who ids \<noteq> ns" using assms(1) inbox_form(4) [of who ids] by (auto simp: plain_namespace_def)
  then show "hd (tokens subject) \<noteq> ns" "subject_owner ns (tokens subject) = None"
    using assms(2) inbox_form(3) [of who ids] by (simp_all add: subject_owner_def data_owner_def)
qed

lemma session_unowned:
  assumes "plain_namespace ns" and "q \<in> set (pod_sessions ns who ids)" and "nats_matches q subject"
  shows "subject_owner ns (tokens subject) = None" and "hd (tokens subject) = ns"
proof -
  from session_tokens [OF assms(1,2)] obtain d where "tokens q = [ns, ''forward'', d, ''*'']" "literal_token d" .
  with assms(1,3) obtain t where "tokens subject = [ns, ''forward'', d, t]"
    by (auto simp: nats_matches_def match_simps plain_namespace_def literal_token_def)
  with assms(1) show "hd (tokens subject) = ns" "subject_owner ns (tokens subject) = None"
    by (simp_all add: subject_owner_def data_owner_def addressed_owner_def owned_areas_def plain_namespace_def)
qed

lemma literal_match: "token_match ps ts \<Longrightarrow> \<forall>p \<in> set ps. p \<noteq> ''*'' \<and> p \<noteq> ''>'' \<Longrightarrow> ts = ps"
  by (induction ps arbitrary: ts) (auto simp: token_match_literal)

lemma broadcast_subject:
  assumes "plain_namespace ns" and "pat \<in> set (broadcasts ns)" and "nats_matches pat subject"
  shows "subject = pat"
proof -
  have "\<forall>p \<in> set (tokens pat). p \<noteq> ''*'' \<and> p \<noteq> ''>''"
    using assms(1,2) by (auto simp: broadcasts_def literal_texts plain_namespace_def literal_token_def)
  with literal_match assms(3) have "tokens subject = tokens pat" by (simp add: nats_matches_def)
  then show ?thesis by (simp add: tokens_def split_on_inject)
qed

text \<open>C8: Two pods with different ids and different reply inboxes both hear a subject only when it is one of the
  four broadcasts, or a session an operator configured for the tool namespaces of both; two agent pods share
  nothing but the broadcasts.\<close>

theorem pods_hear_apart:
  assumes "admits_only_matches admits" and "plain_namespace ns"
    and "who \<in> {AGENT_POD, TOOL_POD}" and "pod_claim ns who ids store = Inr claim" and "pod_uuid who ids = Some u"
    and "who' \<in> {AGENT_POD, TOOL_POD}" and "pod_claim ns who' ids' store' = Inr claim'" and "pod_uuid who' ids' = Some u'"
    and "u \<noteq> u'" and "pod_inbox who ids \<noteq> pod_inbox who' ids'"
    and "may_subscribe admits claim subject" and "may_subscribe admits claim' subject"
  shows "subject \<in> set (broadcasts ns)
    \<or> (\<exists>q \<in> set (pod_sessions ns who ids). \<exists>q' \<in> set (pod_sessions ns who' ids'). admits q subject \<and> admits q' subject)"
proof -
  from assms(11,12) obtain pat pat' where pat: "pat \<in> set (uc_sub_allow claim)" "admits pat subject"
    and pat': "pat' \<in> set (uc_sub_allow claim')" "admits pat' subject"
    by (auto simp: may_subscribe_def)
  note m = admits_matches [OF assms(1) pat(2)] and m' = admits_matches [OF assms(1) pat'(2)]
  define heard where "heard who ids u q \<longleftrightarrow>
     (\<exists>r. tokens subject = pod_inbox who ids # r) \<or> subject \<in> set (broadcasts ns) \<or> subject_owner ns (tokens subject) = Some u
     \<or> q \<in> set (pod_sessions ns who ids)" for who ids u q
  have hears: "heard who ids u q" if "pod_claim ns who ids store = Inr claim" "who \<in> {AGENT_POD, TOOL_POD}"
      "pod_uuid who ids = Some u" "q \<in> set (uc_sub_allow claim)" "nats_matches q subject" for who ids store claim u q
    using that(1,2) assms(2) that(3,4)
  proof (cases rule: pod_claim_subscribe)
    case inbox
    with inbox_first [of who ids subject] that(5) show ?thesis by (simp add: heard_def)
  next
    case broadcast
    with broadcast_subject [OF assms(2) broadcast that(5)] show ?thesis by (simp add: heard_def)
  next
    case own
    from confined_owner [OF this that(5)] show ?thesis by (simp add: heard_def)
  qed (simp add: heard_def)
  note hears [OF assms(4,3,5) pat(1) m]
  moreover note hears [OF assms(7,6,8) pat'(1) m']
  ultimately show ?thesis
    using assms(9,10) pat(2) pat'(2) inbox_unowned [OF assms(2), of subject] session_unowned [OF assms(2) _ m]
      session_unowned [OF assms(2) _ m']
    unfolding heard_def by fastforce
qed

section \<open>Instances\<close>

definition example_agent :: "string \<Rightarrow> principal_ids" where
  "example_agent a =
     \<lparr>pi_agent_id = Some a, pi_pod_id = Some a, pi_conn_id = None, pi_tool_namespaces = [],
       pi_coordination_buckets = [''runs''], pi_agent_table_grants = [], pi_agent_bucket_grants = []\<rparr>"

definition example_tool :: principal_ids where
  "example_tool =
     \<lparr>pi_agent_id = None, pi_pod_id = Some ''0000000000000000000000000000000c'', pi_conn_id = None, pi_tool_namespaces = [],
       pi_coordination_buckets = [],
       pi_agent_table_grants = [\<lparr>atg_owner_agent_id = 10, atg_table = ''items'', atg_writable = True\<rparr>],
       pi_agent_bucket_grants = [\<lparr>abg_owner_agent_id = 11, abg_suffix = ''runs'', abg_writable = False\<rparr>]\<rparr>"

lemma hitl_sessions_code [code]:
  "hitl_sessions ns [] = Inr []"
  "hitl_sessions ns (name # names) =
     and_then (all_ok (map (\<lambda>derive. and_then (derive name) (\<lambda>family.
       map_sum (\<lambda>e. e) sub_path (forward_scoped_wildcard ns family))) [hitl_forward_family, hitl_pipe_family])) (\<lambda>pair.
     and_then (hitl_sessions ns names) (\<lambda>others. Inr (pair @ others)))"
  by (auto simp: hitl_sessions_def and_then_def split: sum.splits)

lemma pipe_halves_code [code]:
  "pipe_halves ns [] p direction = Inr []"
  "pipe_halves ns (name # names) p direction =
     and_then (map_sum (\<lambda>e. e) sub_path (pipe_pod_wildcard ns name p direction)) (\<lambda>half.
     and_then (pipe_halves ns names p direction) (\<lambda>others. Inr (half # others)))"
  by (auto simp: pipe_halves_def and_then_def split: sum.splits)

definition table_grant_resource :: "string \<Rightarrow> AgentTableGrant \<Rightarrow> nats_error + JsResource" where
  "table_grant_resource ns g =
     and_then (owner_scope (atg_owner_agent_id g)) (\<lambda>scope.
       res_kv_table (ns @ ''-collections'') scope (atg_table g) (atg_writable g))"

definition bucket_grant_resource :: "string \<Rightarrow> AgentBucketGrant \<Rightarrow> nats_error + JsResource" where
  "bucket_grant_resource ns g =
     and_then (AgentBucketGrant_bucket_name ns g) (\<lambda>name. res_kv_bucket_keys name (abg_writable g))"

lemma agent_table_resources_code [code]:
  "agent_table_resources ns grants =
     (if \<not> distinct (map (\<lambda>g. (atg_owner_agent_id g, atg_table g)) grants) then Inl NatsValueError
      else all_ok (map (table_grant_resource ns) grants))"
  unfolding agent_table_resources_def table_grant_resource_def [abs_def] by (rule refl)

lemma agent_bucket_resources_code [code]:
  "agent_bucket_resources ns grants =
     (if \<not> distinct (map (\<lambda>g. (abg_owner_agent_id g, abg_suffix g)) grants) then Inl NatsValueError
      else all_ok (map (bucket_grant_resource ns) grants))"
  unfolding agent_bucket_resources_def bucket_grant_resource_def [abs_def] by (rule refl)

lemma nats_matches_admits: "admits_only_matches nats_matches"
  by (simp add: admits_only_matches_def)

lemma example_claim: "(case x of Inl _ \<Rightarrow> False | Inr c \<Rightarrow> P c) \<Longrightarrow> \<exists>c. x = Inr c \<and> P c"
  by (cases x) auto

lemma example_pods: "AGENT_POD \<in> {AGENT_POD, TOOL_POD}" "TOOL_POD \<in> {AGENT_POD, TOOL_POD}"
  by simp_all

lemma example_plain: "plain_namespace ''ns''"
  by code_simp




theorem pods_hear_apart_witness:
  "\<exists>claim claim'. pod_claim ''ns'' AGENT_POD (example_agent ''0000000000000000000000000000000a'') False = Inr claim
     \<and> pod_claim ''ns'' AGENT_POD (example_agent ''0000000000000000000000000000000b'') False = Inr claim'
     \<and> may_subscribe nats_matches claim ''ns.acl.role.invalidate'' \<and> may_subscribe nats_matches claim' ''ns.acl.role.invalidate''
     \<and> (''ns.acl.role.invalidate'' \<in> set (broadcasts ''ns'')
        \<or> (\<exists>q \<in> set (pod_sessions ''ns'' AGENT_POD (example_agent ''0000000000000000000000000000000a'')).
            \<exists>q' \<in> set (pod_sessions ''ns'' AGENT_POD (example_agent ''0000000000000000000000000000000b'')).
              nats_matches q ''ns.acl.role.invalidate'' \<and> nats_matches q' ''ns.acl.role.invalidate''))"
proof -
  let ?i = "example_agent ''0000000000000000000000000000000a''" and ?j = "example_agent ''0000000000000000000000000000000b''"
  let ?s = "''ns.acl.role.invalidate''"
  have "case pod_claim ''ns'' AGENT_POD ?i False of Inl _ \<Rightarrow> False | Inr c \<Rightarrow> may_subscribe nats_matches c ?s"
    by code_simp
  from example_claim [OF this] obtain c where c: "pod_claim ''ns'' AGENT_POD ?i False = Inr c" "may_subscribe nats_matches c ?s"
    by blast
  have "case pod_claim ''ns'' AGENT_POD ?j False of Inl _ \<Rightarrow> False | Inr c \<Rightarrow> may_subscribe nats_matches c ?s"
    by code_simp
  from example_claim [OF this] obtain d where d: "pod_claim ''ns'' AGENT_POD ?j False = Inr d" "may_subscribe nats_matches d ?s"
    by blast
  have "pod_uuid AGENT_POD ?i = Some 10" "pod_uuid AGENT_POD ?j = Some 11" "(10 :: uuid) \<noteq> 11"
    "pod_inbox AGENT_POD ?i \<noteq> pod_inbox AGENT_POD ?j" by code_simp+
  from pods_hear_apart [OF nats_matches_admits example_plain example_pods(1) c(1) this(1) example_pods(1) d(1) this(2-4) c(2) d(2)] c d
  show ?thesis by (intro exI conjI)
qed

end
