(* ===== verification/NatsSubjectLaws.thy ===== *)
theory NatsSubjectLaws
  imports NatsPods
begin

text \<open>
  Laws of the subject vocabulary: the parsers of audit subjects and in-process pod ids invert their builders
  exactly, a subject is accepted as a pod's own result only when the builder of that pod's results makes it,
  and every permission set a resolver builds can be minted.
\<close>

section \<open>Canonical ids\<close>

lemma card_uuid: "card (UNIV :: uuid set) = 16 ^ 32"
  by (simp add: card_word)

lemma inj_range_lists:
  fixes f :: "'a :: finite \<Rightarrow> 'b list"
  assumes "inj f" and "\<And>x. set (f x) \<subseteq> A \<and> length (f x) = n" and "finite A" and "card (UNIV :: 'a set) = card A ^ n"
  shows "range f = {s. set s \<subseteq> A \<and> length s = n}"
proof (rule card_subset_eq)
  show "finite {s. set s \<subseteq> A \<and> length s = n}" by (rule finite_lists_length_eq [OF assms(3)])
  show "range f \<subseteq> {s. set s \<subseteq> A \<and> length s = n}" using assms(2) by auto
  show "card (range f) = card {s. set s \<subseteq> A \<and> length s = n}"
    using assms(1,4) by (simp add: card_image card_lists_length_eq [OF assms(3)])
qed

lemma uuid_hex_surj:
  assumes "set s \<subseteq> hex_chars" and "length s = 32"
  obtains u where "s = uuid_hex u"
proof -
  have c: "card hex_chars = 16" by (simp add: card_insert_if)
  have "range uuid_hex = {s. set s \<subseteq> hex_chars \<and> length s = 32}"
  proof (rule inj_range_lists)
    show "inj uuid_hex" by (simp add: inj_def)
    show "finite hex_chars" by (rule finite_set)
    show "card (UNIV :: uuid set) = card hex_chars ^ 32" unfolding c by (rule card_uuid)
  qed (use uuid_hex_chars length_uuid_hex in blast)
  with assms that show ?thesis by blast
qed

lemma split_nth:
  assumes "n < length t"
  shows "t = take n t @ t ! n # drop (Suc n) t"
  using assms by (rule id_take_nth_drop)

lemma dash_form:
  assumes "length t = 36" and "t ! 8 = c" and "t ! 13 = c" and "t ! 18 = c" and "t ! 23 = c"
  shows "t = take 8 t @ [c] @ take 4 (drop 9 t) @ [c] @ take 4 (drop 14 t) @ [c] @ take 4 (drop 19 t) @ [c] @ drop 24 t"
proof -
  have "drop 19 t = take 4 (drop 19 t) @ c # drop 24 t"
    using split_nth [of 4 "drop 19 t"] assms by simp
  moreover have "drop 14 t = take 4 (drop 14 t) @ c # drop 19 t"
    using split_nth [of 4 "drop 14 t"] assms by simp
  moreover have "drop 9 t = take 4 (drop 9 t) @ c # drop 14 t"
    using split_nth [of 4 "drop 9 t"] assms by simp
  moreover have "t = take 8 t @ c # drop 9 t"
    using split_nth [of 8 t] assms by simp
  ultimately show ?thesis by simp
qed

lemma uuid_str_parts:
  assumes "length a = 8" and "length b = 4" and "length c = 4" and "length d = 4" and "length e = 12"
    and "uuid_hex u = a @ b @ c @ d @ e"
  shows "uuid_str u = a @ ''-'' @ b @ ''-'' @ c @ ''-'' @ d @ ''-'' @ e"
  using assms by (simp add: uuid_str_def Let_def)

lemma POD_ID_TOKEN_canonical:
  assumes "POD_ID_TOKEN t"
  obtains u where "t = uuid_str u"
proof -
  from assms have l: "length t = 36"
    and all: "\<forall>i \<in> set [0..<36]. if i \<in> {8, 13, 18, 23} then t ! i = CHR ''-'' else t ! i \<in> hex_chars"
    unfolding POD_ID_TOKEN_def list_all_iff by blast+
  have n: "if i \<in> {8, 13, 18, 23} then t ! i = CHR ''-'' else t ! i \<in> hex_chars" if "i < 36" for i
    by (rule bspec [OF all]) (use that in simp)
  let ?a = "take 8 t" and ?b = "take 4 (drop 9 t)" and ?c = "take 4 (drop 14 t)" and ?d = "take 4 (drop 19 t)"
    and ?e = "drop 24 t"
  have t: "t = ?a @ ''-'' @ ?b @ ''-'' @ ?c @ ''-'' @ ?d @ ''-'' @ ?e"
    by (rule dash_form [OF l]) (use n [of 8] n [of 13] n [of 18] n [of 23] in simp_all)
  have hex: "set (take k (drop i t)) \<subseteq> hex_chars"
    if "i + k \<le> 36" "\<And>j. i \<le> j \<Longrightarrow> j < i + k \<Longrightarrow> j \<notin> {8, 13, 18, 23}" for i k
  proof
    fix x
    assume "x \<in> set (take k (drop i t))"
    then obtain j where "j < k" "x = t ! (i + j)" using that(1) l by (auto simp: in_set_conv_nth)
    with that n [of "i + j"] show "x \<in> hex_chars" by (metis le_add1 nat_add_left_cancel_less order_less_le_trans)
  qed
  have "set ?a \<subseteq> hex_chars" using hex [of 0 8] by simp
  moreover have "set ?b \<subseteq> hex_chars" "set ?c \<subseteq> hex_chars" "set ?d \<subseteq> hex_chars" by (rule hex; simp)+
  moreover have "set ?e \<subseteq> hex_chars" using hex [of 24 12] l by simp
  ultimately have "set (?a @ ?b @ ?c @ ?d @ ?e) \<subseteq> hex_chars" unfolding set_append by blast
  moreover have "length (?a @ ?b @ ?c @ ?d @ ?e) = 32" using l by simp
  ultimately obtain u where u: "?a @ ?b @ ?c @ ?d @ ?e = uuid_hex u" by (rule uuid_hex_surj)
  have "uuid_str u = ?a @ ''-'' @ ?b @ ''-'' @ ?c @ ''-'' @ ?d @ ''-'' @ ?e"
    by (rule uuid_str_parts) (use l u in simp_all)
  with t have "t = uuid_str u" by (rule trans [OF _ sym])
  then show ?thesis by (rule that)
qed

lemma nth_dashed:
  assumes "length a = 8" and "length b = 4" and "length c = 4" and "length d = 4" and "length e = 12" and "i < 36"
  shows "if i \<in> {8, 13, 18, 23} then (a @ [x] @ b @ [x] @ c @ [x] @ d @ [x] @ e) ! i = x
    else (a @ [x] @ b @ [x] @ c @ [x] @ d @ [x] @ e) ! i \<in> set a \<union> set b \<union> set c \<union> set d \<union> set e"
  using assms by (auto simp: nth_append nth_Cons')

lemma POD_ID_TOKEN_str: "POD_ID_TOKEN (uuid_str u)"
proof -
  define h where "h = uuid_hex u"
  let ?a = "take 8 h" and ?b = "take 4 (drop 8 h)" and ?c = "take 4 (drop 12 h)" and ?d = "take 4 (drop 16 h)"
    and ?e = "drop 20 h"
  have l: "length h = 32" by (simp add: h_def)
  have s: "uuid_str u = ?a @ ''-'' @ ?b @ ''-'' @ ?c @ ''-'' @ ?d @ ''-'' @ ?e"
    by (simp add: uuid_str_def h_def Let_def)
  define A where "A = hex_chars"
  have "set h \<subseteq> A" unfolding h_def A_def by (rule uuid_hex_chars)
  then have "set (take k (drop j h)) \<subseteq> A" "set (drop j h) \<subseteq> A" "set (take k h) \<subseteq> A" for k j
    by (auto dest: in_set_takeD in_set_dropD)
  then have A: "set ?a \<union> set ?b \<union> set ?c \<union> set ?d \<union> set ?e \<subseteq> A" by blast
  have "if i \<in> {8, 13, 18, 23} then uuid_str u ! i = CHR ''-'' else uuid_str u ! i \<in> A" if "i < 36" for i
  proof (cases "i \<in> {8, 13, 18, 23}")
    case True
    with nth_dashed [of ?a ?b ?c ?d ?e i "CHR ''-''"] l that show ?thesis unfolding s by simp
  next
    case False
    then have "uuid_str u ! i \<in> set ?a \<union> set ?b \<union> set ?c \<union> set ?d \<union> set ?e"
      using nth_dashed [of ?a ?b ?c ?d ?e i "CHR ''-''"] l that unfolding s by simp
    with A False show ?thesis by auto
  qed
  moreover have "length (uuid_str u) = 36" using l by (simp add: s)
  ultimately show ?thesis unfolding POD_ID_TOKEN_def list_all_iff A_def [symmetric] by simp
qed

lemma POD_ID_TOKEN_iff: "POD_ID_TOKEN t \<longleftrightarrow> (\<exists>u. t = uuid_str u)"
  using POD_ID_TOKEN_str by (auto elim: POD_ID_TOKEN_canonical)

section \<open>Audit subjects and in-process pods\<close>

lemma partition_dot_append: "CHR ''.'' \<notin> set a \<Longrightarrow> partition_dot (a @ CHR ''.'' # b) = (a, b)"
  by (induction a) auto

lemma partition_dot_split:
  assumes "partition_dot s = (a, b)" and "b \<noteq> []"
  shows "s = a @ CHR ''.'' # b"
  using assms by (induction s arbitrary: a) (auto split: if_splits prod.splits)

lemma audit_event_path:
  "tool_pod_audit_event ns (uuid_str u) ev (Some ns') = (if ev = [] then Inl NatsValueError
     else Inr \<lparr>sub_path = dotted [ns', ''audit'', ''tool_pod'', []] @ uuid_str u @ CHR ''.'' # ev, sub_kind = SUBJECT_POINT\<rparr>)"
  by (simp add: tool_pod_audit_event_def tool_pod_audit_wildcard_def removesuffix_char_def dotted_def
      TOOL_POD_AUDIT_TOKEN_def butlast_append)

text \<open>Reading a tool pod's audit subject is the exact inverse of composing one: a subject is read as a
  pod's event exactly when composing that event for that pod gives this very subject.\<close>

theorem parse_audit_subject_inverse:
  "parse_tool_pod_audit_subject subject ns = Some (pod, event) \<longleftrightarrow>
     tool_pod_audit_event default_ns (uuid_str pod) event (Some ns) = Inr \<lparr>sub_path = subject, sub_kind = SUBJECT_POINT\<rparr>"
proof -
  let ?pre = "dotted [ns, ''audit'', ''tool_pod'', []]"
  have "parse_tool_pod_audit_subject subject ns = Some (pod, event)
    \<longleftrightarrow> (\<exists>rest t. subject = ?pre @ rest \<and> partition_dot rest = (t, event) \<and> POD_ID_TOKEN t \<and> event \<noteq> [] \<and> uuid_parse t = Some pod)"
    by (auto simp: parse_tool_pod_audit_subject_def Let_def TOOL_POD_AUDIT_TOKEN_def prefix_def split: prod.splits if_splits)
  also have "\<dots> \<longleftrightarrow> (\<exists>rest. subject = ?pre @ rest \<and> partition_dot rest = (uuid_str pod, event) \<and> event \<noteq> [])"
    by (auto simp: POD_ID_TOKEN_iff)
  also have "\<dots> \<longleftrightarrow> subject = ?pre @ uuid_str pod @ CHR ''.'' # event \<and> event \<noteq> []"
    by (auto dest: partition_dot_split simp: partition_dot_append)
  also have "\<dots> \<longleftrightarrow> tool_pod_audit_event default_ns (uuid_str pod) event (Some ns) = Inr \<lparr>sub_path = subject, sub_kind = SUBJECT_POINT\<rparr>"
    unfolding audit_event_path by auto
  finally show ?thesis .
qed

lemma inprocess_owner_iff:
  "agent_inprocess_owner_id pod_id = Inr (Some agent) \<longleftrightarrow>
     [] \<notin> set (tokens pod_id) \<and> (\<exists>rest. rest \<noteq> [] \<and> tokens pod_id = uuid_str agent # rest)"
proof -
  have "tokens pod_id \<noteq> []" by (simp add: tokens_def)
  then obtain h ts where "tokens pod_id = h # ts" by (cases "tokens pod_id") auto
  moreover have "uuid_parse h = Some v \<Longrightarrow> uuid_str v = h \<and> v = agent \<longleftrightarrow> h = uuid_str agent" for v by auto
  ultimately show ?thesis
    by (cases ts; cases "uuid_parse h") (auto simp: agent_inprocess_owner_id_def)
qed

text \<open>The owner read off the pod id composed for an agent's in-process tool server is that agent, and a
  routing pod id is read as an agent's exactly when its tokens are all non-empty, there is more than one and the
  first is the canonical spelling of the agent's id.\<close>

theorem inprocess_owner_inverse:
  "agent_inprocess_owner_id (agent_inprocess_pod_id agent instance_id)
       = (if instance_id = [] then Inl NatsValueError else Inr (Some agent))
   \<and> (agent_inprocess_owner_id pod_id = Inr (Some agent) \<longleftrightarrow>
       [] \<notin> set (tokens pod_id) \<and> (\<exists>rest. rest \<noteq> [] \<and> tokens pod_id = uuid_str agent # rest))"
proof
  have t: "tokens (agent_inprocess_pod_id agent instance_id) = [uuid_str agent, sanitize_subject_segment instance_id]"
    by (simp add: agent_inprocess_pod_id_def)
  have "sanitize_subject_segment instance_id = [] \<longleftrightarrow> instance_id = []"
    by (simp add: sanitize_subject_segment_def replace_char_def)
  then show "agent_inprocess_owner_id (agent_inprocess_pod_id agent instance_id)
     = (if instance_id = [] then Inl NatsValueError else Inr (Some agent))"
    unfolding agent_inprocess_owner_id_def t by (cases "instance_id = []") (simp_all add: eq_commute [of "[]"])
qed (rule inprocess_owner_iff)

section \<open>Durable results\<close>

lemma single_token_under_iff:
  "is_single_token_under subject pre \<longleftrightarrow> (\<exists>t. t \<noteq> [] \<and> set t \<inter> set ''.*>'' = {} \<and> subject = pre @ t)"
  by (auto simp: is_single_token_under_def Let_def prefix_def)

text \<open>C32: A result is accepted as a pod's own exactly when its subject is the one composed for that pod and one
  literal call token; no wildcard and no deeper subject is accepted.\<close>

theorem result_owned_exact:
  "result_subject_is_owned_by_pod ns subject pod_id \<longleftrightarrow>
     (\<exists>call. call \<noteq> [] \<and> set call \<inter> set ''.*>'' = {} \<and> subject = sub_path (tools_result ns pod_id call))"
proof -
  let ?pre = "dotted [ns, ''tools'', ''result'', routing_token pod_id, []]"
  have pre: "result_subject_prefix_for_pod ns pod_id = ?pre"
    by (simp add: result_subject_prefix_for_pod_def tools_result_pod_wildcard_def removesuffix_char_def dotted_def
        butlast_append)
  have "set call \<inter> set ''.*>'' = {} \<Longrightarrow> sub_path (tools_result ns pod_id call) = ?pre @ call" for call
    by (simp add: tools_result_def dotted_def sanitize_id)
  then show ?thesis
    unfolding result_subject_is_owned_by_pod_def single_token_under_iff pre by metis
qed

section \<open>Every permission set can be minted\<close>

definition checked :: "nats_error + JsResource \<Rightarrow> bool" where
  "checked x \<longleftrightarrow> (\<forall>r. x = Inr r \<longrightarrow> check_JsResource r = Inr r)"

named_theorems checked_rules

lemma check_JsResource_Inr: "check_JsResource r = Inr r' \<Longrightarrow> r' = r"
  unfolding check_JsResource_def by (simp split: if_splits)

lemma check_JsResource_checked: "checked (check_JsResource r)"
  unfolding checked_def using check_JsResource_Inr by blast

lemma checked_if: "checked (if b then Inl e else x) \<longleftrightarrow> b \<or> checked x"
  by (simp add: checked_def)

lemma checked_res [checked_rules]:
  "checked (res_kv_table name scope table w)" "checked (res_kv_bucket_keys name w)" "checked (res_kv_owner_keys name scope w)"
  "checked (res_kv name key_scope w d)" "checked (res_kv_key_read name key)" "checked (res_object_store name w)"
  "checked (res_stream name)" "checked (res_stream_consumer name f)"
  unfolding res_kv_table_def res_kv_bucket_keys_def res_kv_owner_keys_def res_kv_def res_kv_key_read_def
    res_object_store_def res_stream_def res_stream_consumer_def
  by (auto intro: check_JsResource_checked simp: checked_if)

lemma checked_and_then [checked_rules]: "(\<And>a. checked (f a)) \<Longrightarrow> checked (and_then x f)"
  by (auto simp: checked_def)

definition all_checked :: "nats_error + JsResource list \<Rightarrow> bool" where
  "all_checked x \<longleftrightarrow> (\<forall>rs. x = Inr rs \<longrightarrow> (\<forall>r \<in> set rs. check_JsResource r = Inr r))"

lemma all_checked_all_ok: "(\<And>x. x \<in> set xs \<Longrightarrow> checked x) \<Longrightarrow> all_checked (all_ok xs)"
  unfolding all_checked_def checked_def using all_ok_member by metis

lemma all_checked_and_then: "(\<And>a. x = Inr a \<Longrightarrow> all_checked (f a)) \<Longrightarrow> all_checked (and_then x f)"
  by (auto simp: all_checked_def)

lemma control_grants_total:
  assumes "check_JsResource r = Inr r"
  shows "\<exists>gs. js_control_grants r = Inr gs"
  using assms
  by (cases "jr_capability r"; cases "jr_kind r"; cases "jr_scope r"; cases "jr_table r"; cases "jr_filter_subject r")
    (auto simp: check_JsResource_def js_control_grants_def js_api_grants_for_stream_def key_prefix_def
      capability_is_scoped_def SCOPED_CAPABILITIES_def validate_consumer_filter_def split: if_splits)

lemma map_Inr_total: "\<forall>x \<in> set xs. \<exists>y. f x = Inr y \<Longrightarrow> \<exists>ys. map f xs = map Inr ys"
  by (induction xs) (auto simp: Cons_eq_map_conv)

lemma mint_claim_total:
  assumes "\<forall>r \<in> set (pp_js_resources p). check_JsResource r = Inr r"
  shows "\<exists>claim. mint_claim p = Inr claim"
proof -
  have "\<forall>r \<in> set (pp_js_resources p). \<exists>gs. js_control_grants r = Inr gs" using assms control_grants_total by blast
  from map_Inr_total [OF this] show ?thesis by (auto simp: mint_claim_def all_ok_Inr)
qed

definition resolved :: "nats_error + PrincipalPermissions \<Rightarrow> bool" where
  "resolved x \<longleftrightarrow> (\<forall>p. x = Inr p \<longrightarrow> (\<forall>r \<in> set (pp_js_resources p). check_JsResource r = Inr r))"

lemma resolved_resources:
  "all_checked x \<Longrightarrow> (\<And>rs. \<forall>r \<in> set rs. check_JsResource r = Inr r \<Longrightarrow> resolved (f rs)) \<Longrightarrow> resolved (and_then x f)"
  by (auto simp: resolved_def all_checked_def)

lemma resolved_and_then: "(\<And>a. resolved (f a)) \<Longrightarrow> resolved (and_then x f)"
  by (auto simp: resolved_def)

lemma all_checked_list: "list_all checked xs \<Longrightarrow> all_checked (all_ok xs)"
  by (rule all_checked_all_ok) (simp add: list_all_iff)

lemma all_checked_append:
  assumes "all_checked x" and "all_checked y"
  shows "all_checked (and_then x (\<lambda>xs. and_then y (\<lambda>ys. Inr (xs @ ys))))"
  using assms by (auto simp: all_checked_def)

lemma all_checked_append3:
  assumes "all_checked x" and "all_checked y" and "all_checked z"
  shows "all_checked (and_then x (\<lambda>xs. and_then y (\<lambda>ys. and_then z (\<lambda>zs. Inr (xs @ ys @ zs)))))"
  using assms by (auto simp: all_checked_def)

lemma all_checked_map: "(\<And>a. checked (f a)) \<Longrightarrow> all_checked (all_ok (map f xs))"
  by (rule all_checked_all_ok) auto

lemma all_checked_if: "all_checked x \<Longrightarrow> all_checked (if b then Inl e else x)"
  by (simp add: all_checked_def)

lemma agent_pod_resources_checked: "all_checked (agent_pod_resources ns scope a names)"
  unfolding agent_pod_resources_def coordination_resources_def
  by (intro all_checked_append all_checked_list all_checked_if all_checked_map checked_rules)
    (simp add: checked_rules list_all_iff)

lemma tool_pod_resources_checked: "all_checked (tool_pod_resources ns scope p tables buckets)"
  unfolding tool_pod_resources_def agent_table_resources_def agent_bucket_resources_def
  by (intro all_checked_append3 all_checked_list all_checked_if all_checked_map checked_rules)
    (simp add: checked_rules)

lemma service_resolved:
  "resolved (registry ns ids)" "resolved (hub ns ids)" "resolved (gateway ns ids)" "resolved (channel_adapter ns ids)"
  "resolved (agent_router ns ids)" "resolved (dataset_executor ns ids)"
  unfolding registry_def hub_def gateway_def channel_adapter_def agent_router_def dataset_executor_def
  by (intro resolved_and_then resolved_resources all_checked_list; simp add: checked_rules resolved_def Let_def)+

lemma pod_resolved: "resolved (agent_pod ns ids)" "resolved (tool_pod ns ids)"
  unfolding agent_pod_def tool_pod_def
  by (intro resolved_and_then resolved_resources agent_pod_resources_checked tool_pod_resources_checked;
      simp add: resolved_def Let_def)+

lemma with_object_store_resolved: "resolved (Inr p) \<Longrightarrow> resolved (with_object_store ns pod_id p)"
  using checked_res(2,6) by (auto simp: with_object_store_def resolved_def checked_def)

lemma build_permissions_resolved: "resolved (build_permissions ns who ids object_store)"
proof -
  have "resolved (resolver who ns ids)" by (cases who) (simp_all add: service_resolved pod_resolved)
  then have "resolved (Inr p)" if "resolver who ns ids = Inr p" for p using that by (simp add: resolved_def)
  then show ?thesis
    unfolding build_permissions_def using with_object_store_resolved
    by (auto simp: resolved_def split: if_splits)
qed

text \<open>C31: Whatever permissions are built for a principal, every resource among them is well formed and the
  user claim is minted from them: no resource lacks the bucket, the scope or the filter its grants are made of.\<close>

theorem built_permissions_mint:
  assumes "build_permissions ns who ids object_store = Inr permissions"
  shows "(\<forall>r \<in> set (pp_js_resources permissions). check_JsResource r = Inr r)
    \<and> (\<exists>claim. mint_claim permissions = Inr claim)"
proof -
  from build_permissions_resolved [of ns who ids object_store] assms
  have "\<forall>r \<in> set (pp_js_resources permissions). check_JsResource r = Inr r" by (simp add: resolved_def)
  with mint_claim_total show ?thesis by blast
qed

definition example_hub :: principal_ids where
  "example_hub = \<lparr>pi_agent_id = None, pi_pod_id = None, pi_conn_id = Some ''hub-1'', pi_tool_namespaces = [],
     pi_coordination_buckets = [], pi_agent_table_grants = [], pi_agent_bucket_grants = []\<rparr>"

theorem built_permissions_mint_witness:
  "\<exists>permissions. build_permissions ''ns'' HUB example_hub False = Inr permissions
     \<and> (\<forall>r \<in> set (pp_js_resources permissions). check_JsResource r = Inr r)
     \<and> (\<exists>claim. mint_claim permissions = Inr claim)"
proof -
  have "case build_permissions ''ns'' HUB example_hub False of Inl _ \<Rightarrow> False | Inr _ \<Rightarrow> True" by code_simp
  then obtain permissions where "build_permissions ''ns'' HUB example_hub False = Inr permissions"
    by (cases "build_permissions ''ns'' HUB example_hub False") simp_all
  with built_permissions_mint [OF this] show ?thesis by blast
qed

end
