(* ===== verification/KvCas.thy ===== *)
theory KvCas
  imports KvLease
begin

text \<open>
  Read-modify-write over a shared bucket, as \<open>core/coordination/distributed_counter.py\<close> and
  \<open>core/coordination/token_bucket.py\<close> do it: read the entry, create the key or update it at the
  revision that was read, start over when another writer was first.  This theory holds the fleet the two
  primitives run in, any number of calls on any number of pods interleaved at their awaits, with answers
  lost and requests landing late, and the one invariant both rest on: the writes that landed form, for
  every key, a chain in which each was computed from the one before it, and each call has at most one.
\<close>

section \<open>The fleet\<close>

text \<open>A call is a pod, the stored key it works on, and its coroutine.  Beside the bucket and the calls the
  world keeps the requests nobody waits for any more and the history of landed writes, newest first: the
  call, whether it made the key or updated it, and the value.  A process that dies is a call that takes
  no further step; one that starts again is another pod.\<close>

record ('v, 'e, 's, 'a) cas_call =
  cc_pod :: nat
  cc_key :: string
  cc_prog :: "('v, 'e, 's, 'a) prog"

record ('v, 'e, 's, 'a) cas_world =
  cw_bucket :: "'v kv_bucket"
  cw_pods :: "nat \<Rightarrow> 's"
  cw_calls :: "nat \<rightharpoonup> ('v, 'e, 's, 'a) prog"
  cw_pending :: "(nat \<times> 'v pending_write) list"
  cw_log :: "(nat \<times> bool \<times> 'v) list"

definition cas_start :: "int \<Rightarrow> bool \<Rightarrow> (nat \<Rightarrow> 's) \<Rightarrow> ('v, 'e, 's, 'a) cas_world" where
  "cas_start now may_create pods =
     \<lparr>cw_bucket = new_kv_bucket now may_create, cw_pods = pods, cw_calls = Map.empty, cw_pending = [], cw_log = []\<rparr>"

text \<open>The landed write of one request, when it lands.\<close>

fun write_landed :: "int \<Rightarrow> 'v pending_write \<Rightarrow> 'v kv_bucket \<Rightarrow> (bool \<times> 'v) list" where
  "write_landed now (PendingCreate key v t) b =
     (case fst (kv_create now key v t b) of Inr (Some r) \<Rightarrow> [(True, v)] | _ \<Rightarrow> [])"
| "write_landed now (PendingUpdate key v r0 t) b =
     (case fst (kv_update now key v r0 t b) of Inr (Some r) \<Rightarrow> [(False, v)] | _ \<Rightarrow> [])"
| "write_landed now (PendingDelete key r t) b = []"

definition landed_now :: "nat \<Rightarrow> 'v pending_write list \<Rightarrow> 'v kv_bucket \<Rightarrow> (nat \<times> bool \<times> 'v) list" where
  "landed_now c ws b = map (Pair c) (concat (map (\<lambda>w. write_landed (kv_elapsed b) w b) ws))"

inductive cas_step ::
  "(nat \<Rightarrow> int) \<Rightarrow> (nat \<Rightarrow> ('v, 'e, 's, 'a) cas_call) \<Rightarrow> ('v, 'e, 's, 'a) cas_world \<Rightarrow> ('v, 'e, 's, 'a) cas_world \<Rightarrow> bool"
  for skew script where
  time_passes: "0 \<le> d \<Longrightarrow> cas_step skew script w (w\<lparr>cw_bucket := kv_advance_clock d (cw_bucket w)\<rparr>)"
| connection: "b = kv_become_unreachable (cw_bucket w) \<or> b = kv_become_reachable (cw_bucket w) \<Longrightarrow>
    cas_step skew script w (w\<lparr>cw_bucket := b\<rparr>)"
| call_starts: "cw_calls w c = None \<Longrightarrow>
    cas_step skew script w (w\<lparr>cw_calls := (cw_calls w)(c \<mapsto> cc_prog (script c))\<rparr>)"
| call_step: "cw_calls w c = Some p \<Longrightarrow>
    prog_step (skew (cc_pod (script c))) p (cw_pods w (cc_pod (script c))) (cw_bucket w) = Some (q, s, b) \<Longrightarrow>
    cas_step skew script w
      (w\<lparr>cw_bucket := b, cw_pods := (cw_pods w)(cc_pod (script c) := s), cw_calls := (cw_calls w)(c \<mapsto> q),
         cw_log := landed_now c (unanswered_write p) (cw_bucket w) @ cw_log w\<rparr>)"
| call_unanswered: "cw_calls w c = Some p \<Longrightarrow>
    cas_step skew script w
      (w\<lparr>cw_calls := (cw_calls w)(c \<mapsto> give_up_waiting p),
         cw_pending := map (Pair c) (unanswered_write p) @ cw_pending w\<rparr>)"
| write_arrives: "(c, wr) \<in> set (cw_pending w) \<Longrightarrow>
    cas_step skew script w
      (w\<lparr>cw_bucket := write_lands (kv_elapsed (cw_bucket w)) wr (cw_bucket w),
         cw_pending := filter (\<lambda>q. fst q \<noteq> c) (cw_pending w),
         cw_log := landed_now c [wr] (cw_bucket w) @ cw_log w\<rparr>)"

inductive cas_reachable ::
  "(nat \<Rightarrow> int) \<Rightarrow> (nat \<Rightarrow> ('v, 'e, 's, 'a) cas_call) \<Rightarrow> ('v, 'e, 's, 'a) cas_world \<Rightarrow> bool"
  for skew script where
  start: "cas_reachable skew script (cas_start now may_create pods)"
| step: "cas_reachable skew script w \<Longrightarrow> cas_step skew script w w' \<Longrightarrow> cas_reachable skew script w'"

text \<open>A schedule of calls, each entry a start or one step of a call, is one way to get to a world.\<close>

definition advance_call ::
  "(nat \<Rightarrow> int) \<Rightarrow> (nat \<Rightarrow> ('v, 'e, 's, 'a) cas_call) \<Rightarrow> nat \<Rightarrow> ('v, 'e, 's, 'a) cas_world \<Rightarrow> ('v, 'e, 's, 'a) cas_world" where
  "advance_call skew script c w =
     (case cw_calls w c of
        None \<Rightarrow> w\<lparr>cw_calls := (cw_calls w)(c \<mapsto> cc_prog (script c))\<rparr>
      | Some p \<Rightarrow>
          (case prog_step (skew (cc_pod (script c))) p (cw_pods w (cc_pod (script c))) (cw_bucket w) of
             None \<Rightarrow> w
           | Some (q, s, b) \<Rightarrow>
               w\<lparr>cw_bucket := b, cw_pods := (cw_pods w)(cc_pod (script c) := s), cw_calls := (cw_calls w)(c \<mapsto> q),
                 cw_log := landed_now c (unanswered_write p) (cw_bucket w) @ cw_log w\<rparr>))"

lemma advance_call_reachable: "cas_reachable skew script w \<Longrightarrow> cas_reachable skew script (advance_call skew script c w)"
  by (auto simp: advance_call_def split: option.split intro: cas_reachable.step cas_step.intros)

lemma schedule_reachable: "cas_reachable skew script w \<Longrightarrow> cas_reachable skew script (fold (advance_call skew script) cs w)"
  by (induction cs arbitrary: w) (simp_all add: advance_call_reachable)

section \<open>How long a call takes\<close>

text \<open>The steps a call takes itself, in whatever state and bucket each finds, an await it gives up on
  being one of them.\<close>

inductive own_steps :: "nat \<Rightarrow> ('v, 'e, 's, 'a) prog \<Rightarrow> ('v, 'e, 's, 'a) prog \<Rightarrow> bool" where
  no_step: "own_steps 0 p p"
| one_step: "prog_step sk p s b = Some (q, s', b') \<Longrightarrow> own_steps n q p' \<Longrightarrow> own_steps (Suc n) p p'"
| given_up: "give_up_waiting p \<noteq> p \<Longrightarrow> own_steps n (give_up_waiting p) p' \<Longrightarrow> own_steps (Suc n) p p'"

inductive ends_within :: "nat \<Rightarrow> ('v, 'e, 's, 'a) prog \<Rightarrow> bool" where
  e_return: "ends_within n (Return a)"
| e_raise: "ends_within n (Raise e)"
| e_now: "(\<And>x. ends_within n (c x)) \<Longrightarrow> ends_within (Suc n) (Now c)"
| e_sleep: "ends_within n p \<Longrightarrow> ends_within (Suc n) (Sleep d p)"
| e_ask: "(\<And>x. ends_within n (c x)) \<Longrightarrow> ends_within (Suc n) (Ask c)"
| e_modify: "ends_within n p \<Longrightarrow> ends_within (Suc n) (Modify f p)"
| e_create: "(\<And>x. ends_within n (c x)) \<Longrightarrow> ends_within (Suc n) (Create k v t c)"
| e_entry: "(\<And>x. ends_within n (c x)) \<Longrightarrow> ends_within (Suc n) (GetEntry k c)"
| e_value: "(\<And>x. ends_within n (c x)) \<Longrightarrow> ends_within (Suc n) (GetValue k c)"
| e_update: "(\<And>x. ends_within n (c x)) \<Longrightarrow> ends_within (Suc n) (Update k v r t c)"
| e_opened: "(\<And>x. ends_within n (c x)) \<Longrightarrow> ends_within (Suc n) (DateCreated c)"

lemma ends_step: "ends_within n p \<Longrightarrow> prog_step sk p s b = Some (q, s', b') \<Longrightarrow> \<exists>m. n = Suc m \<and> ends_within m q"
  by (cases rule: ends_within.cases) (auto simp: prog_step_def split: prod.splits)

lemma ends_give_up: "ends_within n p \<Longrightarrow> give_up_waiting p \<noteq> p \<Longrightarrow> \<exists>m. n = Suc m \<and> ends_within m (give_up_waiting p)"
  by (cases rule: ends_within.cases) auto

lemma own_steps_bound: "own_steps m p q \<Longrightarrow> ends_within n p \<Longrightarrow> m \<le> n"
proof (induction arbitrary: n rule: own_steps.induct)
  case (one_step sk p s b q s' b' m p')
  then show ?case using ends_step [OF one_step(4,1)] by auto
next
  case (given_up p m p')
  then show ?case using ends_give_up [OF given_up(4,1)] by auto
qed simp

lemma own_steps_more:
  assumes "own_steps n p q" "prog_step sk q s b = Some (q', s', b')"
  shows "own_steps (Suc n) p q'"
  using assms by (induction rule: own_steps.induct) (auto intro: own_steps.intros)

lemma own_steps_end:
  assumes "own_steps n p q"
  shows "(\<exists>a. q = Return a) \<or> (\<exists>e. q = Raise e) \<or> (\<exists>q'. own_steps (Suc n) p q')"
proof -
  have "prog_step 0 q undefined (new_kv_bucket 0 True) \<noteq> None \<or> (\<exists>a. q = Return a) \<or> (\<exists>e. q = Raise e)"
    by (cases q) (auto simp: prog_step_def split: prod.split)
  then show ?thesis using own_steps_more [OF assms] by fastforce
qed

lemma ends_within_mono: "ends_within n p \<Longrightarrow> n \<le> m \<Longrightarrow> ends_within m p"
proof (induction arbitrary: m rule: ends_within.induct)
qed (metis Suc_le_D Suc_le_mono ends_within.intros)+

lemma ends_then:
  assumes "ends_within n p" "\<And>a. ends_within m (k a)"
  shows "ends_within (n + m) (then_do p k)"
  using assms(1)
proof (induction rule: ends_within.induct)
  case (e_return n a)
  then show ?case using ends_within_mono [OF assms(2)] by simp
qed (auto intro: ends_within.intros)

text \<open>A coroutine that never raises an error as long as every clock read shows at least what the one before
  it did, plus the microsecond it took.\<close>

inductive never_raises :: "'e \<Rightarrow> int \<Rightarrow> ('v, 'e, 's, 'a) prog \<Rightarrow> bool" for e where
  n_return: "never_raises e t (Return a)"
| n_raise: "e' \<noteq> e \<Longrightarrow> never_raises e t (Raise e')"
| n_now: "(\<And>x. t \<le> x \<Longrightarrow> never_raises e (x + 1) (c x)) \<Longrightarrow> never_raises e t (Now c)"
| n_sleep: "never_raises e t p \<Longrightarrow> never_raises e t (Sleep d p)"
| n_ask: "(\<And>x. never_raises e t (c x)) \<Longrightarrow> never_raises e t (Ask c)"
| n_modify: "never_raises e t p \<Longrightarrow> never_raises e t (Modify f p)"
| n_create: "(\<And>x. never_raises e t (c x)) \<Longrightarrow> never_raises e t (Create k v ttl c)"
| n_entry: "(\<And>x. never_raises e t (c x)) \<Longrightarrow> never_raises e t (GetEntry k c)"
| n_value: "(\<And>x. never_raises e t (c x)) \<Longrightarrow> never_raises e t (GetValue k c)"
| n_update: "(\<And>x. never_raises e t (c x)) \<Longrightarrow> never_raises e t (Update k v r ttl c)"
| n_delete: "(\<And>x. never_raises e t (c x)) \<Longrightarrow> never_raises e t (Delete k r' ttl c)"
| n_opened: "(\<And>x. never_raises e t (c x)) \<Longrightarrow> never_raises e t (DateCreated c)"

inductive_simps never_raises_Raise: "never_raises e t (Raise e')"

lemma never_raises_mono: "never_raises e t p \<Longrightarrow> t \<le> t' \<Longrightarrow> never_raises e t' p"
  by (induction arbitrary: t' rule: never_raises.induct) (auto intro!: never_raises.intros)

lemma never_raises_then:
  assumes "never_raises e t p" and "\<And>a t'. t \<le> t' \<Longrightarrow> never_raises e t' (k a)"
  shows "never_raises e t (then_do p k)"
  using assms by (induction rule: never_raises.induct) (auto intro!: never_raises.intros)

lemma never_raises_step:
  assumes "never_raises e (kv_elapsed b + sk) p" and "prog_step sk p s b = Some (q, s', b')" and "kv_elapsed b \<le> kv_elapsed b'"
  shows "never_raises e (kv_elapsed b' + sk) q"
proof -
  have mono: "never_raises e (kv_elapsed b' + sk) r" if "never_raises e (kv_elapsed b + sk) r" for r
    using never_raises_mono [OF that] assms(3) by simp
  from assms(1) show ?thesis
  proof (cases rule: never_raises.cases)
    case (n_now c)
    then have "never_raises e (kv_elapsed b + sk + 1) (c (kv_elapsed b + sk))" by simp
    moreover have "q = c (kv_elapsed b + sk)" "kv_elapsed b' + sk = kv_elapsed b + sk + 1"
      using assms(2) n_now by (auto simp: prog_step_def kv_advance_clock_def)
    ultimately show ?thesis by (simp only:)
  qed (use assms(2) mono in \<open>auto simp: prog_step_def split: prod.splits\<close>)
qed

lemma never_raises_give_up: "never_raises e t p \<Longrightarrow> never_raises e t (give_up_waiting p)"
  by (erule never_raises.cases) (auto intro: never_raises.intros)

section \<open>The chain of landed writes\<close>

text \<open>The value the history leaves under a key, and what makes a history a chain: a write that made the
  key was computed from nothing, an update from the value the history had.\<close>

fun newest :: "(nat \<Rightarrow> string) \<Rightarrow> string \<Rightarrow> (nat \<times> bool \<times> 'v) list \<Rightarrow> 'v option" where
  "newest key k [] = None"
| "newest key k ((c, made, v) # log) = (if key c = k then Some v else newest key k log)"

fun cas_chain ::
  "(nat \<Rightarrow> string) \<Rightarrow> (nat \<Rightarrow> 'v option \<Rightarrow> 'v \<Rightarrow> bool) \<Rightarrow> (nat \<times> bool \<times> 'v) list \<Rightarrow> bool" where
  "cas_chain key R [] = True"
| "cas_chain key R ((c, made, v) # log) =
     (cas_chain key R log \<and>
      (if made then R c None v else newest key (key c) log \<noteq> None \<and> R c (newest key (key c) log) v))"

text \<open>A history in which every key was made once.\<close>

fun made_once :: "(nat \<Rightarrow> string) \<Rightarrow> (nat \<times> bool \<times> 'v) list \<Rightarrow> bool" where
  "made_once key [] = True"
| "made_once key ((c, made, v) # log) = (made_once key log \<and> (made \<longrightarrow> newest key (key c) log = None))"

text \<open>A client: what it writes it computed from what it read, one landed write ends it, and an error
  while a write is out ends it too.\<close>

definition cas_over :: "('v option \<Rightarrow> 'a \<Rightarrow> bool) \<Rightarrow> ('v, 'e, 's, 'a) prog \<Rightarrow> bool" where
  "cas_over post p \<longleftrightarrow> (\<exists>e. p = Raise e) \<or> (\<exists>a. p = Return a \<and> (\<forall>l. post l a))"

definition cas_done :: "('v option \<Rightarrow> 'a \<Rightarrow> bool) \<Rightarrow> 'v \<Rightarrow> ('v, 'e, 's, 'a) prog \<Rightarrow> bool" where
  "cas_done post v p \<longleftrightarrow> (\<exists>a. p = Return a \<and> post (Some v) a)"

inductive cas_client ::
  "string \<Rightarrow> int option \<Rightarrow> ('v option \<Rightarrow> 'v \<Rightarrow> bool) \<Rightarrow> ('v option \<Rightarrow> 'a \<Rightarrow> bool) \<Rightarrow> (nat \<times> 'v) set
    \<Rightarrow> ('v, 'e, 's, 'a) prog \<Rightarrow> bool" for key ttl R post where
  c_return: "post None a \<Longrightarrow> cas_client key ttl R post seen (Return a)"
| c_raise: "cas_client key ttl R post seen (Raise e)"
| c_now: "(\<And>t. cas_client key ttl R post seen (c t)) \<Longrightarrow> cas_client key ttl R post seen (Now c)"
| c_sleep: "cas_client key ttl R post seen p \<Longrightarrow> cas_client key ttl R post seen (Sleep d p)"
| c_ask: "(\<And>s. cas_client key ttl R post seen (c s)) \<Longrightarrow> cas_client key ttl R post seen (Ask c)"
| c_modify: "cas_client key ttl R post seen p \<Longrightarrow> cas_client key ttl R post seen (Modify f p)"
| c_entry: "(\<And>e. cas_client key ttl R post seen (c (Inl e))) \<Longrightarrow> cas_client key ttl R post seen (c (Inr None)) \<Longrightarrow>
    (\<And>v r. cas_client key ttl R post (insert (r, v) seen) (c (Inr (Some (v, r))))) \<Longrightarrow>
    cas_client key ttl R post seen (GetEntry key c)"
| c_value: "(\<And>x. cas_client key ttl R post seen (c x)) \<Longrightarrow> cas_client key ttl R post seen (GetValue k c)"
| c_opened: "(\<And>x. cas_client key ttl R post seen (c x)) \<Longrightarrow> cas_client key ttl R post seen (DateCreated c)"
| c_create: "R None v \<Longrightarrow> cas_client key ttl R post seen (c (Inr None)) \<Longrightarrow>
    (\<And>r. cas_done post v (c (Inr (Some r)))) \<Longrightarrow> (\<And>e. cas_over post (c (Inl e))) \<Longrightarrow>
    cas_client key ttl R post seen (Create key v ttl c)"
| c_update: "(r0, v0) \<in> seen \<Longrightarrow> R (Some v0) v \<Longrightarrow> cas_client key ttl R post seen (c (Inr None)) \<Longrightarrow>
    (\<And>r. cas_done post v (c (Inr (Some r)))) \<Longrightarrow> (\<And>e. cas_over post (c (Inl e))) \<Longrightarrow>
    cas_client key ttl R post seen (Update key v r0 ttl c)"

inductive_cases client_stepE:
  "cas_client key ttl R post seen (Return a)" "cas_client key ttl R post seen (Now c)"
  "cas_client key ttl R post seen (Sleep d p)" "cas_client key ttl R post seen (Ask c)"
  "cas_client key ttl R post seen (Modify f p)" "cas_client key ttl R post seen (GetEntry k c)"
  "cas_client key ttl R post seen (GetValue k c)" "cas_client key ttl R post seen (DateCreated c)"
  "cas_client key ttl R post seen (Create k v t c)" "cas_client key ttl R post seen (Update k v r t c)"
  "cas_client key ttl R post seen (Delete k r' t c)"

text \<open>A client whose result is wrapped, or that continues with another client, is a client.\<close>

lemma client_then:
  assumes "cas_client key ttl R post seen p"
    and "\<And>a seen. post None a \<Longrightarrow> cas_client key ttl R post' seen (k a)"
    and "\<And>v a. post (Some v) a \<Longrightarrow> cas_done post' v (k a)"
    and "\<And>a. (\<And>l. post l a) \<Longrightarrow> cas_over post' (k a)"
  shows "cas_client key ttl R post' seen (then_do p k)"
proof -
  have raised: "cas_over post' (Raise e)" for e by (simp add: cas_over_def)
  have finished: "cas_over post q \<Longrightarrow> cas_over post' (then_do q k)" "cas_done post v q \<Longrightarrow> cas_done post' v (then_do q k)" for q v
    using raised assms(3,4) by (auto simp: cas_over_def [of post q] cas_done_def [of post v q])
  show ?thesis using assms(1)
    by (induction rule: cas_client.induct) (auto intro!: cas_client.intros assms(2) finished)
qed

section \<open>What moves a bucket\<close>

text \<open>A bucket nobody deletes from: a key nobody sees has no revision, so no update lands on it.\<close>

definition cas_good :: "'v kv_bucket \<Rightarrow> bool" where
  "cas_good b \<longleftrightarrow> kv_ok b \<and> (\<forall>k. kv_view b k = None \<longrightarrow> kv_latest b k = 0)"

definition seen_ok :: "string \<Rightarrow> (nat \<times> 'v) set \<Rightarrow> 'v kv_bucket \<Rightarrow> bool" where
  "seen_ok key seen b \<longleftrightarrow>
     (\<forall>(r, v) \<in> seen. 0 < r \<and> r \<le> kv_revision b \<and> (kv_latest b key = r \<longrightarrow> kv_view b key = Some (v, r)))"

definition moves :: "'v kv_bucket \<Rightarrow> 'v kv_bucket \<Rightarrow> bool" where
  "moves b b' \<longleftrightarrow> cas_good b' \<and> kv_revision b \<le> kv_revision b' \<and>
     (\<forall>k r. 0 < r \<and> r \<le> kv_revision b \<and> kv_latest b' k = r \<longrightarrow> kv_latest b k = r \<and> kv_view b' k = kv_view b k)"

definition same_view :: "'v kv_bucket \<Rightarrow> 'v kv_bucket \<Rightarrow> bool" where
  "same_view b b' \<longleftrightarrow> kv_ok b' \<and> kv_view b' = kv_view b \<and> kv_latest b' = kv_latest b \<and> kv_revision b' = kv_revision b
     \<and> kv_expires b' = kv_expires b"

lemma same_view_moves: "cas_good b \<Longrightarrow> same_view b b' \<Longrightarrow> moves b b'"
  by (simp add: moves_def same_view_def cas_good_def)

lemma seen_ok_moves: "moves b b' \<Longrightarrow> seen_ok key seen b \<Longrightarrow> seen_ok key seen b'"
  by (fastforce simp: seen_ok_def moves_def)

lemma seen_ok_insert: "seen_ok key (insert (r, v) seen) b \<longleftrightarrow> seen_ok key {(r, v)} b \<and> seen_ok key seen b"
  by (auto simp: seen_ok_def)

lemma seen_ok_entry: "kv_ok b \<Longrightarrow> kv_view b key = Some (v, r) \<Longrightarrow> seen_ok key {(r, v)} b"
  using kv.view_latest [of b key v r] kv.latest_high [of b key] by (simp add: seen_ok_def)

lemma write_moves:
  assumes "cas_good b" "kv_ok b'" "kv_revision b < r" "kv_revision b' = r"
    "kv_view b' = (kv_view b)(k \<mapsto> (v, r))" "kv_latest b' = (kv_latest b)(k := r)"
  shows "moves b b'"
  using assms by (auto simp: moves_def cas_good_def)

lemma new_bucket_good: "cas_good (new_kv_bucket now may_create)"
  by (simp add: cas_good_def new_kv_bucket_ok) (simp add: kv_latest_def kv_dead_def new_kv_bucket_def kv_view_def)

lemma kv_advance_forgets:
  assumes "kv_ok b" "kv_view (kv_advance_clock d b) k = None" "kv_view b k \<noteq> None"
  shows "kv_latest (kv_advance_clock d b) k = 0"
proof -
  from assms(3) have "kv_entries b k \<noteq> None" by (auto simp: kv_view_def split: option.splits)
  with assms(1) have "kv_markers b k = None" by (auto simp: kv_ok_def kv_wf_def)
  then show ?thesis using assms(2) by (simp add: kv_latest_def kv_dead_def) (simp add: kv_advance_clock_def)
qed

lemma kv_expires_view: "kv_view b k = None \<Longrightarrow> kv_expires b k = None"
  by (auto simp: kv_view_def kv_expires_def split: option.splits if_splits)

lemma advance_moves:
  assumes "cas_good b" "0 \<le> d"
  shows "moves b (kv_advance_clock d b)"
proof -
  have ok: "kv_ok b" using assms(1) by (simp add: cas_good_def)
  note law = kv.advance_law [OF ok assms(2)]
  have none: "kv_latest (kv_advance_clock d b) k = 0" if "kv_view (kv_advance_clock d b) k = None" for k
  proof (cases "kv_view b k = None")
    case True
    then show ?thesis using law assms(1) by (metis cas_good_def insertE singletonD)
  qed (use kv_advance_forgets [OF ok that] in simp)
  show ?thesis unfolding moves_def cas_good_def
    using law none by (metis insertE less_irrefl order_refl singletonD)
qed

lemma connection_same:
  assumes "kv_ok b" "b' = kv_become_unreachable b \<or> b' = kv_become_reachable b"
  shows "same_view b b'"
proof -
  obtain u where b': "b' = b\<lparr>kv_unreachable := u\<rparr>"
    using assms(2) by (auto simp: kv_become_unreachable_def kv_become_reachable_def)
  have lapsed: "kv_lapsed b' = kv_lapsed b" by (simp add: b' kv_lapsed_def fun_eq_iff split: option.split)
  have view: "kv_view b' = kv_view b" "kv_expires b' = kv_expires b" "kv_dead b' = kv_dead b"
    by (simp_all add: b' kv_view_def kv_expires_def kv_dead_def fun_eq_iff lapsed [unfolded b'] cong: option.case_cong)
  moreover have "kv_latest b' = kv_latest b" using view by (intro ext kv_latest_cong) simp_all
  ultimately show ?thesis using assms(1) by (simp add: same_view_def) (simp add: b' kv_ok_def kv_wf_def)
qed

lemma kv_get_same: "kv_ok b \<Longrightarrow> kv_get now k b = (x, b') \<Longrightarrow> same_view b b'"
  using kv_live_spec [of k b] by (auto simp: kv_get_def kv_run_ok same_view_def split: prod.splits if_splits)

text \<open>A reachable bucket answers.\<close>

definition kv_answers :: "'v kv_bucket \<Rightarrow> bool" where
  "kv_answers b \<longleftrightarrow> kv_ok b \<and> \<not> kv_unreachable b"

definition ttl_ok :: "int option \<Rightarrow> bool" where
  "ttl_ok ttl = (case ttl of None \<Rightarrow> True | Some t \<Rightarrow> SECOND \<le> t)"

lemma kv_live_reachable: "kv_live k b = (e, b') \<Longrightarrow> kv_unreachable b' = kv_unreachable b"
  by (auto simp: kv_live_def split: option.splits if_splits)

lemma kv_latest_reachable: "kv_latest_revision k b = (r, b') \<Longrightarrow> kv_unreachable b' = kv_unreachable b"
  by (auto simp: kv_latest_revision_def kv_marker_def Let_def dest: kv_live_reachable split: option.splits prod.splits if_splits)

lemma kv_get_entry_answers:
  assumes "kv_answers b"
  obtains b' where "kv_get_entry now k b = (Inr (kv_view b k), b')" "kv_answers b'" "kv_view b' = kv_view b"
    "kv_latest b' = kv_latest b"
proof -
  obtain e b1 where live: "kv_live k b = (e, b1)" by fastforce
  note l = kv_live_spec [OF live]
  show ?thesis using that [of b1] assms l kv_live_reachable [OF live]
    by (simp add: kv_answers_def kv_get_entry_def kv_run_ok live)
qed

lemma kv_get_answers:
  assumes "kv_answers b"
  obtains b' where "kv_get now k b = (Inr (map_option fst (kv_view b k)), b')" "kv_answers b'" "kv_view b' = kv_view b"
proof -
  obtain e b1 where live: "kv_live k b = (e, b1)" by fastforce
  note l = kv_live_spec [OF live]
  have "map_option kve_value e = map_option fst (kv_view b k)" unfolding l(1) [symmetric] by (cases e) auto
  then show ?thesis using that [of b1] assms l kv_live_reachable [OF live]
    by (simp add: kv_answers_def kv_get_def kv_run_ok live)
qed

lemma kv_write_answers:
  assumes "kv_answers b" "ttl_ok ttl"
  obtains r b' where "kv_write k v ttl b = (Inr r, b')" "kv_answers b'" "kv_view b' = (kv_view b)(k \<mapsto> (v, r))"
proof -
  obtain x b' where w: "kv_write k v ttl b = (Inr x, b')" "kv_unreachable b' = kv_unreachable b"
    using assms(2) by (auto simp: kv_write_def kv_expiry_def ttl_ok_def Let_def split: option.splits)
  show ?thesis using that [OF w(1)] kv_write_spec [OF w(1)] assms(1) w(2) by (simp add: kv_answers_def)
qed

lemma kv_create_answers:
  assumes "kv_answers b" "ttl_ok ttl" "kv_view b k = None"
  obtains r b' where "kv_create now k v ttl b = (Inr (Some r), b')" "kv_answers b'" "kv_view b' = (kv_view b)(k \<mapsto> (v, r))"
proof -
  obtain e b1 where live: "kv_live k b = (e, b1)" by fastforce
  note l = kv_live_spec [OF live]
  have b1: "kv_answers b1" "e = None" using assms(1,3) l kv_live_reachable [OF live] by (auto simp: kv_answers_def)
  obtain r b' where w: "kv_write k v ttl b1 = (Inr r, b')" "kv_answers b'" "kv_view b' = (kv_view b1)(k \<mapsto> (v, r))"
    using kv_write_answers [OF b1(1) assms(2)] .
  show ?thesis using that [of r b'] w b1(2) l(2) assms(1) by (simp add: kv_answers_def kv_create_def kv_run_ok live)
qed

lemma kv_update_answers:
  assumes "kv_answers b" "ttl_ok ttl" "kv_latest b k = r0"
  obtains r b' where "kv_update now k v r0 ttl b = (Inr (Some r), b')" "kv_answers b'" "kv_view b' = (kv_view b)(k \<mapsto> (v, r))"
proof -
  obtain n b1 where rv: "kv_latest_revision k b = (n, b1)" by fastforce
  have ok: "kv_ok b" using assms(1) by (simp add: kv_answers_def)
  note l = kv_latest_revision_spec [OF rv ok]
  have b1: "kv_answers b1" using assms(1) l kv_latest_reachable [OF rv] by (auto simp: kv_answers_def)
  obtain r b' where w: "kv_write k v ttl b1 = (Inr r, b')" "kv_answers b'" "kv_view b' = (kv_view b1)(k \<mapsto> (v, r))"
    using kv_write_answers [OF b1 assms(2)] .
  show ?thesis using that [of r b'] w l(1,2) assms(1,3) by (simp add: kv_answers_def kv_update_def kv_run_ok rv)
qed

lemma kv_date_created_same: "kv_ok b \<Longrightarrow> kv_date_created now b = (x, b') \<Longrightarrow> same_view b b'"
  by (auto simp: kv_date_created_def kv_run_ok same_view_def split: if_splits)

text \<open>A request either lands, as the next write under its key, or leaves what everybody sees.\<close>

definition request_ok ::
  "string \<Rightarrow> int option \<Rightarrow> ('v option \<Rightarrow> 'v \<Rightarrow> bool) \<Rightarrow> 'v kv_bucket \<Rightarrow> 'v pending_write \<Rightarrow> bool" where
  "request_ok key ttl R b wr =
     (case wr of
        PendingCreate k v t \<Rightarrow> k = key \<and> t = ttl \<and> R None v
      | PendingUpdate k v r t \<Rightarrow> k = key \<and> t = ttl \<and> (\<exists>v0. R (Some v0) v \<and> seen_ok key {(r, v0)} b)
      | PendingDelete k r t \<Rightarrow> False)"

lemma request_ok_moves: "moves b b' \<Longrightarrow> request_ok key ttl R b wr \<Longrightarrow> request_ok key ttl R b' wr"
  by (auto simp: request_ok_def split: pending_write.splits intro: seen_ok_moves)

lemma request_cases:
  assumes good: "cas_good b" and ok: "request_ok key ttl R b wr"
    and b': "b' = write_lands (kv_elapsed b) wr b"
  obtains "write_landed (kv_elapsed b) wr b = []" "same_view b b'"
  | made v r where "write_landed (kv_elapsed b) wr b = [(made, v)]" "moves b b'" "kv_view b' = (kv_view b)(key \<mapsto> (v, r))"
      "kv_expires b' = (kv_expires b)(key := map_option (\<lambda>t. kv_elapsed b + t) ttl)"
      "if made then kv_view b key = None \<and> R None v else \<exists>v0 r0. kv_view b key = Some (v0, r0) \<and> R (Some v0) v"
proof (cases wr)
  case (PendingCreate k v t)
  obtain x where c: "kv_create (kv_elapsed b) k v t b = (x, b')" using b' PendingCreate by (metis prod.collapse write_lands.simps(1))
  have kok: "kv_ok b" using good by (simp add: cas_good_def)
  note law = kv.create_law [OF kok c]
  show ?thesis
  proof (cases "\<exists>r. x = Inr (Some r)")
    case True
    then obtain r where "x = Inr (Some r)" ..
    with law ok PendingCreate c that(2) [of True v r] write_moves [OF good, of b' r k v] show ?thesis
      by (simp add: request_ok_def)
  next
    case False
    then have "same_view b b'" using law by (auto simp: same_view_def split: sum.splits option.splits)
    moreover have "write_landed (kv_elapsed b) wr b = []" using False by (auto simp: PendingCreate c split: sum.split option.split)
    ultimately show ?thesis using that(1) by blast
  qed
next
  case (PendingUpdate k v r0 t)
  obtain x where c: "kv_update (kv_elapsed b) k v r0 t b = (x, b')" using b' PendingUpdate by (metis prod.collapse write_lands.simps(2))
  have kok: "kv_ok b" using good by (simp add: cas_good_def)
  note law = kv.update_law [OF kok c]
  show ?thesis
  proof (cases "\<exists>r. x = Inr (Some r)")
    case True
    then obtain r where "x = Inr (Some r)" ..
    with law ok PendingUpdate c that(2) [of False v r] write_moves [OF good, of b' r k v] show ?thesis
      by (auto simp: request_ok_def seen_ok_def)
  next
    case False
    then have "same_view b b'" using law by (auto simp: same_view_def split: sum.splits option.splits)
    moreover have "write_landed (kv_elapsed b) wr b = []" using False by (auto simp: PendingUpdate c split: sum.split option.split)
    ultimately show ?thesis using that(1) by blast
  qed
qed (use ok in \<open>simp add: request_ok_def\<close>)

lemma kv_write_clock:
  assumes "kv_ok b"
  shows "kv_elapsed (snd (kv_create now k v t b)) = kv_elapsed b" "kv_elapsed (snd (kv_update now k v r t b)) = kv_elapsed b"
  using kv.create_law [OF assms prod.collapse [symmetric]] kv.update_law [OF assms prod.collapse [symmetric]] by blast+

section \<open>Every call at most once\<close>

locale cas_clients =
  fixes script :: "nat \<Rightarrow> ('v, 'e, 's, 'a) cas_call"
    and ttl :: "int option"
    and computes :: "nat \<Rightarrow> 'v option \<Rightarrow> 'v \<Rightarrow> bool"
    and post :: "nat \<Rightarrow> 'v option \<Rightarrow> 'a \<Rightarrow> bool"
  assumes client: "cas_client (cc_key (script c)) ttl (computes c) (post c) {} (cc_prog (script c))"
begin

abbreviation key_of :: "nat \<Rightarrow> string" where
  "key_of c \<equiv> cc_key (script c)"

text \<open>A call in the history is finished with what it landed; any other is still a client, or over with its
  one request perhaps still on its way.\<close>

definition call_ok :: "(nat \<times> bool \<times> 'v) list \<Rightarrow> 'v kv_bucket \<Rightarrow> nat set \<Rightarrow> nat \<Rightarrow> ('v, 'e, 's, 'a) prog \<Rightarrow> bool" where
  "call_ok log b waiting c p \<longleftrightarrow>
     (case map_of log c of
        Some (made, v) \<Rightarrow> cas_done (post c) v p \<or> cas_over (post c) p
      | None \<Rightarrow> cas_over (post c) p
          \<or> c \<notin> waiting \<and> (\<exists>seen. seen_ok (key_of c) seen b \<and> cas_client (key_of c) ttl (computes c) (post c) seen p))"

definition history_ok :: "'v kv_bucket \<Rightarrow> (nat \<times> bool \<times> 'v) list \<Rightarrow> bool" where
  "history_ok b log \<longleftrightarrow> cas_chain key_of computes log \<and> distinct (map fst log)
     \<and> (\<forall>k v r. kv_view b k = Some (v, r) \<longrightarrow> newest key_of k log = Some v)
     \<and> (ttl = None \<longrightarrow> (\<forall>k. kv_expires b k = None)
          \<and> (\<forall>k. newest key_of k log \<noteq> None \<longrightarrow> kv_view b k \<noteq> None) \<and> made_once key_of log)"

definition cas_inv :: "('v, 'e, 's, 'a) cas_world \<Rightarrow> bool" where
  "cas_inv w \<longleftrightarrow> cas_good (cw_bucket w) \<and> history_ok (cw_bucket w) (cw_log w)
     \<and> (\<forall>c wr. (c, wr) \<in> set (cw_pending w) \<longrightarrow> map_of (cw_log w) c = None \<and> cw_calls w c \<noteq> None
          \<and> request_ok (key_of c) ttl (computes c) (cw_bucket w) wr)
     \<and> (\<forall>c p. cw_calls w c = Some p \<longrightarrow> call_ok (cw_log w) (cw_bucket w) (fst ` set (cw_pending w)) c p)
     \<and> (\<forall>c. cw_calls w c = None \<longrightarrow> map_of (cw_log w) c = None)"

lemma history_same: "history_ok b log \<Longrightarrow> same_view b b' \<Longrightarrow> history_ok b' log"
  by (simp add: history_ok_def same_view_def)

lemma history_advance:
  assumes "kv_ok b" "0 \<le> d" "history_ok b log"
  shows "history_ok (kv_advance_clock d b) log"
proof -
  note law = kv.advance_law [OF assms(1,2)]
  have "kv_view (kv_advance_clock d b) k = Some (v, r) \<Longrightarrow> kv_view b k = Some (v, r)" for k v r
    using law by (metis option.distinct(1))
  moreover have "kv_view (kv_advance_clock d b) k = kv_view b k" if "kv_expires b k = None" for k
    using law that by (metis option.distinct(1))
  moreover have "kv_expires (kv_advance_clock d b) k = None" if "kv_expires b k = None" for k
    using law that kv_expires_view [of "kv_advance_clock d b" k] by metis
  ultimately show ?thesis using assms(3) unfolding history_ok_def by metis
qed

lemma history_lands:
  assumes "history_ok b log" "map_of log c = None" "kv_view b' = (kv_view b)(key_of c \<mapsto> (v, r))"
    "kv_expires b' = (kv_expires b)(key_of c := map_option (\<lambda>t. kv_elapsed b + t) ttl)"
    "if made then kv_view b (key_of c) = None \<and> computes c None v
     else \<exists>v0 r0. kv_view b (key_of c) = Some (v0, r0) \<and> computes c (Some v0) v"
  shows "history_ok b' ((c, made, v) # log)"
  using assms unfolding history_ok_def by (auto simp: map_of_eq_None_iff split: if_splits)

lemma call_ok_moves:
  "moves b b' \<Longrightarrow> waiting' \<subseteq> waiting \<Longrightarrow> call_ok log b waiting c p \<Longrightarrow> call_ok log b' waiting' c p"
  unfolding call_ok_def by (cases "map_of log c") (auto intro: seen_ok_moves)

lemma call_ok_other: "c' \<noteq> c \<Longrightarrow> call_ok ((c', x) # log) b waiting c p = call_ok log b waiting c p"
  by (simp add: call_ok_def)

lemma call_ok_waiting: "c' \<noteq> c \<Longrightarrow> call_ok log b (insert c' waiting) c p = call_ok log b waiting c p"
  by (simp add: call_ok_def split: option.split)

text \<open>One call's program moves, its request leaves for the wire, or its request arrives.\<close>

lemma inv_call:
  assumes inv: "cas_inv w" and b: "moves (cw_bucket w) b" "history_ok b (cw_log w)"
    and p: "cw_calls w c = Some p" and q: "call_ok (cw_log w) b (fst ` set (cw_pending w)) c q"
  shows "cas_inv (w\<lparr>cw_bucket := b, cw_pods := ps, cw_calls := (cw_calls w)(c \<mapsto> q)\<rparr>)"
  using assms unfolding cas_inv_def
  by (auto simp: moves_def [of "cw_bucket w"] intro: request_ok_moves [OF b(1)] call_ok_moves [OF b(1) order_refl])

lemma inv_bucket:
  assumes inv: "cas_inv w" and b: "moves (cw_bucket w) b" "history_ok b (cw_log w)"
  shows "cas_inv (w\<lparr>cw_bucket := b\<rparr>)"
  using assms unfolding cas_inv_def
  by (auto simp: moves_def [of "cw_bucket w"] intro: request_ok_moves [OF b(1)] call_ok_moves [OF b(1) order_refl])

lemma inv_request:
  assumes inv: "cas_inv w" and p: "cw_calls w c = Some p" and log: "map_of (cw_log w) c = None"
    and wr: "request_ok (key_of c) ttl (computes c) (cw_bucket w) wr"
    and b: "b = write_lands (kv_elapsed (cw_bucket w)) wr (cw_bucket w)"
    and q: "\<And>made v. write_landed (kv_elapsed (cw_bucket w)) wr (cw_bucket w) = [(made, v)]
        \<Longrightarrow> cas_done (post c) v q \<or> cas_over (post c) q"
      "write_landed (kv_elapsed (cw_bucket w)) wr (cw_bucket w) = [] \<Longrightarrow> call_ok (cw_log w) b waiting c q"
    and waiting: "waiting = fst ` set pending" "set pending \<subseteq> set (cw_pending w)"
    and alone: "c \<notin> waiting"
  shows "cas_inv (w\<lparr>cw_bucket := b, cw_pods := ps, cw_calls := (cw_calls w)(c \<mapsto> q), cw_pending := pending,
    cw_log := landed_now c [wr] (cw_bucket w) @ cw_log w\<rparr>)"
proof -
  let ?b = "cw_bucket w" and ?log = "cw_log w"
  have good: "cas_good ?b" and hist: "history_ok ?b ?log" using inv by (simp_all add: cas_inv_def)
  have sub: "waiting \<subseteq> fst ` set (cw_pending w)" using waiting by blast
  from request_cases [OF good wr b] show ?thesis
  proof cases
    case 1
    have mv: "moves ?b b" by (rule same_view_moves [OF good 1(2)])
    have "call_ok ?log b waiting c' p'" if "((cw_calls w)(c \<mapsto> q)) c' = Some p'" for c' p'
      using that inv q(2) [OF 1(1)] call_ok_moves [OF mv sub] by (auto simp: cas_inv_def split: if_splits)
    moreover have "map_of ?log c' = None \<and> ((cw_calls w)(c \<mapsto> q)) c' \<noteq> None
        \<and> request_ok (key_of c') ttl (computes c') b wr'" if "(c', wr') \<in> set pending" for c' wr'
      using that waiting(2) inv request_ok_moves [OF mv] by (auto simp: cas_inv_def)
    ultimately show ?thesis
      using inv p history_same [OF hist 1(2)] 1(1) mv waiting
      by (auto simp: cas_inv_def landed_now_def moves_def [of ?b])
  next
    case (2 made v r)
    let ?log' = "(c, made, v) # ?log"
    have "call_ok ?log' b waiting c' p'" if "((cw_calls w)(c \<mapsto> q)) c' = Some p'" for c' p'
    proof (cases "c' = c")
      case True
      then show ?thesis using that q(1) [OF 2(1)] by (auto simp: call_ok_def)
    next
      case False
      then show ?thesis using that inv call_ok_moves [OF 2(2) sub, of ?log c' p'] by (auto simp: cas_inv_def call_ok_other)
    qed
    moreover have "map_of ?log' c' = None \<and> ((cw_calls w)(c \<mapsto> q)) c' \<noteq> None
        \<and> request_ok (key_of c') ttl (computes c') b wr'" if "(c', wr') \<in> set pending" for c' wr'
    proof -
      have "c' \<noteq> c" using that alone waiting(1) by force
      then show ?thesis using that waiting(2) inv request_ok_moves [OF 2(2)] by (auto simp: cas_inv_def)
    qed
    ultimately show ?thesis
      using inv p history_lands [OF hist log 2(3-5)] 2(1,2) waiting
      by (auto simp: cas_inv_def landed_now_def moves_def [of ?b])
  qed
qed

lemma inv_leaves:
  assumes inv: "cas_inv w" and p: "cw_calls w c = Some p" and log: "map_of (cw_log w) c = None"
    and wr: "request_ok (key_of c) ttl (computes c) (cw_bucket w) wr" and q: "cas_over (post c) q"
  shows "cas_inv (w\<lparr>cw_calls := (cw_calls w)(c \<mapsto> q), cw_pending := (c, wr) # cw_pending w\<rparr>)"
proof -
  have "call_ok (cw_log w) (cw_bucket w) (insert c (fst ` set (cw_pending w))) c' p'"
    if "((cw_calls w)(c \<mapsto> q)) c' = Some p'" for c' p'
  proof (cases "c' = c")
    case True
    then show ?thesis using that q log by (simp add: call_ok_def)
  next
    case False
    then show ?thesis using that inv call_ok_waiting [of c c'] by (simp add: cas_inv_def)
  qed
  then show ?thesis using inv p log wr unfolding cas_inv_def by auto
qed

text \<open>The two ways a client moves: without a request, or by one.\<close>

definition quiet_move where
  "quiet_move c log q b b' \<longleftrightarrow> moves b b' \<and> history_ok b' log
     \<and> (\<exists>seen. seen_ok (key_of c) seen b' \<and> cas_client (key_of c) ttl (computes c) (post c) seen q)"

definition request_move where
  "request_move c seen wr q b b' \<longleftrightarrow>
     request_ok (key_of c) ttl (computes c) b wr \<and> b' = write_lands (kv_elapsed b) wr b
     \<and> (case write_landed (kv_elapsed b) wr b of
          [] \<Rightarrow> cas_client (key_of c) ttl (computes c) (post c) seen q \<or> cas_over (post c) q
        | (made, v) # _ \<Rightarrow> cas_done (post c) v q)"

lemma quiet_same:
  assumes "cas_good b" "history_ok b log" "same_view b b'" "seen_ok (key_of c) seen b"
    "cas_client (key_of c) ttl (computes c) (post c) seen q"
  shows "quiet_move c log q b b'"
  using assms same_view_moves [OF assms(1,3)] history_same [OF assms(2,3)] seen_ok_moves unfolding quiet_move_def by blast

lemma same_view_refl: "kv_ok b \<Longrightarrow> same_view b b"
  by (simp add: same_view_def)

lemma client_moves:
  assumes cl: "cas_client (key_of c) ttl (computes c) (post c) seen p" and seen: "seen_ok (key_of c) seen b"
    and good: "cas_good b" and hist: "history_ok b log" and st: "prog_step sk p s b = Some (q, s', b')"
  shows "(unanswered_write p = [] \<and> quiet_move c log q b b')
    \<or> (\<exists>wr. unanswered_write p = [wr] \<and> request_move c seen wr q b b')"
proof -
  have ok: "kv_ok b" using good by (simp add: cas_good_def)
  note same = quiet_same [OF good hist _ seen]
  show ?thesis
  proof (cases p)
    case (Now f)
    then have "b' = kv_advance_clock 1 b" "cas_client (key_of c) ttl (computes c) (post c) seen q"
      using st cl by (auto simp: prog_step_def elim: client_stepE)
    then show ?thesis
      using Now advance_moves [OF good, of 1] history_advance [OF ok _ hist, of 1]
        seen_ok_moves [OF advance_moves [OF good, of 1] seen]
      by (auto simp: quiet_move_def)
  next
    case (GetEntry k f)
    obtain x where x: "kv_get_entry (kv_elapsed b) k b = (x, b')" "q = f x"
      using st GetEntry by (auto simp: prog_step_def split: prod.splits)
    from cl GetEntry have k: "k = key_of c" and f: "\<And>e. cas_client (key_of c) ttl (computes c) (post c) seen (f (Inl e))"
      "cas_client (key_of c) ttl (computes c) (post c) seen (f (Inr None))"
      "\<And>v r. cas_client (key_of c) ttl (computes c) (post c) (insert (r, v) seen) (f (Inr (Some (v, r))))"
      by (auto elim: client_stepE)
    note law = kv.get_law [OF ok x(1)]
    then have sv: "same_view b b'" by (simp add: same_view_def)
    show ?thesis
    proof (cases "\<exists>v r. x = Inr (Some (v, r))")
      case True
      then obtain v r where v: "x = Inr (Some (v, r))" by blast
      then have "seen_ok (key_of c) (insert (r, v) seen) b"
        using law k seen seen_ok_entry [OF ok] by (metis seen_ok_insert)
      then show ?thesis using GetEntry quiet_same [OF good hist sv _ f(3)] x(2) v by simp
    next
      case False
      then have "cas_client (key_of c) ttl (computes c) (post c) seen q"
        using f(1,2) x(2) by (cases x) (auto split: option.splits, metis not_None_eq prod.collapse)
      then show ?thesis using GetEntry same [OF sv] by simp
    qed
  next
    case (Create k v t f)
    obtain x where x: "kv_create (kv_elapsed b) k v t b = (x, b')" "q = f x"
      using st Create by (auto simp: prog_step_def split: prod.splits)
    from cl Create x show ?thesis
      by (auto elim!: client_stepE simp: request_move_def request_ok_def split: sum.splits option.splits)
  next
    case (Update k v r t f)
    obtain x where x: "kv_update (kv_elapsed b) k v r t b = (x, b')" "q = f x"
      using st Update by (auto simp: prog_step_def split: prod.splits)
    from cl Update have u: "k = key_of c" "t = ttl" "cas_client (key_of c) ttl (computes c) (post c) seen (f (Inr None))"
      "\<And>r. cas_done (post c) v (f (Inr (Some r)))" "\<And>e. cas_over (post c) (f (Inl e))"
      and "\<exists>v0. (r, v0) \<in> seen \<and> computes c (Some v0) v"
      by (auto elim!: client_stepE)
    then have "request_ok (key_of c) ttl (computes c) b (PendingUpdate k v r t)"
      using seen by (fastforce simp: request_ok_def seen_ok_def)
    with u Update x show ?thesis by (auto simp: request_move_def split: sum.splits option.splits)
  next
    case (GetValue k f)
    then obtain x where x: "kv_get (kv_elapsed b) k b = (x, b')" "q = f x"
      using st by (auto simp: prog_step_def split: prod.splits)
    moreover have "cas_client (key_of c) ttl (computes c) (post c) seen (f x)"
      using cl GetValue by (auto elim: client_stepE)
    ultimately show ?thesis using same [OF kv_get_same [OF ok x(1)]] GetValue by simp
  next
    case (DateCreated f)
    then obtain x where x: "kv_date_created (kv_elapsed b) b = (x, b')" "q = f x"
      using st by (auto simp: prog_step_def split: prod.splits)
    moreover have "cas_client (key_of c) ttl (computes c) (post c) seen (f x)"
      using cl DateCreated by (auto elim: client_stepE)
    ultimately show ?thesis using same [OF kv_date_created_same [OF ok x(1)]] DateCreated by simp
  qed (use st cl same [OF same_view_refl [OF ok]] in \<open>auto simp: prog_step_def elim: client_stepE\<close>)
qed

lemma over_no_step: "cas_over post' p \<or> cas_done post' v p \<Longrightarrow> prog_step sk p s b = None
    \<and> give_up_waiting p = p \<and> unanswered_write p = []"
  by (auto simp: cas_over_def cas_done_def prog_step_def)

lemma call_running:
  assumes "cas_inv w" "cw_calls w c = Some p"
    and "prog_step sk p s b \<noteq> None \<or> give_up_waiting p \<noteq> p \<or> unanswered_write p \<noteq> []"
  obtains seen where "map_of (cw_log w) c = None" "c \<notin> fst ` set (cw_pending w)" "seen_ok (key_of c) seen (cw_bucket w)"
    "cas_client (key_of c) ttl (computes c) (post c) seen p"
proof -
  have "call_ok (cw_log w) (cw_bucket w) (fst ` set (cw_pending w)) c p" using assms(1,2) by (simp add: cas_inv_def)
  moreover have "\<not> cas_over (post c) p" "\<not> cas_done (post c) v p" for v
    using over_no_step [of "post c" p v sk s b] assms(3) by blast+
  ultimately show ?thesis using that unfolding call_ok_def by (auto split: option.splits)
qed

lemma client_gives_up:
  assumes "cas_client k ttl R pt seen p" "seen_ok k seen b"
  shows "unanswered_write p = [] \<and> cas_client k ttl R pt seen (give_up_waiting p)
    \<or> (\<exists>wr. unanswered_write p = [wr] \<and> request_ok k ttl R b wr \<and> cas_over pt (give_up_waiting p))"
  using assms by cases (fastforce simp: request_ok_def seen_ok_def intro: cas_client.intros)+

lemma inv_call_step:
  assumes inv: "cas_inv w" and p: "cw_calls w c = Some p"
    and st: "prog_step sk p s (cw_bucket w) = Some (q, s', b)"
  shows "cas_inv (w\<lparr>cw_bucket := b, cw_pods := ps, cw_calls := (cw_calls w)(c \<mapsto> q),
    cw_log := landed_now c (unanswered_write p) (cw_bucket w) @ cw_log w\<rparr>)"
proof -
  have good: "cas_good (cw_bucket w)" and hist: "history_ok (cw_bucket w) (cw_log w)"
    using inv by (simp_all add: cas_inv_def)
  obtain seen where log: "map_of (cw_log w) c = None" and alone: "c \<notin> fst ` set (cw_pending w)"
    and seen: "seen_ok (key_of c) seen (cw_bucket w)" and cl: "cas_client (key_of c) ttl (computes c) (post c) seen p"
    using call_running [OF inv p] st by (metis option.distinct(1))
  from client_moves [OF cl seen good hist st] show ?thesis
  proof (elim disjE exE conjE)
    assume none: "unanswered_write p = []" and m: "quiet_move c (cw_log w) q (cw_bucket w) b"
    then have "call_ok (cw_log w) b (fst ` set (cw_pending w)) c q" by (simp add: call_ok_def log alone quiet_move_def)
    with inv_call [OF inv _ _ p] m none show ?thesis by (simp add: quiet_move_def landed_now_def)
  next
    fix wr
    assume wr: "unanswered_write p = [wr]" and m: "request_move c seen wr q (cw_bucket w) b"
    let ?l = "write_landed (kv_elapsed (cw_bucket w)) wr (cw_bucket w)"
    have b: "b = write_lands (kv_elapsed (cw_bucket w)) wr (cw_bucket w)"
      and ok: "request_ok (key_of c) ttl (computes c) (cw_bucket w) wr" using m by (simp_all add: request_move_def)
    have "cas_done (post c) v q \<or> cas_over (post c) q" if "?l = [(made, v)]" for made v
      using m that by (simp add: request_move_def)
    moreover have "call_ok (cw_log w) b (fst ` set (cw_pending w)) c q" if none: "?l = []"
    proof -
      from request_cases [OF good ok b] none have "same_view (cw_bucket w) b" by cases auto
      then have "seen_ok (key_of c) seen b" by (rule seen_ok_moves [OF same_view_moves [OF good] seen])
      then show ?thesis using m none log alone by (auto simp: request_move_def call_ok_def)
    qed
    ultimately show ?thesis using inv_request [OF inv p log ok b, of q _ "cw_pending w" ps] alone wr by simp
  qed
qed

lemma inv_step: "cas_step skew script w w' \<Longrightarrow> cas_inv w \<Longrightarrow> cas_inv w'"
proof (induction rule: cas_step.induct)
  case (time_passes d w)
  then have "cas_good (cw_bucket w)" "kv_ok (cw_bucket w)" "history_ok (cw_bucket w) (cw_log w)"
    by (simp_all add: cas_inv_def cas_good_def)
  then show ?case using inv_bucket [OF time_passes(2)] advance_moves history_advance time_passes(1) by blast
next
  case (connection b w)
  then have good: "cas_good (cw_bucket w)" and hist: "history_ok (cw_bucket w) (cw_log w)" by (simp_all add: cas_inv_def)
  then have "same_view (cw_bucket w) b" using connection_same [OF _ connection(1)] by (simp add: cas_good_def)
  then show ?case using inv_bucket [OF connection(2)] same_view_moves [OF good] history_same [OF hist] by blast
next
  case (call_starts w c)
  have "map_of (cw_log w) c = None" "c \<notin> fst ` set (cw_pending w)"
    using call_starts unfolding cas_inv_def by force+
  then have "call_ok (cw_log w) (cw_bucket w) (fst ` set (cw_pending w)) c (cc_prog (script c))"
    using client [of c] by (auto simp: call_ok_def seen_ok_def)
  then show ?case using call_starts by (auto simp: cas_inv_def)
next
  case (call_step w c p q s b)
  then show ?case using inv_call_step by blast
next
  case (call_unanswered w c p)
  show ?case
  proof (cases "give_up_waiting p \<noteq> p \<or> unanswered_write p \<noteq> []")
    case True
    then obtain seen where log: "map_of (cw_log w) c = None" and alone: "c \<notin> fst ` set (cw_pending w)"
      and seen: "seen_ok (key_of c) seen (cw_bucket w)" and cl: "cas_client (key_of c) ttl (computes c) (post c) seen p"
      using call_running [OF call_unanswered(2,1)] by metis
    from client_gives_up [OF cl seen] show ?thesis
    proof (elim disjE exE conjE)
      assume none: "unanswered_write p = []" and q: "cas_client (key_of c) ttl (computes c) (post c) seen (give_up_waiting p)"
      have "moves (cw_bucket w) (cw_bucket w)" using call_unanswered(2) by (simp add: moves_def cas_inv_def)
      moreover have "call_ok (cw_log w) (cw_bucket w) (fst ` set (cw_pending w)) c (give_up_waiting p)"
        using q seen log alone by (auto simp: call_ok_def)
      ultimately show ?thesis
        using inv_call [OF call_unanswered(2) _ _ call_unanswered(1), of "cw_bucket w" _ "cw_pods w"] call_unanswered(2) none
        by (simp add: cas_inv_def)
    next
      fix wr
      assume "unanswered_write p = [wr]" "request_ok (key_of c) ttl (computes c) (cw_bucket w) wr" "cas_over (post c) (give_up_waiting p)"
      then show ?thesis using inv_leaves [OF call_unanswered(2,1) log] by simp
    qed
  next
    case False
    then show ?thesis using call_unanswered by (auto simp: cas_inv_def)
  qed
next
  case (write_arrives c wr w)
  let ?pending = "filter (\<lambda>q. fst q \<noteq> c) (cw_pending w)"
  obtain p where p: "cw_calls w c = Some p" and log: "map_of (cw_log w) c = None"
    and ok: "request_ok (key_of c) ttl (computes c) (cw_bucket w) wr"
    using write_arrives unfolding cas_inv_def by blast
  have "call_ok (cw_log w) (cw_bucket w) (fst ` set (cw_pending w)) c p" using write_arrives(2) p by (simp add: cas_inv_def)
  moreover have "c \<in> fst ` set (cw_pending w)" using write_arrives(1) by force
  ultimately have over: "cas_over (post c) p" using log by (simp add: call_ok_def)
  then have "call_ok (cw_log w) b waiting c p" for b waiting using log by (simp add: call_ok_def)
  with inv_request [OF write_arrives(2) p log ok refl, of p "fst ` set ?pending" ?pending "cw_pods w"] over p
  show ?case by (auto simp: fun_upd_idem)
qed

lemma cas_reachable_inv: "cas_reachable skew script w \<Longrightarrow> cas_inv w"
proof (induction rule: cas_reachable.induct)
  case (start now may_create pods)
  show ?case by (simp add: cas_inv_def cas_start_def new_bucket_good history_ok_def kv_expires_view)
next
  case (step w w')
  then show ?case using inv_step by blast
qed

text \<open>What a client relies on.\<close>

lemma landed_chain: "cas_reachable skew script w \<Longrightarrow> cas_chain key_of computes (cw_log w)"
  and landed_once: "cas_reachable skew script w \<Longrightarrow> distinct (map fst (cw_log w))"
  and visible_newest: "cas_reachable skew script w \<Longrightarrow> kv_view (cw_bucket w) k = Some (v, r) \<Longrightarrow> newest key_of k (cw_log w) = Some v"
  and kept_visible: "cas_reachable skew script w \<Longrightarrow> ttl = None \<Longrightarrow> newest key_of k (cw_log w) \<noteq> None \<Longrightarrow> kv_view (cw_bucket w) k \<noteq> None"
  and kept_made_once: "cas_reachable skew script w \<Longrightarrow> ttl = None \<Longrightarrow> made_once key_of (cw_log w)"
  using cas_reachable_inv [of skew w] unfolding cas_inv_def history_ok_def by (blast, blast, blast, blast, blast)

lemma returned_post:
  assumes "cas_reachable skew script w" "cw_calls w c = Some (Return a)"
  shows "post c (map_option snd (map_of (cw_log w) c)) a"
proof -
  have "call_ok (cw_log w) (cw_bucket w) (fst ` set (cw_pending w)) c (Return a)"
    using assms cas_reachable_inv by (simp add: cas_inv_def)
  then show ?thesis by (auto simp: call_ok_def cas_over_def cas_done_def elim: client_stepE split: option.splits)
qed

lemma raised_unlanded:
  assumes "cas_reachable skew script w" "cw_calls w c = None"
  shows "map_of (cw_log w) c = None"
  using assms cas_reachable_inv by (simp add: cas_inv_def)

lemma step_clock:
  assumes "cas_inv w" "cw_calls w c = Some p" "prog_step sk p s (cw_bucket w) = Some (q, s', b)"
  shows "kv_elapsed (cw_bucket w) \<le> kv_elapsed b"
proof -
  have ok: "kv_ok (cw_bucket w)" using assms(1) by (simp add: cas_inv_def cas_good_def)
  obtain seen where "cas_client (key_of c) ttl (computes c) (post c) seen p"
    using call_running [OF assms(1,2)] assms(3) by (metis option.distinct(1))
  then show ?thesis
  proof cases
    case (c_entry f)
    then show ?thesis using assms(3) kv.get_law [OF ok] by (fastforce simp: prog_step_def split: prod.splits)
  next
    case (c_create v f)
    then show ?thesis using assms(3) kv.create_law [OF ok] by (fastforce simp: prog_step_def split: prod.splits)
  next
    case (c_update r0 v0 v f)
    then show ?thesis using assms(3) kv.update_law [OF ok] by (fastforce simp: prog_step_def split: prod.splits)
  next
    case (c_value f k)
    then show ?thesis using assms(3) ok kv_live_spec(9) [of k "cw_bucket w"]
      by (auto simp: prog_step_def kv_get_def kv_run_ok split: prod.splits if_splits)
  next
    case (c_opened f)
    then show ?thesis using assms(3) ok by (auto simp: prog_step_def kv_date_created_def kv_run_ok split: prod.splits if_splits)
  qed (use assms(3) in \<open>auto simp: prog_step_def kv_advance_clock_def\<close>)
qed

lemma never_raised:
  assumes "cas_reachable skew script w" and "\<And>c t. never_raises e t (cc_prog (script c))" and "cw_calls w c = Some p"
  shows "never_raises e (kv_elapsed (cw_bucket w) + skew (cc_pod (script c))) p"
  using assms(1,3)
proof (induction arbitrary: c p rule: cas_reachable.induct)
  case (step w w')
  from step(1) have inv: "cas_inv w" by (rule cas_reachable_inv)
  from step(2,4) show ?case
  proof cases
    case (time_passes d)
    then show ?thesis using step.prems never_raises_mono [OF step.IH [of c p]] by (simp add: kv_advance_clock_def)
  next
    case (call_step c' p' q s b)
    have "kv_elapsed (cw_bucket w) \<le> kv_elapsed b" by (rule step_clock [OF inv call_step(2,3)])
    then show ?thesis using call_step step.prems step.IH [of c'] never_raises_step [OF _ call_step(3)] step.IH [of c]
      by (auto split: if_splits intro: never_raises_mono)
  next
    case (call_unanswered c' p')
    then show ?thesis using step.prems step.IH by (auto split: if_splits intro: never_raises_give_up)
  next
    case (write_arrives c' wr)
    have "kv_elapsed (write_lands (kv_elapsed (cw_bucket w)) wr (cw_bucket w)) = kv_elapsed (cw_bucket w)"
    proof -
      have "kv_ok (cw_bucket w)" "request_ok (key_of c') ttl (computes c') (cw_bucket w) wr"
        using inv write_arrives unfolding cas_inv_def cas_good_def by blast+
      then show ?thesis by (cases wr) (simp_all add: request_ok_def kv_write_clock)
    qed
    then show ?thesis using write_arrives step.prems step.IH by simp
  qed (use step.prems step.IH assms(2) in \<open>auto simp: kv_advance_clock_def kv_become_unreachable_def kv_become_reachable_def
      split: if_splits intro: never_raises_mono\<close>)
qed (simp add: cas_start_def)

end

end
