(* ===== verification/DistributedCounter.thy ===== *)
theory DistributedCounter
  imports KvCas ReplayGuard
begin

text \<open>
  \<open>core/coordination/distributed_counter.py\<close>: a counter many pods add to, kept under one key of a shared
  bucket.  \<open>increment\<close>, \<open>decrement\<close> and \<open>get\<close> are coroutines over the bucket; the JSON text of a stored
  value is kept as what reading it gives.  The lemmas show that the value is the sum of the deltas that
  landed, each call's at most once, and that a call that returned landed with the value it returned.
  Drawing the back-off is a parameter.  The bucket's own time to live, a second or more, is an expiry on each entry.
\<close>

section \<open>Values\<close>

datatype counter_error =
    CounterValueError
  | CounterAttributeError
  | CounterKeyError
  | CounterTypeError
  | DistributedCounterConflict
  | CounterKvError kv_error

text \<open>What the stored bytes hold: a \<open>value\<close> that \<open>int()\<close> reads, a \<open>value\<close> that is text \<open>int()\<close> refuses, one
  that is null or a container, an object without \<open>value\<close>, something that is no object, or no JSON.\<close>

datatype counter_bytes =
    CounterReads int
  | CounterBadText
  | CounterNoNumber
  | CounterNoValue
  | CounterNoObject
  | CounterNoJson

definition encode_value :: "int \<Rightarrow> counter_bytes" where
  "encode_value v = CounterReads v"

fun decode_value :: "counter_bytes \<Rightarrow> counter_error + int" where
  "decode_value (CounterReads v) = Inr v"
| "decode_value CounterBadText = Inl CounterValueError"
| "decode_value CounterNoNumber = Inl CounterTypeError"
| "decode_value CounterNoValue = Inl CounterKeyError"
| "decode_value CounterNoObject = Inl CounterAttributeError"
| "decode_value CounterNoJson = Inl CounterValueError"

section \<open>The counter\<close>

record DistributedCounter =
  dc_key_scope :: "string option"
  dc_ttl :: "int option"
  dc_create_if_missing :: bool

definition new_DistributedCounter ::
  "int option \<Rightarrow> bool \<Rightarrow> string option \<Rightarrow> counter_error + DistributedCounter" where
  "new_DistributedCounter ttl create_if_missing key_scope =
     (case validated_key_scope key_scope of
        Inl e \<Rightarrow> Inl CounterValueError
      | Inr scope \<Rightarrow> Inr \<lparr>dc_key_scope = scope, dc_ttl = ttl, dc_create_if_missing = create_if_missing\<rparr>)"

text \<open>\<open>_bucket\<close>, bound by the first operation.\<close>

type_synonym 'a counter_prog = "(counter_bytes, counter_error, bool, 'a) prog"

definition CAS_MAX_RETRIES :: nat where
  "CAS_MAX_RETRIES = 30"

definition bucket_opened :: "'a counter_prog \<Rightarrow> kv_error + int \<Rightarrow> 'a counter_prog" where
  "bucket_opened k reply =
     (case reply of Inl e \<Rightarrow> Raise (CounterKvError e) | Inr _ \<Rightarrow> Modify (\<lambda>_. True) k)"

definition counter_ensure_bucket :: "'a counter_prog \<Rightarrow> bool \<Rightarrow> 'a counter_prog" where
  "counter_ensure_bucket k bound = (if bound then k else DateCreated (bucket_opened k))"

text \<open>One pass of \<open>_apply_delta\<close>: what follows the read, and what follows the write.\<close>

definition landed_or_retry :: "int \<Rightarrow> int counter_prog \<Rightarrow> kv_error + nat option \<Rightarrow> int counter_prog" where
  "landed_or_retry new_value retry reply =
     (case reply of
        Inl e \<Rightarrow> Raise (CounterKvError e)
      | Inr revision \<Rightarrow> if revision \<noteq> None then Return new_value else retry)"

definition write_delta ::
  "DistributedCounter \<Rightarrow> string \<Rightarrow> int \<Rightarrow> int counter_prog \<Rightarrow> kv_error + (counter_bytes \<times> nat) option \<Rightarrow> int counter_prog" where
  "write_delta counter key delta retry reply =
     (case reply of
        Inl e \<Rightarrow> Raise (CounterKvError e)
      | Inr None \<Rightarrow> Create key (encode_value delta) (dc_ttl counter) (landed_or_retry delta retry)
      | Inr (Some (current_value, revision)) \<Rightarrow>
          (case decode_value current_value of
             Inl e \<Rightarrow> Raise e
           | Inr value \<Rightarrow>
               Update key (encode_value (value + delta)) revision (dc_ttl counter)
                 (landed_or_retry (value + delta) retry)))"

primrec delta_attempts :: "DistributedCounter \<Rightarrow> (nat \<Rightarrow> int) \<Rightarrow> string \<Rightarrow> int \<Rightarrow> nat \<Rightarrow> int counter_prog" where
  "delta_attempts counter backoff key delta 0 = Raise DistributedCounterConflict"
| "delta_attempts counter backoff key delta (Suc n) =
     GetEntry key (write_delta counter key delta
       (if n > 0 then Sleep (backoff n) (delta_attempts counter backoff key delta n)
        else delta_attempts counter backoff key delta n))"

definition apply_delta :: "DistributedCounter \<Rightarrow> (nat \<Rightarrow> int) \<Rightarrow> string \<Rightarrow> int \<Rightarrow> int counter_prog" where
  "apply_delta counter backoff key delta =
     Ask (counter_ensure_bucket
       (delta_attempts counter backoff (owner_scoped_key (dc_key_scope counter) key) delta CAS_MAX_RETRIES))"

definition counter_increment :: "DistributedCounter \<Rightarrow> (nat \<Rightarrow> int) \<Rightarrow> string \<Rightarrow> int \<Rightarrow> int counter_prog" where
  "counter_increment counter backoff key delta = apply_delta counter backoff key delta"

definition counter_decrement :: "DistributedCounter \<Rightarrow> (nat \<Rightarrow> int) \<Rightarrow> string \<Rightarrow> int \<Rightarrow> int counter_prog" where
  "counter_decrement counter backoff key delta = apply_delta counter backoff key (- delta)"

definition read_count :: "kv_error + counter_bytes option \<Rightarrow> int counter_prog" where
  "read_count reply =
     (case reply of
        Inl e \<Rightarrow> Raise (CounterKvError e)
      | Inr None \<Rightarrow> Return 0
      | Inr (Some value) \<Rightarrow> (case decode_value value of Inl e \<Rightarrow> Raise e | Inr n \<Rightarrow> Return n))"

definition counter_get :: "DistributedCounter \<Rightarrow> string \<Rightarrow> int counter_prog" where
  "counter_get counter key =
     Ask (counter_ensure_bucket (GetValue (owner_scoped_key (dc_key_scope counter) key) read_count))"

section \<open>A fleet of calls\<close>

datatype counter_op = Increment int | Decrement int | Get

record counter_call =
  ct_pod :: nat
  ct_key :: string
  ct_op :: counter_op
  ct_backoff :: "nat \<Rightarrow> int"

fun signed_delta :: "counter_op \<Rightarrow> int option" where
  "signed_delta (Increment d) = Some d"
| "signed_delta (Decrement d) = Some (- d)"
| "signed_delta Get = None"

fun counter_prog_of :: "DistributedCounter \<Rightarrow> (nat \<Rightarrow> int) \<Rightarrow> string \<Rightarrow> counter_op \<Rightarrow> int counter_prog" where
  "counter_prog_of counter backoff key (Increment d) = counter_increment counter backoff key d"
| "counter_prog_of counter backoff key (Decrement d) = counter_decrement counter backoff key d"
| "counter_prog_of counter backoff key Get = counter_get counter key"

definition counter_script ::
  "DistributedCounter \<Rightarrow> (nat \<Rightarrow> counter_call) \<Rightarrow> nat \<Rightarrow> (counter_bytes, counter_error, bool, int) cas_call" where
  "counter_script counter calls c =
     \<lparr>cc_pod = ct_pod (calls c), cc_key = owner_scoped_key (dc_key_scope counter) (ct_key (calls c)),
      cc_prog = counter_prog_of counter (ct_backoff (calls c)) (ct_key (calls c)) (ct_op (calls c))\<rparr>"

definition call_key :: "DistributedCounter \<Rightarrow> (nat \<Rightarrow> counter_call) \<Rightarrow> nat \<Rightarrow> string" where
  "call_key counter calls c = owner_scoped_key (dc_key_scope counter) (ct_key (calls c))"

text \<open>What the history of landed writes counts under a stored key: since the key was last made, and in
  all.\<close>

definition call_delta :: "(nat \<Rightarrow> counter_call) \<Rightarrow> nat \<Rightarrow> int" where
  "call_delta calls c = (case signed_delta (ct_op (calls c)) of None \<Rightarrow> 0 | Some d \<Rightarrow> d)"

fun counted :: "(nat \<Rightarrow> string) \<Rightarrow> (nat \<Rightarrow> int) \<Rightarrow> string \<Rightarrow> (nat \<times> bool \<times> counter_bytes) list \<Rightarrow> int" where
  "counted key delta k [] = 0"
| "counted key delta k ((c, made, v) # log) =
     (if key c \<noteq> k then counted key delta k log
      else if made then delta c else counted key delta k log + delta c)"

definition counted_all :: "(nat \<Rightarrow> string) \<Rightarrow> (nat \<Rightarrow> int) \<Rightarrow> string \<Rightarrow> (nat \<times> bool \<times> counter_bytes) list \<Rightarrow> int" where
  "counted_all key delta k log = (\<Sum>(c, _) \<leftarrow> filter (\<lambda>(c, _). key c = k) log. delta c)"

definition counter_computes ::
  "(nat \<Rightarrow> counter_call) \<Rightarrow> nat \<Rightarrow> counter_bytes option \<Rightarrow> counter_bytes \<Rightarrow> bool" where
  "counter_computes calls c before v \<longleftrightarrow> signed_delta (ct_op (calls c)) \<noteq> None \<and>
     (case before of
        None \<Rightarrow> v = encode_value (call_delta calls c)
      | Some b \<Rightarrow> (\<exists>n. decode_value b = Inr n \<and> v = encode_value (n + call_delta calls c)))"

definition counter_post :: "(nat \<Rightarrow> counter_call) \<Rightarrow> nat \<Rightarrow> counter_bytes option \<Rightarrow> int \<Rightarrow> bool" where
  "counter_post calls c landed a \<longleftrightarrow> signed_delta (ct_op (calls c)) = None \<or> landed = Some (encode_value a)"

lemma attempts_client:
  assumes "signed_delta (ct_op (calls c)) = Some delta"
  shows "cas_client key (dc_ttl counter) (counter_computes calls c) (counter_post calls c) seen
    (delta_attempts counter backoff key delta n)"
proof (induction n arbitrary: seen)
  case 0
  show ?case by (simp add: c_raise)
next
  case (Suc n)
  let ?client = "cas_client key (dc_ttl counter) (counter_computes calls c) (counter_post calls c)"
  let ?retry = "if n > 0 then Sleep (backoff n) (delta_attempts counter backoff key delta n)
    else delta_attempts counter backoff key delta n"
  have retry: "?client seen ?retry" for seen using Suc by (auto intro: c_sleep)
  have delta: "call_delta calls c = delta" using assms by (simp add: call_delta_def)
  have made: "?client seen (write_delta counter key delta ?retry (Inr None))" for seen
    using retry assms by (auto simp: write_delta_def landed_or_retry_def counter_computes_def delta cas_done_def
      counter_post_def cas_over_def intro!: c_create)
  have updated: "?client (insert (r, v) seen) (write_delta counter key delta ?retry (Inr (Some (v, r))))" for v r seen
  proof (cases "decode_value v")
    case (Inr x)
    then show ?thesis using retry assms
      by (auto simp: write_delta_def landed_or_retry_def counter_computes_def delta cas_done_def
        counter_post_def cas_over_def intro!: c_update [of r v])
  qed (simp add: write_delta_def c_raise)
  show ?case unfolding delta_attempts.simps
    by (intro c_entry made updated) (simp add: write_delta_def c_raise)
qed

lemma ensure_client:
  assumes "cas_client key ttl R pt seen k"
  shows "cas_client key ttl R pt seen (Ask (counter_ensure_bucket k))"
  using assms by (auto simp: counter_ensure_bucket_def bucket_opened_def intro!: cas_client.intros split: sum.split)

interpretation counter: cas_clients "counter_script counter calls" "dc_ttl counter" "counter_computes calls"
  "counter_post calls"
proof
  fix c
  let ?client = "cas_client (cc_key (counter_script counter calls c)) (dc_ttl counter) (counter_computes calls c) (counter_post calls c)"
  show "?client {} (cc_prog (counter_script counter calls c))"
  proof (cases "ct_op (calls c)")
    case Get
    then have "?client {} (read_count x)" for x
      by (auto simp: read_count_def counter_post_def intro!: cas_client.intros split: sum.split option.split)
    then show ?thesis using Get by (auto simp: counter_script_def counter_get_def intro!: ensure_client c_value)
  qed (auto simp: counter_script_def counter_increment_def counter_decrement_def apply_delta_def
      intro!: ensure_client attempts_client)
qed

section \<open>Nothing is counted twice\<close>

lemma chain_counted:
  assumes "cas_chain key (counter_computes calls) log" and "newest key k log = Some v"
  shows "v = CounterReads (counted key (call_delta calls) k log)"
  using assms
proof (induction log arbitrary: k v)
  case (Cons x log)
  obtain c made v' where x: "x = (c, made, v')" by (metis prod_cases3)
  show ?case
  proof (cases "key c = k \<and> \<not> made")
    case True
    then obtain u where "newest key k log = Some u" "counter_computes calls c (Some u) v'" using Cons.prems x by auto
    then show ?thesis using Cons.IH [of k u] Cons.prems x True by (auto simp: counter_computes_def encode_value_def)
  next
    case False
    then show ?thesis using Cons x by (auto simp: counter_computes_def encode_value_def split: if_splits)
  qed
qed simp

lemma newest_None_iff: "newest key k log = None \<longleftrightarrow> (\<forall>x \<in> set log. key (fst x) \<noteq> k)"
  by (induction key k log rule: newest.induct) auto

lemma counted_once: "made_once key log \<Longrightarrow> counted key delta k log = counted_all key delta k log"
proof (induction log)
  case (Cons x log)
  obtain c made v where x: "x = (c, made, v)" by (metis prod_cases3)
  have "counted_all key delta k log = 0" if "newest key k log = None"
    using that by (auto simp: newest_None_iff counted_all_def filter_empty_conv case_prod_beta intro!: arg_cong [of _ "[]" sum_list])
  then show ?case using Cons x by (auto simp: counted_all_def)
qed (simp add: counted_all_def)

lemma chain_split:
  assumes "cas_chain key R log" "map_of log c = Some (made, v)"
  obtains newer older where "log = newer @ (c, made, v) # older" "cas_chain key R ((c, made, v) # older)"
proof -
  obtain newer older where l: "log = newer @ (c, made, v) # older"
    using assms(2) by (metis map_of_SomeD split_list)
  have "cas_chain key R (newer @ xs) \<Longrightarrow> cas_chain key R xs" for newer xs
    by (induction newer) (auto split: if_splits)
  with l assms(1) that show ?thesis by blast
qed

text \<open>C11: Pods on any clocks run any calls of one counter, interleaved at every await, with answers lost
  and requests landing late.  No call lands twice; what is stored under a key is the sum of the deltas
  landed since the key was last made, and of all of them when entries do not expire; an increment or
  decrement that returned has landed, and returned the sum just after it did.\<close>

theorem counter_counts:
  assumes reach: "cas_reachable skew (counter_script counter calls) w"
  shows "distinct (map fst (cw_log w))
    \<and> (\<forall>k v r. kv_view (cw_bucket w) k = Some (v, r) \<longrightarrow>
         v = encode_value (counted (call_key counter calls) (call_delta calls) k (cw_log w)))
    \<and> (dc_ttl counter = None \<longrightarrow> (\<forall>k. counted (call_key counter calls) (call_delta calls) k (cw_log w) = counted_all (call_key counter calls) (call_delta calls) k (cw_log w)
         \<and> (kv_view (cw_bucket w) k = None \<longleftrightarrow> (\<forall>x \<in> set (cw_log w). call_key counter calls (fst x) \<noteq> k))))
    \<and> (\<forall>c a. cw_calls w c = Some (Return a) \<longrightarrow> ct_op (calls c) \<noteq> Get \<longrightarrow>
         (\<exists>newer made older. cw_log w = newer @ (c, made, encode_value a) # older
            \<and> a = counted (call_key counter calls) (call_delta calls) (call_key counter calls c) ((c, made, encode_value a) # older)))"
proof -
  define key where "key = call_key counter calls"
  have key: "(\<lambda>c. cc_key (counter_script counter calls c)) = key"
    by (simp add: fun_eq_iff counter_script_def key_def call_key_def)
  note chain = counter.landed_chain [OF reach, unfolded key]
  have view: "v = encode_value (counted key (call_delta calls) k (cw_log w))"
    if "kv_view (cw_bucket w) k = Some (v, r)" for k v r
    using chain_counted [OF chain] counter.visible_newest [OF reach that, unfolded key] by (simp add: encode_value_def)
  have all: "counted key (call_delta calls) k (cw_log w) = counted_all key (call_delta calls) k (cw_log w)
      \<and> (kv_view (cw_bucket w) k = None \<longleftrightarrow> (\<forall>x \<in> set (cw_log w). key (fst x) \<noteq> k))" if "dc_ttl counter = None" for k
    using counted_once [OF counter.kept_made_once [OF reach that, unfolded key]]
      counter.kept_visible [OF reach that, of k, unfolded key] counter.visible_newest [OF reach, of k, unfolded key]
    by (metis newest_None_iff not_None_eq prod.collapse)
  have "\<exists>newer made older. cw_log w = newer @ (c, made, encode_value a) # older
      \<and> a = counted key (call_delta calls) (key c) ((c, made, encode_value a) # older)"
    if ret: "cw_calls w c = Some (Return a)" and op: "ct_op (calls c) \<noteq> Get" for c a
  proof -
    have "signed_delta (ct_op (calls c)) \<noteq> None" using op by (cases "ct_op (calls c)") auto
    then obtain made where "map_of (cw_log w) c = Some (made, encode_value a)"
      using counter.returned_post [OF reach ret] by (auto simp: counter_post_def)
    then obtain newer older where l: "cw_log w = newer @ (c, made, encode_value a) # older"
      and ch: "cas_chain key (counter_computes calls) ((c, made, encode_value a) # older)"
      using chain_split [OF chain] by metis
    have "encode_value a = CounterReads (counted key (call_delta calls) (key c) ((c, made, encode_value a) # older))"
      by (rule chain_counted [OF ch]) simp
    then show ?thesis using l by (auto simp: encode_value_def)
  qed
  then show ?thesis using counter.landed_once [OF reach] view all unfolding key_def by blast
qed

section \<open>Every call ends\<close>

lemma attempts_end: "ends_within (3 * n) (delta_attempts counter backoff key delta n)"
proof (induction n)
  case 0
  show ?case by (simp add: e_raise)
next
  case (Suc n)
  let ?retry = "if n > 0 then Sleep (backoff n) (delta_attempts counter backoff key delta n)
    else delta_attempts counter backoff key delta n"
  have retry: "ends_within (Suc (3 * n)) ?retry" using Suc by (auto intro: e_sleep e_raise)
  have "ends_within (Suc (Suc (3 * n))) (write_delta counter key delta ?retry x)" for x
    using retry by (auto simp: write_delta_def landed_or_retry_def split: sum.split option.split
      intro!: e_create e_update e_raise e_return)
  then have "ends_within (Suc (Suc (Suc (3 * n)))) (delta_attempts counter backoff key delta (Suc n))"
    unfolding delta_attempts.simps by (intro e_entry)
  then show ?case by (simp add: eval_nat_numeral)
qed

lemma ensure_ends: "ends_within n k \<Longrightarrow> ends_within (Suc (Suc (Suc n))) (Ask (counter_ensure_bucket k))"
  using ends_within_mono [of n k "Suc (Suc n)"]
  by (auto simp: counter_ensure_bucket_def bucket_opened_def split: sum.split intro!: e_ask e_opened e_modify e_raise)

text \<open>C23: A call of the counter takes at most 93 steps of its own, whatever the bucket answers or leaves
  unanswered and whatever runs in between, and until it has returned or raised it can take another.\<close>

theorem counter_call_ends:
  assumes "own_steps n (counter_prog_of counter backoff key op) q"
  shows "n \<le> 93 \<and> ((\<exists>a. q = Return a) \<or> (\<exists>e. q = Raise e)
    \<or> (\<exists>q'. own_steps (Suc n) (counter_prog_of counter backoff key op) q'))"
proof -
  have "ends_within 93 (apply_delta counter backoff key delta)" for delta
    using ensure_ends [OF attempts_end, of CAS_MAX_RETRIES] by (simp add: apply_delta_def CAS_MAX_RETRIES_def)
  moreover have "ends_within (Suc (Suc (Suc 1))) (counter_get counter key)" unfolding counter_get_def
    by (intro ensure_ends) (auto simp: read_count_def intro!: e_value [where n = 0, simplified] e_return e_raise
      split: sum.split option.split)
  then have "ends_within 93 (counter_get counter key)" by (rule ends_within_mono) simp
  ultimately have "ends_within 93 (counter_prog_of counter backoff key op)"
    by (cases op) (simp_all add: counter_increment_def counter_decrement_def)
  then show ?thesis using own_steps_bound [OF assms] own_steps_end [OF assms] by blast
qed

section \<open>A call alone\<close>

lemma retries_Suc: "CAS_MAX_RETRIES = Suc 29"
  by (simp add: CAS_MAX_RETRIES_def)

lemma run_ensure:
  assumes "kv_answers b"
  shows "run_prog sk (Ask (counter_ensure_bucket k)) bound b = run_prog sk k True b"
  using assms by (simp add: counter_ensure_bucket_def bucket_opened_def kv_date_created_def kv_answers_def kv_run_ok)

text \<open>With nothing in between, on a bucket that answers, an increment adds to what is stored, an
  absent key counting as zero, in its first attempt, and a read returns the sum; on bytes that do not
  decode it raises what decoding them raises and changes nothing anybody sees.\<close>

theorem increment_then_get:
  assumes b: "kv_answers b" and ttl: "ttl_ok (dc_ttl counter)"
    and k: "k = owner_scoped_key (dc_key_scope counter) key"
  shows "case (case kv_view b k of None \<Rightarrow> Inr 0 | Some (v, r) \<Rightarrow> decode_value v) of
      Inl e \<Rightarrow> \<exists>b'. run_prog sk (counter_increment counter backoff key delta) bound b = (Inl e, True, b')
          \<and> kv_view b' = kv_view b
    | Inr n \<Rightarrow> \<exists>b' r b''. run_prog sk (counter_increment counter backoff key delta) bound b = (Inr (n + delta), True, b')
          \<and> kv_view b' = (kv_view b)(k \<mapsto> (encode_value (n + delta), r))
          \<and> run_prog sk' (counter_get counter key) bound' b' = (Inr (n + delta), True, b'') \<and> kv_view b'' = kv_view b'"
proof -
  let ?key = "owner_scoped_key (dc_key_scope counter) key" and ?inc = "counter_increment counter backoff key delta"
  obtain retry where run: "run_prog sk ?inc bound b = run_prog sk (GetEntry ?key (write_delta counter ?key delta retry)) True b"
    unfolding counter_increment_def apply_delta_def run_ensure [OF b] retries_Suc delta_attempts.simps by blast
  obtain b1 where g: "kv_get_entry (kv_elapsed b) ?key b = (Inr (kv_view b ?key), b1)" and b1: "kv_answers b1"
    "kv_view b1 = kv_view b" "kv_latest b1 = kv_latest b" using kv_get_entry_answers [OF b] by metis
  have get: "\<exists>b''. run_prog sk' (counter_get counter key) bound' b' = (Inr n, True, b'') \<and> kv_view b'' = kv_view b'"
    if ans: "kv_answers b'" and view: "kv_view b' ?key = Some (encode_value n, r)" for b' r n
  proof -
    obtain b'' where "kv_get (kv_elapsed b') ?key b' = (Inr (map_option fst (kv_view b' ?key)), b'')" "kv_view b'' = kv_view b'"
      using kv_get_answers [OF ans] by blast
    with view show ?thesis unfolding counter_get_def run_ensure [OF ans]
      by (simp add: read_count_def encode_value_def)
  qed
  show ?thesis
  proof (cases "kv_view b ?key")
    case None
    obtain r b' where "kv_create (kv_elapsed b1) ?key (encode_value delta) (dc_ttl counter) b1 = (Inr (Some r), b')" "kv_answers b'"
      "kv_view b' = (kv_view b1)(?key \<mapsto> (encode_value delta, r))" using kv_create_answers [OF b1(1) ttl] None b1(2) by metis
    moreover from this have "\<exists>b''. run_prog sk' (counter_get counter key) bound' b' = (Inr delta, True, b'') \<and> kv_view b'' = kv_view b'"
      using get [of b' delta r] by simp
    ultimately show ?thesis using b1(2) unfolding run k by (simp add: g None write_delta_def landed_or_retry_def) blast
  next
    case (Some vr)
    then obtain v r0 where vr: "kv_view b ?key = Some (v, r0)" by (cases vr) auto
    show ?thesis
    proof (cases "decode_value v")
      case (Inr n)
      have "kv_latest b1 ?key = r0" using vr b1(3) kv.view_latest [of b ?key v r0] b by (simp add: kv_answers_def)
      then obtain r b' where "kv_update (kv_elapsed b1) ?key (encode_value (n + delta)) r0 (dc_ttl counter) b1 = (Inr (Some r), b')"
        "kv_answers b'" "kv_view b' = (kv_view b1)(?key \<mapsto> (encode_value (n + delta), r))"
        using kv_update_answers [OF b1(1) ttl] by metis
      moreover from this have "\<exists>b''. run_prog sk' (counter_get counter key) bound' b' = (Inr (n + delta), True, b'') \<and> kv_view b'' = kv_view b'"
        using get [of b' "n + delta" r] by simp
      ultimately show ?thesis using b1(2) unfolding run k by (simp add: g vr Inr write_delta_def landed_or_retry_def) blast
    next
      case (Inl e)
      then show ?thesis using b1(2) unfolding run k by (simp add: g vr write_delta_def)
    qed
  qed
qed

section \<open>Concrete runs\<close>

text \<open>Two pods add five and three to one counter, each reading before either writes; the second loses
  its first write, backs off and lands on the second try.\<close>

definition example_counter :: DistributedCounter where
  "example_counter = \<lparr>dc_key_scope = Some ''pod'', dc_ttl = None, dc_create_if_missing = True\<rparr>"

definition example_counter_calls :: "nat \<Rightarrow> counter_call" where
  "example_counter_calls c =
     \<lparr>ct_pod = c, ct_key = ''hits'', ct_op = (if c = 0 then Increment 5 else Increment 3), ct_backoff = (\<lambda>_. 100)\<rparr>"

definition example_counter_world :: "(counter_bytes, counter_error, bool, int) cas_world" where
  "example_counter_world =
     fold (advance_call (\<lambda>_. 0) (counter_script example_counter example_counter_calls))
       [0, 0, 0, 0, 0, 1, 1, 1, 1, 1, 0, 1, 1, 1, 1] (cas_start 0 True (\<lambda>_. False))"

lemma example_counter_reachable:
  "cas_reachable (\<lambda>_. 0) (counter_script example_counter example_counter_calls) example_counter_world"
  unfolding example_counter_world_def by (intro schedule_reachable cas_reachable.start)

theorem counter_counts_witness:
  "cw_log example_counter_world = [(1, False, CounterReads 8), (0, True, CounterReads 5)]
   \<and> (\<exists>newer made older. cw_log example_counter_world = newer @ (1, made, encode_value 8) # older)"
proof -
  have log: "cw_log example_counter_world = [(1, False, CounterReads 8), (0, True, CounterReads 5)]" by code_simp
  have "case cw_calls example_counter_world 1 of Some (Return a) \<Rightarrow> a = 8 | _ \<Rightarrow> False" by code_simp
  then have "cw_calls example_counter_world 1 = Some (Return 8)" by (auto split: option.splits prog.splits)
  then have "\<exists>newer made older. cw_log example_counter_world = newer @ (1, made, encode_value 8) # older"
    using counter_counts [OF example_counter_reachable] by (fastforce simp: example_counter_calls_def)
  with log show ?thesis by blast
qed

theorem counter_call_ends_witness:
  "\<exists>q. own_steps 1 (counter_prog_of example_counter (\<lambda>_. 0) ''hits'' (Increment 5)) q
    \<and> (1::nat) \<le> 93 \<and> (\<exists>q'. own_steps 2 (counter_prog_of example_counter (\<lambda>_. 0) ''hits'' (Increment 5)) q')"
proof -
  let ?p = "counter_prog_of example_counter (\<lambda>_. 0) ''hits'' (Increment 5)"
  obtain k where p: "?p = Ask (counter_ensure_bucket k)" by (simp add: counter_increment_def apply_delta_def)
  have "prog_step 0 ?p False (new_kv_bucket 0 True) = Some (DateCreated (bucket_opened k), False, new_kv_bucket 0 True)"
    unfolding p by (simp add: prog_step_def counter_ensure_bucket_def)
  then have "own_steps 1 ?p (DateCreated (bucket_opened k))" using one_step no_step by fastforce
  moreover from counter_call_ends [OF this] have "\<exists>q'. own_steps (Suc 1) ?p q'" by simp
  ultimately show ?thesis unfolding numeral_2_eq_2 by auto
qed

end
