(* ===== verification/TokenBucket.thy ===== *)
theory TokenBucket
  imports KvCas ReplayGuard
begin

text \<open>
  \<open>core/coordination/token_bucket.py\<close>: tokens that refill at a fixed rate up to a capacity, kept as a
  count and the instant it was computed at under one key of a shared bucket.  \<open>claim\<close> and \<open>refund\<close> are
  coroutines over the bucket.  Token counts are rationals where the code has floats, instants are
  microseconds of the clock of the pod that read them, and the JSON text of a stored state is kept as
  what reading it gives.  The lemmas account for every token: what was claimed never exceeds what the
  bucket started with, what was refunded and what refilled between consecutive writes; and a waiting
  claim ends.  Drawing the back-off is a parameter.
\<close>

section \<open>States\<close>

datatype token_error =
    TokenValueError
  | TokenBucketConflict
  | TokenKvError kv_error
  | StillWaiting

record TokenClaimResult =
  tc_claimed :: bool
  tc_tokens_remaining :: rat
  tc_retry_after_seconds :: rat

text \<open>Stored bytes: a state, or anything \<open>_decode_state\<close> refuses.\<close>

datatype token_bytes = TokenState rat int | TokenBadBytes

definition encode_state :: "rat \<Rightarrow> int \<Rightarrow> token_bytes" where
  "encode_state tokens last_refill = TokenState tokens last_refill"

fun decode_state :: "token_bytes \<Rightarrow> token_error + rat \<times> int" where
  "decode_state (TokenState tokens last_refill) = Inr (tokens, last_refill)"
| "decode_state TokenBadBytes = Inl TokenValueError"

section \<open>The bucket\<close>

record TokenBucket =
  tb_key_scope :: "string option"
  tb_refill_rate :: rat
  tb_capacity :: rat
  tb_kv_ttl :: "int option"
  tb_create_if_missing :: bool

definition new_TokenBucket ::
  "rat \<Rightarrow> rat \<Rightarrow> int option \<Rightarrow> bool \<Rightarrow> string option \<Rightarrow> token_error + TokenBucket" where
  "new_TokenBucket refill_rate capacity kv_ttl create_if_missing key_scope =
     (case validated_key_scope key_scope of
        Inl e \<Rightarrow> Inl TokenValueError
      | Inr scope \<Rightarrow>
          if refill_rate \<le> 0 then Inl TokenValueError
          else if capacity \<le> 0 then Inl TokenValueError
          else Inr \<lparr>tb_key_scope = scope, tb_refill_rate = refill_rate, tb_capacity = capacity, tb_kv_ttl = kv_ttl,
                    tb_create_if_missing = create_if_missing\<rparr>)"

type_synonym 'a token_prog = "(token_bytes, token_error, bool, 'a) prog"

definition TOKEN_CAS_MAX_RETRIES :: nat where
  "TOKEN_CAS_MAX_RETRIES = 30"

definition token_bucket_opened :: "'a token_prog \<Rightarrow> kv_error + int \<Rightarrow> 'a token_prog" where
  "token_bucket_opened k reply =
     (case reply of Inl e \<Rightarrow> Raise (TokenKvError e) | Inr _ \<Rightarrow> Modify (\<lambda>_. True) k)"

definition token_ensure_bucket :: "'a token_prog \<Rightarrow> bool \<Rightarrow> 'a token_prog" where
  "token_ensure_bucket k bound = (if bound then k else DateCreated (token_bucket_opened k))"

text \<open>The tokens a stored state has become at an instant; time that went backwards refills nothing.\<close>

definition seconds_of :: "int \<Rightarrow> rat" where
  "seconds_of us = of_int us / of_int SECOND"

definition refilled :: "TokenBucket \<Rightarrow> rat \<Rightarrow> int \<Rightarrow> int \<Rightarrow> rat" where
  "refilled bucket tokens last_refill now =
     min (tb_capacity bucket) (tokens + max 0 (seconds_of (now - last_refill)) * tb_refill_rate bucket)"

section \<open>claim\<close>

definition consumed_or_retry ::
  "rat \<Rightarrow> TokenClaimResult token_prog \<Rightarrow> kv_error + nat option \<Rightarrow> TokenClaimResult token_prog" where
  "consumed_or_retry new_tokens retry reply =
     (case reply of
        Inl e \<Rightarrow> Raise (TokenKvError e)
      | Inr new_revision \<Rightarrow>
          if new_revision \<noteq> None
          then Return \<lparr>tc_claimed = True, tc_tokens_remaining = new_tokens, tc_retry_after_seconds = 0\<rparr>
          else retry)"

definition consume ::
  "TokenBucket \<Rightarrow> string \<Rightarrow> rat \<Rightarrow> int \<Rightarrow> TokenClaimResult token_prog \<Rightarrow> rat \<Rightarrow> nat option \<Rightarrow> TokenClaimResult token_prog" where
  "consume bucket key tokens now retry current_tokens revision =
     (if current_tokens < tokens
      then Return \<lparr>tc_claimed = False, tc_tokens_remaining = current_tokens,
                   tc_retry_after_seconds = (tokens - current_tokens) / tb_refill_rate bucket\<rparr>
      else case revision of
        None \<Rightarrow> Create key (encode_state (current_tokens - tokens) now) (tb_kv_ttl bucket)
                  (consumed_or_retry (current_tokens - tokens) retry)
      | Some r \<Rightarrow> Update key (encode_state (current_tokens - tokens) now) r (tb_kv_ttl bucket)
                    (consumed_or_retry (current_tokens - tokens) retry))"

definition claim_entry ::
  "TokenBucket \<Rightarrow> string \<Rightarrow> rat \<Rightarrow> int \<Rightarrow> TokenClaimResult token_prog \<Rightarrow> kv_error + (token_bytes \<times> nat) option
    \<Rightarrow> TokenClaimResult token_prog" where
  "claim_entry bucket key tokens now retry reply =
     (case reply of
        Inl e \<Rightarrow> Raise (TokenKvError e)
      | Inr None \<Rightarrow> consume bucket key tokens now retry (tb_capacity bucket) None
      | Inr (Some (bytes, revision)) \<Rightarrow>
          (case decode_state bytes of
             Inl e \<Rightarrow> Raise e
           | Inr (stored, last_refill) \<Rightarrow>
               consume bucket key tokens now retry (refilled bucket stored last_refill now) (Some revision)))"

definition claim_at ::
  "TokenBucket \<Rightarrow> string \<Rightarrow> rat \<Rightarrow> TokenClaimResult token_prog \<Rightarrow> int \<Rightarrow> TokenClaimResult token_prog" where
  "claim_at bucket key tokens retry now = GetEntry key (claim_entry bucket key tokens now retry)"

primrec claim_attempt :: "TokenBucket \<Rightarrow> (nat \<Rightarrow> int) \<Rightarrow> string \<Rightarrow> rat \<Rightarrow> nat \<Rightarrow> TokenClaimResult token_prog" where
  "claim_attempt bucket backoff key tokens 0 = Raise TokenBucketConflict"
| "claim_attempt bucket backoff key tokens (Suc n) =
     Now (claim_at bucket key tokens
       (if n > 0 then Sleep (backoff n) (claim_attempt bucket backoff key tokens n)
        else claim_attempt bucket backoff key tokens n))"

text \<open>The loop of a waiting claim.  A clock read takes a microsecond, so a wait of \<open>n\<close> microseconds has at
  most \<open>n\<close> rounds; \<open>StillWaiting\<close> stands for a round after those, which no run reaches.\<close>

definition wait_or_return ::
  "int \<Rightarrow> TokenClaimResult token_prog \<Rightarrow> TokenClaimResult \<Rightarrow> int \<Rightarrow> TokenClaimResult token_prog" where
  "wait_or_return deadline again result now =
     (if deadline - now \<le> 0 then Return result
      else Sleep (max 0 (min (ceiling (tc_retry_after_seconds result * of_int SECOND)) (deadline - now))) again)"

definition claimed_or_wait ::
  "int option \<Rightarrow> TokenClaimResult token_prog \<Rightarrow> TokenClaimResult \<Rightarrow> TokenClaimResult token_prog" where
  "claimed_or_wait deadline again result =
     (if tc_claimed result then Return result
      else case deadline of
        None \<Rightarrow> Return result
      | Some d \<Rightarrow> Now (wait_or_return d again result))"

primrec claim_loop ::
  "TokenBucket \<Rightarrow> (nat \<Rightarrow> int) \<Rightarrow> string \<Rightarrow> rat \<Rightarrow> int option \<Rightarrow> nat \<Rightarrow> TokenClaimResult token_prog" where
  "claim_loop bucket backoff key tokens deadline 0 = Raise StillWaiting"
| "claim_loop bucket backoff key tokens deadline (Suc n) =
     then_do (claim_attempt bucket backoff key tokens TOKEN_CAS_MAX_RETRIES)
       (claimed_or_wait deadline (claim_loop bucket backoff key tokens deadline n))"

definition claim_until ::
  "TokenBucket \<Rightarrow> (nat \<Rightarrow> int) \<Rightarrow> string \<Rightarrow> rat \<Rightarrow> int \<Rightarrow> int \<Rightarrow> TokenClaimResult token_prog" where
  "claim_until bucket backoff key tokens max_wait now =
     claim_loop bucket backoff key tokens (Some (now + max_wait)) (Suc (nat max_wait))"

definition token_claim ::
  "TokenBucket \<Rightarrow> (nat \<Rightarrow> int) \<Rightarrow> string \<Rightarrow> rat \<Rightarrow> int \<Rightarrow> TokenClaimResult token_prog" where
  "token_claim bucket backoff key tokens max_wait =
     (if tokens > tb_capacity bucket then Raise TokenValueError
      else Ask (token_ensure_bucket
        (if max_wait > 0
         then Now (claim_until bucket backoff (owner_scoped_key (tb_key_scope bucket) key) tokens max_wait)
         else claim_loop bucket backoff (owner_scoped_key (tb_key_scope bucket) key) tokens None 1)))"

section \<open>refund\<close>

text \<open>A refund that cannot be applied, for whatever reason, returns \<open>-1\<close>.\<close>

definition restored_or_retry :: "rat \<Rightarrow> rat token_prog \<Rightarrow> kv_error + nat option \<Rightarrow> rat token_prog" where
  "restored_or_retry restored retry reply =
     (case reply of Inl e \<Rightarrow> Return (- 1) | Inr revision \<Rightarrow> if revision \<noteq> None then Return restored else retry)"

definition refund_entry ::
  "TokenBucket \<Rightarrow> string \<Rightarrow> rat \<Rightarrow> int \<Rightarrow> rat token_prog \<Rightarrow> kv_error + (token_bytes \<times> nat) option \<Rightarrow> rat token_prog" where
  "refund_entry bucket key tokens now retry reply =
     (case reply of
        Inl e \<Rightarrow> Return (- 1)
      | Inr None \<Rightarrow> Return (tb_capacity bucket)
      | Inr (Some (bytes, revision)) \<Rightarrow>
          (case decode_state bytes of
             Inl e \<Rightarrow> Return (- 1)
           | Inr (stored, last_refill) \<Rightarrow>
               (let restored = min (tb_capacity bucket) (refilled bucket stored last_refill now + tokens)
                in Update key (encode_state restored now) revision (tb_kv_ttl bucket) (restored_or_retry restored retry))))"

definition refund_at :: "TokenBucket \<Rightarrow> string \<Rightarrow> rat \<Rightarrow> rat token_prog \<Rightarrow> int \<Rightarrow> rat token_prog" where
  "refund_at bucket key tokens retry now = GetEntry key (refund_entry bucket key tokens now retry)"

primrec refund_attempts :: "TokenBucket \<Rightarrow> (nat \<Rightarrow> int) \<Rightarrow> string \<Rightarrow> rat \<Rightarrow> nat \<Rightarrow> rat token_prog" where
  "refund_attempts bucket backoff key tokens 0 = Return (- 1)"
| "refund_attempts bucket backoff key tokens (Suc n) =
     Now (refund_at bucket key tokens
       (if n > 0 then Sleep (backoff n) (refund_attempts bucket backoff key tokens n)
        else refund_attempts bucket backoff key tokens n))"

definition token_refund :: "TokenBucket \<Rightarrow> (nat \<Rightarrow> int) \<Rightarrow> string \<Rightarrow> rat \<Rightarrow> rat token_prog" where
  "token_refund bucket backoff key tokens =
     (if tokens \<le> 0 then Return (- 1)
      else try_else (Ask (token_ensure_bucket (Return ()))) (\<lambda>e. Return (- 1))
        (\<lambda>_. refund_attempts bucket backoff (owner_scoped_key (tb_key_scope bucket) key) tokens TOKEN_CAS_MAX_RETRIES))"

section \<open>A fleet of calls\<close>

datatype token_op = Claim rat int | Refund rat

record token_call =
  tk_pod :: nat
  tk_key :: string
  tk_op :: token_op
  tk_backoff :: "nat \<Rightarrow> int"

fun token_prog_of :: "TokenBucket \<Rightarrow> (nat \<Rightarrow> int) \<Rightarrow> string \<Rightarrow> token_op \<Rightarrow> (TokenClaimResult + rat) token_prog" where
  "token_prog_of bucket backoff key (Claim tokens max_wait) =
     then_do (token_claim bucket backoff key tokens max_wait) (\<lambda>r. Return (Inl r))"
| "token_prog_of bucket backoff key (Refund tokens) =
     then_do (token_refund bucket backoff key tokens) (\<lambda>r. Return (Inr r))"

definition tk_stored_key :: "TokenBucket \<Rightarrow> (nat \<Rightarrow> token_call) \<Rightarrow> nat \<Rightarrow> string" where
  "tk_stored_key bucket calls c = owner_scoped_key (tb_key_scope bucket) (tk_key (calls c))"

definition token_script ::
  "TokenBucket \<Rightarrow> (nat \<Rightarrow> token_call) \<Rightarrow> nat \<Rightarrow> (token_bytes, token_error, bool, TokenClaimResult + rat) cas_call" where
  "token_script bucket calls c =
     \<lparr>cc_pod = tk_pod (calls c), cc_key = tk_stored_key bucket calls c,
      cc_prog = token_prog_of bucket (tk_backoff (calls c)) (tk_key (calls c)) (tk_op (calls c))\<rparr>"

text \<open>What a landed write was computed from, and what a result says about it.\<close>

fun becomes :: "TokenBucket \<Rightarrow> token_op \<Rightarrow> token_bytes option \<Rightarrow> token_bytes \<Rightarrow> bool" where
  "becomes bucket (Claim tokens _) None v \<longleftrightarrow>
     (\<exists>now. tokens \<le> tb_capacity bucket \<and> v = TokenState (tb_capacity bucket - tokens) now)"
| "becomes bucket (Claim tokens _) (Some (TokenState t stamp)) v \<longleftrightarrow>
     (\<exists>now. tokens \<le> refilled bucket t stamp now \<and> v = TokenState (refilled bucket t stamp now - tokens) now)"
| "becomes bucket (Refund tokens) (Some (TokenState t stamp)) v \<longleftrightarrow>
     0 < tokens \<and> (\<exists>now. v = TokenState (min (tb_capacity bucket) (refilled bucket t stamp now + tokens)) now)"
| "becomes bucket _ _ v \<longleftrightarrow> False"

definition claim_post :: "token_bytes option \<Rightarrow> TokenClaimResult \<Rightarrow> bool" where
  "claim_post landed r \<longleftrightarrow>
     (if tc_claimed r then \<exists>now. landed = Some (TokenState (tc_tokens_remaining r) now) else landed = None)"

definition refund_post :: "TokenBucket \<Rightarrow> token_bytes option \<Rightarrow> rat \<Rightarrow> bool" where
  "refund_post bucket landed r \<longleftrightarrow> r = - 1 \<or> landed = None \<and> r = tb_capacity bucket \<or> (\<exists>now. landed = Some (TokenState r now))"

fun token_post :: "TokenBucket \<Rightarrow> token_op \<Rightarrow> token_bytes option \<Rightarrow> TokenClaimResult + rat \<Rightarrow> bool" where
  "token_post bucket (Claim _ _) landed (Inl r) = claim_post landed r"
| "token_post bucket (Refund _) landed (Inr r) = refund_post bucket landed r"
| "token_post bucket _ landed _ = False"

lemma consumed_client:
  assumes "cas_client key (tb_kv_ttl bucket) (becomes bucket (Claim tokens mw)) claim_post seen retry"
    and "case revision of None \<Rightarrow> becomes bucket (Claim tokens mw) None (encode_state (current - tokens) now)
      | Some r \<Rightarrow> \<exists>b. (r, b) \<in> seen \<and> (tokens \<le> current \<longrightarrow> becomes bucket (Claim tokens mw) (Some b) (encode_state (current - tokens) now))"
  shows "cas_client key (tb_kv_ttl bucket) (becomes bucket (Claim tokens mw)) claim_post seen
    (consume bucket key tokens now retry current revision)"
proof -
  have "cas_done claim_post (encode_state (current - tokens) now) (consumed_or_retry (current - tokens) retry (Inr (Some r)))"
    "cas_over claim_post (consumed_or_retry (current - tokens) retry (Inl e))"
    "consumed_or_retry (current - tokens) retry (Inr None) = retry" for r e
    by (simp_all add: cas_done_def cas_over_def consumed_or_retry_def claim_post_def encode_state_def)
  then show ?thesis using assms unfolding consume_def
    by (auto simp: claim_post_def not_less split: option.splits intro!: c_return c_create c_update)
qed

lemma attempt_client:
  assumes "tokens \<le> tb_capacity bucket"
  shows "cas_client key (tb_kv_ttl bucket) (becomes bucket (Claim tokens mw)) claim_post seen
    (claim_attempt bucket backoff key tokens n)"
proof (induction n arbitrary: seen)
  case 0
  show ?case by (simp add: c_raise)
next
  case (Suc n)
  let ?client = "cas_client key (tb_kv_ttl bucket) (becomes bucket (Claim tokens mw)) claim_post"
  let ?retry = "if n > 0 then Sleep (backoff n) (claim_attempt bucket backoff key tokens n)
    else claim_attempt bucket backoff key tokens n"
  have retry: "?client seen ?retry" for seen using Suc by (auto intro: c_sleep)
  have made: "?client seen (claim_entry bucket key tokens now ?retry (Inr None))" for seen now
    using assms consumed_client [OF retry, where revision = None] unfolding claim_entry_def by (simp add: encode_state_def)
  have updated: "?client (insert (r, b) seen) (claim_entry bucket key tokens now ?retry (Inr (Some (b, r))))" for r b seen now
  proof (cases b)
    case (TokenState t stamp)
    have "?client (insert (r, b) seen) (consume bucket key tokens now ?retry (refilled bucket t stamp now) (Some r))"
      by (rule consumed_client [OF retry]) (auto simp: TokenState encode_state_def intro!: exI [of _ b])
    then show ?thesis by (simp add: claim_entry_def TokenState del: if_split)
  qed (simp add: claim_entry_def c_raise)
  show ?case unfolding claim_attempt.simps claim_at_def
    by (intro c_now c_entry made updated) (simp add: claim_entry_def c_raise)
qed

lemma loop_client:
  assumes "tokens \<le> tb_capacity bucket"
  shows "cas_client key (tb_kv_ttl bucket) (becomes bucket (Claim tokens mw)) claim_post seen
    (claim_loop bucket backoff key tokens deadline n)"
proof (induction n arbitrary: seen)
  case (Suc n)
  let ?client = "cas_client key (tb_kv_ttl bucket) (becomes bucket (Claim tokens mw)) claim_post"
  let ?next = "claimed_or_wait deadline (claim_loop bucket backoff key tokens deadline n)"
  have "?client seen (?next a)" if "claim_post None a" for a seen
    using that Suc by (auto simp: claimed_or_wait_def wait_or_return_def split: option.split intro!: cas_client.intros)
  moreover have "cas_done claim_post v (?next a)" if "claim_post (Some v) a" for v a
    using that by (auto simp: claimed_or_wait_def cas_done_def claim_post_def split: if_splits)
  moreover have "cas_over claim_post (?next a)" if "\<And>l. claim_post l a" for a
    using that [of None] that [of "Some TokenBadBytes"] by (auto simp: claim_post_def split: if_splits)
  ultimately show ?case unfolding claim_loop.simps by (rule client_then [OF attempt_client [OF assms]])
qed (simp add: c_raise)

lemma token_ensure_client:
  assumes "cas_client key ttl R pt seen k"
  shows "cas_client key ttl R pt seen (Ask (token_ensure_bucket k))"
  using assms by (auto simp: token_ensure_bucket_def token_bucket_opened_def intro!: cas_client.intros split: sum.split)

lemma claim_client:
  "cas_client (owner_scoped_key (tb_key_scope bucket) key) (tb_kv_ttl bucket) (becomes bucket (Claim tokens mw)) claim_post seen
    (token_claim bucket backoff key tokens max_wait)"
  by (auto simp: token_claim_def claim_until_def intro!: token_ensure_client c_raise c_now loop_client simp del: claim_loop.simps)

lemma refund_attempts_client:
  assumes "0 < tokens"
  shows "cas_client key (tb_kv_ttl bucket) (becomes bucket (Refund tokens)) (refund_post bucket) seen
    (refund_attempts bucket backoff key tokens n)"
proof (induction n arbitrary: seen)
  case 0
  show ?case by (simp add: c_return refund_post_def)
next
  case (Suc n)
  let ?client = "cas_client key (tb_kv_ttl bucket) (becomes bucket (Refund tokens)) (refund_post bucket)"
  let ?retry = "if n > 0 then Sleep (backoff n) (refund_attempts bucket backoff key tokens n)
    else refund_attempts bucket backoff key tokens n"
  have retry: "?client seen ?retry" for seen using Suc by (auto intro: c_sleep)
  have "?client (insert (r, b) seen) (refund_entry bucket key tokens now ?retry (Inr (Some (b, r))))" for r b seen now
    using retry assms by (cases b) (auto simp: refund_entry_def encode_state_def Let_def refund_post_def restored_or_retry_def
        cas_done_def cas_over_def intro!: c_return c_update [of r b])
  moreover have "?client seen (refund_entry bucket key tokens now ?retry (Inr None))"
    "?client seen (refund_entry bucket key tokens now ?retry (Inl e))" for seen now e
    by (auto simp: refund_entry_def refund_post_def intro!: c_return)
  ultimately show ?case unfolding refund_attempts.simps refund_at_def by (intro c_now c_entry)
qed

lemma refund_client:
  "cas_client (owner_scoped_key (tb_key_scope bucket) key) (tb_kv_ttl bucket) (becomes bucket (Refund tokens)) (refund_post bucket) seen
    (token_refund bucket backoff key tokens)"
  using refund_attempts_client [of tokens]
  by (auto simp: token_refund_def refund_post_def token_ensure_bucket_def token_bucket_opened_def
      split: sum.split intro!: cas_client.intros)

interpretation tokens: cas_clients "token_script bucket calls" "tb_kv_ttl bucket"
  "\<lambda>c. becomes bucket (tk_op (calls c))" "\<lambda>c. token_post bucket (tk_op (calls c))"
proof
  fix c
  show "cas_client (cc_key (token_script bucket calls c)) (tb_kv_ttl bucket) (becomes bucket (tk_op (calls c)))
      (token_post bucket (tk_op (calls c))) {} (cc_prog (token_script bucket calls c))"
  proof (cases "tk_op (calls c)")
    case (Claim tokens mw)
    show ?thesis unfolding token_script_def tk_stored_key_def Claim cas_call.simps token_prog_of.simps
      by (rule client_then [OF claim_client]) (auto simp: cas_done_def cas_over_def intro!: c_return)
  next
    case (Refund tokens)
    show ?thesis unfolding token_script_def tk_stored_key_def Refund cas_call.simps token_prog_of.simps
      by (rule client_then [OF refund_client]) (auto simp: cas_done_def cas_over_def intro!: c_return)
  qed
qed

section \<open>Accounting\<close>

text \<open>One key's landed writes, newest first; the tokens they claimed and refunded; how often they made the
  key; and the seconds the clocks of consecutive writers moved forward.\<close>

definition key_log :: "(nat \<Rightarrow> string) \<Rightarrow> string \<Rightarrow> (nat \<times> bool \<times> 'v) list \<Rightarrow> (nat \<times> bool \<times> 'v) list" where
  "key_log key k log = filter (\<lambda>x. key (fst x) = k) log"

fun claimed_by :: "token_op \<Rightarrow> rat" where
  "claimed_by (Claim tokens _) = tokens"
| "claimed_by (Refund _) = 0"

fun refunded_by :: "token_op \<Rightarrow> rat" where
  "refunded_by (Claim _ _) = 0"
| "refunded_by (Refund tokens) = tokens"

definition total_claimed :: "(nat \<Rightarrow> token_call) \<Rightarrow> (nat \<times> bool \<times> token_bytes) list \<Rightarrow> rat" where
  "total_claimed calls log = (\<Sum>x \<leftarrow> log. claimed_by (tk_op (calls (fst x))))"

definition total_refunded :: "(nat \<Rightarrow> token_call) \<Rightarrow> (nat \<times> bool \<times> token_bytes) list \<Rightarrow> rat" where
  "total_refunded calls log = (\<Sum>x \<leftarrow> log. refunded_by (tk_op (calls (fst x))))"

definition times_made :: "(nat \<times> bool \<times> token_bytes) list \<Rightarrow> nat" where
  "times_made log = length (filter (\<lambda>x. fst (snd x)) log)"

fun stamp_of :: "token_bytes \<Rightarrow> int" where
  "stamp_of (TokenState _ stamp) = stamp"
| "stamp_of TokenBadBytes = 0"

fun refill_time :: "(nat \<times> bool \<times> token_bytes) list \<Rightarrow> rat" where
  "refill_time ((c, made, v) # (c', made', v') # log) =
     (if made then 0 else max 0 (seconds_of (stamp_of v - stamp_of v'))) + refill_time ((c', made', v') # log)"
| "refill_time _ = 0"

lemma newest_key_log: "newest key k log = (case key_log key k log of [] \<Rightarrow> None | x # _ \<Rightarrow> Some (snd (snd x)))"
  by (induction key k log rule: newest.induct) (auto simp: key_log_def)

lemma refilled_le: "refilled bucket t stamp now \<le> t + tb_refill_rate bucket * max 0 (seconds_of (now - stamp))"
  by (simp add: refilled_def mult.commute)

lemma refilled_nonneg:
  "0 \<le> t \<Longrightarrow> 0 < tb_capacity bucket \<Longrightarrow> 0 < tb_refill_rate bucket \<Longrightarrow> 0 \<le> refilled bucket t stamp now"
  by (simp add: refilled_def)

definition balanced :: "TokenBucket \<Rightarrow> (nat \<Rightarrow> token_call) \<Rightarrow> (nat \<times> bool \<times> token_bytes) list \<Rightarrow> rat \<Rightarrow> bool" where
  "balanced bucket calls log t \<longleftrightarrow> 0 \<le> t \<and>
     t + total_claimed calls log \<le> tb_capacity bucket * of_nat (times_made log)
       + tb_refill_rate bucket * refill_time log + total_refunded calls log"

lemma totals_Cons [simp]:
  "total_claimed calls (x # log) = claimed_by (tk_op (calls (fst x))) + total_claimed calls log"
  "total_refunded calls (x # log) = refunded_by (tk_op (calls (fst x))) + total_refunded calls log"
  "times_made (x # log) = (if fst (snd x) then Suc (times_made log) else times_made log)"
  "total_claimed calls [] = 0" "total_refunded calls [] = 0" "times_made [] = 0"
  by (simp_all add: total_claimed_def total_refunded_def times_made_def)

lemma balanced_made:
  assumes "balanced bucket calls log t \<or> log = []" "becomes bucket (tk_op (calls c)) None v"
  shows "\<exists>t' stamp. v = TokenState t' stamp \<and> balanced bucket calls ((c, True, v) # log) t'"
proof -
  have "0 \<le> tb_capacity bucket * of_nat (times_made log) + tb_refill_rate bucket * refill_time log
      + total_refunded calls log - total_claimed calls log"
    using assms(1) by (auto simp: balanced_def)
  moreover have "refill_time ((c, True, v) # log) = refill_time log" by (cases log) auto
  ultimately show ?thesis using assms(2)
    by (cases "tk_op (calls c)") (auto simp: balanced_def algebra_simps)
qed

lemma balanced_update:
  assumes bal: "balanced bucket calls ((c', made', TokenState t stamp) # log) t"
    and becomes: "becomes bucket (tk_op (calls c)) (Some (TokenState t stamp)) v"
    and pos: "0 < tb_capacity bucket" "0 < tb_refill_rate bucket"
  shows "\<exists>t' now. v = TokenState t' now \<and> balanced bucket calls ((c, False, v) # (c', made', TokenState t stamp) # log) t'"
proof (cases "tk_op (calls c)")
  case (Claim tokens mw)
  then obtain now where "tokens \<le> refilled bucket t stamp now" "v = TokenState (refilled bucket t stamp now - tokens) now"
    using becomes by auto
  then show ?thesis using bal refilled_le [of bucket t stamp now] Claim
    by (intro exI [of _ "refilled bucket t stamp now - tokens"] exI [of _ now])
      (simp add: balanced_def ring_distribs)
next
  case (Refund tokens)
  then obtain now where r: "0 < tokens" "v = TokenState (min (tb_capacity bucket) (refilled bucket t stamp now + tokens)) now"
    using becomes by auto
  have "0 \<le> refilled bucket t stamp now" using bal pos refilled_nonneg by (simp add: balanced_def)
  then obtain m where m: "v = TokenState m now" "0 \<le> m" "m \<le> refilled bucket t stamp now + tokens" using r pos by simp
  then show ?thesis using bal refilled_le [of bucket t stamp now] Refund
    by (intro exI [of _ m] exI [of _ now]) (simp add: balanced_def ring_distribs)
qed

lemma chain_balanced:
  assumes "cas_chain key (\<lambda>c. becomes bucket (tk_op (calls c))) log" "0 < tb_capacity bucket" "0 < tb_refill_rate bucket"
  shows "case key_log key k log of [] \<Rightarrow> True
    | x # _ \<Rightarrow> \<exists>t stamp. snd (snd x) = TokenState t stamp \<and> balanced bucket calls (key_log key k log) t"
  using assms(1)
proof (induction log)
  case (Cons x log)
  obtain c made v where x: "x = (c, made, v)" by (metis prod_cases3)
  have IH: "case key_log key k log of [] \<Rightarrow> True
    | x # _ \<Rightarrow> \<exists>t stamp. snd (snd x) = TokenState t stamp \<and> balanced bucket calls (key_log key k log) t"
    using Cons x by simp
  show ?case
  proof (cases "key c = k")
    case same: True
    then have L: "key_log key k (x # log) = (c, made, v) # key_log key k log" by (simp add: key_log_def x)
    show ?thesis
    proof (cases made)
      case True
      have "balanced bucket calls (key_log key k log) t \<or> key_log key k log = []"
        if "\<forall>t. \<not> balanced bucket calls (key_log key k log) t" for t using IH that by (auto split: list.splits)
      then obtain t where "balanced bucket calls (key_log key k log) t \<or> key_log key k log = []" by blast
      moreover have "becomes bucket (tk_op (calls c)) None v" using Cons.prems x True by simp
      ultimately show ?thesis using balanced_made L True by fastforce
    next
      case False
      then have "newest key k log \<noteq> None" and b: "becomes bucket (tk_op (calls c)) (newest key k log) v"
        using Cons.prems x same by auto
      then obtain c' made' u L' where L': "key_log key k log = (c', made', u) # L'"
        by (auto simp: newest_key_log split: list.splits)
      then obtain t stamp where "u = TokenState t stamp" "balanced bucket calls ((c', made', u) # L') t" using IH by auto
      with b L' balanced_update [OF _ _ assms(2,3), of calls c' made' t stamp L' c v] L False show ?thesis
        by (simp add: newest_key_log)
    qed
  next
    case False
    then have L: "key_log key k (x # log) = key_log key k log" by (simp add: key_log_def x)
    show ?thesis unfolding L by (rule IH)
  qed
qed (simp add: key_log_def)

lemma times_made_once: "made_once key log \<Longrightarrow> times_made (key_log key k log) \<le> (if newest key k log = None then 0 else 1)"
  by (induction log) (auto simp: key_log_def split: if_splits)

lemma landed_total:
  assumes made: "new_TokenBucket rate capacity kv_ttl create_if_missing scope = Inr bucket"
    and reach: "cas_reachable skew (token_script bucket calls) w"
    and log: "log = key_log (tk_stored_key bucket calls) k (cw_log w)"
  shows "total_claimed calls log \<le> capacity * of_nat (times_made log) + rate * refill_time log + total_refunded calls log"
    and "kv_ttl = None \<Longrightarrow> times_made log \<le> 1"
    and "kv_view (cw_bucket w) k = Some (v, r) \<Longrightarrow> \<exists>t stamp. v = TokenState t stamp \<and> 0 \<le> t"
proof -
  define key where "key = tk_stored_key bucket calls"
  have key: "(\<lambda>c. cc_key (token_script bucket calls c)) = key" by (simp add: fun_eq_iff token_script_def key_def)
  have b: "tb_capacity bucket = capacity" "tb_refill_rate bucket = rate" "tb_kv_ttl bucket = kv_ttl"
    "0 < tb_capacity bucket" "0 < tb_refill_rate bucket"
    using made by (auto simp: new_TokenBucket_def split: sum.splits if_splits)
  note bal = chain_balanced [OF tokens.landed_chain [OF reach, unfolded key] b(4,5)]
  show "total_claimed calls log \<le> capacity * of_nat (times_made log) + rate * refill_time log + total_refunded calls log"
  proof (cases log)
    case (Cons x xs)
    then show ?thesis using bal [of k] b(1,2) log by (auto simp: balanced_def key_def simp del: totals_Cons)
  qed simp
  show "times_made log \<le> 1" if "kv_ttl = None"
    using times_made_once [OF tokens.kept_made_once [OF reach, unfolded key b(3), OF that], of k] log
    by (auto simp: key_def split: if_splits)
  show "\<exists>t stamp. v = TokenState t stamp \<and> 0 \<le> t" if "kv_view (cw_bucket w) k = Some (v, r)"
    using tokens.visible_newest [OF reach that, unfolded key] bal [of k]
    by (auto simp: newest_key_log balanced_def split: list.splits)
qed

lemma seconds_of_diff: "seconds_of (a - b) + seconds_of (b - c) = seconds_of (a - c)"
  by (simp add: seconds_of_def diff_divide_distrib)

lemma seconds_of_mono: "b \<le> a \<Longrightarrow> 0 \<le> seconds_of (a - b)"
  by (simp add: seconds_of_def SECOND_def)

lemma ordered_refill:
  assumes "sorted_wrt (\<lambda>x y. stamp_of (snd (snd x)) \<ge> stamp_of (snd (snd y))) log" "log \<noteq> []"
  shows "refill_time log \<le> seconds_of (stamp_of (snd (snd (hd log))) - stamp_of (snd (snd (last log))))"
  using assms
proof (induction log rule: refill_time.induct)
  case (1 c made v c' made' v' log)
  have first: "0 \<le> seconds_of (stamp_of v - stamp_of v')" using "1.prems" seconds_of_mono by simp
  have "refill_time ((c', made', v') # log) \<le> seconds_of (stamp_of v' - stamp_of (snd (snd (last ((c', made', v') # log)))))"
    using 1 by simp
  then show ?case
    using first seconds_of_diff [of "stamp_of v" "stamp_of v'" "stamp_of (snd (snd (last ((c', made', v') # log))))"]
    by (simp add: max_def)
qed (auto simp: seconds_of_def)

text \<open>C12: Every token is accounted for, over every interleaving of claims and refunds, lost answers and
  late requests, whatever the pods' clocks show.  No call lands twice.  Under every key, what was claimed
  is at most the capacity for each time the key was made, once when entries do not expire, plus what was
  refunded, plus the refill rate over the time consecutive writers' clocks moved forward.  A claim reports
  success exactly when it landed, with the tokens it left.\<close>

theorem token_accounting:
  assumes made: "new_TokenBucket rate capacity kv_ttl create_if_missing scope = Inr bucket"
    and reach: "cas_reachable skew (token_script bucket calls) w"
  shows "distinct (map fst (cw_log w))
    \<and> (\<forall>k. let log = key_log (tk_stored_key bucket calls) k (cw_log w) in
         total_claimed calls log \<le> capacity * of_nat (times_made log) + rate * refill_time log + total_refunded calls log
         \<and> (kv_ttl = None \<longrightarrow> times_made log \<le> 1))
    \<and> (\<forall>k v r. kv_view (cw_bucket w) k = Some (v, r) \<longrightarrow> (\<exists>t stamp. v = TokenState t stamp \<and> 0 \<le> t))
    \<and> (\<forall>c r. cw_calls w c = Some (Return (Inl r)) \<longrightarrow>
         (if tc_claimed r then \<exists>made now. (c, made, TokenState (tc_tokens_remaining r) now) \<in> set (cw_log w)
          else c \<notin> fst ` set (cw_log w)))"
proof -
  have "if tc_claimed r then \<exists>made now. (c, made, TokenState (tc_tokens_remaining r) now) \<in> set (cw_log w)
      else c \<notin> fst ` set (cw_log w)" if ret: "cw_calls w c = Some (Return (Inl r))" for c r
  proof -
    have "claim_post (map_option snd (map_of (cw_log w) c)) r"
      using tokens.returned_post [OF reach ret] by (cases "tk_op (calls c)") simp_all
    then consider made now where "tc_claimed r" "map_of (cw_log w) c = Some (made, TokenState (tc_tokens_remaining r) now)"
      | "\<not> tc_claimed r" "map_of (cw_log w) c = None"
      by (auto simp: claim_post_def split: if_splits)
    then show ?thesis
    proof cases
      case 1
      then show ?thesis using map_of_SomeD by fastforce
    next
      case 2
      then show ?thesis by (simp add: map_of_eq_None_iff)
    qed
  qed
  then show ?thesis
    using tokens.landed_once [OF reach] landed_total [OF made reach refl] unfolding Let_def by blast
qed


section \<open>A waiting claim ends\<close>

lemma attempt_never: "never_raises StillWaiting t (claim_attempt bucket backoff key tokens n)"
proof (induction n arbitrary: t)
  case (Suc n)
  let ?retry = "if n > 0 then Sleep (backoff n) (claim_attempt bucket backoff key tokens n)
    else claim_attempt bucket backoff key tokens n"
  have "never_raises StillWaiting t ?retry" for t using Suc by (auto intro: n_sleep n_raise)
  then have "never_raises StillWaiting t (consume bucket key tokens now ?retry current revision)" for t now current revision
    unfolding consume_def consumed_or_retry_def by (auto split: option.split sum.split intro!: never_raises.intros)
  then have "never_raises StillWaiting t (claim_entry bucket key tokens now ?retry x)" for t now x
    by (auto simp: claim_entry_def split: sum.split option.split intro!: n_raise elim: decode_state.elims simp del: if_split)
  then show ?case unfolding claim_attempt.simps claim_at_def by (intro n_now n_entry)
qed (simp add: n_raise)

lemma loop_never:
  assumes "0 < n" "case deadline of None \<Rightarrow> True | Some d \<Rightarrow> d - t < int n"
  shows "never_raises StillWaiting t (claim_loop bucket backoff key tokens deadline n)"
  using assms
proof (induction n arbitrary: t)
  case (Suc n)
  have "never_raises StillWaiting t' (claimed_or_wait deadline (claim_loop bucket backoff key tokens deadline n) r)"
    if "t \<le> t'" for t' r
  proof (cases deadline)
    case (Some d)
    have "never_raises StillWaiting (x + 1) (wait_or_return d (claim_loop bucket backoff key tokens deadline n) r x)"
      if "t' \<le> x" for x
      using Suc.IH [of "x + 1"] Suc.prems(2) that \<open>t \<le> t'\<close> Some
      by (auto simp: wait_or_return_def intro!: never_raises.intros)
    then show ?thesis using Some by (auto simp: claimed_or_wait_def intro!: never_raises.intros)
  qed (simp add: claimed_or_wait_def n_return)
  then show ?case unfolding claim_loop.simps by (rule never_raises_then [OF attempt_never])
qed simp

lemma token_ensure_never: "never_raises StillWaiting t k \<Longrightarrow> never_raises StillWaiting t (Ask (token_ensure_bucket k))"
  by (auto simp: token_ensure_bucket_def token_bucket_opened_def split: sum.split intro!: never_raises.intros)

lemma claim_never: "never_raises StillWaiting t (token_claim bucket backoff key tokens max_wait)"
  unfolding token_claim_def claim_until_def
  by (auto intro!: n_raise token_ensure_never n_now loop_never simp del: claim_loop.simps)

lemma refund_never: "never_raises StillWaiting t (token_refund bucket backoff key tokens)"
proof -
  have "never_raises StillWaiting t (refund_attempts bucket backoff k tokens n)" for k n t
  proof (induction n arbitrary: t)
    case (Suc n)
    let ?retry = "if n > 0 then Sleep (backoff n) (refund_attempts bucket backoff k tokens n)
      else refund_attempts bucket backoff k tokens n"
    have "never_raises StillWaiting t ?retry" for t using Suc by (auto intro: n_sleep n_return)
    then have "never_raises StillWaiting t (refund_entry bucket k tokens now ?retry x)" for t now x
      by (auto simp: refund_entry_def restored_or_retry_def Let_def split: sum.split option.split intro!: never_raises.intros
        simp del: if_split)
    then show ?case unfolding refund_attempts.simps refund_at_def by (intro n_now n_entry)
  qed (simp add: n_return)
  then show ?thesis
    by (auto simp: token_refund_def token_ensure_bucket_def token_bucket_opened_def split: sum.split intro!: never_raises.intros)
qed

lemma token_calls_never: "never_raises StillWaiting t (cc_prog (token_script bucket calls c))"
proof (cases "tk_op (calls c)")
  case (Claim tokens mw)
  then show ?thesis using never_raises_then [OF claim_never n_return] by (simp add: token_script_def)
next
  case (Refund tokens)
  then show ?thesis using never_raises_then [OF refund_never n_return] by (simp add: token_script_def)
qed

lemma token_ensure_ends: "ends_within n k \<Longrightarrow> ends_within (Suc (Suc (Suc n))) (Ask (token_ensure_bucket k))"
  using ends_within_mono [of n k "Suc (Suc n)"]
  by (auto simp: token_ensure_bucket_def token_bucket_opened_def split: sum.split intro!: e_ask e_opened e_modify e_raise)

lemma attempt_ends: "ends_within (4 * n) (claim_attempt bucket backoff key tokens n)"
proof (induction n)
  case (Suc n)
  let ?retry = "if n > 0 then Sleep (backoff n) (claim_attempt bucket backoff key tokens n)
    else claim_attempt bucket backoff key tokens n"
  have retry: "ends_within (Suc (4 * n)) ?retry" using Suc by (auto intro: e_sleep e_raise)
  have "ends_within (Suc (Suc (4 * n))) (consume bucket key tokens now ?retry current revision)" for now current revision
    unfolding consume_def consumed_or_retry_def using retry
    by (auto split: option.split sum.split intro!: e_create e_update e_return e_raise simp del: if_split)
  then have "ends_within (Suc (Suc (4 * n))) (claim_entry bucket key tokens now ?retry x)" for now x
    by (auto simp: claim_entry_def split: sum.split option.split intro!: e_raise simp del: if_split)
  then have "ends_within (Suc (Suc (Suc (Suc (4 * n))))) (claim_attempt bucket backoff key tokens (Suc n))"
    unfolding claim_attempt.simps claim_at_def by (intro e_now e_entry)
  then show ?case by (simp add: eval_nat_numeral)
qed (simp add: e_raise)

lemma loop_ends: "ends_within (122 * n) (claim_loop bucket backoff key tokens deadline n)"
proof (induction n)
  case (Suc n)
  have "ends_within (Suc (Suc (122 * n))) (claimed_or_wait deadline (claim_loop bucket backoff key tokens deadline n) r)" for r
    using Suc by (auto simp: claimed_or_wait_def wait_or_return_def split: option.split intro!: e_return e_now e_sleep)
  from ends_then [OF attempt_ends this] show ?case
    unfolding claim_loop.simps by (rule ends_within_mono) (simp add: TOKEN_CAS_MAX_RETRIES_def)
qed (simp add: e_raise)

lemma refund_ends: "ends_within (4 * n) (refund_attempts bucket backoff key tokens n)"
proof (induction n)
  case (Suc n)
  let ?retry = "if n > 0 then Sleep (backoff n) (refund_attempts bucket backoff key tokens n)
    else refund_attempts bucket backoff key tokens n"
  have retry: "ends_within (Suc (4 * n)) ?retry" using Suc by (auto intro: e_sleep e_return)
  then have "ends_within (Suc (Suc (4 * n))) (refund_entry bucket key tokens now ?retry x)" for now x
    by (auto simp: refund_entry_def restored_or_retry_def Let_def split: sum.split option.split
      intro!: e_return e_update simp del: if_split)
  then have "ends_within (Suc (Suc (Suc (Suc (4 * n))))) (refund_attempts bucket backoff key tokens (Suc n))"
    unfolding refund_attempts.simps refund_at_def by (intro e_now e_entry)
  then show ?case by (simp add: eval_nat_numeral)
qed (simp add: e_return)

fun token_call_steps :: "token_op \<Rightarrow> nat" where
  "token_call_steps (Claim _ max_wait) = 126 + 122 * nat max_wait"
| "token_call_steps (Refund _) = 123"

lemma token_prog_ends: "ends_within (token_call_steps op) (token_prog_of bucket backoff key op)"
proof (cases op)
  case (Claim tokens mw)
  have "ends_within (Suc (122 * Suc (nat mw))) (if mw > 0 then Now (claim_until bucket backoff k tokens mw)
      else claim_loop bucket backoff k tokens None 1)" for k
  proof (cases "mw > 0")
    case True
    have "ends_within (Suc (122 * Suc (nat mw))) (Now (claim_until bucket backoff k tokens mw))"
      unfolding claim_until_def by (intro e_now loop_ends)
    with True show ?thesis by (simp only: if_True)
  next
    case False
    have "ends_within (Suc (122 * Suc (nat mw))) (claim_loop bucket backoff k tokens None 1)"
      by (rule ends_within_mono [OF loop_ends]) simp
    with False show ?thesis by (simp only: if_False)
  qed
  from token_ensure_ends [OF this] have "ends_within (126 + 122 * nat mw) (token_claim bucket backoff key tokens mw)"
    by (auto simp: token_claim_def intro: e_raise)
  from ends_then [OF this e_return] show ?thesis unfolding Claim by (metis add_0_right token_call_steps.simps(1) token_prog_of.simps(1))
next
  case (Refund tokens)
  have "ends_within 120 (refund_attempts bucket backoff k tokens TOKEN_CAS_MAX_RETRIES)" for k
    using refund_ends [of TOKEN_CAS_MAX_RETRIES] by (simp add: TOKEN_CAS_MAX_RETRIES_def)
  moreover from this have "ends_within 122 (refund_attempts bucket backoff k tokens TOKEN_CAS_MAX_RETRIES)" for k
    by (rule ends_within_mono) simp
  ultimately have "ends_within 123 (token_refund bucket backoff key tokens)"
    by (auto simp: token_refund_def token_ensure_bucket_def token_bucket_opened_def split: sum.split
      intro!: e_return e_ask [of 122, simplified] e_opened [of 121, simplified] e_modify [of 120, simplified])
  from ends_then [OF this e_return] show ?thesis unfolding Refund by (metis add_0_right token_call_steps.simps(2) token_prog_of.simps(2))
qed

text \<open>C22: Every claim and refund ends.  A claim that waits n microseconds takes at most 126 + 122 n
  steps of its own and a refund 123, whatever the bucket answers and whatever runs in between; until it
  has returned or raised it can take another; and in no run does a waiting claim outlast its rounds.\<close>

theorem token_call_ends:
  assumes steps: "own_steps n (token_prog_of bucket backoff key op) q"
    and reach: "cas_reachable skew (token_script bucket calls) w"
  shows "n \<le> token_call_steps op \<and> ((\<exists>a. q = Return a) \<or> (\<exists>e. q = Raise e)
      \<or> (\<exists>q'. own_steps (Suc n) (token_prog_of bucket backoff key op) q'))
    \<and> cw_calls w c \<noteq> Some (Raise StillWaiting)"
proof -
  have "cw_calls w c \<noteq> Some (Raise StillWaiting)"
    using tokens.never_raised [OF reach token_calls_never, of c "Raise StillWaiting"] by (auto simp: never_raises_Raise)
  then show ?thesis using own_steps_bound [OF steps token_prog_ends] own_steps_end [OF steps] by blast
qed

section \<open>Concrete runs\<close>

lemma claim_code [code]:
  "consumed_or_retry new_tokens retry (Inl e) = Raise (TokenKvError e)"
  "consumed_or_retry new_tokens retry (Inr None) = retry"
  "consumed_or_retry new_tokens retry (Inr (Some r)) =
     Return \<lparr>tc_claimed = True, tc_tokens_remaining = new_tokens, tc_retry_after_seconds = 0\<rparr>"
  by (simp_all add: consumed_or_retry_def)

lemma claim_entry_code [code]:
  "claim_entry bucket key tokens now retry (Inl e) = Raise (TokenKvError e)"
  "claim_entry bucket key tokens now retry (Inr None) = consume bucket key tokens now retry (tb_capacity bucket) None"
  "claim_entry bucket key tokens now retry (Inr (Some (TokenState stored last_refill, revision))) =
     consume bucket key tokens now retry (refilled bucket stored last_refill now) (Some revision)"
  "claim_entry bucket key tokens now retry (Inr (Some (TokenBadBytes, revision))) = Raise TokenValueError"
  by (simp_all add: claim_entry_def)

lemma token_open_code [code]:
  "token_ensure_bucket k True = k"
  "token_ensure_bucket k False = DateCreated (token_bucket_opened k)"
  by (simp_all add: token_ensure_bucket_def)

lemma token_opened_code [code]:
  "token_bucket_opened k (Inl e) = Raise (TokenKvError e)"
  "token_bucket_opened k (Inr t) = Modify (\<lambda>_. True) k"
  by (simp_all add: token_bucket_opened_def)

text \<open>One clock, two tokens, one token a second.  Call 0 takes both tokens.  Call 1 reads the clock and is
  overtaken: two seconds later call 2 reads the clock, refills two tokens and takes one.  Call 1 then
  takes the other, stamps the state with its own, older instant, and call 3 refills the same two seconds
  again.\<close>

definition example_bucket :: TokenBucket where
  "example_bucket = \<lparr>tb_key_scope = None, tb_refill_rate = 1, tb_capacity = 2, tb_kv_ttl = None, tb_create_if_missing = True\<rparr>"

definition example_token_calls :: "nat \<Rightarrow> token_call" where
  "example_token_calls c =
     \<lparr>tk_pod = c, tk_key = ''global'', tk_op = Claim (if c = 0 \<or> c = 3 then 2 else 1) 0, tk_backoff = (\<lambda>_. 0)\<rparr>"

definition overtaken :: "(token_bytes, token_error, bool, TokenClaimResult + rat) cas_world" where
  "overtaken = fold (advance_call (\<lambda>_. 0) (token_script example_bucket example_token_calls))
     [0, 0, 0, 0, 0, 0, 0, 1, 1, 1, 1, 1] (cas_start 0 True (\<lambda>_. False))"

definition in_order :: "(token_bytes, token_error, bool, TokenClaimResult + rat) cas_world" where
  "in_order = fold (advance_call (\<lambda>_. 0) (token_script example_bucket example_token_calls))
     [2, 2, 2, 2, 2, 2, 2] (overtaken\<lparr>cw_bucket := kv_advance_clock (2 * SECOND) (cw_bucket overtaken)\<rparr>)"

definition overrun :: "(token_bytes, token_error, bool, TokenClaimResult + rat) cas_world" where
  "overrun = fold (advance_call (\<lambda>_. 0) (token_script example_bucket example_token_calls))
     [1, 1, 3, 3, 3, 3, 3, 3, 3] in_order"

lemma overrun_reachable:
  "cas_reachable (\<lambda>_. 0) (token_script example_bucket example_token_calls) in_order"
  "cas_reachable (\<lambda>_. 0) (token_script example_bucket example_token_calls) overrun"
proof -
  have "cas_reachable (\<lambda>_. 0) (token_script example_bucket example_token_calls) overtaken"
    unfolding overtaken_def by (intro schedule_reachable cas_reachable.start)
  then have "cas_reachable (\<lambda>_. 0) (token_script example_bucket example_token_calls)
      (overtaken\<lparr>cw_bucket := kv_advance_clock (2 * SECOND) (cw_bucket overtaken)\<rparr>)"
    by (rule cas_reachable.step [OF _ cas_step.time_passes]) (simp add: SECOND_def)
  then show first: "cas_reachable (\<lambda>_. 0) (token_script example_bucket example_token_calls) in_order"
    unfolding in_order_def by (rule schedule_reachable)
  show "cas_reachable (\<lambda>_. 0) (token_script example_bucket example_token_calls) overrun"
    unfolding overrun_def by (rule schedule_reachable [OF first])
qed

lemma example_bucket_new: "new_TokenBucket 1 2 None True None = Inr example_bucket"
  by (simp add: new_TokenBucket_def validated_key_scope_def example_bucket_def)

lemma in_order_log: "cw_log in_order = [(2, False, TokenState 1 2000002), (0, True, TokenState 0 0)]"
  by code_simp

lemma overrun_log: "cw_log overrun =
  [(3, False, TokenState 0 2000003), (1, False, TokenState 0 1), (2, False, TokenState 1 2000002), (0, True, TokenState 0 0)]"
  "kv_elapsed (cw_bucket overrun) = 2000004"
  by code_simp+

lemma example_key: "tk_stored_key example_bucket example_token_calls = (\<lambda>c. ''global'')"
  by (simp add: fun_eq_iff tk_stored_key_def example_bucket_def example_token_calls_def owner_scoped_key_def)

theorem token_accounting_witness:
  "key_log (tk_stored_key example_bucket example_token_calls) ''global'' (cw_log overrun) = cw_log overrun
   \<and> total_claimed example_token_calls (cw_log overrun)
     \<le> 2 * of_nat (times_made (cw_log overrun)) + 1 * refill_time (cw_log overrun) + total_refunded example_token_calls (cw_log overrun)
   \<and> times_made (cw_log overrun) = 1 \<and> total_claimed example_token_calls (cw_log overrun) = 6"
proof -
  have key: "key_log (tk_stored_key example_bucket example_token_calls) ''global'' (cw_log overrun) = cw_log overrun"
    by (simp add: key_log_def example_key)
  have "times_made (cw_log overrun) = 1 \<and> total_claimed example_token_calls (cw_log overrun) = 6"
    by (simp add: overrun_log example_token_calls_def)
  then show ?thesis
    using key token_accounting [OF example_bucket_new overrun_reachable(2)] unfolding Let_def by metis
qed


theorem token_call_ends_witness:
  "own_steps 0 (token_prog_of example_bucket (\<lambda>_. 0) ''global'' (Claim 1 5)) (token_prog_of example_bucket (\<lambda>_. 0) ''global'' (Claim 1 5))
   \<and> (\<exists>q'. own_steps 1 (token_prog_of example_bucket (\<lambda>_. 0) ''global'' (Claim 1 5)) q')
   \<and> cw_calls overrun 1 \<noteq> Some (Raise StillWaiting)"
proof -
  let ?p = "token_prog_of example_bucket (\<lambda>_. 0) ''global'' (Claim 1 5)"
  have start: "own_steps 0 ?p ?p" by (rule no_step)
  have "\<not> (\<exists>a. ?p = Return a)" "\<not> (\<exists>e. ?p = Raise e)" by (simp_all add: token_claim_def example_bucket_def)
  with start token_call_ends [OF start overrun_reachable(2), of 1] show ?thesis unfolding One_nat_def by blast
qed

text \<open>C37: The rate limit does not hold for every order of writes, even on one clock: calls that read it
  before they read the state can stamp a state with an instant before the one it carries, and the time in
  between refills twice.  Here six tokens are claimed from a bucket of two that gains one a second, in
  just over two seconds and without a refund.\<close>

theorem claims_overrun_one_clock:
  "\<exists>w. cas_reachable (\<lambda>_. 0) (token_script example_bucket example_token_calls) w
     \<and> tb_capacity example_bucket + tb_refill_rate example_bucket * seconds_of (kv_elapsed (cw_bucket w))
         + total_refunded example_token_calls (cw_log w)
       < total_claimed example_token_calls (cw_log w)"
proof (intro exI conjI)
  show "cas_reachable (\<lambda>_. 0) (token_script example_bucket example_token_calls) overrun" by (rule overrun_reachable)
  show "tb_capacity example_bucket + tb_refill_rate example_bucket * seconds_of (kv_elapsed (cw_bucket overrun))
      + total_refunded example_token_calls (cw_log overrun) < total_claimed example_token_calls (cw_log overrun)"
    by (simp add: overrun_log example_bucket_def example_token_calls_def seconds_of_def SECOND_def)
qed

end
