(* ===== verification/IamTokens.thy ===== *)
theory IamTokens
  imports Prelude
begin

text \<open>
  \<open>iam/tokens.py\<close>: the claims of a session token, the payload they are signed as, and the claims a
  verified payload is read back to.  A payload is an association list from claim names to JSON values.
  Signing and the check of a signature are parameters: a signer turns a payload into a token, a verifier
  a token into a payload or an error.  The lemmas show that what is minted verifies to what was minted,
  and what a verified token cannot carry.  All failures are one \<open>TokenError\<close>, as in the code.
\<close>

section \<open>Claims\<close>

datatype claim_value =
    CStr string
  | CInt int
  | CFloat rat
  | CBool bool
  | CNull
  | CList "claim_value list"
  | CObj "(string \<times> claim_value) list"

type_synonym payload = "(string \<times> claim_value) list"

datatype TokenType = ACCESS | REFRESH

definition BASE_CLAIMS :: "string list" where
  "BASE_CLAIMS = [''sub'', ''sid'', ''jti'', ''iss'', ''aud'', ''iat'', ''exp'', ''type'', ''auth_time'',
     ''step_up_window'', ''session_started_at'']"

definition OPTIONAL_CLAIMS :: "string list" where
  "OPTIONAL_CLAIMS = [''customer_id'', ''cnf'', ''act'', ''act_reason'', ''act_restriction'']"

definition KNOWN_CLAIMS :: "string list" where
  "KNOWN_CLAIMS = BASE_CLAIMS @ OPTIONAL_CLAIMS"

definition FORBIDDEN_CLAIMS :: "string list" where
  "FORBIDDEN_CLAIMS = [''admin'', ''authorities'', ''authorization'', ''entitlement'', ''entitlements'', ''grant'',
     ''grants'', ''group'', ''groups'', ''is_admin'', ''perm'', ''permission'', ''permissions'', ''privilege'',
     ''privileges'', ''role'', ''roles'', ''scope'', ''scopes'', ''scp'']"

record SessionClaims =
  sc_sub :: string
  sc_sid :: string
  sc_jti :: string
  sc_iss :: string
  sc_aud :: "string list"
  sc_iat :: int
  sc_exp :: int
  sc_type :: TokenType
  sc_auth_time :: int
  sc_step_up_window :: int
  sc_session_started_at :: int
  sc_customer_id :: "string option"
  sc_cnf :: "string option"
  sc_act :: "string option"
  sc_act_reason :: "string option"
  sc_act_restriction :: "string option"

definition is_impersonation :: "SessionClaims \<Rightarrow> bool" where
  "is_impersonation claims = (sc_act claims \<noteq> None)"

record TokenPair =
  tp_access_token :: string
  tp_refresh_token :: string
  tp_claims :: SessionClaims

datatype iam_error = TokenError

fun token_type_value :: "TokenType \<Rightarrow> string" where
  "token_type_value ACCESS = ''access''"
| "token_type_value REFRESH = ''refresh''"

definition TokenType_of :: "string \<Rightarrow> TokenType option" where
  "TokenType_of v = (if v = ''access'' then Some ACCESS else if v = ''refresh'' then Some REFRESH else None)"

section \<open>Minting\<close>

definition normalize_audience :: "string list \<Rightarrow> iam_error + string list" where
  "normalize_audience aud = (if aud = [] \<or> [] \<in> set aud then Inl TokenError else Inr aud)"

definition optional_claim :: "string \<Rightarrow> (string \<Rightarrow> claim_value) \<Rightarrow> string option \<Rightarrow> payload" where
  "optional_claim name f v = (case v of None \<Rightarrow> [] | Some s \<Rightarrow> [(name, f s)])"

definition session_payload :: "SessionClaims \<Rightarrow> payload" where
  "session_payload claims =
     [(''sub'', CStr (sc_sub claims)), (''sid'', CStr (sc_sid claims)), (''jti'', CStr (sc_jti claims)),
      (''iss'', CStr (sc_iss claims)),
      (''aud'', case sc_aud claims of [a] \<Rightarrow> CStr a | as \<Rightarrow> CList (map CStr as)),
      (''iat'', CInt (sc_iat claims)), (''exp'', CInt (sc_exp claims)),
      (''type'', CStr (token_type_value (sc_type claims))), (''auth_time'', CInt (sc_auth_time claims)),
      (''step_up_window'', CInt (sc_step_up_window claims)),
      (''session_started_at'', CInt (sc_session_started_at claims))]
     @ optional_claim ''customer_id'' CStr (sc_customer_id claims)
     @ optional_claim ''cnf'' (\<lambda>k. CObj [(''jkt'', CStr k)]) (sc_cnf claims)
     @ optional_claim ''act'' (\<lambda>s. CObj [(''sub'', CStr s)]) (sc_act claims)
     @ optional_claim ''act_reason'' CStr (sc_act_reason claims)
     @ optional_claim ''act_restriction'' CStr (sc_act_restriction claims)"

definition mint_session_token :: "(payload \<Rightarrow> string) \<Rightarrow> SessionClaims \<Rightarrow> iam_error + string" where
  "mint_session_token sign claims =
     and_then (normalize_audience (sc_aud claims)) (\<lambda>_.
       if length (sc_aud claims) \<noteq> 1 then Inl TokenError
       else let payload = session_payload claims
            in if \<exists>name \<in> set (map fst payload). name \<notin> set KNOWN_CLAIMS then Inl TokenError
               else Inr (sign payload))"

section \<open>Verification\<close>

definition require_nonempty_str :: "payload \<Rightarrow> string \<Rightarrow> iam_error + string" where
  "require_nonempty_str p claim =
     (case map_of p claim of Some (CStr v) \<Rightarrow> if v = [] then Inl TokenError else Inr v | _ \<Rightarrow> Inl TokenError)"

definition require_int :: "payload \<Rightarrow> string \<Rightarrow> iam_error + int" where
  "require_int p claim = (case map_of p claim of Some (CInt v) \<Rightarrow> Inr v | _ \<Rightarrow> Inl TokenError)"

definition optional_str :: "claim_value option \<Rightarrow> string option" where
  "optional_str v = (case v of Some (CStr s) \<Rightarrow> if s = [] then None else Some s | _ \<Rightarrow> None)"

fun str_item :: "claim_value \<Rightarrow> iam_error + string" where
  "str_item (CStr s) = Inr s"
| "str_item _ = Inl TokenError"

definition read_audience :: "claim_value option \<Rightarrow> iam_error + string list" where
  "read_audience v =
     (case v of
        Some (CStr a) \<Rightarrow> Inr [a]
      | Some (CList items) \<Rightarrow> if items = [] then Inl TokenError else all_ok (map str_item items)
      | _ \<Rightarrow> Inl TokenError)"

definition read_type :: "claim_value option \<Rightarrow> iam_error + TokenType" where
  "read_type v =
     (case v of
        Some (CStr s) \<Rightarrow> (case TokenType_of s of None \<Rightarrow> Inl TokenError | Some t \<Rightarrow> Inr t)
      | _ \<Rightarrow> Inl TokenError)"

definition nested_claim :: "claim_value option \<Rightarrow> string \<Rightarrow> claim_value option" where
  "nested_claim v name = (case v of Some (CObj entries) \<Rightarrow> map_of entries name | _ \<Rightarrow> None)"

definition payload_to_claims :: "payload \<Rightarrow> iam_error + SessionClaims" where
  "payload_to_claims p =
     and_then (read_type (map_of p ''type'')) (\<lambda>token_type.
     and_then (read_audience (map_of p ''aud'')) (\<lambda>audience.
     and_then (require_nonempty_str p ''sub'') (\<lambda>sub.
     and_then (require_nonempty_str p ''sid'') (\<lambda>sid.
     and_then (require_nonempty_str p ''jti'') (\<lambda>jti.
     and_then (require_nonempty_str p ''iss'') (\<lambda>iss.
     and_then (require_int p ''iat'') (\<lambda>iat.
     and_then (require_int p ''exp'') (\<lambda>exp.
     and_then (require_int p ''auth_time'') (\<lambda>auth_time.
     and_then (require_int p ''step_up_window'') (\<lambda>step_up_window.
     and_then (require_int p ''session_started_at'') (\<lambda>session_started_at.
       Inr \<lparr>sc_sub = sub, sc_sid = sid, sc_jti = jti, sc_iss = iss, sc_aud = audience, sc_iat = iat, sc_exp = exp,
            sc_type = token_type, sc_auth_time = auth_time, sc_step_up_window = step_up_window,
            sc_session_started_at = session_started_at, sc_customer_id = optional_str (map_of p ''customer_id''),
            sc_cnf = optional_str (nested_claim (map_of p ''cnf'') ''jkt''),
            sc_act = optional_str (nested_claim (map_of p ''act'') ''sub''),
            sc_act_reason = optional_str (map_of p ''act_reason''),
            sc_act_restriction = optional_str (map_of p ''act_restriction'')\<rparr>)))))))))))"

definition verify_session_token ::
  "(string \<Rightarrow> iam_error + payload) \<Rightarrow> TokenType \<Rightarrow> string \<Rightarrow> iam_error + SessionClaims" where
  "verify_session_token verify expected_type token =
     and_then (verify token) (\<lambda>payload.
       if \<exists>name \<in> set (map fst payload). name \<in> set FORBIDDEN_CLAIMS then Inl TokenError
       else and_then (payload_to_claims payload) (\<lambda>claims.
         if length (sc_aud claims) \<noteq> 1 then Inl TokenError
         else if sc_type claims \<noteq> expected_type then Inl TokenError
         else Inr claims))"

section \<open>Pairs\<close>

text \<open>Instants are microseconds; a claim holds whole seconds.  The two token ids are drawn by the caller.\<close>

definition timestamp_seconds :: "int \<Rightarrow> int" where
  "timestamp_seconds moment = moment div 1000000"

definition sole_audience :: "SessionClaims \<Rightarrow> iam_error + string" where
  "sole_audience claims = (case sc_aud claims of [a] \<Rightarrow> Inr a | _ \<Rightarrow> Inl TokenError)"

definition mint_token_pair ::
  "(payload \<Rightarrow> string) \<Rightarrow> string \<Rightarrow> string \<Rightarrow> string \<Rightarrow> string \<Rightarrow> string \<Rightarrow> string \<Rightarrow> int option \<Rightarrow> int \<Rightarrow> int option
    \<Rightarrow> string option \<Rightarrow> string option \<Rightarrow> string option \<Rightarrow> string option \<Rightarrow> string option
    \<Rightarrow> int \<Rightarrow> int \<Rightarrow> int \<Rightarrow> iam_error + TokenPair" where
  "mint_token_pair sign access_id refresh_id subject session_id issuer audience auth_time step_up_window session_started_at
     customer_id cnf act act_reason act_restriction access_ttl refresh_ttl issued =
     (let issued_at = timestamp_seconds issued;
          access_claims = \<lparr>sc_sub = subject, sc_sid = session_id, sc_jti = access_id, sc_iss = issuer, sc_aud = [audience],
            sc_iat = issued_at, sc_exp = timestamp_seconds (issued + access_ttl), sc_type = ACCESS,
            sc_auth_time = (case auth_time of None \<Rightarrow> issued_at | Some t \<Rightarrow> t),
            sc_step_up_window = step_up_window,
            sc_session_started_at = (case session_started_at of None \<Rightarrow> issued_at | Some t \<Rightarrow> t),
            sc_customer_id = customer_id, sc_cnf = cnf, sc_act = act, sc_act_reason = act_reason,
            sc_act_restriction = act_restriction\<rparr>;
          refresh_claims = access_claims\<lparr>sc_jti := refresh_id, sc_type := REFRESH,
            sc_exp := timestamp_seconds (issued + refresh_ttl)\<rparr>
      in and_then (mint_session_token sign access_claims) (\<lambda>access_token.
         and_then (mint_session_token sign refresh_claims) (\<lambda>refresh_token.
           Inr \<lparr>tp_access_token = access_token, tp_refresh_token = refresh_token, tp_claims = access_claims\<rparr>)))"

section \<open>Laws\<close>

text \<open>Claims a verifier reads back as they are: one audience, no empty text.\<close>

definition plain_claims :: "SessionClaims \<Rightarrow> bool" where
  "plain_claims claims \<longleftrightarrow> (\<exists>a. sc_aud claims = [a] \<and> a \<noteq> [])
     \<and> [] \<notin> {sc_sub claims, sc_sid claims, sc_jti claims, sc_iss claims}
     \<and> Some [] \<notin> {sc_customer_id claims, sc_cnf claims, sc_act claims, sc_act_reason claims, sc_act_restriction claims}"

lemma optional_claim_of:
  "map_of (optional_claim name f v) other = (if name = other then map_option f v else None)"
  by (simp add: optional_claim_def split: option.split)

lemma optional_claim_names: "fst ` set (optional_claim name f v) \<subseteq> {name}"
  by (cases v) (simp_all add: optional_claim_def)

lemma payload_names: "set (map fst (session_payload claims)) \<subseteq> set KNOWN_CLAIMS"
proof -
  have "fst ` set (optional_claim name f v) \<subseteq> set KNOWN_CLAIMS" if "name \<in> set OPTIONAL_CLAIMS" for name f v
    using that optional_claim_names [of name f v] by (auto simp: KNOWN_CLAIMS_def)
  then show ?thesis unfolding session_payload_def
    by (simp add: image_Un OPTIONAL_CLAIMS_def) (simp add: KNOWN_CLAIMS_def BASE_CLAIMS_def)
qed

lemma known_not_forbidden: "set KNOWN_CLAIMS \<inter> set FORBIDDEN_CLAIMS = {}"
  by code_simp

lemma token_type_value_of [simp]: "TokenType_of (token_type_value t) = Some t"
  by (cases t) (simp_all add: TokenType_of_def)

lemma optional_str_of [simp]: "v \<noteq> Some [] \<Longrightarrow> optional_str (map_option CStr v) = v"
  by (cases v) (auto simp: optional_str_def)

lemma nested_str_of: "v \<noteq> Some [] \<Longrightarrow> optional_str (nested_claim (map_option (\<lambda>s. CObj [(name, CStr s)]) v) name) = v"
  by (cases v) (auto simp: optional_str_def nested_claim_def)

lemma payload_round_trip:
  assumes "plain_claims claims"
  shows "payload_to_claims (session_payload claims) = Inr claims"
proof -
  obtain a where a: "sc_aud claims = [a]" using assms by (auto simp: plain_claims_def)
  let ?p = "session_payload claims"
  have strs: "require_nonempty_str ?p ''sub'' = Inr (sc_sub claims)" "require_nonempty_str ?p ''sid'' = Inr (sc_sid claims)"
    "require_nonempty_str ?p ''jti'' = Inr (sc_jti claims)" "require_nonempty_str ?p ''iss'' = Inr (sc_iss claims)"
    using assms by (auto simp: require_nonempty_str_def session_payload_def plain_claims_def)
  have ints: "require_int ?p ''iat'' = Inr (sc_iat claims)" "require_int ?p ''exp'' = Inr (sc_exp claims)"
    "require_int ?p ''auth_time'' = Inr (sc_auth_time claims)" "require_int ?p ''step_up_window'' = Inr (sc_step_up_window claims)"
    "require_int ?p ''session_started_at'' = Inr (sc_session_started_at claims)"
    by (auto simp: require_int_def session_payload_def)
  have tags: "read_type (map_of ?p ''type'') = Inr (sc_type claims)" "read_audience (map_of ?p ''aud'') = Inr (sc_aud claims)"
    by (simp_all add: session_payload_def read_type_def read_audience_def a)
  have opts: "map_of ?p ''customer_id'' = map_option CStr (sc_customer_id claims)"
    "map_of ?p ''cnf'' = map_option (\<lambda>k. CObj [(''jkt'', CStr k)]) (sc_cnf claims)"
    "map_of ?p ''act'' = map_option (\<lambda>s. CObj [(''sub'', CStr s)]) (sc_act claims)"
    "map_of ?p ''act_reason'' = map_option CStr (sc_act_reason claims)"
    "map_of ?p ''act_restriction'' = map_option CStr (sc_act_restriction claims)"
    by (simp_all add: session_payload_def map_add_def optional_claim_of split: option.split)
  have plain: "sc_customer_id claims \<noteq> Some []" "sc_cnf claims \<noteq> Some []" "sc_act claims \<noteq> Some []"
    "sc_act_reason claims \<noteq> Some []" "sc_act_restriction claims \<noteq> Some []"
    using assms unfolding plain_claims_def by auto
  show ?thesis
    unfolding payload_to_claims_def strs ints tags opts by (simp add: and_then_def plain nested_str_of)
qed

text \<open>C25: What is minted verifies to what was minted.  With a verifier that returns the payload the signer
  signed, a token minted from claims with one audience and no empty text verifies, as its own type and no
  other, to exactly those claims; and no token verifies that carries an authorization claim, two
  audiences, or another type than the one expected.\<close>

theorem mint_verify_round_trip:
  assumes plain: "plain_claims claims"
    and signed: "verify (sign (session_payload claims)) = Inr (session_payload claims)"
  shows "mint_session_token sign claims = Inr (sign (session_payload claims))
    \<and> (\<forall>t. verify_session_token verify t (sign (session_payload claims))
          = (if t = sc_type claims then Inr claims else Inl TokenError))
    \<and> (\<forall>token t read. verify_session_token verify t token = Inr read \<longrightarrow>
         sc_type read = t \<and> (\<exists>a. sc_aud read = [a])
         \<and> (\<exists>p. verify token = Inr p \<and> set (map fst p) \<inter> set FORBIDDEN_CLAIMS = {}))"
proof -
  obtain a where a: "sc_aud claims = [a]" "a \<noteq> []" using plain by (auto simp: plain_claims_def)
  have known: "\<not> (\<exists>name \<in> set (map fst (session_payload claims)). name \<notin> set KNOWN_CLAIMS)"
    "\<not> (\<exists>name \<in> set (map fst (session_payload claims)). name \<in> set FORBIDDEN_CLAIMS)"
    using payload_names [of claims] known_not_forbidden by blast+
  have "mint_session_token sign claims = Inr (sign (session_payload claims))"
    "verify_session_token verify t (sign (session_payload claims)) = (if t = sc_type claims then Inr claims else Inl TokenError)" for t
    unfolding mint_session_token_def verify_session_token_def Let_def signed payload_round_trip [OF plain] and_then_def
      normalize_audience_def sum.case if_not_P [OF known(1)] if_not_P [OF known(2)]
    by (auto simp: a)
  moreover have "sc_type read = t \<and> (\<exists>a. sc_aud read = [a])
      \<and> (\<exists>p. verify token = Inr p \<and> set (map fst p) \<inter> set FORBIDDEN_CLAIMS = {})"
    if "verify_session_token verify t token = Inr read" for token t read
    using that unfolding verify_session_token_def by (auto split: if_splits simp: length_Suc_conv)
  ultimately show ?thesis by blast
qed

definition example_session :: SessionClaims where
  "example_session = \<lparr>sc_sub = ''user'', sc_sid = ''s1'', sc_jti = ''j1'', sc_iss = ''hub'', sc_aud = [''internal''],
     sc_iat = 100, sc_exp = 1000, sc_type = REFRESH, sc_auth_time = 50, sc_step_up_window = 300,
     sc_session_started_at = 50, sc_customer_id = None, sc_cnf = Some ''key'', sc_act = Some ''admin'',
     sc_act_reason = Some ''support'', sc_act_restriction = Some ''read_only''\<rparr>"

theorem mint_verify_round_trip_witness:
  "plain_claims example_session
   \<and> mint_session_token (\<lambda>_. ''t'') example_session = Inr ''t''
   \<and> verify_session_token (\<lambda>_. Inr (session_payload example_session)) REFRESH ''t'' = Inr example_session
   \<and> verify_session_token (\<lambda>_. Inr (session_payload example_session)) ACCESS ''t'' = Inl TokenError"
proof -
  have "plain_claims example_session" by (simp add: plain_claims_def example_session_def)
  moreover have "sc_type example_session = REFRESH" by (simp add: example_session_def)
  ultimately show ?thesis
    using mint_verify_round_trip [of example_session "\<lambda>_. Inr (session_payload example_session)" "\<lambda>_. ''t''"] by simp
qed

text \<open>C40: A restriction that is not text is read as no restriction.  Whatever the rest of a payload is,
  giving its act_restriction a value of another JSON type verifies exactly as leaving it out does, so an
  impersonated session whose restriction the reader does not understand is an unrestricted one.\<close>

theorem malformed_restriction_ignored:
  assumes "\<forall>s. v \<noteq> CStr s"
  shows "payload_to_claims (AList.update ''act_restriction'' v p)
    = map_sum (\<lambda>e. e) (\<lambda>claims. claims\<lparr>sc_act_restriction := None\<rparr>) (payload_to_claims p)"
proof -
  have same: "map_of (AList.update ''act_restriction'' v p) name = map_of p name" if "name \<noteq> ''act_restriction''" for name
    using that by (simp add: update_conv')
  have none: "optional_str (map_of (AList.update ''act_restriction'' v p) ''act_restriction'') = None"
    using assms by (cases v) (simp_all add: update_conv' optional_str_def)
  show ?thesis
    unfolding payload_to_claims_def require_nonempty_str_def require_int_def none
    by (simp add: same and_then_def split: sum.split)
qed

theorem malformed_restriction_ignored_witness:
  "(\<forall>s. CList [CStr ''read_only''] \<noteq> CStr s)
   \<and> payload_to_claims (AList.update ''act_restriction'' (CList [CStr ''read_only'']) (session_payload example_session))
     = Inr (example_session\<lparr>sc_act_restriction := None\<rparr>)"
proof -
  have "plain_claims example_session" by (simp add: plain_claims_def example_session_def)
  from payload_round_trip [OF this] malformed_restriction_ignored [of "CList [CStr ''read_only'']" "session_payload example_session"]
  show ?thesis by simp
qed

end
