(* ===== verification/IamRotation.thy ===== *)
theory IamRotation
  imports IamTokens
begin

text \<open>
  \<open>iam/rotation.py\<close>: exchanging a refresh token for a new pair, with reuse detection.  A rotation is a
  coroutine over three stores the deployment supplies, the ledger of spent tokens, the session revoker and
  the replay-grace cache; it is kept as the tree of its store operations, so that any number of rotations
  of the same token interleave.  What the deployment's other callables answer (the proof of possession,
  the lifetime caps, the deny rules) is part of each request.  The locale \<open>token_stores\<close> is what
  \<open>rotation.py\<close> asks of the stores; the in-memory stores the package's tests run against are its
  interpretation.
\<close>

section \<open>Requests\<close>

text \<open>Why a refresh was refused; the code gives each its own message.\<close>

datatype rotation_error =
    Untrustworthy
  | SessionRevoked
  | AbsoluteLifetime
  | InactivityTimeout
  | GateRefused string
  | NotHolderBound
  | NoProof
  | ProofRefused
  | WrongKey
  | AlreadyUsed
  | MintFailed

text \<open>Durations and instants are microseconds.\<close>

record SessionLifetimeCaps =
  lc_absolute :: "int option"
  lc_inactivity :: "int option"

datatype LifetimeCapsSource = NoCaps | FixedCaps SessionLifetimeCaps | CapsFrom "SessionClaims \<Rightarrow> SessionLifetimeCaps"

datatype HolderKeySource = NoHolderKey | HolderKey string | HolderKeyFrom "string option"

record rotation_request =
  rr_refresh_token :: string
  rr_holder_key :: HolderKeySource
  rr_lifetime_caps :: LifetimeCapsSource
  rr_pre_redemption_checks :: "(SessionClaims \<Rightarrow> string option) list"
  rr_post_redemption_checks :: "(SessionClaims \<Rightarrow> string option) list"
  rr_access_id :: string
  rr_refresh_id :: string
  rr_now :: int

record rotation_deployment =
  rd_verify :: "string \<Rightarrow> iam_error + payload"
  rd_sign :: "payload \<Rightarrow> string"
  rd_revoker :: bool
  rd_replay_grace :: bool
  rd_access_ttl :: int
  rd_refresh_ttl :: int

section \<open>The coroutine\<close>

record ReplayGraceEntry =
  rg_pair :: TokenPair
  rg_holder_key :: string

datatype rotation_prog =
    Rotated TokenPair
  | Denied rotation_error
  | Lost
  | IsRevoked string "bool \<Rightarrow> rotation_prog"
  | Redeem string "bool \<Rightarrow> rotation_prog"
  | RevokeSession string rotation_prog
  | Recall string "ReplayGraceEntry option \<Rightarrow> rotation_prog"
  | Remember string ReplayGraceEntry rotation_prog

definition exceeds :: "int option \<Rightarrow> int \<Rightarrow> bool" where
  "exceeds cap seconds = (case cap of None \<Rightarrow> False | Some c \<Rightarrow> seconds * 1000000 > c)"

definition resolved_caps :: "LifetimeCapsSource \<Rightarrow> SessionClaims \<Rightarrow> SessionLifetimeCaps option" where
  "resolved_caps caps claims =
     (case caps of NoCaps \<Rightarrow> None | FixedCaps c \<Rightarrow> Some c | CapsFrom f \<Rightarrow> Some (f claims))"

definition enforce_lifetime_caps :: "SessionClaims \<Rightarrow> int \<Rightarrow> LifetimeCapsSource \<Rightarrow> rotation_error + unit" where
  "enforce_lifetime_caps claims moment caps =
     (case resolved_caps caps claims of
        None \<Rightarrow> Inr ()
      | Some c \<Rightarrow>
          let seconds_now = timestamp_seconds moment
          in if exceeds (lc_absolute c) (seconds_now - sc_session_started_at claims) then Inl AbsoluteLifetime
             else if exceeds (lc_inactivity c) (seconds_now - sc_iat claims) then Inl InactivityTimeout
             else Inr ())"

fun run_gates :: "(SessionClaims \<Rightarrow> string option) list \<Rightarrow> SessionClaims \<Rightarrow> rotation_error + unit" where
  "run_gates [] claims = Inr ()"
| "run_gates (gate # gates) claims =
     (case gate claims of Some reason \<Rightarrow> Inl (GateRefused reason) | None \<Rightarrow> run_gates gates claims)"

definition resolve_holder_binding :: "SessionClaims \<Rightarrow> HolderKeySource \<Rightarrow> rotation_error + string" where
  "resolve_holder_binding claims holder_key =
     (case sc_cnf claims of
        None \<Rightarrow> Inl NotHolderBound
      | Some cnf \<Rightarrow>
          (case holder_key of
             NoHolderKey \<Rightarrow> Inl NoProof
           | HolderKey thumbprint \<Rightarrow> if thumbprint \<noteq> cnf then Inl WrongKey else Inr cnf
           | HolderKeyFrom None \<Rightarrow> Inl ProofRefused
           | HolderKeyFrom (Some thumbprint) \<Rightarrow> if thumbprint \<noteq> cnf then Inl WrongKey else Inr cnf))"

definition or_denied :: "rotation_error + 'a \<Rightarrow> ('a \<Rightarrow> rotation_prog) \<Rightarrow> rotation_prog" where
  "or_denied x k = (case x of Inl e \<Rightarrow> Denied e | Inr a \<Rightarrow> k a)"

definition rotated_pair :: "rotation_deployment \<Rightarrow> rotation_request \<Rightarrow> SessionClaims \<Rightarrow> string \<Rightarrow> rotation_error + TokenPair" where
  "rotated_pair dep req claims cnf =
     (case and_then (sole_audience claims) (\<lambda>audience.
        mint_token_pair (rd_sign dep) (rr_access_id req) (rr_refresh_id req) (sc_sub claims) (sc_sid claims) (sc_iss claims)
          audience (Some (sc_auth_time claims)) (sc_step_up_window claims) (Some (sc_session_started_at claims))
          (sc_customer_id claims) (Some cnf) (sc_act claims) (sc_act_reason claims) (sc_act_restriction claims)
          (rd_access_ttl dep) (rd_refresh_ttl dep) (rr_now req)) of
        Inl e \<Rightarrow> Inl MintFailed
      | Inr pair \<Rightarrow> Inr pair)"

text \<open>Steps 7 and 8 of \<open>rotate_refresh_token\<close>: the token was spent by this call, or before it.\<close>

definition reuse_detected :: "rotation_deployment \<Rightarrow> SessionClaims \<Rightarrow> rotation_prog" where
  "reuse_detected dep claims =
     (if rd_revoker dep then RevokeSession (sc_sid claims) (Denied AlreadyUsed) else Denied AlreadyUsed)"

definition replayed_within_grace ::
  "rotation_deployment \<Rightarrow> rotation_request \<Rightarrow> SessionClaims \<Rightarrow> string \<Rightarrow> ReplayGraceEntry option \<Rightarrow> rotation_prog" where
  "replayed_within_grace dep req claims cnf entry =
     (case entry of
        None \<Rightarrow> reuse_detected dep claims
      | Some e \<Rightarrow>
          if rg_holder_key e \<noteq> cnf then reuse_detected dep claims
          else or_denied (run_gates (rr_post_redemption_checks req) claims) (\<lambda>_. Rotated (rg_pair e)))"

definition after_redeem ::
  "rotation_deployment \<Rightarrow> rotation_request \<Rightarrow> SessionClaims \<Rightarrow> string \<Rightarrow> bool \<Rightarrow> rotation_prog" where
  "after_redeem dep req claims cnf redeemed =
     (if \<not> redeemed
      then if rd_replay_grace dep then Recall (sc_jti claims) (replayed_within_grace dep req claims cnf)
           else reuse_detected dep claims
      else or_denied (run_gates (rr_post_redemption_checks req) claims) (\<lambda>_.
           or_denied (rotated_pair dep req claims cnf) (\<lambda>pair.
             if rd_replay_grace dep
             then Remember (sc_jti claims) \<lparr>rg_pair = pair, rg_holder_key = cnf\<rparr> (Rotated pair)
             else Rotated pair)))"

definition after_revocation_check ::
  "rotation_deployment \<Rightarrow> rotation_request \<Rightarrow> SessionClaims \<Rightarrow> bool \<Rightarrow> rotation_prog" where
  "after_revocation_check dep req claims revoked =
     (if revoked then Denied SessionRevoked
      else or_denied (enforce_lifetime_caps claims (rr_now req) (rr_lifetime_caps req)) (\<lambda>_.
           or_denied (run_gates (rr_pre_redemption_checks req) claims) (\<lambda>_.
           or_denied (resolve_holder_binding claims (rr_holder_key req)) (\<lambda>cnf.
             Redeem (sc_jti claims) (after_redeem dep req claims cnf)))))"

definition rotate_refresh_token :: "rotation_deployment \<Rightarrow> rotation_request \<Rightarrow> rotation_prog" where
  "rotate_refresh_token dep req =
     (case verify_session_token (rd_verify dep) REFRESH (rr_refresh_token req) of
        Inl e \<Rightarrow> Denied Untrustworthy
      | Inr claims \<Rightarrow>
          if rd_revoker dep then IsRevoked (sc_sid claims) (after_revocation_check dep req claims)
          else after_revocation_check dep req claims False)"

section \<open>The stores\<close>

record 's rotation_ops =
  ro_redeem :: "string \<Rightarrow> 's \<Rightarrow> bool \<times> 's"
  ro_revoke_session :: "string \<Rightarrow> 's \<Rightarrow> 's"
  ro_is_session_revoked :: "string \<Rightarrow> 's \<Rightarrow> bool"
  ro_remember :: "string \<Rightarrow> ReplayGraceEntry \<Rightarrow> 's \<Rightarrow> 's"
  ro_recall :: "string \<Rightarrow> 's \<Rightarrow> ReplayGraceEntry option"
  ro_forget :: "string \<Rightarrow> 's \<Rightarrow> 's"

definition rotation_prog_step :: "'s rotation_ops \<Rightarrow> rotation_prog \<Rightarrow> 's \<Rightarrow> (rotation_prog \<times> 's) option" where
  "rotation_prog_step ops p s =
     (case p of
        Rotated pair \<Rightarrow> None
      | Denied e \<Rightarrow> None
      | Lost \<Rightarrow> None
      | IsRevoked sid k \<Rightarrow> Some (k (ro_is_session_revoked ops sid s), s)
      | Redeem jti k \<Rightarrow> (let (redeemed, s') = ro_redeem ops jti s in Some (k redeemed, s'))
      | RevokeSession sid q \<Rightarrow> Some (q, ro_revoke_session ops sid s)
      | Recall jti k \<Rightarrow> Some (k (ro_recall ops jti s), s)
      | Remember jti entry q \<Rightarrow> Some (q, ro_remember ops jti entry s))"

text \<open>What the protocols of \<open>rotation.py\<close> ask: a token is spent once, by exactly one call; a revoked session
  stays revoked; a recall returns what was remembered, or nothing once the window has closed.\<close>

locale token_stores =
  fixes ops :: "'s rotation_ops" and spent :: "'s \<Rightarrow> string set" and revoked :: "'s \<Rightarrow> string set"
  assumes redeem_law: "ro_redeem ops j s = (b, s') \<Longrightarrow> (b \<longleftrightarrow> j \<notin> spent s) \<and> spent s' = insert j (spent s)
      \<and> revoked s' = revoked s \<and> (\<forall>i. ro_recall ops i s' = ro_recall ops i s)"
    and revoke_law: "spent (ro_revoke_session ops x s) = spent s \<and> revoked (ro_revoke_session ops x s) = insert x (revoked s)
      \<and> (\<forall>i. ro_recall ops i (ro_revoke_session ops x s) = ro_recall ops i s)"
    and is_revoked_law: "ro_is_session_revoked ops x s \<longleftrightarrow> x \<in> revoked s"
    and remember_law: "spent (ro_remember ops j e s) = spent s \<and> revoked (ro_remember ops j e s) = revoked s
      \<and> (\<forall>i. ro_recall ops i (ro_remember ops j e s) \<in> {if i = j then Some e else ro_recall ops i s, None})"
    and forget_law: "spent (ro_forget ops j s) = spent s \<and> revoked (ro_forget ops j s) = revoked s
      \<and> (\<forall>i. ro_recall ops i (ro_forget ops j s) \<in> {ro_recall ops i s, None})"

text \<open>The in-memory stores.\<close>

record memory_stores =
  ms_spent :: "string list"
  ms_revoked :: "string list"
  ms_entries :: "(string \<times> ReplayGraceEntry) list"

definition memory_redeem :: "string \<Rightarrow> memory_stores \<Rightarrow> bool \<times> memory_stores" where
  "memory_redeem jti s = (if jti \<in> set (ms_spent s) then (False, s) else (True, s\<lparr>ms_spent := jti # ms_spent s\<rparr>))"

definition memory_ops :: "memory_stores rotation_ops" where
  "memory_ops = \<lparr>ro_redeem = memory_redeem, ro_revoke_session = (\<lambda>sid s. s\<lparr>ms_revoked := sid # ms_revoked s\<rparr>),
     ro_is_session_revoked = (\<lambda>sid s. sid \<in> set (ms_revoked s)),
     ro_remember = (\<lambda>jti e s. s\<lparr>ms_entries := AList.update jti e (ms_entries s)\<rparr>),
     ro_recall = (\<lambda>jti s. map_of (ms_entries s) jti),
     ro_forget = (\<lambda>jti s. s\<lparr>ms_entries := AList.delete jti (ms_entries s)\<rparr>)\<rparr>"

interpretation memory: token_stores memory_ops "\<lambda>s. set (ms_spent s)" "\<lambda>s. set (ms_revoked s)"
  by unfold_locales (auto simp: memory_ops_def memory_redeem_def update_conv' delete_conv' split: if_splits)

section \<open>Rotations interleaved\<close>

text \<open>The world keeps the stores, the rotations and the pairs minted so far, newest first: by which rotation,
  for which presented token.  A rotation may die at any await, before or after its request took effect,
  and the grace cache may forget.\<close>

record 's rotation_world =
  rw_store :: 's
  rw_rotations :: "nat \<rightharpoonup> rotation_prog"
  rw_minted :: "(nat \<times> string \<times> TokenPair) list"

fun minted_by :: "rotation_prog \<Rightarrow> rotation_prog \<Rightarrow> (string \<times> TokenPair) list" where
  "minted_by (Redeem jti k) (Remember j e q) = [(jti, rg_pair e)]"
| "minted_by (Redeem jti k) (Rotated pair) = [(jti, pair)]"
| "minted_by p q = []"

inductive rotation_step ::
  "rotation_deployment \<Rightarrow> 's rotation_ops \<Rightarrow> (nat \<Rightarrow> rotation_request) \<Rightarrow> 's rotation_world \<Rightarrow> 's rotation_world \<Rightarrow> bool"
  for dep ops reqs where
  presented: "rw_rotations w c = None \<Longrightarrow>
    rotation_step dep ops reqs w (w\<lparr>rw_rotations := (rw_rotations w)(c \<mapsto> rotate_refresh_token dep (reqs c))\<rparr>)"
| runs: "rw_rotations w c = Some p \<Longrightarrow> rotation_prog_step ops p (rw_store w) = Some (q, s) \<Longrightarrow>
    rotation_step dep ops reqs w
      (w\<lparr>rw_store := s, rw_rotations := (rw_rotations w)(c \<mapsto> q), rw_minted := map (Pair c) (minted_by p q) @ rw_minted w\<rparr>)"
| answer_lost: "rw_rotations w c = Some p \<Longrightarrow> rotation_prog_step ops p (rw_store w) = Some (q, s) \<Longrightarrow>
    rotation_step dep ops reqs w (w\<lparr>rw_store := s, rw_rotations := (rw_rotations w)(c \<mapsto> Lost)\<rparr>)"
| dies: "rw_rotations w c = Some p \<Longrightarrow> rotation_step dep ops reqs w (w\<lparr>rw_rotations := (rw_rotations w)(c \<mapsto> Lost)\<rparr>)"
| forgets: "rotation_step dep ops reqs w (w\<lparr>rw_store := ro_forget ops j (rw_store w)\<rparr>)"

inductive rotation_reachable ::
  "rotation_deployment \<Rightarrow> 's rotation_ops \<Rightarrow> (nat \<Rightarrow> rotation_request) \<Rightarrow> 's \<Rightarrow> 's rotation_world \<Rightarrow> bool"
  for dep ops reqs s0 where
  start: "rotation_reachable dep ops reqs s0 \<lparr>rw_store = s0, rw_rotations = Map.empty, rw_minted = []\<rparr>"
| step: "rotation_reachable dep ops reqs s0 w \<Longrightarrow> rotation_step dep ops reqs w w' \<Longrightarrow> rotation_reachable dep ops reqs s0 w'"

section \<open>Every token exchanged once\<close>

text \<open>A request whose token verifies, and whose proven key is the one the token is bound to.\<close>

definition verified :: "rotation_deployment \<Rightarrow> rotation_request \<Rightarrow> SessionClaims \<Rightarrow> bool" where
  "verified dep req claims \<longleftrightarrow> verify_session_token (rd_verify dep) REFRESH (rr_refresh_token req) = Inr claims"

definition proven :: "rotation_deployment \<Rightarrow> rotation_request \<Rightarrow> SessionClaims \<Rightarrow> string \<Rightarrow> bool" where
  "proven dep req claims cnf \<longleftrightarrow> verified dep req claims \<and> resolve_holder_binding claims (rr_holder_key req) = Inr cnf"

definition presents_key :: "HolderKeySource \<Rightarrow> string \<Rightarrow> bool" where
  "presents_key source key \<longleftrightarrow> source = HolderKey key \<or> source = HolderKeyFrom (Some key)"

lemma proven_key:
  assumes "proven dep req claims cnf"
  shows "sc_cnf claims = Some cnf" "presents_key (rr_holder_key req) cnf"
  using assms by (auto simp: proven_def resolve_holder_binding_def presents_key_def
      split: option.splits HolderKeySource.splits if_splits)

text \<open>The same session, further on: everything but the token's own id, type and times.\<close>

definition continues :: "SessionClaims \<Rightarrow> SessionClaims \<Rightarrow> bool" where
  "continues claims next \<longleftrightarrow> next = claims\<lparr>sc_jti := sc_jti next, sc_iat := sc_iat next, sc_exp := sc_exp next, sc_type := ACCESS\<rparr>"

lemma rotated_pair_continues:
  assumes "proven dep req claims cnf" "rotated_pair dep req claims cnf = Inr pair"
  shows "continues claims (tp_claims pair)"
proof -
  obtain audience where "sc_aud claims = [audience]"
    using assms(2) by (auto simp: rotated_pair_def sole_audience_def and_then_def split: sum.splits list.splits)
  then show ?thesis using assms(2) proven_key(1) [OF assms(1)]
    by (auto simp: rotated_pair_def sole_audience_def mint_token_pair_def Let_def continues_def and_then_def
        split: sum.splits)
qed

context token_stores
begin

definition minted_ok where
  "minted_ok dep reqs s minted \<longleftrightarrow> distinct (map (fst \<circ> snd) minted)
     \<and> (\<forall>c j pair. (c, j, pair) \<in> set minted \<longrightarrow> j \<in> spent s
          \<and> (\<exists>claims cnf. proven dep (reqs c) claims cnf \<and> sc_jti claims = j \<and> rotated_pair dep (reqs c) claims cnf = Inr pair))
     \<and> (\<forall>j e. ro_recall ops j s = Some e \<longrightarrow>
          (\<exists>c claims. (c, j, rg_pair e) \<in> set minted \<and> proven dep (reqs c) claims (rg_holder_key e) \<and> sc_jti claims = j))"

definition rotation_ok where
  "rotation_ok dep reqs s minted c p \<longleftrightarrow>
     (case p of
        IsRevoked sid k \<Rightarrow> \<exists>claims. verified dep (reqs c) claims \<and> k = after_revocation_check dep (reqs c) claims
      | Redeem j k \<Rightarrow> \<exists>claims cnf. proven dep (reqs c) claims cnf \<and> j = sc_jti claims \<and> k = after_redeem dep (reqs c) claims cnf
      | RevokeSession sid q \<Rightarrow> \<exists>claims. verified dep (reqs c) claims \<and> sid = sc_sid claims \<and> q = Denied AlreadyUsed
      | Recall j k \<Rightarrow> \<exists>claims cnf. proven dep (reqs c) claims cnf \<and> j = sc_jti claims \<and> k = replayed_within_grace dep (reqs c) claims cnf
      | Remember j e q \<Rightarrow> \<exists>claims. proven dep (reqs c) claims (rg_holder_key e) \<and> j = sc_jti claims
          \<and> (c, j, rg_pair e) \<in> set minted \<and> q = Rotated (rg_pair e)
      | Rotated pair \<Rightarrow> \<exists>claims cnf c' claims'. proven dep (reqs c) claims cnf \<and> (c', sc_jti claims, pair) \<in> set minted
          \<and> proven dep (reqs c') claims' cnf \<and> sc_jti claims' = sc_jti claims
      | Denied e \<Rightarrow> e = AlreadyUsed \<longrightarrow> rd_revoker dep \<longrightarrow> (\<exists>claims. verified dep (reqs c) claims \<and> sc_sid claims \<in> revoked s)
      | Lost \<Rightarrow> True)"

definition rotation_inv where
  "rotation_inv dep reqs s0 w \<longleftrightarrow> minted_ok dep reqs (rw_store w) (rw_minted w)
     \<and> (\<forall>c p. rw_rotations w c = Some p \<longrightarrow> rotation_ok dep reqs (rw_store w) (rw_minted w) c p)
     \<and> spent s0 \<subseteq> spent (rw_store w)
     \<and> (\<forall>j \<in> spent (rw_store w). j \<in> spent s0 \<or> (\<exists>c claims cnf. proven dep (reqs c) claims cnf \<and> sc_jti claims = j))"

lemma rotation_ok_mono:
  assumes "rotation_ok dep reqs s minted c p" "revoked s \<subseteq> revoked s'" "set minted \<subseteq> set minted'"
  shows "rotation_ok dep reqs s' minted' c p"
  using assms unfolding rotation_ok_def by (cases p) (fastforce simp: subset_iff)+

lemma or_denied_ok:
  assumes "\<And>e. x = Inl e \<Longrightarrow> e \<noteq> AlreadyUsed" "\<And>a. x = Inr a \<Longrightarrow> rotation_ok dep reqs s minted c (k a)"
  shows "rotation_ok dep reqs s minted c (or_denied x k)"
  using assms by (auto simp: or_denied_def rotation_ok_def split: sum.split)

lemma gates_not_used: "run_gates gates claims = Inl e \<Longrightarrow> e \<noteq> AlreadyUsed"
  by (induction gates) (auto split: option.splits)

lemma caps_not_used: "enforce_lifetime_caps claims moment caps = Inl e \<Longrightarrow> e \<noteq> AlreadyUsed"
  by (auto simp: enforce_lifetime_caps_def Let_def split: option.splits if_splits)

lemma binding_not_used: "resolve_holder_binding claims key = Inl e \<Longrightarrow> e \<noteq> AlreadyUsed"
  by (auto simp: resolve_holder_binding_def split: option.splits HolderKeySource.splits if_splits)

lemma revocation_check_ok:
  assumes "verified dep (reqs c) claims"
  shows "rotation_ok dep reqs s minted c (after_revocation_check dep (reqs c) claims b)"
proof (cases b)
  case False
  have "rotation_ok dep reqs s minted c (Redeem (sc_jti claims) (after_redeem dep (reqs c) claims cnf))"
    if "resolve_holder_binding claims (rr_holder_key (reqs c)) = Inr cnf" for cnf
    using assms that by (auto simp: rotation_ok_def proven_def)
  then show ?thesis unfolding after_revocation_check_def using False
    by (auto intro!: or_denied_ok dest: gates_not_used caps_not_used binding_not_used)
qed (simp add: after_revocation_check_def rotation_ok_def)

lemma rotate_ok: "rotation_ok dep reqs s minted c (rotate_refresh_token dep (reqs c))"
proof (cases "verify_session_token (rd_verify dep) REFRESH (rr_refresh_token (reqs c))")
  case (Inr claims)
  then have v: "verified dep (reqs c) claims" by (simp add: verified_def)
  then have "rotation_ok dep reqs s minted c (IsRevoked (sc_sid claims) (after_revocation_check dep (reqs c) claims))"
    by (auto simp: rotation_ok_def)
  then show ?thesis using Inr revocation_check_ok [of dep reqs c claims, OF v] by (simp add: rotate_refresh_token_def)
qed (simp add: rotate_refresh_token_def rotation_ok_def)

lemma reuse_ok: "verified dep (reqs c) claims \<Longrightarrow> rotation_ok dep reqs s minted c (reuse_detected dep claims)"
  by (auto simp: reuse_detected_def rotation_ok_def)

lemma replay_ok:
  assumes ok: "minted_ok dep reqs s minted" and p: "proven dep (reqs c) claims cnf" and e: "ro_recall ops (sc_jti claims) s = entry"
  shows "rotation_ok dep reqs s minted c (replayed_within_grace dep (reqs c) claims cnf entry)"
proof (cases "\<exists>e. entry = Some e \<and> rg_holder_key e = cnf")
  case True
  then obtain e where e': "entry = Some e" "rg_holder_key e = cnf" by blast
  then obtain c' claims' where "(c', sc_jti claims, rg_pair e) \<in> set minted" "proven dep (reqs c') claims' cnf"
    "sc_jti claims' = sc_jti claims"
    using ok e unfolding minted_ok_def by metis
  then have "rotation_ok dep reqs s minted c (Rotated (rg_pair e))" using p by (auto simp: rotation_ok_def)
  then show ?thesis using e' by (auto simp: replayed_within_grace_def intro!: or_denied_ok dest: gates_not_used)
next
  case False
  then show ?thesis using reuse_ok [of dep reqs c claims] p by (auto simp: replayed_within_grace_def proven_def split: option.split)
qed

lemma redeemed_cases:
  obtains e where "after_redeem dep req claims cnf True = Denied e" "e \<noteq> AlreadyUsed"
  | pair where "rotated_pair dep req claims cnf = Inr pair"
      "after_redeem dep req claims cnf True = Remember (sc_jti claims) \<lparr>rg_pair = pair, rg_holder_key = cnf\<rparr> (Rotated pair)
        \<or> after_redeem dep req claims cnf True = Rotated pair"
proof (cases "run_gates (rr_post_redemption_checks req) claims")
  case (Inl e)
  then show ?thesis using that(1) gates_not_used by (simp add: after_redeem_def or_denied_def)
next
  case (Inr u)
  then show ?thesis
    using that by (cases "rotated_pair dep req claims cnf") (auto simp: after_redeem_def or_denied_def rotated_pair_def split: sum.splits)
qed

lemma minted_ok_store:
  assumes "minted_ok dep reqs s minted" "spent s \<subseteq> spent s'" "\<And>j e. ro_recall ops j s' = Some e \<Longrightarrow> ro_recall ops j s = Some e"
  shows "minted_ok dep reqs s' minted"
  using assms unfolding minted_ok_def by blast

lemma minted_ok_Cons:
  assumes "minted_ok dep reqs s minted" "j \<notin> spent s" "j \<in> spent s'" "spent s \<subseteq> spent s'"
    "\<And>j e. ro_recall ops j s' = Some e \<Longrightarrow> ro_recall ops j s = Some e"
    "proven dep (reqs c) claims cnf" "sc_jti claims = j" "rotated_pair dep (reqs c) claims cnf = Inr pair"
  shows "minted_ok dep reqs s' ((c, j, pair) # minted)"
proof -
  have "j \<notin> set (map (fst \<circ> snd) minted)" using assms(1,2) by (force simp: minted_ok_def)
  moreover have old: "minted_ok dep reqs s' minted" by (rule minted_ok_store [OF assms(1,4)]) (rule assms(5))
  ultimately have "distinct (map (fst \<circ> snd) ((c, j, pair) # minted))" by (simp add: minted_ok_def)
  moreover have "i \<in> spent s' \<and> (\<exists>claims cnf. proven dep (reqs d) claims cnf \<and> sc_jti claims = i
      \<and> rotated_pair dep (reqs d) claims cnf = Inr x)" if "(d, i, x) \<in> set ((c, j, pair) # minted)" for d i x
  proof (cases "(d, i, x) = (c, j, pair)")
    case True
    then show ?thesis using assms(3,6-8) by auto
  next
    case False
    then have "(d, i, x) \<in> set minted" using that by auto
    then show ?thesis using old unfolding minted_ok_def by blast
  qed
  moreover have "\<exists>d claims. (d, i, rg_pair e) \<in> set ((c, j, pair) # minted) \<and> proven dep (reqs d) claims (rg_holder_key e)
      \<and> sc_jti claims = i" if "ro_recall ops i s' = Some e" for i e
    using that old unfolding minted_ok_def by (meson list.set_intros(2))
  ultimately show ?thesis unfolding minted_ok_def by blast
qed

lemma inv_moves:
  assumes inv: "rotation_inv dep reqs s0 w" and p: "rw_rotations w c = Some p"
    and minted: "minted_ok dep reqs s minted" "set (rw_minted w) \<subseteq> set minted"
    and s: "revoked (rw_store w) \<subseteq> revoked s" "spent (rw_store w) \<subseteq> spent s"
      "\<And>j. j \<in> spent s \<Longrightarrow> j \<in> spent (rw_store w) \<or> (\<exists>c claims cnf. proven dep (reqs c) claims cnf \<and> sc_jti claims = j)"
    and q: "rotation_ok dep reqs s minted c q"
  shows "rotation_inv dep reqs s0 (w\<lparr>rw_store := s, rw_rotations := (rw_rotations w)(c \<mapsto> q), rw_minted := minted\<rparr>)"
proof -
  have "rotation_ok dep reqs s minted c' p'" if "((rw_rotations w)(c \<mapsto> q)) c' = Some p'" for c' p'
    using that q inv rotation_ok_mono [OF _ s(1) minted(2)] by (auto simp: rotation_inv_def split: if_splits)
  moreover have "j \<in> spent s0 \<or> (\<exists>c claims cnf. proven dep (reqs c) claims cnf \<and> sc_jti claims = j)" if "j \<in> spent s" for j
    using s(3) [OF that] inv by (auto simp: rotation_inv_def)
  ultimately show ?thesis using inv minted(1) s(2) by (auto simp: rotation_inv_def)
qed

lemma inv_runs:
  assumes inv: "rotation_inv dep reqs s0 w" and p: "rw_rotations w c = Some p"
    and st: "rotation_prog_step ops p (rw_store w) = Some (q, s)"
  shows "rotation_inv dep reqs s0 (w\<lparr>rw_store := s, rw_rotations := (rw_rotations w)(c \<mapsto> q),
      rw_minted := map (Pair c) (minted_by p q) @ rw_minted w\<rparr>)"
proof -
  let ?s = "rw_store w" and ?m = "rw_minted w"
  have ok: "rotation_ok dep reqs ?s ?m c p" and m: "minted_ok dep reqs ?s ?m" using inv p by (auto simp: rotation_inv_def)
  note moves = inv_moves [OF inv p]
  show ?thesis
  proof (cases p)
    case (Redeem j k)
    obtain claims cnf where pr: "proven dep (reqs c) claims cnf" "j = sc_jti claims" "k = after_redeem dep (reqs c) claims cnf"
      using ok Redeem by (auto simp: rotation_ok_def)
    obtain b where b: "ro_redeem ops j ?s = (b, s)" "q = k b" using st Redeem by (auto simp: rotation_prog_step_def split: prod.splits)
    note law = redeem_law [OF b(1)]
    have m': "minted_ok dep reqs s ?m" by (rule minted_ok_store [OF m]) (use law in auto)
    have s: "revoked ?s \<subseteq> revoked s" "spent ?s \<subseteq> spent s" using law by auto
    have "i \<in> spent ?s \<or> i = sc_jti claims" if "i \<in> spent s" for i using law that pr(2) by auto
    then have s3: "i \<in> spent ?s \<or> (\<exists>c claims cnf. proven dep (reqs c) claims cnf \<and> sc_jti claims = i)" if "i \<in> spent s" for i
      using that pr(1) by metis
    note s = s s3
    show ?thesis
    proof (cases b)
      case False
      have "rotation_ok dep reqs s ?m c q"
        using pr b False reuse_ok [of dep reqs c claims] by (auto simp: after_redeem_def rotation_ok_def [of _ _ _ _ _ "Recall _ _"] proven_def)
      moreover have "minted_by p q = []"
        using b pr False by (auto simp: Redeem after_redeem_def reuse_detected_def)
      ultimately show ?thesis using moves [OF m' order_refl s] by simp
    next
      case True
      show ?thesis
      proof (cases rule: redeemed_cases [of dep "reqs c" claims cnf])
        case (1 e)
        then have "q = Denied e" using b pr True by simp
        then show ?thesis using moves [OF m' order_refl s] 1 by (simp add: Redeem rotation_ok_def)
      next
        case (2 pair)
        have m2: "minted_ok dep reqs s ((c, j, pair) # ?m)"
          by (rule minted_ok_Cons [OF m _ _ _ _ pr(1) _ 2(1)]) (use law True pr(2) in auto)
        have "minted_by p q = [(j, pair)]" using 2 b pr True by (auto simp: Redeem)
        moreover have "rotation_ok dep reqs s ((c, j, pair) # ?m) c (Rotated pair)"
          unfolding rotation_ok_def rotation_prog.case
          by (intro exI [of _ claims] exI [of _ cnf] exI [of _ c] conjI pr(1) refl) (simp add: pr(2))
        then have "rotation_ok dep reqs s ((c, j, pair) # ?m) c q"
          using 2(2) b pr True by (auto simp: rotation_ok_def [of _ _ _ _ _ "Remember _ _ _"])
        ultimately show ?thesis using moves [OF m2 _ s] by auto
      qed
    qed
  next
    case (Remember j e q')
    then have s': "s = ro_remember ops j e ?s" and q: "q = q'" using st by (auto simp: rotation_prog_step_def)
    obtain claims where pr: "proven dep (reqs c) claims (rg_holder_key e)" "j = sc_jti claims" "(c, j, rg_pair e) \<in> set ?m" "q' = Rotated (rg_pair e)"
      using ok Remember by (auto simp: rotation_ok_def)
    have law: "spent s = spent ?s" "revoked s = revoked ?s"
      using remember_law [of j e ?s] s' by simp_all
    have rec: "ro_recall ops i ?s = Some x \<or> i = j \<and> x = e" if "ro_recall ops i s = Some x" for i x
    proof -
      have "ro_recall ops i s \<in> {if i = j then Some e else ro_recall ops i ?s, None}" using remember_law [of j e ?s] s' by simp
      then show ?thesis using that by (auto split: if_splits)
    qed
    have "minted_ok dep reqs s ?m" using m pr law rec unfolding minted_ok_def by metis
    moreover have "rotation_ok dep reqs s ?m c q" using pr q by (auto simp: rotation_ok_def)
    ultimately show ?thesis using moves [of s ?m q] law by (simp add: Remember)
  next
    case (RevokeSession sid q')
    then have s': "s = ro_revoke_session ops sid ?s" and q: "q = q'" using st by (auto simp: rotation_prog_step_def)
    note law = revoke_law [of sid ?s, folded s']
    have "minted_ok dep reqs s ?m" using minted_ok_store [OF m, of s] law by simp
    moreover have "rotation_ok dep reqs s ?m c q" using ok RevokeSession q law by (auto simp: rotation_ok_def)
    ultimately show ?thesis using moves [of s ?m q] law by (auto simp: RevokeSession)
  next
    case (IsRevoked sid k)
    then have "s = ?s" "rotation_ok dep reqs s ?m c q"
      using st ok revocation_check_ok by (auto simp: rotation_prog_step_def rotation_ok_def [of _ _ _ _ _ "IsRevoked _ _"])
    then show ?thesis using moves [of s ?m q] m by (simp add: IsRevoked)
  next
    case (Recall j k)
    then have "s = ?s" "rotation_ok dep reqs s ?m c q"
      using st ok replay_ok [OF m] by (auto simp: rotation_prog_step_def rotation_ok_def [of _ _ _ _ _ "Recall _ _"])
    then show ?thesis using moves [of s ?m q] m by (simp add: Recall)
  qed (use st in \<open>auto simp: rotation_prog_step_def\<close>)
qed

lemma inv_lost: "rotation_inv dep reqs s0 w \<Longrightarrow> rotation_inv dep reqs s0 (w\<lparr>rw_rotations := (rw_rotations w)(c \<mapsto> Lost)\<rparr>)"
  by (auto simp: rotation_inv_def rotation_ok_def)

text \<open>A request that took effect and whose answer was lost leaves the stores as a step does, and no pair.\<close>

lemma inv_answer_lost:
  assumes inv: "rotation_inv dep reqs s0 w" and p: "rw_rotations w c = Some p"
    and st: "rotation_prog_step ops p (rw_store w) = Some (q, s)"
  shows "rotation_inv dep reqs s0 (w\<lparr>rw_store := s, rw_rotations := (rw_rotations w)(c \<mapsto> Lost)\<rparr>)"
proof -
  have next_inv: "rotation_inv dep reqs s0 (w\<lparr>rw_store := s, rw_rotations := (rw_rotations w)(c \<mapsto> q),
      rw_minted := map (Pair c) (minted_by p q) @ rw_minted w\<rparr>)" by (rule inv_runs [OF inv p st])
  have rec: "minted_ok dep reqs s (rw_minted w)"
  proof (cases p)
    case (Redeem j k)
    then obtain b where "ro_redeem ops j (rw_store w) = (b, s)" using st by (auto simp: rotation_prog_step_def split: prod.splits)
    note law = redeem_law [OF this]
    have "minted_ok dep reqs (rw_store w) (rw_minted w)" using inv by (simp add: rotation_inv_def)
    then show ?thesis by (rule minted_ok_store) (use law in \<open>auto simp only:\<close>)
  qed (use next_inv in \<open>simp_all add: rotation_inv_def\<close>)
  have s: "revoked (rw_store w) \<subseteq> revoked s"
  proof (cases p)
    case (Redeem j k)
    then obtain b where "ro_redeem ops j (rw_store w) = (b, s)" using st by (auto simp: rotation_prog_step_def split: prod.splits)
    from redeem_law [OF this] show ?thesis by simp
  next
    case (RevokeSession sid q')
    then show ?thesis using st revoke_law [of sid "rw_store w"] by (auto simp: rotation_prog_step_def)
  next
    case (Remember j e q')
    then show ?thesis using st remember_law [of j e "rw_store w"] by (auto simp: rotation_prog_step_def)
  qed (use st in \<open>auto simp: rotation_prog_step_def\<close>)
  have lost: "rotation_ok dep reqs s (rw_minted w) c Lost" by (simp add: rotation_ok_def)
  have "rotation_ok dep reqs s (rw_minted w) c' p'" if "((rw_rotations w)(c \<mapsto> Lost)) c' = Some p'" for c' p'
  proof (cases "c' = c")
    case True
    then show ?thesis using that lost by simp
  next
    case False
    then have "rotation_ok dep reqs (rw_store w) (rw_minted w) c' p'" using that inv by (simp add: rotation_inv_def)
    then show ?thesis by (rule rotation_ok_mono [OF _ s order_refl])
  qed
  then show ?thesis using rec next_inv unfolding rotation_inv_def by simp
qed

lemma inv_step:
  assumes "rotation_step dep ops reqs w w'" "rotation_inv dep reqs s0 w"
  shows "rotation_inv dep reqs s0 w'"
  using assms
proof cases
  case (presented c)
  then show ?thesis using assms(2) rotate_ok by (auto simp: rotation_inv_def)
next
  case (runs c p q s)
  then show ?thesis using inv_runs [OF assms(2) runs(2,3)] by simp
next
  case (answer_lost c p q s)
  show ?thesis unfolding answer_lost(1) by (rule inv_answer_lost [OF assms(2) answer_lost(2,3)])
next
  case (dies c p)
  then show ?thesis using inv_lost [OF assms(2)] by simp
next
  case (forgets j)
  have "rotation_ok dep reqs (ro_forget ops j (rw_store w)) (rw_minted w) c p" if "rw_rotations w c = Some p" for c p
    using that assms(2) forget_law [of j "rw_store w"] rotation_ok_mono [of dep reqs "rw_store w" "rw_minted w" c p]
    by (simp add: rotation_inv_def)
  moreover have "minted_ok dep reqs (ro_forget ops j (rw_store w)) (rw_minted w)"
  proof (rule minted_ok_store [of dep reqs "rw_store w"])
    show "ro_recall ops i (rw_store w) = Some e" if "ro_recall ops i (ro_forget ops j (rw_store w)) = Some e" for i e
      using that forget_law [of j "rw_store w"] by (metis insertE singletonD option.distinct(1))
  qed (use assms(2) forget_law [of j "rw_store w"] in \<open>simp_all add: rotation_inv_def\<close>)
  ultimately show ?thesis using forgets assms(2) forget_law [of j "rw_store w"] by (simp add: rotation_inv_def)
qed

lemma rotation_reachable_inv:
  assumes "rotation_reachable dep ops reqs s0 w" "\<And>j. ro_recall ops j s0 = None"
  shows "rotation_inv dep reqs s0 w"
  using assms(1)
proof (induction rule: rotation_reachable.induct)
  case start
  show ?case using assms(2) by (simp add: rotation_inv_def minted_ok_def)
next
  case (step w w')
  then show ?case using inv_step by blast
qed

lemma rotated_from:
  assumes "rotation_reachable dep ops reqs s0 w" "\<And>j. ro_recall ops j s0 = None" "rw_rotations w c = Some (Rotated pair)"
  shows "\<exists>claims cnf c' claims'. proven dep (reqs c) claims cnf \<and> (c', sc_jti claims, pair) \<in> set (rw_minted w)
    \<and> proven dep (reqs c') claims' cnf \<and> sc_jti claims' = sc_jti claims"
  using rotation_reachable_inv [OF assms(1,2)] assms(3) by (fastforce simp: rotation_inv_def rotation_ok_def)

end

text \<open>C6: A refresh token is exchanged once.  Over any number of rotations interleaved at their awaits, any of
  them dying with its request unanswered, and a grace cache that may forget, over stores that keep
  what the rotation asks of them: for every token at most one pair is minted, and it continues the session of
  the token it was minted for, changing nothing but the token's own id, type and times; a rotation
  returns a pair only when it proved the key its token is bound to, and returns the pair minted for that
  token under that key; no token is spent by a request that did not prove the token's key; and a rotation
  refused because its token was already used has revoked its session, where there is a revoker.\<close>

theorem refresh_token_exchanged_once:
  assumes stores: "token_stores ops spent revoked"
    and empty: "\<And>j. ro_recall ops j s0 = None"
    and reach: "rotation_reachable dep ops reqs s0 w"
  shows "distinct (map (fst \<circ> snd) (rw_minted w))
    \<and> (\<forall>c j pair. (c, j, pair) \<in> set (rw_minted w) \<longrightarrow>
         (\<exists>claims cnf. proven dep (reqs c) claims cnf \<and> sc_jti claims = j \<and> continues claims (tp_claims pair)))
    \<and> (\<forall>c pair. rw_rotations w c = Some (Rotated pair) \<longrightarrow>
         (\<exists>claims cnf c' claims'. proven dep (reqs c) claims cnf \<and> presents_key (rr_holder_key (reqs c)) cnf
            \<and> sc_cnf claims = Some cnf \<and> (c', sc_jti claims, pair) \<in> set (rw_minted w)
            \<and> proven dep (reqs c') claims' cnf \<and> sc_jti claims' = sc_jti claims))
    \<and> (\<forall>j \<in> spent (rw_store w). j \<in> spent s0
         \<or> (\<exists>c claims cnf. proven dep (reqs c) claims cnf \<and> sc_jti claims = j \<and> presents_key (rr_holder_key (reqs c)) cnf))
    \<and> (\<forall>c. rw_rotations w c = Some (Denied AlreadyUsed) \<longrightarrow> rd_revoker dep \<longrightarrow>
         (\<exists>claims. verified dep (reqs c) claims \<and> sc_sid claims \<in> revoked (rw_store w)))"
proof -
  note inv = token_stores.rotation_reachable_inv [OF stores reach empty]
  have minted: "\<exists>claims cnf. proven dep (reqs c) claims cnf \<and> sc_jti claims = j \<and> continues claims (tp_claims pair)"
    if "(c, j, pair) \<in> set (rw_minted w)" for c j pair
    using inv that rotated_pair_continues
    unfolding token_stores.rotation_inv_def [OF stores] token_stores.minted_ok_def [OF stores] by metis
  have once: "distinct (map (fst \<circ> snd) (rw_minted w))"
    using inv unfolding token_stores.rotation_inv_def [OF stores] token_stores.minted_ok_def [OF stores] by blast
  have spent: "j \<in> spent s0 \<or> (\<exists>c claims cnf. proven dep (reqs c) claims cnf \<and> sc_jti claims = j
      \<and> presents_key (rr_holder_key (reqs c)) cnf)" if "j \<in> spent (rw_store w)" for j
    using inv that proven_key(2) unfolding token_stores.rotation_inv_def [OF stores] by metis
  have used: "\<exists>claims. verified dep (reqs c) claims \<and> sc_sid claims \<in> revoked (rw_store w)"
    if "rw_rotations w c = Some (Denied AlreadyUsed)" "rd_revoker dep" for c
    using inv that unfolding token_stores.rotation_inv_def [OF stores] token_stores.rotation_ok_def [OF stores] by fastforce
  have rotated: "\<exists>claims cnf c' claims'. proven dep (reqs c) claims cnf \<and> presents_key (rr_holder_key (reqs c)) cnf
      \<and> sc_cnf claims = Some cnf \<and> (c', sc_jti claims, pair) \<in> set (rw_minted w)
      \<and> proven dep (reqs c') claims' cnf \<and> sc_jti claims' = sc_jti claims" if "rw_rotations w c = Some (Rotated pair)" for c pair
    using token_stores.rotated_from [OF stores reach empty that] proven_key by metis
  show ?thesis using once minted rotated spent used by blast
qed

section \<open>A concrete run\<close>

text \<open>The holder's rotation mints a pair whose reply is lost and its second request gets the same pair; a
  thief with another key is refused and spends nothing; after the window has closed a third request
  revokes the session.\<close>

definition example_deployment :: rotation_deployment where
  "example_deployment = \<lparr>rd_verify = (\<lambda>_. Inr (session_payload example_session)), rd_sign = (\<lambda>_. ''t''), rd_revoker = True,
     rd_replay_grace = True, rd_access_ttl = 900000000, rd_refresh_ttl = 2592000000000\<rparr>"

definition example_requests :: "nat \<Rightarrow> rotation_request" where
  "example_requests c = \<lparr>rr_refresh_token = ''t'', rr_holder_key = HolderKey (if c = 1 then ''thief'' else ''key''),
     rr_lifetime_caps = NoCaps, rr_pre_redemption_checks = [], rr_post_redemption_checks = [],
     rr_access_id = ''a'', rr_refresh_id = ''r'', rr_now = 200000000\<rparr>"

definition advance_rotation :: "nat \<Rightarrow> memory_stores rotation_world \<Rightarrow> memory_stores rotation_world" where
  "advance_rotation c w =
     (case rw_rotations w c of
        None \<Rightarrow> w\<lparr>rw_rotations := (rw_rotations w)(c \<mapsto> rotate_refresh_token example_deployment (example_requests c))\<rparr>
      | Some p \<Rightarrow>
          (case rotation_prog_step memory_ops p (rw_store w) of
             None \<Rightarrow> w\<lparr>rw_store := ro_forget memory_ops ''j1'' (rw_store w)\<rparr>
           | Some (q, s) \<Rightarrow>
               w\<lparr>rw_store := s, rw_rotations := (rw_rotations w)(c \<mapsto> q), rw_minted := map (Pair c) (minted_by p q) @ rw_minted w\<rparr>))"

definition example_rotations :: "memory_stores rotation_world" where
  "example_rotations = fold advance_rotation [0, 0, 0, 1, 1, 0, 2, 2, 2, 2, 0, 3, 3, 3, 3, 3]
     \<lparr>rw_store = \<lparr>ms_spent = [], ms_revoked = [], ms_entries = []\<rparr>, rw_rotations = Map.empty, rw_minted = []\<rparr>"

lemma example_rotations_reachable:
  "rotation_reachable example_deployment memory_ops example_requests \<lparr>ms_spent = [], ms_revoked = [], ms_entries = []\<rparr> example_rotations"
proof -
  have "rotation_reachable example_deployment memory_ops example_requests s0 (advance_rotation c w)"
    if "rotation_reachable example_deployment memory_ops example_requests s0 w" for c w s0
    using that by (auto simp: advance_rotation_def split: option.split intro: rotation_reachable.step rotation_step.intros)
  then have "rotation_reachable example_deployment memory_ops example_requests s0 (fold advance_rotation cs w)"
    if "rotation_reachable example_deployment memory_ops example_requests s0 w" for cs w s0
    using that by (induction cs arbitrary: w) simp_all
  from this [OF rotation_reachable.start] show ?thesis unfolding example_rotations_def .
qed

theorem refresh_token_exchanged_once_witness:
  "length (rw_minted example_rotations) = 1
   \<and> map_option (\<lambda>p. case p of Denied e \<Rightarrow> Some e | _ \<Rightarrow> None) (rw_rotations example_rotations 1) = Some (Some WrongKey)
   \<and> (\<exists>claims. verified example_deployment (example_requests 3) claims \<and> sc_sid claims \<in> set (ms_revoked (rw_store example_rotations)))"
proof -
  have "case rw_rotations example_rotations 3 of Some (Denied AlreadyUsed) \<Rightarrow> True | _ \<Rightarrow> False" by code_simp
  then have "rw_rotations example_rotations 3 = Some (Denied AlreadyUsed)"
    by (auto split: option.splits rotation_prog.splits rotation_error.splits)
  moreover have "rd_revoker example_deployment" by (simp add: example_deployment_def)
  moreover have "ro_recall memory_ops j \<lparr>ms_spent = [], ms_revoked = [], ms_entries = []\<rparr> = None" for j by (simp add: memory_ops_def)
  ultimately have "\<exists>claims. verified example_deployment (example_requests 3) claims
      \<and> sc_sid claims \<in> set (ms_revoked (rw_store example_rotations))"
    using refresh_token_exchanged_once [OF memory.token_stores_axioms _ example_rotations_reachable] by blast
  moreover have "length (rw_minted example_rotations) = 1" by code_simp
  moreover have "map_option (\<lambda>p. case p of Denied e \<Rightarrow> Some e | _ \<Rightarrow> None) (rw_rotations example_rotations 1) = Some (Some WrongKey)"
    by code_simp
  ultimately show ?thesis by blast
qed

end
