(* ===== verification/ClientIp.thy ===== *)
theory ClientIp
  imports PyText
begin

text \<open>
  The client address a rate limiter keys on, \<open>iam/clientip.py\<close>, with what it uses of Python's \<open>ipaddress\<close>:
  reading an address, reading a network with no host bits set, and containment.  The lemmas show that what a
  client writes into \<open>X-Forwarded-For\<close> does not reach the answer as long as the configured proxies appended
  their own observations, and when it does.
\<close>

section \<open>Addresses and networks\<close>

text \<open>\<open>IPv4Address\<close> and \<open>IPv6Address\<close> on a string; \<open>None\<close> is a \<open>ValueError\<close>.  The scope id of an IPv6 address
  is checked and dropped, since containment does not read it.\<close>

datatype ip_address = IPv4 int | IPv6 int

definition parse_octet :: "string \<Rightarrow> int option" where
  "parse_octet octet =
     (if octet = [] \<or> \<not> list_all decimal_digit octet \<or> length octet > 3 \<or> octet \<noteq> ''0'' \<and> hd octet = CHR ''0'' then None
      else (case py_digits 0 False octet of
              None \<Rightarrow> None
            | Some n \<Rightarrow> if n > 255 then None else Some (int n)))"

definition from_digits :: "int \<Rightarrow> int list \<Rightarrow> int" where
  "from_digits base ns = foldl (\<lambda>acc n. acc * base + n) 0 ns"

definition ipv4_int :: "string \<Rightarrow> int option" where
  "ipv4_int s =
     (let octets = split_on (CHR ''.'') s in
      if s = [] \<or> length octets \<noteq> 4 then None else map_option (from_digits 256) (those (map parse_octet octets)))"

definition ipv4_address :: "string \<Rightarrow> int option" where
  "ipv4_address s = (if CHR ''/'' \<in> set s then None else ipv4_int s)"

definition parse_hextet :: "string \<Rightarrow> int option" where
  "parse_hextet hextet =
     (if hextet = [] \<or> length hextet > 4 then None
      else map_option (\<lambda>digits. from_digits 16 (map int digits)) (those (map hex_val hextet)))"

definition parse_hextets :: "string list \<Rightarrow> int option" where
  "parse_hextets parts = map_option (from_digits 65536) (those (map parse_hextet parts))"

text \<open>\<open>'%x' % n\<close> for a number of 16 bits.\<close>

definition hex_str :: "int \<Rightarrow> string" where
  "hex_str n =
     (let digits = map (\<lambda>k. nat (n div k mod 16)) [4096, 256, 16, 1] in
      map hex_digit (if n = 0 then [0] else dropWhile (\<lambda>d. d = 0) digits))"

definition ipv6_parts :: "string \<Rightarrow> string list option" where
  "ipv6_parts s =
     (let parts = split_on (CHR '':'') s in
      if s = [] \<or> length parts < 3 then None
      else if CHR ''.'' \<in> set (last parts)
      then map_option (\<lambda>v. butlast parts @ [hex_str (v div 65536), hex_str (v mod 65536)]) (ipv4_address (last parts))
      else Some parts)"

definition ipv6_int :: "string \<Rightarrow> int option" where
  "ipv6_int s =
     (case ipv6_parts s of
        None \<Rightarrow> None
      | Some parts \<Rightarrow>
          if length parts > 9 then None
          else (case List.filter (\<lambda>i. parts ! i = []) [1..<length parts - 1] of
             [] \<Rightarrow>
               if length parts \<noteq> 8 \<or> hd parts = [] \<or> last parts = [] then None else parse_hextets parts
           | [skip_index] \<Rightarrow>
               let parts_hi = (if hd parts = [] then skip_index - 1 else skip_index);
                   parts_lo = (if last parts = [] then length parts - skip_index - 2 else length parts - skip_index - 1) in
               if hd parts = [] \<and> parts_hi \<noteq> 0 \<or> last parts = [] \<and> parts_lo \<noteq> 0 \<or> parts_hi + parts_lo > 7 then None
               else (case (parse_hextets (take parts_hi parts), parse_hextets (drop (length parts - parts_lo) parts)) of
                       (Some hi, Some lo) \<Rightarrow> Some (hi * 65536 ^ (8 - parts_hi) + lo)
                     | _ \<Rightarrow> None)
           | _ \<Rightarrow> None))"

definition ipv6_address :: "string \<Rightarrow> int option" where
  "ipv6_address s =
     (if CHR ''/'' \<in> set s then None
      else let addr = takeWhile (\<lambda>c. c \<noteq> CHR ''%'') s; rest = dropWhile (\<lambda>c. c \<noteq> CHR ''%'') s in
        if rest \<noteq> [] \<and> (tl rest = [] \<or> CHR ''%'' \<in> set (tl rest)) then None else ipv6_int addr)"

definition ip_address :: "string \<Rightarrow> ip_address option" where
  "ip_address s =
     (case ipv4_address s of Some n \<Rightarrow> Some (IPv4 n) | None \<Rightarrow> map_option IPv6 (ipv6_address s))"

text \<open>\<open>ip_network(s, strict=True)\<close>: an address and a prefix length; for IPv4 the mask may also be written as a
  netmask or a hostmask.\<close>

datatype ip_network = IPv4Network int nat | IPv6Network int nat

definition prefix_from_prefix_string :: "nat \<Rightarrow> string \<Rightarrow> nat option" where
  "prefix_from_prefix_string max_prefixlen s =
     (if s = [] \<or> \<not> list_all decimal_digit s then None
      else (case py_int s of
              None \<Rightarrow> None
            | Some p \<Rightarrow> if p \<le> int max_prefixlen then Some (nat p) else None))"

fun count_righthand_zero_bits :: "int \<Rightarrow> nat \<Rightarrow> nat" where
  "count_righthand_zero_bits n 0 = 0"
| "count_righthand_zero_bits n (Suc bits) = (if odd n then 0 else Suc (count_righthand_zero_bits (n div 2) bits))"

definition prefix_from_ip_int :: "int \<Rightarrow> nat option" where
  "prefix_from_ip_int ip_int =
     (let trailing_zeroes = count_righthand_zero_bits ip_int 32 in
      if ip_int div 2 ^ trailing_zeroes \<noteq> 2 ^ (32 - trailing_zeroes) - 1 then None else Some (32 - trailing_zeroes))"

definition prefix_from_ip_string :: "string \<Rightarrow> nat option" where
  "prefix_from_ip_string s =
     (case ipv4_int s of
        None \<Rightarrow> None
      | Some n \<Rightarrow> (case prefix_from_ip_int n of Some p \<Rightarrow> Some p | None \<Rightarrow> prefix_from_ip_int (2 ^ 32 - 1 - n)))"

definition ipv4_network :: "string list \<Rightarrow> ip_network option" where
  "ipv4_network parts =
     (case (ipv4_address (hd parts),
            if tl parts = [] then Some 32
            else (case prefix_from_prefix_string 32 (parts ! 1) of Some p \<Rightarrow> Some p | None \<Rightarrow> prefix_from_ip_string (parts ! 1))) of
        (Some n, Some p) \<Rightarrow> if n mod 2 ^ (32 - p) \<noteq> 0 then None else Some (IPv4Network n p)
      | _ \<Rightarrow> None)"

definition ipv6_network :: "string list \<Rightarrow> ip_network option" where
  "ipv6_network parts =
     (case (ipv6_address (hd parts), if tl parts = [] then Some 128 else prefix_from_prefix_string 128 (parts ! 1)) of
        (Some n, Some p) \<Rightarrow> if n mod 2 ^ (128 - p) \<noteq> 0 then None else Some (IPv6Network n p)
      | _ \<Rightarrow> None)"

definition ip_network :: "string \<Rightarrow> ip_network option" where
  "ip_network s =
     (let parts = split_on (CHR ''/'') s in
      if length parts > 2 then None
      else (case ipv4_network parts of Some network \<Rightarrow> Some network | None \<Rightarrow> ipv6_network parts))"

text \<open>\<open>address.version == network.version and address in network\<close>.\<close>

fun in_network :: "ip_address \<Rightarrow> ip_network \<Rightarrow> bool" where
  "in_network (IPv4 n) (IPv4Network a p) \<longleftrightarrow> n div 2 ^ (32 - p) * 2 ^ (32 - p) = a"
| "in_network (IPv6 n) (IPv6Network a p) \<longleftrightarrow> n div 2 ^ (128 - p) * 2 ^ (128 - p) = a"
| "in_network _ _ \<longleftrightarrow> False"

section \<open>Resolution\<close>

datatype ForwardedForMode = HOPS | RIGHTMOST_UNTRUSTED

datatype client_error = CidrValueError | HopsIndexError

datatype cidr_setting = NoCidrs | CidrText string | CidrList "string list"

definition parse_trusted_cidrs :: "cidr_setting \<Rightarrow> client_error + ip_network list" where
  "parse_trusted_cidrs raw =
     (let entries = (case raw of
                       NoCidrs \<Rightarrow> []
                     | CidrText text \<Rightarrow> map py_strip (split_on (CHR '','') text)
                     | CidrList items \<Rightarrow> map py_strip items) in
      case those (map ip_network (List.filter (\<lambda>entry. entry \<noteq> []) entries)) of
        None \<Rightarrow> Inl CidrValueError
      | Some networks \<Rightarrow> Inr networks)"

definition is_trusted_peer :: "string \<Rightarrow> ip_network list \<Rightarrow> bool" where
  "is_trusted_peer peer trusted =
     (case ip_address peer of None \<Rightarrow> False | Some addr \<Rightarrow> (\<exists>network \<in> set trusted. in_network addr network))"

text \<open>The entries of every header line, and the walk of \<open>_rightmost_untrusted\<close> over them from the right.\<close>

definition forwarded_entries :: "string list \<Rightarrow> string list" where
  "forwarded_entries forwarded_for =
     List.filter (\<lambda>chunk. chunk \<noteq> []) (map py_strip (concat (map (split_on (CHR '','')) forwarded_for)))"

fun walk_entries :: "ip_network list \<Rightarrow> string \<Rightarrow> string list \<Rightarrow> string" where
  "walk_entries trusted nearest [] = nearest"
| "walk_entries trusted nearest (entry # entries) =
     (case ip_address entry of
        None \<Rightarrow> nearest
      | Some address \<Rightarrow>
          if \<not> (\<exists>network \<in> set trusted. in_network address network) then entry
          else walk_entries trusted entry entries)"

definition rightmost_untrusted :: "string \<Rightarrow> string list \<Rightarrow> ip_network list \<Rightarrow> string" where
  "rightmost_untrusted peer candidates trusted = walk_entries trusted peer (rev candidates)"

text \<open>\<open>candidates[-trusted_hops]\<close>: a negative index counts from the right, and minus zero is zero.\<close>

definition entry_from_right :: "string list \<Rightarrow> int \<Rightarrow> client_error + string" where
  "entry_from_right candidates hops =
     (let index = (if hops > 0 then int (length candidates) - hops else - hops) in
      if 0 \<le> index \<and> index < int (length candidates) then Inr (candidates ! nat index) else Inl HopsIndexError)"

definition resolve_client_ip ::
  "string option \<Rightarrow> string list \<Rightarrow> ip_network list \<Rightarrow> int \<Rightarrow> ForwardedForMode \<Rightarrow> client_error + string option" where
  "resolve_client_ip peer forwarded_for trusted trusted_hops mode =
     (case peer of
        None \<Rightarrow> Inr None
      | Some address \<Rightarrow>
          if trusted = [] then Inr peer
          else if \<not> is_trusted_peer address trusted then Inr peer
          else let candidates = forwarded_entries forwarded_for in
            if mode = RIGHTMOST_UNTRUSTED then Inr (Some (rightmost_untrusted address candidates trusted))
            else if int (length candidates) < trusted_hops then Inr peer
            else map_sum (\<lambda>e. e) Some (entry_from_right candidates trusted_hops))"

text \<open>A request is the host of its peer, if it has one, and every value of the header.\<close>

record ForwardedRequest =
  req_client :: "string option"
  req_forwarded_for :: "string list"

definition resolve_request_client_ip ::
  "ForwardedRequest \<Rightarrow> ip_network list \<Rightarrow> int \<Rightarrow> ForwardedForMode \<Rightarrow> client_error + string option" where
  "resolve_request_client_ip request trusted trusted_hops mode =
     resolve_client_ip (req_client request) (req_forwarded_for request) trusted trusted_hops mode"

section \<open>Entries\<close>

lemma forwarded_entries_append: "forwarded_entries (xs @ ys) = forwarded_entries xs @ forwarded_entries ys"
  by (simp add: forwarded_entries_def)

lemma forwarded_entries_joined:
  "forwarded_entries (xs @ (before @ CHR '','' # line) # ys) = forwarded_entries (xs @ [before]) @ forwarded_entries (line # ys)"
  by (simp add: forwarded_entries_def split_on_append)

section \<open>What a client wrote\<close>

lemma walk_stops:
  assumes "\<exists>entry \<in> set entries. \<not> is_trusted_peer entry trusted"
  shows "walk_entries trusted nearest (entries @ forged) = walk_entries trusted nearest entries"
  using assms
proof (induction entries arbitrary: nearest)
  case (Cons entry entries)
  show ?case
  proof (cases "is_trusted_peer entry trusted")
    case True
    with Cons.prems have "\<exists>entry \<in> set entries. \<not> is_trusted_peer entry trusted" by auto
    from Cons.IH [OF this] show ?thesis by (simp split: option.split)
  next
    case False
    then show ?thesis by (auto simp: is_trusted_peer_def split: option.splits)
  qed
qed simp

lemma walk_answer: "walk_entries trusted nearest entries = nearest \<or> ip_address (walk_entries trusted nearest entries) \<noteq> None"
proof (induction entries arbitrary: nearest)
  case (Cons entry entries)
  show ?case
  proof (cases "ip_address (walk_entries trusted entry entries)")
    case None
    with Cons.IH [of entry] show ?thesis by (auto split: option.splits)
  qed (auto split: option.splits)
qed simp

lemma entry_from_right_append:
  assumes "0 < hops" and "hops \<le> int (length seen)"
  shows "entry_from_right (forged @ seen) hops = entry_from_right seen hops"
proof -
  have "nat (int (length forged) + int (length seen) - hops) = length forged + nat (int (length seen) - hops)"
    using assms by linarith
  then show ?thesis using assms by (simp add: entry_from_right_def Let_def nth_append)
qed

definition proxies_seen :: "ForwardedForMode \<Rightarrow> int \<Rightarrow> ip_network list \<Rightarrow> string list \<Rightarrow> bool" where
  "proxies_seen mode hops trusted seen \<longleftrightarrow>
     (case mode of
        HOPS \<Rightarrow> 0 < hops \<and> hops \<le> int (length seen)
      | RIGHTMOST_UNTRUSTED \<Rightarrow> (\<exists>entry \<in> set seen. \<not> is_trusted_peer entry trusted))"

lemma resolve_observed:
  assumes "proxies_seen mode hops trusted (forwarded_entries seen)"
    and "forwarded_entries received = forged @ forwarded_entries seen"
  shows "resolve_client_ip peer received trusted hops mode = resolve_client_ip peer seen trusted hops mode"
  using assms walk_stops [of "rev (forwarded_entries seen)" trusted _ "rev forged"]
    entry_from_right_append [of hops "forwarded_entries seen" forged]
  by (cases mode) (auto simp: resolve_client_ip_def proxies_seen_def rightmost_untrusted_def Let_def split: option.split)

text \<open>C26: The client address cannot be forged through the header.  A peer outside the trusted networks is the
  answer whatever the header says.  Behind a trusted peer, once the configured proxies wrote the entries the
  mode looks at (at least as many as the hops, or one that is not itself a trusted address), nothing before
  them matters, whether it came as lines of its own or on the same line; and walking to the rightmost
  untrusted entry never answers with text that is no address.  With a hop count of zero the answer is the
  leftmost entry, the one a client writes.\<close>

theorem client_ip_unforgeable:
  "(\<not> is_trusted_peer p trusted \<longrightarrow> resolve_client_ip (Some p) received trusted hops mode = Inr (Some p))
   \<and> (proxies_seen mode hops trusted (forwarded_entries (line # later)) \<longrightarrow>
        resolve_client_ip (Some p) (forged @ line # later) trusted hops mode = resolve_client_ip (Some p) (line # later) trusted hops mode
        \<and> resolve_client_ip (Some p) (forged @ (before @ CHR '','' # line) # later) trusted hops mode
          = resolve_client_ip (Some p) (line # later) trusted hops mode)
   \<and> (\<exists>answer. resolve_client_ip (Some p) received trusted hops RIGHTMOST_UNTRUSTED = Inr (Some answer)
        \<and> (answer = p \<or> ip_address answer \<noteq> None))
   \<and> (is_trusted_peer p trusted \<and> forwarded_entries received = first # others \<longrightarrow>
        resolve_client_ip (Some p) received trusted 0 HOPS = Inr (Some first))"
proof (intro conjI impI)
  assume "\<not> is_trusted_peer p trusted"
  then show "resolve_client_ip (Some p) received trusted hops mode = Inr (Some p)" by (simp add: resolve_client_ip_def)
next
  assume seen: "proxies_seen mode hops trusted (forwarded_entries (line # later))"
  show "resolve_client_ip (Some p) (forged @ line # later) trusted hops mode = resolve_client_ip (Some p) (line # later) trusted hops mode"
    by (rule resolve_observed [OF seen forwarded_entries_append])
  show "resolve_client_ip (Some p) (forged @ (before @ CHR '','' # line) # later) trusted hops mode
      = resolve_client_ip (Some p) (line # later) trusted hops mode"
    by (rule resolve_observed [OF seen forwarded_entries_joined])
next
  show "\<exists>answer. resolve_client_ip (Some p) received trusted hops RIGHTMOST_UNTRUSTED = Inr (Some answer)
      \<and> (answer = p \<or> ip_address answer \<noteq> None)"
    using walk_answer [of trusted p] by (auto simp: resolve_client_ip_def rightmost_untrusted_def Let_def)
next
  assume "is_trusted_peer p trusted \<and> forwarded_entries received = first # others"
  then have "trusted \<noteq> []" by (auto simp: is_trusted_peer_def split: option.splits)
  with \<open>is_trusted_peer p trusted \<and> forwarded_entries received = first # others\<close>
  show "resolve_client_ip (Some p) received trusted 0 HOPS = Inr (Some first)"
    by (simp add: resolve_client_ip_def entry_from_right_def Let_def)
qed

text \<open>A proxy in a private network in front of the application, a client that writes two addresses of its own.\<close>

theorem client_ip_unforgeable_witness:
  "parse_trusted_cidrs (CidrText ''10.0.0.0/8, fd00::/8'') = Inr [IPv4Network 167772160 8, IPv6Network 336294682933583715844663186250927177728 8]
   \<and> resolve_client_ip (Some ''10.1.2.3'') [''1.1.1.1,2.2.2.2'', ''203.0.113.9, 10.9.9.9''] [IPv4Network 167772160 8] 1 RIGHTMOST_UNTRUSTED
     = Inr (Some ''203.0.113.9'')
   \<and> resolve_client_ip (Some ''10.1.2.3'') [''1.1.1.1,203.0.113.9''] [IPv4Network 167772160 8] 1 HOPS = Inr (Some ''203.0.113.9'')
   \<and> resolve_client_ip (Some ''10.1.2.3'') [''1.1.1.1, 203.0.113.9''] [IPv4Network 167772160 8] 0 HOPS = Inr (Some ''1.1.1.1'')
   \<and> resolve_client_ip (Some ''192.0.2.1'') [''1.1.1.1''] [IPv4Network 167772160 8] 1 HOPS = Inr (Some ''192.0.2.1'')"
proof (intro conjI)
  let ?trusted = "[IPv4Network 167772160 8]"
  show "parse_trusted_cidrs (CidrText ''10.0.0.0/8, fd00::/8'') = Inr [IPv4Network 167772160 8, IPv6Network 336294682933583715844663186250927177728 8]"
    by code_simp
  have "proxies_seen RIGHTMOST_UNTRUSTED 1 ?trusted (forwarded_entries [''203.0.113.9, 10.9.9.9''])" by code_simp
  then have "resolve_client_ip (Some ''10.1.2.3'') ([''1.1.1.1,2.2.2.2''] @ ''203.0.113.9, 10.9.9.9'' # []) ?trusted 1 RIGHTMOST_UNTRUSTED
      = resolve_client_ip (Some ''10.1.2.3'') [''203.0.113.9, 10.9.9.9''] ?trusted 1 RIGHTMOST_UNTRUSTED"
    using client_ip_unforgeable [where p = "''10.1.2.3''" and trusted = ?trusted and hops = 1 and mode = RIGHTMOST_UNTRUSTED
        and line = "''203.0.113.9, 10.9.9.9''" and later = "[]" and forged = "[''1.1.1.1,2.2.2.2'']",
        THEN conjunct2, THEN conjunct1] by blast
  also have "\<dots> = Inr (Some ''203.0.113.9'')" by code_simp
  finally show "resolve_client_ip (Some ''10.1.2.3'') [''1.1.1.1,2.2.2.2'', ''203.0.113.9, 10.9.9.9''] ?trusted 1 RIGHTMOST_UNTRUSTED
     = Inr (Some ''203.0.113.9'')" by simp
  have "proxies_seen HOPS 1 ?trusted (forwarded_entries [''203.0.113.9''])" by code_simp
  then have "resolve_client_ip (Some ''10.1.2.3'') ([] @ (''1.1.1.1'' @ CHR '','' # ''203.0.113.9'') # []) ?trusted 1 HOPS
      = resolve_client_ip (Some ''10.1.2.3'') [''203.0.113.9''] ?trusted 1 HOPS"
    using client_ip_unforgeable [where p = "''10.1.2.3''" and trusted = ?trusted and hops = 1 and mode = HOPS
        and line = "''203.0.113.9''" and later = "[]" and forged = "[]" and before = "''1.1.1.1''",
        THEN conjunct2, THEN conjunct1] by blast
  also have "\<dots> = Inr (Some ''203.0.113.9'')" by code_simp
  finally show "resolve_client_ip (Some ''10.1.2.3'') [''1.1.1.1,203.0.113.9''] ?trusted 1 HOPS = Inr (Some ''203.0.113.9'')" by simp
  have "is_trusted_peer ''10.1.2.3'' ?trusted \<and> forwarded_entries [''1.1.1.1, 203.0.113.9''] = ''1.1.1.1'' # [''203.0.113.9'']"
    by code_simp
  with client_ip_unforgeable [where p = "''10.1.2.3''" and trusted = ?trusted and received = "[''1.1.1.1, 203.0.113.9'']"
        and first = "''1.1.1.1''" and others = "[''203.0.113.9'']", THEN conjunct2, THEN conjunct2, THEN conjunct2]
  show "resolve_client_ip (Some ''10.1.2.3'') [''1.1.1.1, 203.0.113.9''] ?trusted 0 HOPS = Inr (Some ''1.1.1.1'')" by blast
  have "\<not> is_trusted_peer ''192.0.2.1'' ?trusted" by code_simp
  with client_ip_unforgeable [where p = "''192.0.2.1''" and trusted = ?trusted and received = "[''1.1.1.1'']" and hops = 1
        and mode = HOPS, THEN conjunct1]
  show "resolve_client_ip (Some ''192.0.2.1'') [''1.1.1.1''] ?trusted 1 HOPS = Inr (Some ''192.0.2.1'')" by blast
qed

end
