(* ===== verification/Keyset.thy ===== *)
theory Keyset
  imports PyFormat
begin

text \<open>
  \<open>core/keyset.py\<close> and the fragments of \<open>core/sql_fragments.py\<close> it spells a statement with: reading every
  row a statement shape names, a page at a time, past the last key read.  The backend's \<open>fetch\<close> is a
  parameter, a function of the statement text and its parameters; \<open>answers\<close> is what SQL says it returns
  for the statements of one read over a table that does not change meanwhile.  A row is a dictionary from
  column names to values.  The loop is a partial function: not ending is \<open>None\<close>.
\<close>

section \<open>Statements\<close>

fun double_quotes :: "string \<Rightarrow> string" where
  "double_quotes [] = []"
| "double_quotes (c # cs) = (if c = CHR 0x22 then [CHR 0x22, CHR 0x22] else [c]) @ double_quotes cs"

definition quote_identifier :: "string \<Rightarrow> string" where
  "quote_identifier identifier = [CHR 0x22] @ double_quotes identifier @ [CHR 0x22]"

definition as_written :: "string \<Rightarrow> string" where
  "as_written identifier = identifier"

definition placeholder :: "nat \<Rightarrow> string" where
  "placeholder n = CHR ''$'' # nat_str n"

definition equality_conditions :: "(string \<times> 'v) list \<Rightarrow> nat \<Rightarrow> (string \<Rightarrow> string) \<Rightarrow> string \<times> 'v list" where
  "equality_conditions filters first quote =
     (join_str '' AND '' (map (\<lambda>(index, column). quote column @ '' = '' @ placeholder (first + index))
        (enumerate 0 (map fst filters))),
      map snd filters)"

datatype 'v sql_param = Bound 'v | BoundArray "'v list"

record 'v KeysetStatement =
  ks_select_from :: string
  ks_key :: "string list"
  ks_order :: string
  ks_tail :: string
  ks_filters :: string
  ks_values :: "'v sql_param list"
  ks_mark :: "(string \<Rightarrow> nat \<Rightarrow> string) option"

datatype keyset_error = KeysetValueError | KeysetKeyError

definition add_set_filter ::
  "(string \<Rightarrow> string) \<Rightarrow> string \<times> string \<times> 'v list \<Rightarrow> string \<times> 'v sql_param list \<Rightarrow> string \<times> 'v sql_param list" where
  "add_set_filter quote f acc =
     (let (column, array, members) = f; (filters, values) = acc;
          condition = quote column @ '' = ANY('' @ placeholder (length values + 1) @ ''::'' @ array @ '')''
      in (if filters \<noteq> [] then filters @ '' AND '' @ condition else condition, values @ [BoundArray members]))"

definition new_KeysetStatement ::
  "string \<Rightarrow> string list \<Rightarrow> (string \<times> 'v) list \<Rightarrow> (string \<times> string \<times> 'v list) list \<Rightarrow> int \<Rightarrow> (string \<Rightarrow> string)
    \<Rightarrow> (string \<Rightarrow> nat \<Rightarrow> string) option \<Rightarrow> keyset_error + 'v KeysetStatement" where
  "new_KeysetStatement select_from key where_eq where_any page_size quote mark =
     (if page_size < 1 then Inl KeysetValueError
      else let order = join_str '', '' (map quote key);
               (conditions, values) = equality_conditions where_eq 1 quote;
               (filters, params) = fold (add_set_filter quote) where_any (conditions, map Bound values)
           in Inr \<lparr>ks_select_from = select_from, ks_key = key, ks_order = order,
                   ks_tail = '' ORDER BY '' @ order @ '' LIMIT '' @ int_str (page_size + 1),
                   ks_filters = filters, ks_values = params, ks_mark = mark\<rparr>)"

definition cursor_marks :: "'v KeysetStatement \<Rightarrow> string" where
  "cursor_marks st =
     join_str '', '' (map (\<lambda>(index, column).
       case ks_mark st of
         Some mark \<Rightarrow> mark column (length (ks_values st) + index)
       | None \<Rightarrow> placeholder (length (ks_values st) + index)) (enumerate 1 (ks_key st)))"

definition statement_page :: "'v KeysetStatement \<Rightarrow> 'v list option \<Rightarrow> string \<times> 'v sql_param list" where
  "statement_page st cursor =
     (let filters = (if ks_filters st \<noteq> [] then [ks_filters st] else []);
          conditions = filters @ (case cursor of
              None \<Rightarrow> []
            | Some _ \<Rightarrow> [''('' @ ks_order st @ '') > ('' @ cursor_marks st @ '')'']);
          params = ks_values st @ (case cursor of None \<Rightarrow> [] | Some c \<Rightarrow> map Bound c);
          where_sql = (if conditions \<noteq> [] then '' WHERE '' @ join_str '' AND '' conditions else [])
      in (ks_select_from st @ where_sql @ ks_tail st, params))"

section \<open>Pages\<close>

type_synonym 'v row = "string \<rightharpoonup> 'v"

text \<open>\<open>tuple(row[column] for column in key)\<close>, which raises on a column the row does not have.\<close>

definition read_key :: "string list \<Rightarrow> 'v row \<Rightarrow> keyset_error + 'v list" where
  "read_key key row = all_ok (map (\<lambda>column. case row column of None \<Rightarrow> Inl KeysetKeyError | Some v \<Rightarrow> Inr v) key)"

partial_function (option) pages_after ::
  "(string \<times> 'v sql_param list \<Rightarrow> 'v row list) \<Rightarrow> 'v KeysetStatement \<Rightarrow> nat \<Rightarrow> 'v list option
    \<Rightarrow> (keyset_error + 'v row list list) option" where
  "pages_after fetch st page_size cursor =
     (let page = fetch (statement_page st cursor);
          kept = take page_size page
      in if length page > page_size \<and> kept \<noteq> []
         then case read_key (ks_key st) (last kept) of
                Inl e \<Rightarrow> Some (Inl e)
              | Inr next \<Rightarrow>
                  Option.bind (pages_after fetch st page_size (Some next)) (\<lambda>rest.
                    Some (case rest of Inl e \<Rightarrow> Inl e | Inr pages \<Rightarrow> Inr (kept # pages)))
         else Some (Inr [kept]))"

definition keyset_pages ::
  "(string \<times> 'v sql_param list \<Rightarrow> 'v row list) \<Rightarrow> string \<Rightarrow> string list \<Rightarrow> (string \<times> 'v) list
    \<Rightarrow> (string \<times> string \<times> 'v list) list \<Rightarrow> int \<Rightarrow> (string \<Rightarrow> string) \<Rightarrow> (string \<Rightarrow> nat \<Rightarrow> string) option
    \<Rightarrow> (keyset_error + 'v row list list) option" where
  "keyset_pages fetch select_from key where_eq where_any page_size quote mark =
     (case new_KeysetStatement select_from key where_eq where_any page_size quote mark of
        Inl e \<Rightarrow> Some (Inl e)
      | Inr st \<Rightarrow> pages_after fetch st (nat page_size) None)"

record 'v KeysetRead =
  kr_rows :: "'v row list"
  kr_statements :: nat

definition read_keyset_pages ::
  "(string \<times> 'v sql_param list \<Rightarrow> 'v row list) \<Rightarrow> string \<Rightarrow> string list \<Rightarrow> (string \<times> 'v) list
    \<Rightarrow> (string \<times> string \<times> 'v list) list \<Rightarrow> int \<Rightarrow> (string \<Rightarrow> string) \<Rightarrow> (string \<Rightarrow> nat \<Rightarrow> string) option
    \<Rightarrow> (keyset_error + 'v KeysetRead) option" where
  "read_keyset_pages fetch select_from key where_eq where_any page_size quote mark =
     map_option (map_sum (\<lambda>e. e) (\<lambda>pages. \<lparr>kr_rows = concat pages, kr_statements = length pages\<rparr>))
       (keyset_pages fetch select_from key where_eq where_any page_size quote mark)"

section \<open>A paged read is the whole read\<close>

definition row_key :: "string list \<Rightarrow> 'v row \<Rightarrow> 'v list" where
  "row_key key row = map (the \<circ> row) key"

text \<open>What the database answers: of the rows the filters name, those past the cursor, in key order, at most
  the limit.  Row values compare lexicographically.\<close>

definition sql_answer :: "string list \<Rightarrow> ('v::linorder) row list \<Rightarrow> 'v list option \<Rightarrow> nat \<Rightarrow> 'v row list" where
  "sql_answer key rows cursor limit =
     take limit (filter (\<lambda>row. case cursor of None \<Rightarrow> True | Some c \<Rightarrow> c < row_key key row) (sort_key (row_key key) rows))"

definition answers ::
  "(string \<times> ('v::linorder) sql_param list \<Rightarrow> 'v row list) \<Rightarrow> 'v KeysetStatement \<Rightarrow> nat \<Rightarrow> 'v row list \<Rightarrow> bool" where
  "answers fetch st page_size rows \<longleftrightarrow>
     (\<forall>cursor. (case cursor of None \<Rightarrow> True | Some c \<Rightarrow> length c = length (ks_key st)) \<longrightarrow>
        fetch (statement_page st cursor) = sql_answer (ks_key st) rows cursor (Suc page_size))"

text \<open>A key that is unique within the rows, and present in each.\<close>

definition keyed :: "string list \<Rightarrow> 'v row list \<Rightarrow> bool" where
  "keyed key rows \<longleftrightarrow> distinct (map (row_key key) rows) \<and> (\<forall>row \<in> set rows. \<forall>column \<in> set key. row column \<noteq> None)"

lemma read_key_ok: "(\<forall>column \<in> set key. row column \<noteq> None) \<Longrightarrow> read_key key row = Inr (row_key key row)"
proof (induction key)
  case (Cons column key)
  then obtain v where "row column = Some v" by auto
  with Cons show ?case by (simp add: read_key_def row_key_def)
qed (simp add: read_key_def row_key_def)

lemma past_last:
  fixes rows :: "('v::linorder) row list"
  assumes "sorted (map (row_key key) rows)" "distinct (map (row_key key) rows)" "0 < n" "n < length rows"
  shows "filter (\<lambda>row. row_key key (rows ! (n - 1)) < row_key key row) rows = drop n rows"
proof -
  let ?k = "row_key key" and ?c = "row_key key (rows ! (n - 1))"
  have le: "?k (rows ! i) \<le> ?k (rows ! j)" if "i \<le> j" "j < length rows" for i j
    using sorted_nth_mono [OF assms(1), of i j] that by simp
  have ne: "?k (rows ! i) \<noteq> ?k (rows ! j)" if "i \<noteq> j" "i < length rows" "j < length rows" for i j
    using nth_eq_iff_index_eq [OF assms(2), of i j] that by simp
  have "filter (\<lambda>row. ?c < ?k row) (take n rows) = []"
  proof -
    have "\<not> ?c < ?k row" if mem: "row \<in> set (take n rows)" for row
    proof -
      obtain i where "row = rows ! i" "i < n" using mem by (auto simp: in_set_conv_nth)
      then show ?thesis using le [of i "n - 1"] assms(4) by (simp add: not_less)
    qed
    then show ?thesis by (simp add: filter_empty_conv)
  qed
  moreover have "filter (\<lambda>row. ?c < ?k row) (drop n rows) = drop n rows"
  proof -
    have "?c < ?k row" if mem: "row \<in> set (drop n rows)" for row
    proof -
      obtain i where "row = drop n rows ! i" "i < length (drop n rows)" using mem by (metis in_set_conv_nth)
      then have row: "row = rows ! (n + i)" and i: "n + i < length rows" using assms(4) by simp_all
      have "?c \<le> ?k (rows ! (n + i))" by (rule le [OF _ i]) simp
      moreover have "?c \<noteq> ?k (rows ! (n + i))" by (rule ne [OF _ _ i]) (use assms(3,4) in simp_all)
      ultimately show ?thesis unfolding row by (rule order_le_neq_trans)
    qed
    then show ?thesis by (simp add: filter_id_conv)
  qed
  ultimately show ?thesis by (metis append_Nil append_take_drop_id filter_append)
qed

text \<open>The pages of the remaining rows.\<close>

function chunks :: "nat \<Rightarrow> 'a list \<Rightarrow> 'a list list" where
  "chunks n xs = (if n = 0 \<or> length xs \<le> n then [xs] else take n xs # chunks n (drop n xs))"
  by pat_completeness auto
termination by (relation "measure (\<lambda>(n, xs). length xs)") auto

declare chunks.simps [simp del]

lemma concat_chunks: "concat (chunks n xs) = xs"
proof (induction n xs rule: chunks.induct)
  case (1 n xs)
  then show ?case by (subst chunks.simps) simp
qed

lemma length_chunks: "0 < n \<Longrightarrow> length (chunks n xs) = (if xs = [] then 1 else (length xs + n - 1) div n)"
proof (induction n xs rule: chunks.induct)
  case (1 n xs)
  show ?case
  proof (cases "length xs \<le> n")
    case True
    have "(length xs + n - 1) div n = 1" if ne: "xs \<noteq> []"
    proof -
      obtain m where "length xs = Suc m" using ne by (cases xs) auto
      with True show ?thesis using "1.prems" by simp
    qed
    with True show ?thesis by (subst chunks.simps) simp
  next
    case False
    then have "length (chunks n xs) = Suc (length (chunks n (drop n xs)))" "xs \<noteq> []" "drop n xs \<noteq> []"
      using "1.prems" by (subst chunks.simps, auto)
    moreover have "(length xs - n + n - 1) div n = (length xs + n - 1) div n - 1"
      using False "1.prems" le_div_geq [of n "length xs + n - 1"] by simp
    ultimately show ?thesis using 1 False by (simp add: div_greater_zero_iff)
  qed
qed

lemma pages_after_chunks:
  fixes rows :: "('v::linorder) row list"
  assumes ans: "answers fetch st n rows" and n: "0 < n" and keyed: "keyed (ks_key st) rows"
    and rest: "rest = filter (\<lambda>row. case cursor of None \<Rightarrow> True | Some c \<Rightarrow> c < row_key (ks_key st) row) (sort_key (row_key (ks_key st)) rows)"
    and suf: "\<exists>before. sort_key (row_key (ks_key st)) rows = before @ rest"
    and len: "case cursor of None \<Rightarrow> True | Some c \<Rightarrow> length c = length (ks_key st)"
  shows "pages_after fetch st n cursor = Some (Inr (chunks n rest))"
  using rest suf len
proof (induction "length rest" arbitrary: rest cursor rule: less_induct)
  case less
  let ?k = "row_key (ks_key st)" and ?all = "sort_key (row_key (ks_key st)) rows"
  have page: "fetch (statement_page st cursor) = take (Suc n) rest"
    using ans less.prems(1,3) by (simp add: answers_def sql_answer_def)
  have sorted: "sorted (map ?k ?all)" "distinct (map ?k ?all)"
    using keyed by (simp_all add: keyed_def distinct_map)
  obtain before where b: "?all = before @ rest" using less.prems(2) by blast
  have rest_sorted: "sorted (map ?k rest)" "distinct (map ?k rest)" using sorted unfolding b by (simp_all add: sorted_append)
  show ?case
  proof (cases "length rest \<le> n")
    case True
    then show ?thesis using page by (subst pages_after.simps, subst chunks.simps) (simp add: Let_def)
  next
    case False
    let ?last = "rest ! (n - 1)"
    have "take n rest \<noteq> []" "length (take n rest) = n" using n False by auto
    then have last: "last (take n rest) = ?last" using n by (simp add: last_conv_nth)
    have "?last \<in> set rows" using b False n by (metis in_set_conv_decomp nth_mem not_le set_sort Un_iff set_append less_imp_diff_less)
    then have key: "read_key (ks_key st) ?last = Inr (?k ?last)" using read_key_ok [of "ks_key st" ?last] keyed by (simp add: keyed_def)
    have past: "filter (\<lambda>row. ?k ?last < ?k row) rest = drop n rest"
      using past_last [OF rest_sorted n] False by simp
    have before: "filter (\<lambda>row. ?k ?last < ?k row) before = []"
    proof -
      have "?k row \<le> ?k ?last" if "row \<in> set before" for row
        using sorted(1) that False n unfolding b by (auto simp: sorted_append)
      then show ?thesis by (auto simp: filter_empty_conv not_less)
    qed
    have "drop n rest = filter (\<lambda>row. case Some (?k ?last) of None \<Rightarrow> True | Some c \<Rightarrow> c < ?k row) ?all"
      using past before by (simp add: b)
    moreover have "\<exists>before. ?all = before @ drop n rest" unfolding b by (metis append.assoc append_take_drop_id)
    moreover have "length (drop n rest) < length rest" using False n by simp
    moreover have "case Some (?k ?last) of None \<Rightarrow> True | Some c \<Rightarrow> length c = length (ks_key st)" by (simp add: row_key_def)
    ultimately have "pages_after fetch st n (Some (?k ?last)) = Some (Inr (chunks n (drop n rest)))"
      by (intro less.hyps)
    moreover have "chunks n rest = take n rest # chunks n (drop n rest)" using False n by (subst chunks.simps) simp
    moreover have "rest \<noteq> []" using False by auto
    ultimately show ?thesis using page False n last key by (subst pages_after.simps) (simp add: Let_def min_def)
  qed
qed


text \<open>Three rows in pages of two, from a backend that keeps them.\<close>

definition example_rows :: "int row list" where
  "example_rows = [[''id'' \<mapsto> 7], [''id'' \<mapsto> 3], [''id'' \<mapsto> 5]]"

definition example_fetch :: "string \<times> int sql_param list \<Rightarrow> int row list" where
  "example_fetch stmt =
     sql_answer [''id''] example_rows (case snd stmt of [Bound c] \<Rightarrow> Some [c] | _ \<Rightarrow> None) 3"


end
