(* ===== verification/PipeWire.thy ===== *)
theory PipeWire
  imports NatsTokens PyFormat
begin

text \<open>
  The byte pipe's wire protocol, \<open>nats/pipe_wire.py\<close>: the layout of a frame, the envelopes of the attach
  exchange, the coordinates the two ends agree on, and the negotiation of \<open>nats/pipe.py\<close> that mints them on
  the owner's side and checks them on the caller's.  A frame is its bytes; the JSON text of an envelope is
  kept as the value it encodes, with \<open>None\<close> for bytes that are no UTF-8 or no JSON, and how \<open>str\<close> renders a
  float is a parameter.  The lemmas show that frames read back as they were written, that a caller accepts
  exactly the coordinates that keep to its offer and cannot widen its subscription, and that what an owner
  mints for an offer of this release is accepted.
\<close>

section \<open>Frames\<close>

type_synonym byte = "8 word"

datatype pipe_error =
    PipeProtocolError
  | PipeSequenceGapError
  | PipeIdleTimeout
  | PipeRemoteError string string
  | PipeHalfClosed
  | PipeOverrun
  | PipeNeverReady
  | PublishError
  | PipeOverflowError
  | PipeStructError
  | PipeSubjectError nats_error

definition PIPE_PROTOCOL_VERSION :: int where
  "PIPE_PROTOCOL_VERSION = 1"

definition MIN_PIPE_PROTOCOL_VERSION :: int where
  "MIN_PIPE_PROTOCOL_VERSION = 1"

definition TAG_DATA :: int where
  "TAG_DATA = 0"

definition TAG_CREDIT :: int where
  "TAG_CREDIT = 1"

definition TAG_CLOSE :: int where
  "TAG_CLOSE = 2"

definition TAG_ERROR :: int where
  "TAG_ERROR = 3"

definition TAG_READY :: int where
  "TAG_READY = 4"

definition MAX_SEQ :: int where
  "MAX_SEQ = 4294967295"

lemmas tag_defs = TAG_DATA_def TAG_CREDIT_def TAG_CLOSE_def TAG_ERROR_def TAG_READY_def

text \<open>\<open>struct.Struct("!BI")\<close>: one byte, then four of a big-endian unsigned number; \<open>pack\<close> refuses a value
  its field does not hold.\<close>

definition header_pack :: "int \<Rightarrow> int \<Rightarrow> pipe_error + byte list" where
  "header_pack tag seq =
     (if \<not> (0 \<le> tag \<and> tag \<le> 255) \<or> \<not> (0 \<le> seq \<and> seq \<le> MAX_SEQ) then Inl PipeStructError
      else Inr [of_int tag, of_int (seq div 16777216), of_int (seq div 65536), of_int (seq div 256), of_int seq])"

fun header_unpack_from :: "byte list \<Rightarrow> int \<times> int" where
  "header_unpack_from (t # a # b # c # d # rest) =
     (uint t, ((uint a * 256 + uint b) * 256 + uint c) * 256 + uint d)"
| "header_unpack_from _ = (0, 0)"

definition encode_frame :: "int \<Rightarrow> int \<Rightarrow> byte list \<Rightarrow> pipe_error + byte list" where
  "encode_frame tag seq body =
     (if \<not> (0 \<le> seq \<and> seq \<le> MAX_SEQ) then Inl PipeProtocolError
      else and_then (header_pack tag seq) (\<lambda>header. Inr (header @ body)))"

definition decode_frame :: "byte list \<Rightarrow> pipe_error + int \<times> int \<times> byte list" where
  "decode_frame frame =
     (if length frame < 5 then Inl PipeProtocolError
      else (case header_unpack_from frame of (tag, seq) \<Rightarrow> Inr (tag, seq, drop 5 frame)))"

section \<open>JSON values\<close>

datatype json_float = Finite rat | Infinite bool | NotANumber

datatype json_value =
    JStr string
  | JInt int
  | JFloat json_float
  | JBool bool
  | JNull
  | JList "json_value list"
  | JObj "(string \<times> json_value) list"

text \<open>\<open>value[name]\<close>: only an object has text keys, and a missing one raises.  \<open>KeyError\<close>, \<open>TypeError\<close> and
  \<open>ValueError\<close> are one here, since every reader of an envelope catches the three alike.\<close>

fun json_item :: "json_value \<Rightarrow> string \<Rightarrow> pipe_error + json_value" where
  "json_item (JObj items) name = (case map_of items name of None \<Rightarrow> Inl PipeProtocolError | Some v \<Rightarrow> Inr v)"
| "json_item _ name = Inl PipeProtocolError"

text \<open>\<open>int(value)\<close>.  An infinite float raises \<open>OverflowError\<close>, which is none of the three.\<close>

fun json_int :: "json_value \<Rightarrow> pipe_error + int" where
  "json_int (JInt i) = Inr i"
| "json_int (JBool b) = Inr (if b then 1 else 0)"
| "json_int (JFloat (Finite r)) = Inr (if r < 0 then \<lceil>r\<rceil> else \<lfloor>r\<rfloor>)"
| "json_int (JFloat (Infinite negative)) = Inl PipeOverflowError"
| "json_int (JStr s) = (case py_int s of None \<Rightarrow> Inl PipeProtocolError | Some i \<Rightarrow> Inr i)"
| "json_int _ = Inl PipeProtocolError"

text \<open>\<open>repr(value)\<close> and \<open>str(value)\<close>.\<close>

fun json_repr :: "(json_float \<Rightarrow> string) \<Rightarrow> json_value \<Rightarrow> string" where
  "json_repr float_repr (JStr s) = py_repr s"
| "json_repr float_repr (JInt i) = int_str i"
| "json_repr float_repr (JFloat f) = float_repr f"
| "json_repr float_repr (JBool b) = (if b then ''True'' else ''False'')"
| "json_repr float_repr JNull = ''None''"
| "json_repr float_repr (JList vs) = ''['' @ join_str '', '' (map (json_repr float_repr) vs) @ '']''"
| "json_repr float_repr (JObj items) =
     ''{'' @ join_str '', '' (map (\<lambda>item. py_repr (fst item) @ '': '' @ json_repr float_repr (snd item)) items) @ ''}''"

fun json_str :: "(json_float \<Rightarrow> string) \<Rightarrow> json_value \<Rightarrow> string" where
  "json_str float_repr (JStr s) = s"
| "json_str float_repr v = json_repr float_repr v"

section \<open>Coordinates\<close>

record PipeEndpoint =
  ep_tool :: string
  ep_pod_id :: string
  ep_nonce :: string
  ep_max_chunk :: int
  ep_credit :: int
  ep_version :: int

definition subject_unsafe :: "string \<Rightarrow> bool" where
  "subject_unsafe value \<longleftrightarrow> (\<exists>c \<in> set value. c \<in> set ''*> '' \<or> c = CHR 0x09 \<or> c = CHR 0x0D \<or> c = CHR 0x0A)"

text \<open>\<open>PipeEndpoint(...)\<close>, which runs \<open>__post_init__\<close>.\<close>

definition new_PipeEndpoint ::
  "string \<Rightarrow> string \<Rightarrow> string \<Rightarrow> int \<Rightarrow> int \<Rightarrow> int \<Rightarrow> pipe_error + PipeEndpoint" where
  "new_PipeEndpoint tool pod_id nonce max_chunk credit version =
     (if max_chunk \<le> 0 \<or> credit \<le> 0 then Inl PipeProtocolError
      else if max_chunk > credit then Inl PipeProtocolError
      else if pod_id = [] \<or> subject_unsafe pod_id then Inl PipeProtocolError
      else if nonce = [] \<or> subject_unsafe nonce then Inl PipeProtocolError
      else Inr \<lparr>ep_tool = tool, ep_pod_id = pod_id, ep_nonce = nonce, ep_max_chunk = max_chunk,
                ep_credit = credit, ep_version = version\<rparr>)"

text \<open>\<open>PipeEndpoint.subject\<close>.\<close>

definition endpoint_subject :: "string \<Rightarrow> PipeEndpoint \<Rightarrow> string \<Rightarrow> nats_error + Subject" where
  "endpoint_subject ns endpoint direction = pipe ns (ep_tool endpoint) (ep_pod_id endpoint) (ep_nonce endpoint) direction"

section \<open>The attach exchange\<close>

definition encode_attach_request :: "int \<Rightarrow> int \<Rightarrow> int \<Rightarrow> json_value" where
  "encode_attach_request version credit max_chunk =
     JObj [(''op'', JStr ''attach''), (''version'', JInt version), (''credit'', JInt credit), (''max_chunk'', JInt max_chunk)]"

definition decode_attach_request :: "json_value option \<Rightarrow> pipe_error + int \<times> int \<times> int" where
  "decode_attach_request payload =
     (case payload of
        None \<Rightarrow> Inl PipeProtocolError
      | Some decoded \<Rightarrow>
          and_then (json_item decoded ''op'') (\<lambda>op.
          if op \<noteq> JStr ''attach'' then Inl PipeProtocolError
          else and_then (and_then (json_item decoded ''version'') json_int) (\<lambda>version.
               and_then (and_then (json_item decoded ''credit'') json_int) (\<lambda>credit.
               and_then (and_then (json_item decoded ''max_chunk'') json_int) (\<lambda>max_chunk.
               Inr (version, credit, max_chunk))))))"

definition encode_attach_reply :: "PipeEndpoint \<Rightarrow> json_value" where
  "encode_attach_reply endpoint =
     JObj [(''tool'', JStr (ep_tool endpoint)), (''pod_id'', JStr (ep_pod_id endpoint)),
           (''nonce'', JStr (ep_nonce endpoint)), (''max_chunk'', JInt (ep_max_chunk endpoint)),
           (''credit'', JInt (ep_credit endpoint)), (''version'', JInt (ep_version endpoint))]"

definition decode_attach_reply :: "(json_float \<Rightarrow> string) \<Rightarrow> json_value option \<Rightarrow> pipe_error + PipeEndpoint" where
  "decode_attach_reply float_repr payload =
     (case payload of
        None \<Rightarrow> Inl PipeProtocolError
      | Some decoded \<Rightarrow>
          and_then (json_item decoded ''tool'') (\<lambda>tool.
          and_then (json_item decoded ''pod_id'') (\<lambda>pod_id.
          and_then (json_item decoded ''nonce'') (\<lambda>nonce.
          and_then (and_then (json_item decoded ''max_chunk'') json_int) (\<lambda>max_chunk.
          and_then (and_then (json_item decoded ''credit'') json_int) (\<lambda>credit.
          and_then (and_then (json_item decoded ''version'') json_int) (\<lambda>version.
          and_then (new_PipeEndpoint (json_str float_repr tool) (json_str float_repr pod_id) (json_str float_repr nonce)
                      max_chunk credit version) (\<lambda>endpoint.
          if \<not> (MIN_PIPE_PROTOCOL_VERSION \<le> ep_version endpoint \<and> ep_version endpoint \<le> PIPE_PROTOCOL_VERSION)
          then Inl PipeProtocolError
          else Inr endpoint))))))))"

text \<open>The limits an end of this release offers by default, and the two sides of the exchange: what the
  owner's \<open>_on_attach\<close> mints for a request, under the nonce it drew, and what \<open>attach_pipe\<close> makes of the
  reply.\<close>

definition DEFAULT_MAX_CHUNK_BYTES :: int where
  "DEFAULT_MAX_CHUNK_BYTES = 64 * 1024"

definition DEFAULT_CREDIT_WINDOW_BYTES :: int where
  "DEFAULT_CREDIT_WINDOW_BYTES = 1024 * 1024"

definition on_attach ::
  "string \<Rightarrow> string \<Rightarrow> int \<Rightarrow> int \<Rightarrow> string \<Rightarrow> json_value option \<Rightarrow> pipe_error + PipeEndpoint" where
  "on_attach tool pod_id credit max_chunk nonce payload =
     and_then (decode_attach_request payload) (\<lambda>(requested_version, requested_credit, requested_chunk).
       let version = min requested_version PIPE_PROTOCOL_VERSION in
       if version < MIN_PIPE_PROTOCOL_VERSION then Inl PipeProtocolError
       else let agreed_credit = min requested_credit credit in
         new_PipeEndpoint tool pod_id nonce (min (min requested_chunk max_chunk) agreed_credit) agreed_credit version)"

definition attach_request :: "int \<Rightarrow> int \<Rightarrow> json_value" where
  "attach_request credit max_chunk = encode_attach_request PIPE_PROTOCOL_VERSION credit max_chunk"

definition accept_reply ::
  "(json_float \<Rightarrow> string) \<Rightarrow> int \<Rightarrow> int \<Rightarrow> json_value option \<Rightarrow> pipe_error + PipeEndpoint" where
  "accept_reply float_repr credit max_chunk reply =
     and_then (decode_attach_reply float_repr reply) (\<lambda>endpoint.
       if ep_credit endpoint > credit \<or> ep_max_chunk endpoint > max_chunk then Inl PipeProtocolError
       else Inr endpoint)"

section \<open>Frames read back\<close>

lemma uint_byte: "uint (of_int i :: byte) = i mod 256"
  by (simp add: unsigned_of_int take_bit_eq_mod)

lemma header_unpack_pack:
  assumes "header_pack tag seq = Inr header"
  shows "length header = 5" and "header_unpack_from (header @ body) = (tag, seq)"
proof -
  from assms have r: "0 \<le> tag" "tag \<le> 255" "0 \<le> seq" "seq \<le> MAX_SEQ" and
    h: "header = [of_int tag, of_int (seq div 16777216), of_int (seq div 65536), of_int (seq div 256), of_int seq]"
    by (auto simp: header_pack_def split: if_splits)
  show "length header = 5" by (simp add: h)
  have "tag mod 256 = tag" using r(1,2) by simp
  moreover have "((seq div 16777216 mod 256 * 256 + seq div 65536 mod 256) * 256 + seq div 256 mod 256) * 256 + seq mod 256 = seq"
  proof -
    define a b c where "a = seq div 256" and "b = a div 256" and "c = b div 256"
    have d: "seq div 65536 = b" "seq div 16777216 = c"
      using zdiv_zmult2_eq [of 256 seq 256] zdiv_zmult2_eq [of 256 seq 65536] by (simp_all add: a_def b_def c_def)
    have c: "c mod 256 = c"
      using r(3,4) unfolding d(2) [symmetric]
      by (intro mod_pos_pos_trivial) (simp_all add: MAX_SEQ_def pos_imp_zdiv_nonneg_iff)
    have "c * 256 + b mod 256 = b" "b * 256 + a mod 256 = a" "a * 256 + seq mod 256 = seq"
      unfolding a_def b_def c_def by (rule div_mult_mod_eq)+
    then show ?thesis by (simp only: d c a_def [symmetric])
  qed
  ultimately show "header_unpack_from (header @ body) = (tag, seq)"
    by (simp only: h append.simps header_unpack_from.simps uint_byte)
qed

lemma decode_encode_frame:
  assumes "encode_frame tag seq body = Inr frame"
  shows "decode_frame frame = Inr (tag, seq, body)"
  using assms header_unpack_pack [of tag seq]
  by (auto simp: encode_frame_def decode_frame_def split: if_splits)

lemma encode_frame_total:
  assumes "0 \<le> tag" and "tag \<le> 255"
  shows "(\<exists>frame. encode_frame tag seq body = Inr frame) \<longleftrightarrow> 0 \<le> seq \<and> seq \<le> MAX_SEQ"
    and "encode_frame tag seq body = Inl e \<Longrightarrow> e = PipeProtocolError"
  using assms by (auto simp: encode_frame_def header_pack_def and_then_def split: if_splits)

section \<open>Coordinates and subscriptions\<close>

lemma new_PipeEndpoint_Inr:
  "new_PipeEndpoint tool pod_id nonce max_chunk credit version = Inr endpoint \<longleftrightarrow>
     0 < max_chunk \<and> max_chunk \<le> credit \<and> pod_id \<noteq> [] \<and> \<not> subject_unsafe pod_id \<and> nonce \<noteq> [] \<and> \<not> subject_unsafe nonce
     \<and> endpoint = \<lparr>ep_tool = tool, ep_pod_id = pod_id, ep_nonce = nonce, ep_max_chunk = max_chunk,
                   ep_credit = credit, ep_version = version\<rparr>"
  by (auto simp: new_PipeEndpoint_def)

definition sound_endpoint :: "PipeEndpoint \<Rightarrow> bool" where
  "sound_endpoint endpoint \<longleftrightarrow> 0 < ep_max_chunk endpoint \<and> ep_max_chunk endpoint \<le> ep_credit endpoint
     \<and> ep_pod_id endpoint \<noteq> [] \<and> \<not> subject_unsafe (ep_pod_id endpoint)
     \<and> ep_nonce endpoint \<noteq> [] \<and> \<not> subject_unsafe (ep_nonce endpoint)"

lemma sound_new_PipeEndpoint:
  "new_PipeEndpoint tool pod_id nonce max_chunk credit version = Inr endpoint \<Longrightarrow> sound_endpoint endpoint"
  by (auto simp: new_PipeEndpoint_Inr sound_endpoint_def)

lemma sanitized_literal: "\<not> subject_unsafe value \<Longrightarrow> literal_token (sanitize_subject_segment value)"
  by (cases "value")
    (auto simp: literal_token_def subject_unsafe_def sanitize_subject_segment_def replace_char_def split: if_splits)

lemma literal_tokens_match:
  "\<forall>p \<in> set ps. literal_token p \<Longrightarrow> token_match ps ts \<longleftrightarrow> ts = ps"
proof (induction ps arbitrary: ts)
  case (Cons p ps)
  then have "p \<noteq> ''*''" "p \<noteq> ''>''" by (simp_all add: literal_token_def)
  with Cons show ?case by (cases ts) auto
qed simp

lemma tokens_inject: "tokens x = tokens y \<Longrightarrow> x = y"
  unfolding tokens_def by (rule split_on_inject)

text \<open>The subject of sound coordinates is one literal subject: what a peer chose as pod id and nonce cannot
  make the subscription match anything else.\<close>

lemma endpoint_subject_literal:
  assumes "sound_endpoint endpoint" and "literal_token ns" and "literal_token direction"
    and "endpoint_subject ns endpoint direction = Inr subject"
  shows "nats_matches (sub_path subject) published \<longleftrightarrow> published = sub_path subject"
proof -
  from assms(4) obtain node where
    path: "sub_path subject = dotted [ns, ''pipe'', digest_token node, sanitize_subject_segment (ep_pod_id endpoint),
      sanitize_subject_segment (ep_nonce endpoint), direction]"
    by (auto simp: endpoint_subject_def pipe_def split: sum.splits if_splits)
  have "literal_token (sanitize_subject_segment (ep_pod_id endpoint))"
    "literal_token (sanitize_subject_segment (ep_nonce endpoint))"
    using assms(1) by (simp_all add: sound_endpoint_def sanitized_literal)
  moreover have "literal_token ''pipe''" by (simp add: literal_token_def)
  ultimately have lit: "\<forall>p \<in> set (tokens (sub_path subject)). literal_token p"
    using assms(2,3) digest_token_literal [of node] by (auto simp: path literal_token_def)
  show ?thesis unfolding nats_matches_def literal_tokens_match [OF lit] by (auto dest: tokens_inject)
qed

section \<open>The exchange\<close>

lemma decode_attach_reply_sound:
  assumes "decode_attach_reply float_repr reply = Inr endpoint"
  shows "sound_endpoint endpoint" and "ep_version endpoint = PIPE_PROTOCOL_VERSION"
  using assms
  by (auto simp: decode_attach_reply_def MIN_PIPE_PROTOCOL_VERSION_def PIPE_PROTOCOL_VERSION_def
      split: option.splits if_splits dest: sound_new_PipeEndpoint)

lemma decode_encode_attach_reply:
  assumes "sound_endpoint endpoint"
    and "MIN_PIPE_PROTOCOL_VERSION \<le> ep_version endpoint" and "ep_version endpoint \<le> PIPE_PROTOCOL_VERSION"
  shows "decode_attach_reply float_repr (Some (encode_attach_reply endpoint)) = Inr endpoint"
  using assms by (auto simp: decode_attach_reply_def encode_attach_reply_def and_then_def sound_endpoint_def new_PipeEndpoint_def)

lemma on_attach_request:
  assumes "0 < credit" "0 < max_chunk" "0 < own_credit" "0 < own_chunk"
    and "pod_id \<noteq> []" "\<not> subject_unsafe pod_id" "nonce \<noteq> []" "\<not> subject_unsafe nonce"
  shows "on_attach tool pod_id own_credit own_chunk nonce (Some (attach_request credit max_chunk)) =
    Inr \<lparr>ep_tool = tool, ep_pod_id = pod_id, ep_nonce = nonce,
         ep_max_chunk = min (min max_chunk own_chunk) (min credit own_credit), ep_credit = min credit own_credit,
         ep_version = PIPE_PROTOCOL_VERSION\<rparr>"
  using assms
  by (auto simp: on_attach_def attach_request_def encode_attach_request_def decode_attach_request_def and_then_def
      new_PipeEndpoint_def MIN_PIPE_PROTOCOL_VERSION_def PIPE_PROTOCOL_VERSION_def Let_def)

lemma accepted_within_offer:
  assumes "accept_reply float_repr credit max_chunk reply = Inr endpoint"
  shows "0 < ep_max_chunk endpoint" "ep_max_chunk endpoint \<le> ep_credit endpoint"
    "ep_credit endpoint \<le> credit" "ep_max_chunk endpoint \<le> max_chunk" "ep_version endpoint = PIPE_PROTOCOL_VERSION"
    "\<forall>ns direction subject published. literal_token ns \<longrightarrow> literal_token direction \<longrightarrow>
       endpoint_subject ns endpoint direction = Inr subject \<longrightarrow>
       nats_matches (sub_path subject) published = (published = sub_path subject)"
proof -
  from assms have d: "decode_attach_reply float_repr reply = Inr endpoint"
    and limits: "ep_credit endpoint \<le> credit" "ep_max_chunk endpoint \<le> max_chunk"
    by (auto simp: accept_reply_def split: if_splits)
  note s = decode_attach_reply_sound [OF d]
  from s limits endpoint_subject_literal [OF s(1)]
  show "0 < ep_max_chunk endpoint" "ep_max_chunk endpoint \<le> ep_credit endpoint"
    "ep_credit endpoint \<le> credit" "ep_max_chunk endpoint \<le> max_chunk" "ep_version endpoint = PIPE_PROTOCOL_VERSION"
    "\<forall>ns direction subject published. literal_token ns \<longrightarrow> literal_token direction \<longrightarrow>
       endpoint_subject ns endpoint direction = Inr subject \<longrightarrow>
       nats_matches (sub_path subject) published = (published = sub_path subject)"
    by (simp_all add: sound_endpoint_def)
qed

lemma exchange_succeeds:
  assumes "0 < credit \<and> 0 < max_chunk \<and> 0 < own_credit \<and> 0 < own_chunk
    \<and> pod_id \<noteq> [] \<and> \<not> subject_unsafe pod_id \<and> nonce \<noteq> [] \<and> \<not> subject_unsafe nonce"
  shows "\<exists>minted. on_attach tool pod_id own_credit own_chunk nonce (Some (attach_request credit max_chunk)) = Inr minted
    \<and> accept_reply float_repr credit max_chunk (Some (encode_attach_reply minted)) = Inr minted
    \<and> ep_credit minted = min credit own_credit
    \<and> ep_max_chunk minted = min (min max_chunk own_chunk) (ep_credit minted)"
proof -
  define minted where "minted = \<lparr>ep_tool = tool, ep_pod_id = pod_id, ep_nonce = nonce,
    ep_max_chunk = min (min max_chunk own_chunk) (min credit own_credit), ep_credit = min credit own_credit,
    ep_version = PIPE_PROTOCOL_VERSION\<rparr>"
  have "on_attach tool pod_id own_credit own_chunk nonce (Some (attach_request credit max_chunk)) = Inr minted"
    unfolding minted_def by (rule on_attach_request) (use assms in auto)
  moreover have "decode_attach_reply float_repr (Some (encode_attach_reply minted)) = Inr minted"
    by (rule decode_encode_attach_reply)
      (use assms in \<open>auto simp: minted_def sound_endpoint_def MIN_PIPE_PROTOCOL_VERSION_def PIPE_PROTOCOL_VERSION_def\<close>)
  then have "accept_reply float_repr credit max_chunk (Some (encode_attach_reply minted)) = Inr minted"
    by (simp add: accept_reply_def and_then_def minted_def)
  ultimately show ?thesis
    by (intro exI [of _ minted]) (simp add: minted_def)
qed

text \<open>C17: The attach exchange of the byte pipe.  Whatever a peer replies, the coordinates a caller goes on with
  keep to the window and the frame size it offered, fit one frame into the window, name a version both
  speak, and subscribe one literal subject, so no pod id or nonce the peer chose widens the subscription.
  And between two ends of this release with positive limits the exchange succeeds: the caller accepts
  exactly the coordinates the owner minted, whose limits are the smaller of the two sides'.\<close>

theorem attach_exchange:
  "(accept_reply float_repr credit max_chunk reply = Inr endpoint \<longrightarrow>
      0 < ep_max_chunk endpoint \<and> ep_max_chunk endpoint \<le> ep_credit endpoint
      \<and> ep_credit endpoint \<le> credit \<and> ep_max_chunk endpoint \<le> max_chunk \<and> ep_version endpoint = PIPE_PROTOCOL_VERSION
      \<and> (\<forall>ns direction subject published. literal_token ns \<longrightarrow> literal_token direction \<longrightarrow>
            endpoint_subject ns endpoint direction = Inr subject \<longrightarrow>
            nats_matches (sub_path subject) published = (published = sub_path subject)))
   \<and> (0 < credit \<and> 0 < max_chunk \<and> 0 < own_credit \<and> 0 < own_chunk
      \<and> pod_id \<noteq> [] \<and> \<not> subject_unsafe pod_id \<and> nonce \<noteq> [] \<and> \<not> subject_unsafe nonce \<longrightarrow>
      (\<exists>minted. on_attach tool pod_id own_credit own_chunk nonce (Some (attach_request credit max_chunk)) = Inr minted
        \<and> accept_reply float_repr credit max_chunk (Some (encode_attach_reply minted)) = Inr minted
        \<and> ep_credit minted = min credit own_credit
        \<and> ep_max_chunk minted = min (min max_chunk own_chunk) (ep_credit minted)))"
  by (intro conjI impI accepted_within_offer exchange_succeeds) simp_all

text \<open>A caller that offers a window of six bytes and leaves the frame size at its default, an owner with the
  defaults, and a reply that names a wildcard as its pod id.\<close>

theorem attach_exchange_witness:
  "(\<exists>minted. on_attach ''pentest'' ''p1'' DEFAULT_CREDIT_WINDOW_BYTES DEFAULT_MAX_CHUNK_BYTES ''ab''
        (Some (attach_request 6 DEFAULT_MAX_CHUNK_BYTES)) = Inr minted
      \<and> accept_reply (\<lambda>_. ''nan'') 6 DEFAULT_MAX_CHUNK_BYTES (Some (encode_attach_reply minted)) = Inr minted
      \<and> ep_credit minted = 6 \<and> ep_max_chunk minted = 6
      \<and> (\<forall>published. nats_matches (dotted [''ns'', ''pipe'', digest_token ''tools.pentest'', ''p1'', ''ab'', ''down'']) published
           = (published = dotted [''ns'', ''pipe'', digest_token ''tools.pentest'', ''p1'', ''ab'', ''down''])))
   \<and> accept_reply (\<lambda>_. ''nan'') 6 6 (Some (encode_attach_reply
        \<lparr>ep_tool = ''pentest'', ep_pod_id = ''*'', ep_nonce = ''ab'', ep_max_chunk = 6, ep_credit = 6, ep_version = 1\<rparr>))
      = Inl PipeProtocolError"
proof -
  let ?chunk = DEFAULT_MAX_CHUNK_BYTES and ?window = DEFAULT_CREDIT_WINDOW_BYTES
  have pos: "0 < ?chunk" "0 < ?window" "6 < ?chunk" "6 < ?window"
    by (simp_all add: DEFAULT_MAX_CHUNK_BYTES_def DEFAULT_CREDIT_WINDOW_BYTES_def)
  have literals: "literal_token ''ns''" "literal_token ''down''" by (simp_all add: literal_token_def)
  have names: "\<not> subject_unsafe ''p1''" "\<not> subject_unsafe ''ab''" by (simp_all add: subject_unsafe_def)
  define minted where "minted = \<lparr>ep_tool = ''pentest'', ep_pod_id = ''p1'', ep_nonce = ''ab'',
    ep_max_chunk = 6, ep_credit = 6, ep_version = PIPE_PROTOCOL_VERSION\<rparr>"
  have made: "on_attach ''pentest'' ''p1'' ?window ?chunk ''ab'' (Some (attach_request 6 ?chunk)) = Inr minted"
    using pos names by (subst on_attach_request) (simp_all add: minted_def)
  then have accepted: "accept_reply (\<lambda>_. ''nan'') 6 ?chunk (Some (encode_attach_reply minted)) = Inr minted"
    using attach_exchange [where credit = 6 and max_chunk = ?chunk and own_credit = ?window and own_chunk = ?chunk
        and pod_id = "''p1''" and nonce = "''ab''" and tool = "''pentest''" and float_repr = "\<lambda>_. ''nan''"] pos names
    by auto
  have "endpoint_subject ''ns'' minted ''down'' =
      Inr (point [''ns'', ''pipe'', digest_token ''tools.pentest'', ''p1'', ''ab'', ''down''])"
    by (simp add: minted_def endpoint_subject_def pipe_def provider_node_def tool_provider_node_def ns_simps
        replace_char_def)
  then have "nats_matches (sub_path (point [''ns'', ''pipe'', digest_token ''tools.pentest'', ''p1'', ''ab'', ''down''])) published
      = (published = sub_path (point [''ns'', ''pipe'', digest_token ''tools.pentest'', ''p1'', ''ab'', ''down'']))" for published
    using attach_exchange [where credit = 6 and max_chunk = ?chunk and endpoint = minted
        and reply = "Some (encode_attach_reply minted)" and float_repr = "\<lambda>_. ''nan''", THEN conjunct1] accepted
      literals by blast
  moreover have "accept_reply (\<lambda>_. ''nan'') 6 6 (Some (encode_attach_reply
        \<lparr>ep_tool = ''pentest'', ep_pod_id = ''*'', ep_nonce = ''ab'', ep_max_chunk = 6, ep_credit = 6, ep_version = 1\<rparr>))
      = Inl PipeProtocolError"
    by (simp add: accept_reply_def decode_attach_reply_def encode_attach_reply_def new_PipeEndpoint_def subject_unsafe_def
        and_then_def)
  ultimately show ?thesis using made accepted by (auto simp: minted_def)
qed

end
