(* ===== verification/Pipe.thy ===== *)
theory Pipe
  imports PipeWire
begin

text \<open>
  The byte pipe of \<open>nats/pipe.py\<close>: one \<open>PipeStream\<close> at each end of a pair of subjects.  An operation is
  the code between two awaits; a world is the two ends, the calls suspended in them, and every frame
  either end ever published.  Core NATS promises no delivery, so any published frame may reach the other
  end at any time, in any order, more than once, or never.  Each end has one consumer; any number of
  senders take turns on the outbound lock, so at most one of them is past it.

  What an end emitted, took off its inbox and returned to its caller is kept beside the stream, as the
  history the lemmas speak of.  A body is \<open>Some\<close> bytes, and \<open>None\<close> is the close.
\<close>

section \<open>The stream\<close>

datatype PipeSide = CALLER | OWNER

fun other_side :: "PipeSide \<Rightarrow> PipeSide" where
  "other_side CALLER = OWNER"
| "other_side OWNER = CALLER"

text \<open>The JSON codec an error frame goes through.\<close>

record json_codec =
  jc_loads :: "byte list \<Rightarrow> json_value option"
  jc_dumps :: "json_value \<Rightarrow> byte list"
  jc_float_repr :: "json_float \<Rightarrow> string"

record PipeStream =
  ps_endpoint :: PipeEndpoint
  ps_outbound :: Subject
  ps_inbound :: Subject
  ps_send_seq :: nat
  ps_unacked :: "(nat \<times> int) list"
  ps_unacked_bytes :: int
  ps_credit :: bool
  ps_sent_close :: bool
  ps_expect_seq :: nat
  ps_inbox :: "(nat \<times> byte list option) list"
  ps_queued_bytes :: int
  ps_consumed_since_ack :: int
  ps_consumed_seq :: nat
  ps_peer_closed :: bool
  ps_peer_ready :: bool
  ps_fault :: "pipe_error option"

definition fresh_stream :: "PipeEndpoint \<Rightarrow> Subject \<Rightarrow> Subject \<Rightarrow> PipeStream" where
  "fresh_stream endpoint outbound inbound =
     \<lparr>ps_endpoint = endpoint, ps_outbound = outbound, ps_inbound = inbound,
      ps_send_seq = 0, ps_unacked = [], ps_unacked_bytes = 0, ps_credit = True, ps_sent_close = False,
      ps_expect_seq = 1, ps_inbox = [], ps_queued_bytes = 0, ps_consumed_since_ack = 0, ps_consumed_seq = 0,
      ps_peer_closed = False, ps_peer_ready = False, ps_fault = None\<rparr>"

definition new_PipeStream :: "string \<Rightarrow> PipeEndpoint \<Rightarrow> PipeSide \<Rightarrow> nats_error + PipeStream" where
  "new_PipeStream ns endpoint side =
     and_then (endpoint_subject ns endpoint (if side = OWNER then ''down'' else ''up'')) (\<lambda>outbound.
     and_then (endpoint_subject ns endpoint (if side = OWNER then ''up'' else ''down'')) (\<lambda>inbound.
     Inr (fresh_stream endpoint outbound inbound)))"

subsection \<open>Faults\<close>

text \<open>\<open>_fail\<close>: the first fault stays, and both a waiting reader and a waiting sender wake.\<close>

definition fail :: "pipe_error \<Rightarrow> PipeStream \<Rightarrow> PipeStream" where
  "fail exc s =
     (case ps_fault s of
        Some _ \<Rightarrow> s
      | None \<Rightarrow> s\<lparr>ps_fault := Some exc, ps_inbox := ps_inbox s @ [(0, None)], ps_credit := True\<rparr>)"

definition encode_error_body :: "json_codec \<Rightarrow> string \<Rightarrow> string \<Rightarrow> byte list" where
  "encode_error_body codec type_name message =
     jc_dumps codec (JObj [(''type'', JStr type_name), (''message'', JStr message)])"

text \<open>The text of the exception a malformed body raises is not kept.\<close>

definition decode_error_body :: "json_codec \<Rightarrow> byte list \<Rightarrow> pipe_error" where
  "decode_error_body codec body =
     (case (case jc_loads codec body of
              None \<Rightarrow> Inl PipeProtocolError
            | Some decoded \<Rightarrow>
                and_then (json_item decoded ''type'') (\<lambda>type_name.
                and_then (json_item decoded ''message'') (\<lambda>message.
                Inr (PipeRemoteError (json_str (jc_float_repr codec) type_name) (json_str (jc_float_repr codec) message)))))
      of Inr exc \<Rightarrow> exc
       | Inl _ \<Rightarrow> PipeRemoteError ''MalformedErrorFrame'' ''peer sent an unreadable error frame'')"

subsection \<open>Receiving\<close>

text \<open>\<open>_apply_credit\<close>: everything up to the acknowledged sequence is released.\<close>

fun release_acked :: "nat \<Rightarrow> (nat \<times> int) list \<Rightarrow> int \<Rightarrow> (nat \<times> int) list \<times> int" where
  "release_acked acked_through [] bytes = ([], bytes)"
| "release_acked acked_through ((seq, sent) # unacked) bytes =
     (if seq \<le> acked_through then release_acked acked_through unacked (bytes - sent)
      else ((seq, sent) # unacked, bytes))"

definition apply_credit :: "nat \<Rightarrow> PipeStream \<Rightarrow> PipeStream" where
  "apply_credit acked_through s =
     (case release_acked acked_through (ps_unacked s) (ps_unacked_bytes s) of
        (unacked, bytes) \<Rightarrow>
          s\<lparr>ps_unacked := unacked, ps_unacked_bytes := bytes,
            ps_credit := (bytes < ep_credit (ps_endpoint s) \<or> ps_credit s)\<rparr>)"

definition accept_sequenced :: "int \<Rightarrow> nat \<Rightarrow> byte list \<Rightarrow> PipeStream \<Rightarrow> PipeStream" where
  "accept_sequenced tag seq body s =
     (if seq \<noteq> ps_expect_seq s then fail PipeSequenceGapError s
      else let s = s\<lparr>ps_expect_seq := ps_expect_seq s + 1\<rparr> in
        if tag = TAG_CLOSE then s\<lparr>ps_inbox := ps_inbox s @ [(seq, None)]\<rparr>
        else let s = s\<lparr>ps_queued_bytes := ps_queued_bytes s + int (length body)\<rparr> in
          if ps_queued_bytes s > ep_credit (ps_endpoint s) then fail PipeOverrun s
          else s\<lparr>ps_inbox := ps_inbox s @ [(seq, Some body)]\<rparr>)"

definition on_frame :: "json_codec \<Rightarrow> byte list \<Rightarrow> PipeStream \<Rightarrow> PipeStream" where
  "on_frame codec data s =
     (case decode_frame data of
        Inl exc \<Rightarrow> fail exc s
      | Inr (tag, seq, body) \<Rightarrow>
          if tag = TAG_CREDIT then apply_credit (nat seq) s
          else if tag = TAG_READY then s\<lparr>ps_peer_ready := True\<rparr>
          else if tag = TAG_ERROR then fail (decode_error_body codec body) s
          else if tag \<in> {TAG_DATA, TAG_CLOSE} then accept_sequenced tag (nat seq) body s
          else fail PipeProtocolError s)"

text \<open>\<open>receive\<close>, run when it has something to go on: it raises, returns, has nothing to read, or publishes
  an acknowledgement before it returns the body in hand.\<close>

datatype receive_result =
    ReceiveRaises pipe_error
  | ReceiveReturns "byte list option"
  | ReceiveBlocks
  | ReceivePublishes "byte list" "byte list option"

definition send_credit :: "byte list option \<Rightarrow> PipeStream \<Rightarrow> receive_result \<times> PipeStream" where
  "send_credit body s =
     (case encode_frame TAG_CREDIT (int (ps_consumed_seq s)) [] of
        Inl exc \<Rightarrow> (ReceiveRaises exc, s\<lparr>ps_consumed_since_ack := 0\<rparr>)
      | Inr frame \<Rightarrow> (ReceivePublishes frame body, s\<lparr>ps_consumed_since_ack := 0\<rparr>))"

definition receive :: "PipeStream \<Rightarrow> receive_result \<times> PipeStream" where
  "receive s =
     (case ps_fault s of
        Some exc \<Rightarrow> (ReceiveRaises exc, s)
      | None \<Rightarrow>
          if ps_peer_closed s then (ReceiveReturns None, s)
          else (case ps_inbox s of
             [] \<Rightarrow> (ReceiveBlocks, s)
           | (seq, body) # inbox \<Rightarrow>
               let s = s\<lparr>ps_inbox := inbox, ps_consumed_seq := seq\<rparr> in
               (case body of
                  None \<Rightarrow> send_credit None (s\<lparr>ps_peer_closed := True\<rparr>)
                | Some bytes \<Rightarrow>
                    let s = s\<lparr>ps_queued_bytes := ps_queued_bytes s - int (length bytes),
                              ps_consumed_since_ack := ps_consumed_since_ack s + int (length bytes)\<rparr> in
                    if ps_consumed_since_ack s * 2 \<ge> ep_credit (ps_endpoint s) then send_credit (Some bytes) s
                    else (ReceiveReturns (Some bytes), s))))"

text \<open>\<open>wait_for_peer\<close>, when its wait is over: the event came, or the time.\<close>

definition wait_for_peer :: "bool \<Rightarrow> PipeStream \<Rightarrow> pipe_error + unit" where
  "wait_for_peer timed_out s =
     (if timed_out then Inl PipeNeverReady
      else (case ps_fault s of Some exc \<Rightarrow> Inl exc | None \<Rightarrow> Inr ()))"

subsection \<open>Sending\<close>

text \<open>One pass of \<open>_await_credit\<close>, and \<open>_emit_sequenced\<close> up to its publish.\<close>

datatype credit_result = CreditRaises pipe_error | CreditGranted | CreditWaits

definition await_credit :: "int \<Rightarrow> PipeStream \<Rightarrow> credit_result \<times> PipeStream" where
  "await_credit frame_size s =
     (case ps_fault s of
        Some exc \<Rightarrow> (CreditRaises exc, s)
      | None \<Rightarrow>
          if ps_unacked_bytes s + frame_size \<le> ep_credit (ps_endpoint s) then (CreditGranted, s)
          else let s = s\<lparr>ps_credit := False\<rparr> in
            if ps_unacked_bytes s + frame_size \<le> ep_credit (ps_endpoint s) then (CreditGranted, s)
            else (CreditWaits, s))"

definition emit_sequenced :: "int \<Rightarrow> byte list \<Rightarrow> PipeStream \<Rightarrow> (pipe_error + byte list) \<times> PipeStream" where
  "emit_sequenced tag body s =
     (let s = s\<lparr>ps_send_seq := ps_send_seq s + 1\<rparr> in
      case encode_frame tag (int (ps_send_seq s)) body of
        Inl exc \<Rightarrow> (Inl exc, s)
      | Inr frame \<Rightarrow>
          (Inr frame, s\<lparr>ps_unacked := ps_unacked s @ [(ps_send_seq s, int (length body))],
                        ps_unacked_bytes := ps_unacked_bytes s + int (length body)\<rparr>))"

text \<open>The slices \<open>send\<close> walks, \<open>range(0, len(view), max_chunk)\<close>.\<close>

function send_chunks :: "nat \<Rightarrow> byte list \<Rightarrow> byte list list" where
  "send_chunks max_chunk data =
     (if data = [] \<or> max_chunk = 0 then [] else take max_chunk data # send_chunks max_chunk (drop max_chunk data))"
  by pat_completeness auto
termination by (relation "measure (\<lambda>(max_chunk, data). length data)") auto

declare send_chunks.simps [simp del]

section \<open>The two ends\<close>

text \<open>The call past the outbound lock: suspended in \<open>_await_credit\<close> with a chunk and those after it, or in
  the publish of a frame.  The consumer is suspended in the publish of an acknowledgement, with the body
  it is about to return.\<close>

datatype send_activity =
    SendIdle
  | SendAwaitsCredit "byte list" "byte list list"
  | SendPublishes "byte list" "byte list list"

datatype receive_activity =
    ReceiveIdle
  | ReceiveAcks "byte list" "byte list option"

record pipe_end =
  pe_stream :: PipeStream
  pe_sender :: send_activity
  pe_receiver :: receive_activity
  pe_emitted :: "byte list option list"
  pe_taken :: "byte list option list"
  pe_returned :: "byte list option list"
  pe_lost :: nat

definition new_pipe_end :: "PipeStream \<Rightarrow> pipe_end" where
  "new_pipe_end s = \<lparr>pe_stream = s, pe_sender = SendIdle, pe_receiver = ReceiveIdle,
     pe_emitted = [], pe_taken = [], pe_returned = [], pe_lost = 0\<rparr>"

definition emit_from :: "int \<Rightarrow> byte list option \<Rightarrow> byte list list \<Rightarrow> pipe_end \<Rightarrow> pipe_end" where
  "emit_from tag body rest e =
     (case emit_sequenced tag (case body of None \<Rightarrow> [] | Some bytes \<Rightarrow> bytes) (pe_stream e) of
        (Inl exc, s) \<Rightarrow> e\<lparr>pe_stream := s, pe_sender := SendIdle\<rparr>
      | (Inr frame, s) \<Rightarrow>
          e\<lparr>pe_stream := s, pe_sender := SendPublishes frame rest, pe_emitted := pe_emitted e @ [body]\<rparr>)"

text \<open>The loop of \<open>send\<close>, from its head to the next await.\<close>

fun send_loop :: "byte list list \<Rightarrow> pipe_end \<Rightarrow> pipe_end" where
  "send_loop [] e = e\<lparr>pe_sender := SendIdle\<rparr>"
| "send_loop (chunk # rest) e =
     (case await_credit (int (length chunk)) (pe_stream e) of
        (CreditRaises exc, s) \<Rightarrow> e\<lparr>pe_stream := s, pe_sender := SendIdle\<rparr>
      | (CreditWaits, s) \<Rightarrow> e\<lparr>pe_stream := s, pe_sender := SendAwaitsCredit chunk rest\<rparr>
      | (CreditGranted, s) \<Rightarrow> emit_from TAG_DATA (Some chunk) rest (e\<lparr>pe_stream := s\<rparr>))"

definition send :: "byte list \<Rightarrow> pipe_end \<Rightarrow> pipe_end" where
  "send data e =
     (if ps_fault (pe_stream e) \<noteq> None \<or> ps_sent_close (pe_stream e) then e
      else send_loop (send_chunks (nat (ep_max_chunk (ps_endpoint (pe_stream e)))) data) e)"

definition send_close :: "pipe_end \<Rightarrow> pipe_end" where
  "send_close e =
     (if ps_sent_close (pe_stream e) then e
      else emit_from TAG_CLOSE None [] (e\<lparr>pe_stream := (pe_stream e)\<lparr>ps_sent_close := True\<rparr>\<rparr>))"

definition receive_call :: "pipe_end \<Rightarrow> pipe_end" where
  "receive_call e =
     (let taken = (if ps_fault (pe_stream e) = None \<and> \<not> ps_peer_closed (pe_stream e)
                   then map snd (take 1 (ps_inbox (pe_stream e))) else []) in
      case receive (pe_stream e) of
        (ReceiveRaises exc, s) \<Rightarrow> e\<lparr>pe_stream := s, pe_taken := pe_taken e @ taken, pe_lost := pe_lost e + length taken\<rparr>
      | (ReceiveBlocks, s) \<Rightarrow> e\<lparr>pe_stream := s\<rparr>
      | (ReceiveReturns body, s) \<Rightarrow>
          e\<lparr>pe_stream := s, pe_taken := pe_taken e @ taken, pe_returned := pe_returned e @ taken\<rparr>
      | (ReceivePublishes frame body, s) \<Rightarrow>
          e\<lparr>pe_stream := s, pe_taken := pe_taken e @ taken, pe_receiver := ReceiveAcks frame body\<rparr>)"

section \<open>The world\<close>

record pipe_world =
  pw_end :: "PipeSide \<Rightarrow> pipe_end"
  pw_net :: "PipeSide \<Rightarrow> byte list list"

definition set_end :: "PipeSide \<Rightarrow> pipe_end \<Rightarrow> pipe_world \<Rightarrow> pipe_world" where
  "set_end x e w = w\<lparr>pw_end := (pw_end w)(x := e)\<rparr>"

definition published :: "PipeSide \<Rightarrow> byte list \<Rightarrow> pipe_world \<Rightarrow> pipe_world" where
  "published x frame w = w\<lparr>pw_net := (pw_net w)(x := pw_net w x @ [frame])\<rparr>"

definition pipe_start :: "PipeStream \<Rightarrow> PipeStream \<Rightarrow> pipe_world" where
  "pipe_start caller owner =
     \<lparr>pw_end = (\<lambda>x. new_pipe_end (case x of CALLER \<Rightarrow> caller | OWNER \<Rightarrow> owner)), pw_net = (\<lambda>_. [])\<rparr>"

text \<open>What may happen: calls begin, suspended calls go on, time out, are cancelled, or see their publish
  raise (whether or not the frame went out), and frames arrive.  \<open>OpenCall\<close> is the publish at the end of
  \<open>open\<close>, \<open>ErrorCall\<close> is \<open>send_error\<close>.\<close>

datatype pipe_event =
    OpenCall
  | SendCall PipeSide "byte list"
  | CloseCall PipeSide
  | ErrorCall PipeSide string string
  | SendResumes PipeSide
  | SendTimesOut PipeSide
  | SendCancelled PipeSide
  | PublishLands PipeSide
  | PublishFails PipeSide bool
  | ReceiveCall PipeSide
  | ReceiveTimesOut PipeSide
  | AckLands PipeSide
  | AckFails PipeSide bool
  | Deliver PipeSide nat

fun emit_control :: "PipeSide \<Rightarrow> int \<Rightarrow> int \<Rightarrow> byte list \<Rightarrow> pipe_world \<Rightarrow> pipe_world option" where
  "emit_control x tag seq body w =
     (case encode_frame tag seq body of Inl exc \<Rightarrow> None | Inr frame \<Rightarrow> Some (published x frame w))"

fun pipe_do :: "json_codec \<Rightarrow> pipe_event \<Rightarrow> pipe_world \<Rightarrow> pipe_world option" where
  "pipe_do codec OpenCall w = emit_control CALLER TAG_READY 0 [] w"
| "pipe_do codec (SendCall x data) w =
     (if pe_sender (pw_end w x) \<noteq> SendIdle then None else Some (set_end x (send data (pw_end w x)) w))"
| "pipe_do codec (CloseCall x) w =
     (if pe_sender (pw_end w x) \<noteq> SendIdle then None else Some (set_end x (send_close (pw_end w x)) w))"
| "pipe_do codec (ErrorCall x type_name message) w =
     emit_control x TAG_ERROR 0 (encode_error_body codec type_name message) w"
| "pipe_do codec (SendResumes x) w =
     (case pe_sender (pw_end w x) of
        SendAwaitsCredit chunk rest \<Rightarrow>
          if ps_credit (pe_stream (pw_end w x)) then Some (set_end x (send_loop (chunk # rest) (pw_end w x)) w) else None
      | _ \<Rightarrow> None)"
| "pipe_do codec (SendTimesOut x) w =
     (case pe_sender (pw_end w x) of
        SendAwaitsCredit chunk rest \<Rightarrow>
          if ps_credit (pe_stream (pw_end w x)) then None
          else Some (set_end x ((pw_end w x)\<lparr>pe_sender := SendIdle, pe_stream := fail PipeIdleTimeout (pe_stream (pw_end w x))\<rparr>) w)
      | _ \<Rightarrow> None)"
| "pipe_do codec (SendCancelled x) w =
     (case pe_sender (pw_end w x) of
        SendAwaitsCredit chunk rest \<Rightarrow> Some (set_end x ((pw_end w x)\<lparr>pe_sender := SendIdle\<rparr>) w)
      | _ \<Rightarrow> None)"
| "pipe_do codec (PublishLands x) w =
     (case pe_sender (pw_end w x) of
        SendPublishes frame rest \<Rightarrow> Some (set_end x (send_loop rest (pw_end w x)) (published x frame w))
      | _ \<Rightarrow> None)"
| "pipe_do codec (PublishFails x went_out) w =
     (case pe_sender (pw_end w x) of
        SendPublishes frame rest \<Rightarrow>
          Some (set_end x ((pw_end w x)\<lparr>pe_sender := SendIdle\<rparr>) (if went_out then published x frame w else w))
      | _ \<Rightarrow> None)"
| "pipe_do codec (ReceiveCall x) w =
     (if pe_receiver (pw_end w x) \<noteq> ReceiveIdle then None else Some (set_end x (receive_call (pw_end w x)) w))"
| "pipe_do codec (ReceiveTimesOut x) w =
     (if pe_receiver (pw_end w x) \<noteq> ReceiveIdle \<or> fst (receive (pe_stream (pw_end w x))) \<noteq> ReceiveBlocks then None
      else Some (set_end x ((pw_end w x)\<lparr>pe_stream := fail PipeIdleTimeout (pe_stream (pw_end w x))\<rparr>) w))"
| "pipe_do codec (AckLands x) w =
     (case pe_receiver (pw_end w x) of
        ReceiveAcks frame body \<Rightarrow>
          Some (set_end x ((pw_end w x)\<lparr>pe_receiver := ReceiveIdle, pe_returned := pe_returned (pw_end w x) @ [body]\<rparr>)
            (published x frame w))
      | _ \<Rightarrow> None)"
| "pipe_do codec (AckFails x went_out) w =
     (case pe_receiver (pw_end w x) of
        ReceiveAcks frame body \<Rightarrow>
          Some (set_end x ((pw_end w x)\<lparr>pe_receiver := ReceiveIdle, pe_lost := pe_lost (pw_end w x) + 1\<rparr>)
            (if went_out then published x frame w else w))
      | _ \<Rightarrow> None)"
| "pipe_do codec (Deliver x k) w =
     (if k < length (pw_net w x)
      then let e = pw_end w (other_side x) in
        Some (set_end (other_side x) (e\<lparr>pe_stream := on_frame codec (pw_net w x ! k) (pe_stream e)\<rparr>) w)
      else None)"

inductive pipe_reachable :: "json_codec \<Rightarrow> string \<Rightarrow> PipeEndpoint \<Rightarrow> pipe_world \<Rightarrow> bool"
  for codec ns endpoint where
  opened: "new_PipeStream ns endpoint CALLER = Inr caller \<Longrightarrow> new_PipeStream ns endpoint OWNER = Inr owner \<Longrightarrow>
    sound_endpoint endpoint \<Longrightarrow> pipe_reachable codec ns endpoint (pipe_start caller owner)"
| happens: "pipe_reachable codec ns endpoint w \<Longrightarrow> pipe_do codec event w = Some w' \<Longrightarrow> pipe_reachable codec ns endpoint w'"

fun pipe_run :: "json_codec \<Rightarrow> pipe_event list \<Rightarrow> pipe_world \<Rightarrow> pipe_world option" where
  "pipe_run codec [] w = Some w"
| "pipe_run codec (event # events) w =
     (case pipe_do codec event w of None \<Rightarrow> None | Some w' \<Rightarrow> pipe_run codec events w')"

lemma pipe_run_reachable:
  "pipe_reachable codec ns endpoint w \<Longrightarrow> pipe_run codec events w = Some w' \<Longrightarrow> pipe_reachable codec ns endpoint w'"
  by (induction events arbitrary: w) (auto split: option.splits intro: pipe_reachable.happens)

end
