(* ===== verification/PipeSafe.thy ===== *)
theory PipeSafe
  imports Pipe
begin

text \<open>
  What holds of the byte pipe in every world its two ends can reach, however the network loses, repeats and
  reorders frames: what a consumer took is a prefix of what the peer emitted, what waits in an inbox fits
  the window, acknowledgements speak only of what was consumed, and the bytes not yet acknowledged are
  exactly those of the frames past the last acknowledgement an end has seen.
\<close>

section \<open>Invariants of one end\<close>

fun body_size :: "byte list option \<Rightarrow> int" where
  "body_size None = 0"
| "body_size (Some bytes) = int (length bytes)"

abbreviation bytes_of :: "byte list option list \<Rightarrow> int" where
  "bytes_of bodies \<equiv> sum_list (map body_size bodies)"

lemma bytes_of_nonneg: "0 \<le> bytes_of bodies"
proof -
  have "0 \<le> body_size body" for body by (cases body) simp_all
  then show ?thesis by (induction bodies) (simp_all add: add_nonneg_nonneg)
qed

definition good_frame :: "byte list option list \<Rightarrow> nat \<Rightarrow> byte list \<Rightarrow> bool" where
  "good_frame emitted consumed frame \<longleftrightarrow> (\<exists>tag seq body. decode_frame frame = Inr (tag, int seq, body) \<and>
     (tag = TAG_READY \<or> tag = TAG_ERROR \<or> tag = TAG_CREDIT \<and> seq \<le> consumed
      \<or> tag = TAG_DATA \<and> 0 < seq \<and> seq \<le> length emitted \<and> emitted ! (seq - 1) = Some body
      \<or> tag = TAG_CLOSE \<and> 0 < seq \<and> seq \<le> length emitted \<and> emitted ! (seq - 1) = None))"

definition chunks_ok :: "PipeEndpoint \<Rightarrow> byte list list \<Rightarrow> bool" where
  "chunks_ok ep chunks \<longleftrightarrow> (\<forall>c \<in> set chunks. c \<noteq> [] \<and> int (length c) \<le> ep_max_chunk ep)"

definition sender_ok :: "PipeEndpoint \<Rightarrow> pipe_end \<Rightarrow> bool" where
  "sender_ok ep e \<longleftrightarrow>
     length (pe_emitted e) = min (ps_send_seq (pe_stream e)) (nat MAX_SEQ)
     \<and> None \<notin> set (butlast (pe_emitted e))
     \<and> (None \<in> set (pe_emitted e) \<longrightarrow> ps_sent_close (pe_stream e))
     \<and> (case pe_sender e of
          SendIdle \<Rightarrow> True
        | SendAwaitsCredit c cs \<Rightarrow> \<not> ps_sent_close (pe_stream e) \<and> chunks_ok ep (c # cs)
            \<and> (ps_credit (pe_stream e) \<or> ps_unacked_bytes (pe_stream e) + int (length c) > ep_credit ep)
        | SendPublishes f cs \<Rightarrow> (cs \<noteq> [] \<longrightarrow> \<not> ps_sent_close (pe_stream e)) \<and> chunks_ok ep cs
            \<and> good_frame (pe_emitted e) (length (pe_taken e)) f)"

definition flow_ok :: "PipeEndpoint \<Rightarrow> nat \<Rightarrow> pipe_end \<Rightarrow> bool" where
  "flow_ok ep consumed e \<longleftrightarrow> (\<exists>m. m \<le> consumed \<and> m \<le> length (pe_emitted e)
     \<and> ps_unacked (pe_stream e) = enumerate (Suc m) (map body_size (drop m (pe_emitted e)))
     \<and> ps_unacked_bytes (pe_stream e) = bytes_of (drop m (pe_emitted e))
     \<and> ps_unacked_bytes (pe_stream e) \<le> ep_credit ep)"

definition honest_fault :: "pipe_error \<Rightarrow> bool" where
  "honest_fault exc \<longleftrightarrow>
     (case exc of PipeSequenceGapError \<Rightarrow> True | PipeIdleTimeout \<Rightarrow> True | PipeRemoteError _ _ \<Rightarrow> True | _ \<Rightarrow> False)"

definition reader_ok :: "byte list option list \<Rightarrow> pipe_end \<Rightarrow> bool" where
  "reader_ok emitted e \<longleftrightarrow>
     ps_consumed_seq (pe_stream e) = length (pe_taken e)
     \<and> prefix (pe_taken e) emitted
     \<and> (ps_peer_closed (pe_stream e) \<longleftrightarrow> None \<in> set (pe_taken e))
     \<and> (ps_fault (pe_stream e) = None \<longrightarrow>
          0 < ps_expect_seq (pe_stream e) \<and> ps_expect_seq (pe_stream e) \<le> Suc (length emitted)
          \<and> pe_taken e @ map snd (ps_inbox (pe_stream e)) = take (ps_expect_seq (pe_stream e) - 1) emitted
          \<and> map fst (ps_inbox (pe_stream e)) = [Suc (length (pe_taken e))..<ps_expect_seq (pe_stream e)]
          \<and> ps_queued_bytes (pe_stream e) = bytes_of (map snd (ps_inbox (pe_stream e))))
     \<and> (\<forall>exc. ps_fault (pe_stream e) = Some exc \<longrightarrow> honest_fault exc)"

definition acks_ok :: "PipeEndpoint \<Rightarrow> byte list list \<Rightarrow> pipe_end \<Rightarrow> bool" where
  "acks_ok ep net e \<longleftrightarrow>
     (case pe_receiver e of
        ReceiveIdle \<Rightarrow>
          subseq (pe_returned e) (pe_taken e)
          \<and> (pe_lost e = 0 \<longrightarrow> pe_taken e = pe_returned e
              \<and> (\<exists>a. a \<le> length (pe_taken e)
                  \<and> (a = 0 \<or> (\<exists>f \<in> set net. \<exists>body. decode_frame f = Inr (TAG_CREDIT, int a, body)))
                  \<and> ps_consumed_since_ack (pe_stream e) = bytes_of (drop a (pe_taken e))
                  \<and> 2 * ps_consumed_since_ack (pe_stream e) < ep_credit ep))
      | ReceiveAcks f body \<Rightarrow>
          subseq (pe_returned e @ [body]) (pe_taken e)
          \<and> (pe_lost e = 0 \<longrightarrow> pe_taken e = pe_returned e @ [body])
          \<and> ps_consumed_since_ack (pe_stream e) = 0
          \<and> (\<exists>b. decode_frame f = Inr (TAG_CREDIT, int (length (pe_taken e)), b)))"

definition net_ok :: "byte list list \<Rightarrow> pipe_end \<Rightarrow> bool" where
  "net_ok net e \<longleftrightarrow> (\<forall>f \<in> set net. good_frame (pe_emitted e) (length (pe_taken e)) f)"

definition end_ok :: "PipeEndpoint \<Rightarrow> byte list list \<Rightarrow> byte list option list \<Rightarrow> nat \<Rightarrow> pipe_end \<Rightarrow> bool" where
  "end_ok ep net peer_emitted peer_taken e \<longleftrightarrow>
     ps_endpoint (pe_stream e) = ep \<and> sender_ok ep e \<and> flow_ok ep peer_taken e \<and> reader_ok peer_emitted e
     \<and> acks_ok ep net e \<and> net_ok net e"

section \<open>Frames\<close>

lemma good_frame_mono:
  assumes "good_frame emitted consumed f" and "prefix emitted emitted'" and "consumed \<le> consumed'"
  shows "good_frame emitted' consumed' f"
proof -
  from assms(2) obtain rest where rest: "emitted' = emitted @ rest" by (auto simp: prefix_def)
  have nth: "emitted' ! (seq - 1) = emitted ! (seq - 1)" if "0 < seq" "seq \<le> length emitted" for seq
    using that by (auto simp: rest nth_append)
  from assms(1) obtain tag seq body where d: "decode_frame f = Inr (tag, int seq, body)" and
    c: "tag = TAG_READY \<or> tag = TAG_ERROR \<or> tag = TAG_CREDIT \<and> seq \<le> consumed
      \<or> tag = TAG_DATA \<and> 0 < seq \<and> seq \<le> length emitted \<and> emitted ! (seq - 1) = Some body
      \<or> tag = TAG_CLOSE \<and> 0 < seq \<and> seq \<le> length emitted \<and> emitted ! (seq - 1) = None"
    unfolding good_frame_def by blast
  from c assms(3) have "tag = TAG_READY \<or> tag = TAG_ERROR \<or> tag = TAG_CREDIT \<and> seq \<le> consumed'
      \<or> tag = TAG_DATA \<and> 0 < seq \<and> seq \<le> length emitted' \<and> emitted' ! (seq - 1) = Some body
      \<or> tag = TAG_CLOSE \<and> 0 < seq \<and> seq \<le> length emitted' \<and> emitted' ! (seq - 1) = None"
    using nth [of seq] by (auto simp: rest)
  with d show ?thesis unfolding good_frame_def by blast
qed

lemma good_frame_control:
  assumes "encode_frame tag 0 body = Inr f" and "tag = TAG_READY \<or> tag = TAG_ERROR"
  shows "good_frame emitted consumed f"
  unfolding good_frame_def
  by (rule exI [of _ tag], rule exI [of _ 0], rule exI [of _ body]) (use assms decode_encode_frame in auto)

lemma good_frame_emitted:
  assumes "encode_frame tag (int (Suc (length emitted))) (case body of None \<Rightarrow> [] | Some bytes \<Rightarrow> bytes) = Inr f"
    and "tag = (case body of None \<Rightarrow> TAG_CLOSE | Some bytes \<Rightarrow> TAG_DATA)"
  shows "good_frame (emitted @ [body]) consumed f"
  unfolding good_frame_def
  by (rule exI [of _ tag], rule exI [of _ "Suc (length emitted)"], rule exI [of _ "case body of None \<Rightarrow> [] | Some bytes \<Rightarrow> bytes"])
    (use assms decode_encode_frame [OF assms(1)] in \<open>auto split: option.splits\<close>)

text \<open>The two halves of an end touch different parts of it.\<close>

definition reader_view where
  "reader_view e = (ps_endpoint (pe_stream e), ps_expect_seq (pe_stream e), ps_inbox (pe_stream e), ps_queued_bytes (pe_stream e),
     ps_consumed_since_ack (pe_stream e), ps_consumed_seq (pe_stream e), ps_peer_closed (pe_stream e), ps_fault (pe_stream e),
     pe_receiver e, pe_taken e, pe_returned e, pe_lost e)"

definition sender_view where
  "sender_view e = (ps_endpoint (pe_stream e), ps_send_seq (pe_stream e), ps_unacked (pe_stream e), ps_unacked_bytes (pe_stream e),
     ps_credit (pe_stream e), ps_sent_close (pe_stream e), pe_sender e, pe_emitted e)"

lemma reader_ok_view: "reader_view e = reader_view e' \<Longrightarrow> reader_ok emitted e \<longleftrightarrow> reader_ok emitted e'"
  unfolding reader_view_def prod.inject reader_ok_def by (elim conjE) (simp only:)

lemma acks_ok_cong:
  assumes "pe_receiver e' = pe_receiver e" "pe_taken e' = pe_taken e" "pe_returned e' = pe_returned e" "pe_lost e' = pe_lost e"
    "ps_consumed_since_ack (pe_stream e') = ps_consumed_since_ack (pe_stream e)"
  shows "acks_ok ep net e' \<longleftrightarrow> acks_ok ep net e"
  unfolding acks_ok_def assms by (rule refl)

lemma acks_ok_view: "reader_view e = reader_view e' \<Longrightarrow> acks_ok ep net e \<longleftrightarrow> acks_ok ep net e'"
  unfolding reader_view_def prod.inject acks_ok_def by (elim conjE) (simp only:)

lemma flow_ok_view: "sender_view e = sender_view e' \<Longrightarrow> flow_ok ep taken e \<longleftrightarrow> flow_ok ep taken e'"
  unfolding sender_view_def prod.inject flow_ok_def by (elim conjE) (simp only:)

lemma sender_ok_view:
  assumes "sender_view e = sender_view e'" and "length (pe_taken e) \<le> length (pe_taken e')" and "sender_ok ep e"
  shows "sender_ok ep e'"
  using assms good_frame_mono [OF _ prefix_order.refl assms(2)]
  unfolding sender_view_def prod.inject sender_ok_def by (auto split: send_activity.splits)

text \<open>So a step of one half has only its own half to look after.\<close>

lemma end_ok_sends:
  assumes "end_ok ep net emitted taken e" and "reader_view e' = reader_view e" and "prefix (pe_emitted e) (pe_emitted e')"
    and "sender_ok ep e'" and "flow_ok ep taken e'"
  shows "end_ok ep net emitted taken e'"
proof -
  have "ps_endpoint (pe_stream e') = ps_endpoint (pe_stream e)" "pe_taken e' = pe_taken e"
    using assms(2) by (simp_all add: reader_view_def)
  moreover have "net_ok net e'"
    using assms(1,3) good_frame_mono [OF _ assms(3) order_refl] \<open>pe_taken e' = pe_taken e\<close>
    unfolding end_ok_def net_ok_def by simp
  ultimately show ?thesis
    using assms reader_ok_view [OF assms(2)] acks_ok_view [OF assms(2)] unfolding end_ok_def by simp
qed

lemma end_ok_reads:
  assumes "end_ok ep net emitted taken e" and "sender_view e' = sender_view e"
    and "length (pe_taken e) \<le> length (pe_taken e')"
    and "reader_ok emitted e'" and "acks_ok ep net e'"
  shows "end_ok ep net emitted taken e'"
proof -
  have same: "ps_endpoint (pe_stream e') = ps_endpoint (pe_stream e)" "pe_emitted e' = pe_emitted e"
    using assms(2) by (simp_all add: sender_view_def)
  moreover have "net_ok net e'"
    using assms(1) good_frame_mono [OF _ prefix_order.refl assms(3)] same unfolding end_ok_def net_ok_def by simp
  ultimately show ?thesis
    using assms(1,4,5) flow_ok_view [OF assms(2)] sender_ok_view [OF assms(2) [symmetric] assms(3)] unfolding end_ok_def by simp
qed

lemma end_ok_mono:
  assumes "end_ok ep net emitted taken e" and "prefix emitted emitted'" and "taken \<le> taken'"
  shows "end_ok ep net emitted' taken' e"
proof -
  from assms(2) obtain rest where rest: "emitted' = emitted @ rest" by (auto simp: prefix_def)
  have "reader_ok emitted' e" if "reader_ok emitted e"
    using that unfolding reader_ok_def rest by (auto simp: prefix_def)
  moreover have "flow_ok ep taken' e" if "flow_ok ep taken e"
    using that assms(3) unfolding flow_ok_def by (meson le_trans)
  ultimately show ?thesis using assms(1) unfolding end_ok_def by blast
qed

section \<open>Sending keeps the invariant\<close>

lemma send_chunks_ok: "chunks_ok ep (send_chunks (nat (ep_max_chunk ep)) data)"
proof -
  have "\<forall>c \<in> set (send_chunks n data). c \<noteq> [] \<and> length c \<le> n" for n
    by (induction n data rule: send_chunks.induct) (subst send_chunks.simps, auto)
  then show ?thesis unfolding chunks_ok_def
    by (metis le_zero_eq length_0_conv nat_le_iff of_nat_le_iff int_nat_eq nat_le_0 nle_le zle_int)
qed

lemma enumerate_snoc: "enumerate n (xs @ [x]) = enumerate n xs @ [(n + length xs, x)]"
  by (induction xs arbitrary: n) simp_all

lemma emit_from_ok:
  assumes ok: "end_ok ep net peer_emitted peer_taken e" and open_end: "None \<notin> set (pe_emitted e)"
    and fits: "ps_unacked_bytes (pe_stream e) + body_size body \<le> ep_credit ep"
    and tag: "tag = (case body of None \<Rightarrow> TAG_CLOSE | Some bytes \<Rightarrow> TAG_DATA)"
    and close: "body = None \<Longrightarrow> ps_sent_close (pe_stream e)" "rest \<noteq> [] \<Longrightarrow> \<not> ps_sent_close (pe_stream e)"
    and rest: "chunks_ok ep rest"
  shows "end_ok ep net peer_emitted peer_taken (emit_from tag body rest e)"
    and "prefix (pe_emitted e) (pe_emitted (emit_from tag body rest e))"
    and "pe_taken (emit_from tag body rest e) = pe_taken e"
proof -
  let ?bytes = "case body of None \<Rightarrow> [] | Some bytes \<Rightarrow> bytes"
  have size: "int (length ?bytes) = body_size body" by (cases body) simp_all
  have tags: "0 \<le> tag" "tag \<le> 255" unfolding tag by (auto simp: tag_defs split: option.split)
  show "prefix (pe_emitted e) (pe_emitted (emit_from tag body rest e))" "pe_taken (emit_from tag body rest e) = pe_taken e"
    by (auto simp: emit_from_def split: prod.split sum.split)
  have len: "length (pe_emitted e) = min (ps_send_seq (pe_stream e)) (nat MAX_SEQ)"
    using ok by (simp add: end_ok_def sender_ok_def)
  have view: "reader_view (emit_from tag body rest e) = reader_view e"
    by (simp add: emit_from_def emit_sequenced_def reader_view_def Let_def split: prod.split sum.split)
  have endpoint: "ps_endpoint (pe_stream e) = ep" and sender: "sender_ok ep e" and flow: "flow_ok ep peer_taken e"
    using ok by (simp_all add: end_ok_def)
  have "sender_ok ep (emit_from tag body rest e) \<and> flow_ok ep peer_taken (emit_from tag body rest e)"
  proof (cases "encode_frame tag (int (Suc (ps_send_seq (pe_stream e)))) ?bytes")
    case (Inl exc)
    then have "\<not> int (Suc (ps_send_seq (pe_stream e))) \<le> MAX_SEQ"
      using encode_frame_total(1) [OF tags, of "int (Suc (ps_send_seq (pe_stream e)))" ?bytes] by auto
    then have "length (pe_emitted e) = min (Suc (ps_send_seq (pe_stream e))) (nat MAX_SEQ)" using len by linarith
    moreover have "emit_from tag body rest e = e\<lparr>pe_stream := (pe_stream e)\<lparr>ps_send_seq := Suc (ps_send_seq (pe_stream e))\<rparr>,
        pe_sender := SendIdle\<rparr>"
      using Inl by (simp add: emit_from_def emit_sequenced_def)
    ultimately show ?thesis using sender flow by (simp add: sender_ok_def flow_ok_def)
  next
    case (Inr f)
    then have "int (Suc (ps_send_seq (pe_stream e))) \<le> MAX_SEQ"
      using encode_frame_total(1) [OF tags, of "int (Suc (ps_send_seq (pe_stream e)))" ?bytes] by auto
    then have now: "length (pe_emitted e) = ps_send_seq (pe_stream e)"
      and next_len: "Suc (length (pe_emitted e)) = min (Suc (ps_send_seq (pe_stream e))) (nat MAX_SEQ)" using len by linarith+
    have good: "good_frame (pe_emitted e @ [body]) (length (pe_taken e)) f"
      using Inr tag unfolding now [symmetric] by (rule good_frame_emitted)
    have e': "emit_from tag body rest e = e\<lparr>pe_stream := (pe_stream e)\<lparr>ps_send_seq := Suc (ps_send_seq (pe_stream e)),
        ps_unacked := ps_unacked (pe_stream e) @ [(Suc (ps_send_seq (pe_stream e)), body_size body)],
        ps_unacked_bytes := ps_unacked_bytes (pe_stream e) + body_size body\<rparr>,
        pe_sender := SendPublishes f rest, pe_emitted := pe_emitted e @ [body]\<rparr>"
      using Inr by (simp add: emit_from_def emit_sequenced_def size)
    have "sender_ok ep (emit_from tag body rest e)"
      using next_len open_end close rest good unfolding e' sender_ok_def by (auto simp: butlast_append)
    moreover have "flow_ok ep peer_taken (emit_from tag body rest e)"
    proof -
      from flow obtain m where m: "m \<le> peer_taken" "m \<le> length (pe_emitted e)"
        "ps_unacked (pe_stream e) = enumerate (Suc m) (map body_size (drop m (pe_emitted e)))"
        "ps_unacked_bytes (pe_stream e) = bytes_of (drop m (pe_emitted e))"
        unfolding flow_ok_def by blast
      show ?thesis unfolding flow_ok_def e'
        by (rule exI [of _ m]) (use m fits now in \<open>simp add: enumerate_snoc\<close>)
    qed
    ultimately show ?thesis ..
  qed
  then show "end_ok ep net peer_emitted peer_taken (emit_from tag body rest e)"
    using end_ok_sends [OF ok view] \<open>prefix (pe_emitted e) (pe_emitted (emit_from tag body rest e))\<close> by blast
qed

lemma send_loop_ok:
  assumes ok: "end_ok ep net peer_emitted peer_taken e" and chunks: "chunks_ok ep chunks"
    and open_end: "chunks \<noteq> [] \<Longrightarrow> \<not> ps_sent_close (pe_stream e)"
  shows "end_ok ep net peer_emitted peer_taken (send_loop chunks e)
    \<and> prefix (pe_emitted e) (pe_emitted (send_loop chunks e)) \<and> pe_taken (send_loop chunks e) = pe_taken e"
proof (cases chunks)
  case Nil
  have "end_ok ep net peer_emitted peer_taken (e\<lparr>pe_sender := SendIdle\<rparr>)"
    by (rule end_ok_sends [OF ok]) (use ok in \<open>auto simp: reader_view_def end_ok_def sender_ok_def flow_ok_def\<close>)
  with Nil show ?thesis by simp
next
  case (Cons c cs)
  have open_stream: "\<not> ps_sent_close (pe_stream e)" using open_end Cons by simp
  then have no_close: "None \<notin> set (pe_emitted e)" using ok by (auto simp: end_ok_def sender_ok_def)
  have endpoint: "ps_endpoint (pe_stream e) = ep" using ok by (simp add: end_ok_def)
  have cs: "chunks_ok ep cs" using chunks Cons by (simp add: chunks_ok_def)
  consider (raises) exc where "ps_fault (pe_stream e) = Some exc"
    | (granted) "ps_fault (pe_stream e) = None" "ps_unacked_bytes (pe_stream e) + int (length c) \<le> ep_credit ep"
    | (waits) "ps_fault (pe_stream e) = None" "ps_unacked_bytes (pe_stream e) + int (length c) > ep_credit ep"
    by fastforce
  then show ?thesis
  proof cases
    case raises
    have "end_ok ep net peer_emitted peer_taken (e\<lparr>pe_sender := SendIdle\<rparr>)"
      by (rule end_ok_sends [OF ok]) (use ok in \<open>auto simp: reader_view_def end_ok_def sender_ok_def flow_ok_def\<close>)
    with raises Cons show ?thesis by (simp add: await_credit_def)
  next
    case granted
    have fits: "ps_unacked_bytes (pe_stream e) + body_size (Some c) \<le> ep_credit ep" using granted by simp
    have "end_ok ep net peer_emitted peer_taken (emit_from TAG_DATA (Some c) cs e)"
      "prefix (pe_emitted e) (pe_emitted (emit_from TAG_DATA (Some c) cs e))"
      "pe_taken (emit_from TAG_DATA (Some c) cs e) = pe_taken e"
      by (rule emit_from_ok [OF ok no_close fits _ _ _ cs]; use open_stream in simp)+
    with granted Cons show ?thesis by (simp add: await_credit_def endpoint)
  next
    case waits
    let ?e = "e\<lparr>pe_stream := (pe_stream e)\<lparr>ps_credit := False\<rparr>, pe_sender := SendAwaitsCredit c cs\<rparr>"
    have "end_ok ep net peer_emitted peer_taken ?e"
      by (rule end_ok_sends [OF ok])
        (use ok waits open_stream chunks Cons in \<open>auto simp: reader_view_def end_ok_def sender_ok_def flow_ok_def\<close>)
    with waits Cons show ?thesis by (simp add: await_credit_def endpoint Let_def)
  qed
qed

lemma send_ok:
  assumes "end_ok ep net peer_emitted peer_taken e"
  shows "end_ok ep net peer_emitted peer_taken (send data e)
    \<and> prefix (pe_emitted e) (pe_emitted (send data e)) \<and> pe_taken (send data e) = pe_taken e"
  using assms send_loop_ok [OF assms send_chunks_ok, of data] by (auto simp: send_def end_ok_def)

lemma send_close_ok:
  assumes ok: "end_ok ep net peer_emitted peer_taken e" and idle: "pe_sender e = SendIdle"
  shows "end_ok ep net peer_emitted peer_taken (send_close e)
    \<and> prefix (pe_emitted e) (pe_emitted (send_close e)) \<and> pe_taken (send_close e) = pe_taken e"
proof (cases "ps_sent_close (pe_stream e)")
  case True
  with ok show ?thesis by (simp add: send_close_def)
next
  case False
  let ?e = "e\<lparr>pe_stream := (pe_stream e)\<lparr>ps_sent_close := True\<rparr>\<rparr>"
  have ok': "end_ok ep net peer_emitted peer_taken ?e"
    by (rule end_ok_sends [OF ok]) (use ok idle in \<open>auto simp: reader_view_def end_ok_def sender_ok_def flow_ok_def\<close>)
  have no_close: "None \<notin> set (pe_emitted ?e)" using ok False by (auto simp: end_ok_def sender_ok_def)
  have fits: "ps_unacked_bytes (pe_stream ?e) + body_size None \<le> ep_credit ep"
    using ok by (auto simp: end_ok_def flow_ok_def)
  have "end_ok ep net peer_emitted peer_taken (emit_from TAG_CLOSE None [] ?e)"
    "prefix (pe_emitted ?e) (pe_emitted (emit_from TAG_CLOSE None [] ?e))"
    "pe_taken (emit_from TAG_CLOSE None [] ?e) = pe_taken ?e"
    by (rule emit_from_ok [OF ok' no_close fits]; simp add: chunks_ok_def)+
  with False show ?thesis by (simp add: send_close_def)
qed

section \<open>Arriving frames keep the invariant\<close>

lemma fail_ok:
  assumes ok: "end_ok ep net peer_emitted peer_taken e" and honest: "honest_fault exc"
  shows "end_ok ep net peer_emitted peer_taken (e\<lparr>pe_stream := fail exc (pe_stream e)\<rparr>)"
proof (cases "ps_fault (pe_stream e)")
  case None
  let ?e = "e\<lparr>pe_stream := fail exc (pe_stream e)\<rparr>"
  have "sender_ok ep ?e" using ok None
    by (auto simp: fail_def end_ok_def sender_ok_def split: send_activity.splits)
  moreover have "flow_ok ep peer_taken ?e" using ok None by (simp add: fail_def end_ok_def flow_ok_def)
  moreover have "reader_ok peer_emitted ?e" using ok None honest by (simp add: fail_def end_ok_def reader_ok_def)
  moreover have "acks_ok ep net ?e" using ok None
    by (auto simp: fail_def end_ok_def acks_ok_def split: receive_activity.splits)
  moreover have "net_ok net ?e" "ps_endpoint (pe_stream ?e) = ep" using ok None by (simp_all add: fail_def end_ok_def net_ok_def)
  ultimately show ?thesis by (simp add: end_ok_def)
qed (use ok in \<open>simp add: fail_def\<close>)

lemma release_acked_bytes:
  "release_acked k us b =
     (dropWhile (\<lambda>u. fst u \<le> k) us, b - sum_list (map snd us) + sum_list (map snd (dropWhile (\<lambda>u. fst u \<le> k) us)))"
  by (induction us arbitrary: b) auto

lemma dropWhile_enumerate:
  "dropWhile (\<lambda>u. fst u \<le> k) (enumerate (Suc m) xs) = enumerate (Suc (max m k)) (drop (k - m) xs)"
proof (induction xs arbitrary: m)
  case (Cons x xs)
  show ?case
  proof (cases "Suc m \<le> k")
    case True
    then obtain d where "k - m = Suc d" "k - Suc m = d" by (metis Suc_diff_le diff_Suc_Suc)
    with True Cons.IH [of "Suc m"] show ?thesis by (simp add: max_def)
  qed (simp add: max_absorb1)
qed simp

lemma apply_credit_ok:
  assumes ok: "end_ok ep net peer_emitted peer_taken e" and seen: "k \<le> peer_taken"
  shows "end_ok ep net peer_emitted peer_taken (e\<lparr>pe_stream := apply_credit k (pe_stream e)\<rparr>)"
proof -
  let ?e = "e\<lparr>pe_stream := apply_credit k (pe_stream e)\<rparr>"
  have endpoint: "ps_endpoint (pe_stream e) = ep" and sender: "sender_ok ep e" and flow: "flow_ok ep peer_taken e"
    using ok by (simp_all add: end_ok_def)
  from flow obtain m where m: "m \<le> peer_taken" "m \<le> length (pe_emitted e)"
    "ps_unacked (pe_stream e) = enumerate (Suc m) (map body_size (drop m (pe_emitted e)))"
    "ps_unacked_bytes (pe_stream e) = bytes_of (drop m (pe_emitted e))" "ps_unacked_bytes (pe_stream e) \<le> ep_credit ep"
    unfolding flow_ok_def by blast
  define m' where "m' = min (max m k) (length (pe_emitted e))"
  have later: "drop (k - m + m) (pe_emitted e) = drop m' (pe_emitted e)"
    by (auto simp: m'_def max_def min_def)
  have e': "apply_credit k (pe_stream e) = (pe_stream e)\<lparr>
      ps_unacked := enumerate (Suc (max m k)) (map body_size (drop m' (pe_emitted e))),
      ps_unacked_bytes := bytes_of (drop m' (pe_emitted e)),
      ps_credit := (bytes_of (drop m' (pe_emitted e)) < ep_credit ep \<or> ps_credit (pe_stream e))\<rparr>"
    by (simp add: apply_credit_def release_acked_bytes m(3,4) dropWhile_enumerate endpoint drop_map later)
  have same: "enumerate (Suc (max m k)) (map body_size (drop m' (pe_emitted e)))
      = enumerate (Suc m') (map body_size (drop m' (pe_emitted e)))"
    by (auto simp: m'_def min_def)
  have less: "bytes_of (drop m' (pe_emitted e)) \<le> bytes_of (drop m (pe_emitted e))"
  proof -
    have "drop m (pe_emitted e) = take (k - m) (drop m (pe_emitted e)) @ drop m' (pe_emitted e)"
      by (simp flip: later drop_drop)
    then have "bytes_of (drop m (pe_emitted e)) = bytes_of (take (k - m) (drop m (pe_emitted e))) + bytes_of (drop m' (pe_emitted e))"
      by (metis map_append sum_list.append)
    moreover have "0 \<le> bytes_of (take (k - m) (drop m (pe_emitted e)))"
      by (rule bytes_of_nonneg)
    ultimately show ?thesis by linarith
  qed
  show ?thesis
  proof (rule end_ok_sends [OF ok])
    show "reader_view ?e = reader_view e" by (simp add: e' reader_view_def)
    show "prefix (pe_emitted e) (pe_emitted ?e)" by simp
    show "sender_ok ep ?e"
      using sender
      by (auto simp: e' sender_ok_def chunks_ok_def simp flip: length_greater_0_conv split: send_activity.splits)
    show "flow_ok ep peer_taken ?e"
      unfolding flow_ok_def e'
      by (rule exI [of _ m']) (use m less seen same in \<open>auto simp: m'_def\<close>)
  qed
qed

lemma accept_sequenced_ok:
  assumes ok: "end_ok ep net peer_emitted peer_taken e"
    and window: "bytes_of (drop (length (pe_taken e)) peer_emitted) \<le> ep_credit ep"
    and sent: "0 < seq" "seq \<le> length peer_emitted" "peer_emitted ! (seq - 1) = (if tag = TAG_CLOSE then None else Some body)"
  shows "end_ok ep net peer_emitted peer_taken (e\<lparr>pe_stream := accept_sequenced tag seq body (pe_stream e)\<rparr>)"
proof (cases "seq = ps_expect_seq (pe_stream e)")
  case False
  then show ?thesis using fail_ok [OF ok, of PipeSequenceGapError] by (simp add: accept_sequenced_def honest_fault_def)
next
  case True
  let ?s = "accept_sequenced tag seq body (pe_stream e)" and ?new = "if tag = TAG_CLOSE then None else Some body"
  have endpoint: "ps_endpoint (pe_stream e) = ep" using ok by (simp add: end_ok_def)
  show ?thesis
  proof (cases "ps_fault (pe_stream e)")
    case (Some exc)
    then show ?thesis
      by (intro end_ok_reads [OF ok])
        (use True ok in \<open>auto simp: accept_sequenced_def fail_def sender_view_def Let_def end_ok_def reader_ok_def acks_ok_def
           split: receive_activity.splits\<close>)
  next
    case None
    have reads: "pe_taken e @ map snd (ps_inbox (pe_stream e)) = take (seq - 1) peer_emitted"
      "map fst (ps_inbox (pe_stream e)) = [Suc (length (pe_taken e))..<seq]"
      "ps_queued_bytes (pe_stream e) = bytes_of (map snd (ps_inbox (pe_stream e)))"
      using ok None True by (simp_all add: end_ok_def reader_ok_def)
    have "take seq peer_emitted = take (seq - 1) peer_emitted @ [?new]"
      using sent take_Suc_conv_app_nth [of "seq - 1" peer_emitted] by simp
    then have upto: "take seq peer_emitted = pe_taken e @ (map snd (ps_inbox (pe_stream e)) @ [?new])" using reads(1) by simp
    then have "pe_taken e @ (map snd (ps_inbox (pe_stream e)) @ [?new]) @ drop seq peer_emitted = peer_emitted"
      by (metis append.assoc append_take_drop_id)
    then have "drop (length (pe_taken e)) peer_emitted = (map snd (ps_inbox (pe_stream e)) @ [?new]) @ drop seq peer_emitted"
      by (metis append_eq_conv_conj)
    moreover have "0 \<le> bytes_of (drop seq peer_emitted)"
      by (rule bytes_of_nonneg)
    ultimately have room: "bytes_of (map snd (ps_inbox (pe_stream e)) @ [?new]) \<le> ep_credit ep" using window by simp
    have "length (pe_taken e) \<le> seq - 1"
      using reads(1) sent by (metis diff_le_self le_trans length_append length_take le_add1 min.absorb2)
    then have numbers: "[Suc (length (pe_taken e))..<Suc seq] = [Suc (length (pe_taken e))..<seq] @ [seq]"
      using sent(1) by simp
    have s': "?s = (pe_stream e)\<lparr>ps_expect_seq := Suc seq, ps_inbox := ps_inbox (pe_stream e) @ [(seq, ?new)],
        ps_queued_bytes := ps_queued_bytes (pe_stream e) + body_size ?new\<rparr>"
      using True room reads(3) by (cases "tag = TAG_CLOSE") (simp_all add: accept_sequenced_def endpoint Let_def)
    show ?thesis
    proof (rule end_ok_reads [OF ok])
      show "sender_view (e\<lparr>pe_stream := ?s\<rparr>) = sender_view e" by (simp add: s' sender_view_def)
      show "acks_ok ep net (e\<lparr>pe_stream := ?s\<rparr>)"
        using ok acks_ok_cong [of "e\<lparr>pe_stream := ?s\<rparr>" e] by (simp add: s' end_ok_def)
      show "reader_ok peer_emitted (e\<lparr>pe_stream := ?s\<rparr>)"
        using ok None reads(2,3) upto numbers sent(2) by (simp add: s' end_ok_def reader_ok_def)
    qed simp
  qed
qed

lemma on_frame_ok:
  assumes ok: "end_ok ep net peer_emitted peer_taken e"
    and window: "bytes_of (drop (length (pe_taken e)) peer_emitted) \<le> ep_credit ep"
    and good: "good_frame peer_emitted peer_taken frame"
  shows "end_ok ep net peer_emitted peer_taken (e\<lparr>pe_stream := on_frame codec frame (pe_stream e)\<rparr>)"
proof -
  from good obtain tag seq body where d: "decode_frame frame = Inr (tag, int seq, body)" and
    "tag = TAG_READY \<or> tag = TAG_ERROR \<or> tag = TAG_CREDIT \<and> seq \<le> peer_taken
      \<or> tag = TAG_DATA \<and> 0 < seq \<and> seq \<le> length peer_emitted \<and> peer_emitted ! (seq - 1) = Some body
      \<or> tag = TAG_CLOSE \<and> 0 < seq \<and> seq \<le> length peer_emitted \<and> peer_emitted ! (seq - 1) = None"
    unfolding good_frame_def by blast
  then consider "tag = TAG_READY" | "tag = TAG_ERROR" | "tag = TAG_CREDIT" "seq \<le> peer_taken"
    | "tag = TAG_DATA" "0 < seq" "seq \<le> length peer_emitted" "peer_emitted ! (seq - 1) = Some body"
    | "tag = TAG_CLOSE" "0 < seq" "seq \<le> length peer_emitted" "peer_emitted ! (seq - 1) = None" by (elim disjE conjE) simp_all
  then show ?thesis
  proof cases
    case 1
    have "end_ok ep net peer_emitted peer_taken (e\<lparr>pe_stream := (pe_stream e)\<lparr>ps_peer_ready := True\<rparr>\<rparr>)"
      using ok sender_ok_view [of e "e\<lparr>pe_stream := (pe_stream e)\<lparr>ps_peer_ready := True\<rparr>\<rparr>" ep]
      by (intro end_ok_sends [OF ok]) (auto simp: reader_view_def sender_view_def end_ok_def flow_ok_def)
    with 1 d show ?thesis by (simp add: on_frame_def tag_defs)
  next
    case 2
    have "honest_fault (decode_error_body codec body)"
      by (auto simp: honest_fault_def decode_error_body_def split: sum.splits option.splits)
    from fail_ok [OF ok this] 2 d show ?thesis by (simp add: on_frame_def tag_defs)
  next
    case 3
    with apply_credit_ok [OF ok 3(2)] d show ?thesis by (simp add: on_frame_def tag_defs)
  next
    case 4
    with accept_sequenced_ok [OF ok window, of seq TAG_DATA body] d show ?thesis by (simp add: on_frame_def tag_defs)
  next
    case 5
    with accept_sequenced_ok [OF ok window, of seq TAG_CLOSE body] d show ?thesis by (simp add: on_frame_def tag_defs)
  qed
qed

section \<open>Receiving keeps the invariant\<close>

lemma send_credit_cases:
  obtains (raises) exc where "send_credit body s = (ReceiveRaises exc, s\<lparr>ps_consumed_since_ack := 0\<rparr>)"
  | (publishes) frame where "send_credit body s = (ReceivePublishes frame body, s\<lparr>ps_consumed_since_ack := 0\<rparr>)"
      "decode_frame frame = Inr (TAG_CREDIT, int (ps_consumed_seq s), [])"
  by (cases "encode_frame TAG_CREDIT (int (ps_consumed_seq s)) []") (auto simp: send_credit_def dest: decode_encode_frame)

text \<open>Taking the next body: what the history and the stream are like in each of the three ways it ends.\<close>

lemma receive_takes:
  assumes ok: "end_ok ep net peer_emitted peer_taken e"
    and ready: "ps_fault (pe_stream e) = None" "\<not> ps_peer_closed (pe_stream e)" "ps_inbox (pe_stream e) = (seq, body) # inbox"
    and idle: "pe_receiver e = ReceiveIdle" and credit: "0 < ep_credit ep"
  shows "end_ok ep net peer_emitted peer_taken (receive_call e) \<and> pe_taken (receive_call e) = pe_taken e @ [body]
    \<and> pe_emitted (receive_call e) = pe_emitted e"
proof -
  have endpoint: "ps_endpoint (pe_stream e) = ep" using ok by (simp add: end_ok_def)
  have reads: "pe_taken e @ map snd (ps_inbox (pe_stream e)) = take (ps_expect_seq (pe_stream e) - 1) peer_emitted"
    "map fst (ps_inbox (pe_stream e)) = [Suc (length (pe_taken e))..<ps_expect_seq (pe_stream e)]"
    "ps_queued_bytes (pe_stream e) = bytes_of (map snd (ps_inbox (pe_stream e)))"
    "0 < ps_expect_seq (pe_stream e)" "ps_expect_seq (pe_stream e) \<le> Suc (length peer_emitted)"
    "None \<notin> set (pe_taken e)"
    using ok ready by (simp_all add: end_ok_def reader_ok_def)
  have "[Suc (length (pe_taken e))..<ps_expect_seq (pe_stream e)] = seq # map fst inbox"
    using reads(2) ready(3) by simp
  then have seq: "seq = Suc (length (pe_taken e))"
    and rest: "map fst inbox = [Suc (Suc (length (pe_taken e)))..<ps_expect_seq (pe_stream e)]"
    by (auto simp: upt_eq_Cons_conv)
  have upto: "(pe_taken e @ [body]) @ map snd inbox = take (ps_expect_seq (pe_stream e) - 1) peer_emitted"
    using reads(1) ready(3) by simp
  then have pre: "prefix (pe_taken e @ [body]) peer_emitted"
    by (metis append.assoc append_take_drop_id prefixI)
  have "acks_ok ep net e" using ok by (simp add: end_ok_def)
  then have acks: "subseq (pe_returned e) (pe_taken e)"
    "pe_lost e = 0 \<Longrightarrow> pe_taken e = pe_returned e"
    "pe_lost e = 0 \<Longrightarrow> \<exists>a. a \<le> length (pe_taken e)
      \<and> (a = 0 \<or> (\<exists>f \<in> set net. \<exists>body. decode_frame f = Inr (TAG_CREDIT, int a, body)))
      \<and> ps_consumed_since_ack (pe_stream e) = bytes_of (drop a (pe_taken e))
      \<and> 2 * ps_consumed_since_ack (pe_stream e) < ep_credit ep"
    unfolding acks_ok_def idle receive_activity.case by blast+
  define since where "since = ps_consumed_since_ack (pe_stream e) + body_size body"
  define t where "t = (pe_stream e)\<lparr>ps_inbox := inbox, ps_consumed_seq := seq,
    ps_queued_bytes := ps_queued_bytes (pe_stream e) - body_size body, ps_consumed_since_ack := since\<rparr>"
  define s where "s = (if body = None then t\<lparr>ps_peer_closed := True\<rparr> else t)"
  have view: "sender_view (e\<lparr>pe_stream := s\<lparr>ps_consumed_since_ack := i\<rparr>, pe_taken := t, pe_returned := r, pe_lost := l,
      pe_receiver := a\<rparr>) = sender_view e" for i t r l a
    by (simp add: s_def t_def sender_view_def)
  have reader: "reader_ok peer_emitted (e\<lparr>pe_stream := s\<lparr>ps_consumed_since_ack := i\<rparr>, pe_taken := pe_taken e @ [body],
      pe_returned := r, pe_lost := l, pe_receiver := a\<rparr>)" for i r l a
    using ready pre upto rest reads seq by (auto simp: s_def t_def reader_ok_def)
  note kept = end_ok_reads [OF ok view _ reader]
  have receive: "receive (pe_stream e) =
      (if body = None \<or> since * 2 \<ge> ep_credit ep then send_credit body (s\<lparr>ps_consumed_since_ack := j\<rparr>)
       else (ReceiveReturns body, s))" if "j = (if body = None then ps_consumed_since_ack (pe_stream e) else since)" for j
    using ready that by (cases body) (simp_all add: receive_def s_def t_def since_def endpoint Let_def)
  define j where "j = (if body = None then ps_consumed_since_ack (pe_stream e) else since)"
  show ?thesis
  proof (cases "body = None \<or> since * 2 \<ge> ep_credit ep")
    case False
    then have r: "receive (pe_stream e) = (ReceiveReturns body, s\<lparr>ps_consumed_since_ack := since\<rparr>)"
      using receive [OF j_def] by (auto simp: s_def t_def)
    have e': "receive_call e = e\<lparr>pe_stream := s\<lparr>ps_consumed_since_ack := since\<rparr>, pe_taken := pe_taken e @ [body],
        pe_returned := pe_returned e @ [body], pe_lost := pe_lost e, pe_receiver := pe_receiver e\<rparr>"
      by (simp add: receive_call_def ready r Let_def)
    have "\<exists>a. a \<le> length (pe_taken e @ [body])
        \<and> (a = 0 \<or> (\<exists>f \<in> set net. \<exists>body. decode_frame f = Inr (TAG_CREDIT, int a, body)))
        \<and> since = bytes_of (drop a (pe_taken e @ [body])) \<and> 2 * since < ep_credit ep" if none_lost: "pe_lost e = 0"
    proof -
      from acks(3) [OF none_lost] obtain a where "a \<le> length (pe_taken e)"
        "a = 0 \<or> (\<exists>f \<in> set net. \<exists>body. decode_frame f = Inr (TAG_CREDIT, int a, body))"
        "ps_consumed_since_ack (pe_stream e) = bytes_of (drop a (pe_taken e))" by blast
      with False show ?thesis by (intro exI [of _ a]) (simp add: since_def)
    qed
    then have "acks_ok ep net (receive_call e)"
      unfolding acks_ok_def e' using acks(1,2) idle by simp
    then have "end_ok ep net peer_emitted peer_taken (receive_call e)" unfolding e' by (intro kept) simp_all
    then show ?thesis by (simp add: e')
  next
    case True
    then have r: "receive (pe_stream e) = send_credit body (s\<lparr>ps_consumed_since_ack := j\<rparr>)" using receive [OF j_def] by simp
    show ?thesis
    proof (cases rule: send_credit_cases [of body "s\<lparr>ps_consumed_since_ack := j\<rparr>"])
      case (raises exc)
      have e': "receive_call e = e\<lparr>pe_stream := s\<lparr>ps_consumed_since_ack := 0\<rparr>, pe_taken := pe_taken e @ [body],
          pe_returned := pe_returned e, pe_lost := pe_lost e + 1, pe_receiver := pe_receiver e\<rparr>"
        by (simp add: receive_call_def ready r raises Let_def)
      have "acks_ok ep net (receive_call e)"
        unfolding acks_ok_def e' using list_emb_prefix [OF acks(1)] idle by simp
    then have "end_ok ep net peer_emitted peer_taken (receive_call e)" unfolding e' by (intro kept) simp_all
    then show ?thesis by (simp add: e')
    next
      case (publishes frame)
      have e': "receive_call e = e\<lparr>pe_stream := s\<lparr>ps_consumed_since_ack := 0\<rparr>, pe_taken := pe_taken e @ [body],
          pe_returned := pe_returned e, pe_lost := pe_lost e, pe_receiver := ReceiveAcks frame body\<rparr>"
        by (simp add: receive_call_def ready r publishes Let_def)
      have "acks_ok ep net (receive_call e)"
        unfolding acks_ok_def e' using acks(1,2) publishes(2) by (auto simp: s_def t_def seq)
    then have "end_ok ep net peer_emitted peer_taken (receive_call e)" unfolding e' by (intro kept) simp_all
    then show ?thesis by (simp add: e')
    qed
  qed
qed

lemma receive_call_ok:
  assumes ok: "end_ok ep net peer_emitted peer_taken e" and idle: "pe_receiver e = ReceiveIdle" and credit: "0 < ep_credit ep"
  shows "end_ok ep net peer_emitted peer_taken (receive_call e) \<and> prefix (pe_taken e) (pe_taken (receive_call e))
    \<and> pe_emitted (receive_call e) = pe_emitted e"
proof (cases "ps_fault (pe_stream e) = None \<and> \<not> ps_peer_closed (pe_stream e) \<and> ps_inbox (pe_stream e) \<noteq> []")
  case True
  then obtain seq body inbox where "ps_inbox (pe_stream e) = (seq, body) # inbox" by (metis neq_Nil_conv surj_pair)
  with receive_takes [OF ok _ _ this idle credit] True show ?thesis by auto
next
  case False
  then have "receive_call e = e"
    by (auto simp: receive_call_def receive_def split: option.splits list.splits)
  with ok show ?thesis by simp
qed

section \<open>Every reachable world\<close>

definition world_ok :: "PipeEndpoint \<Rightarrow> pipe_world \<Rightarrow> bool" where
  "world_ok ep w \<longleftrightarrow> (\<forall>x. end_ok ep (pw_net w x) (pe_emitted (pw_end w (other_side x)))
     (length (pe_taken (pw_end w (other_side x)))) (pw_end w x))"

lemma world_okD: "world_ok ep w \<Longrightarrow> end_ok ep (pw_net w x) (pe_emitted (pw_end w (other_side x)))
  (length (pe_taken (pw_end w (other_side x)))) (pw_end w x)"
  by (simp add: world_ok_def)

lemma other_side_simps [simp]: "other_side (other_side x) = x" "other_side x \<noteq> x" "x \<noteq> other_side x"
  by (cases x; simp)+

lemma end_ok_published:
  assumes "end_ok ep net emitted taken e" and "good_frame (pe_emitted e) (length (pe_taken e)) f"
  shows "end_ok ep (net @ [f]) emitted taken e"
proof -
  have "acks_ok ep (net @ [f]) e" if "acks_ok ep net e"
    using that unfolding acks_ok_def by (cases "pe_receiver e") auto
  with assms show ?thesis by (auto simp: end_ok_def net_ok_def)
qed

lemma world_ok_set_end:
  assumes w: "world_ok ep w"
    and e: "end_ok ep net (pe_emitted (pw_end w (other_side x))) (length (pe_taken (pw_end w (other_side x)))) e"
    and grows: "prefix (pe_emitted (pw_end w x)) (pe_emitted e)" "prefix (pe_taken (pw_end w x)) (pe_taken e)"
    and net: "pw_net w' = (pw_net w)(x := net)" "pw_end w' = pw_end w"
  shows "world_ok ep (set_end x e w')"
  unfolding world_ok_def
proof
  fix y
  show "end_ok ep (pw_net (set_end x e w') y) (pe_emitted (pw_end (set_end x e w') (other_side y)))
    (length (pe_taken (pw_end (set_end x e w') (other_side y)))) (pw_end (set_end x e w') y)"
  proof (cases "y = x")
    case True
    with e net show ?thesis by (simp add: set_end_def)
  next
    case False
    then have y: "y = other_side x" by (cases x; cases y) simp_all
    have "end_ok ep (pw_net w y) (pe_emitted (pw_end w x)) (length (pe_taken (pw_end w x))) (pw_end w y)"
      using w y unfolding world_ok_def by (metis other_side_simps(1))
    from end_ok_mono [OF this grows(1) prefix_length_le [OF grows(2)]] y net show ?thesis by (simp add: set_end_def)
  qed
qed

lemma world_ok_published:
  assumes w: "world_ok ep w" and good: "good_frame (pe_emitted (pw_end w x)) (length (pe_taken (pw_end w x))) f"
  shows "world_ok ep (published x f w)"
proof -
  have "end_ok ep (pw_net w y) (pe_emitted (pw_end w (other_side y))) (length (pe_taken (pw_end w (other_side y)))) (pw_end w y)" for y
    using w by (simp add: world_ok_def)
  then show ?thesis unfolding world_ok_def published_def using end_ok_published [OF _ good] by simp
qed

lemma world_ok_window:
  assumes "world_ok ep w"
  shows "bytes_of (drop (length (pe_taken (pw_end w (other_side x)))) (pe_emitted (pw_end w x))) \<le> ps_unacked_bytes (pe_stream (pw_end w x))"
    and "ps_unacked_bytes (pe_stream (pw_end w x)) \<le> ep_credit ep"
proof -
  let ?n = "length (pe_taken (pw_end w (other_side x)))" and ?E = "pe_emitted (pw_end w x)"
  from assms obtain m where m: "m \<le> ?n" "ps_unacked_bytes (pe_stream (pw_end w x)) = bytes_of (drop m ?E)"
    "ps_unacked_bytes (pe_stream (pw_end w x)) \<le> ep_credit ep"
    unfolding world_ok_def end_ok_def flow_ok_def by blast
  have "drop m ?E = take (?n - m) (drop m ?E) @ drop ?n ?E"
    using m(1) append_take_drop_id [of "?n - m" "drop m ?E"] by simp
  then have "bytes_of (drop m ?E) = bytes_of (take (?n - m) (drop m ?E)) + bytes_of (drop ?n ?E)"
    by (metis map_append sum_list.append)
  with m(2) bytes_of_nonneg [of "take (?n - m) (drop m ?E)"]
  show "bytes_of (drop ?n ?E) \<le> ps_unacked_bytes (pe_stream (pw_end w x))" by linarith
  show "ps_unacked_bytes (pe_stream (pw_end w x)) \<le> ep_credit ep" by (rule m(3))
qed

lemma sender_frame_good:
  assumes "world_ok ep w" and "pe_sender (pw_end w x) = SendPublishes f rest"
  shows "good_frame (pe_emitted (pw_end w x)) (length (pe_taken (pw_end w x))) f"
    and "chunks_ok ep rest" and "rest \<noteq> [] \<Longrightarrow> \<not> ps_sent_close (pe_stream (pw_end w x))"
  using world_okD [OF assms(1), of x] assms(2) by (simp_all add: end_ok_def sender_ok_def)

lemma ack_frame_good:
  assumes "world_ok ep w" and "pe_receiver (pw_end w x) = ReceiveAcks f body"
  shows "good_frame (pe_emitted (pw_end w x)) (length (pe_taken (pw_end w x))) f"
proof -
  from assms obtain b where "decode_frame f = Inr (TAG_CREDIT, int (length (pe_taken (pw_end w x))), b)"
    using world_okD [OF assms(1), of x] by (auto simp: end_ok_def acks_ok_def)
  then show ?thesis unfolding good_frame_def by blast
qed

lemma world_ok_same_net:
  assumes "world_ok ep w"
    and "end_ok ep (pw_net w x) (pe_emitted (pw_end w (other_side x))) (length (pe_taken (pw_end w (other_side x)))) e"
    and "prefix (pe_emitted (pw_end w x)) (pe_emitted e)" "prefix (pe_taken (pw_end w x)) (pe_taken e)"
  shows "world_ok ep (set_end x e w)"
  by (rule world_ok_set_end [OF assms]) simp_all

text \<open>A call that stops where it is leaves everything as it was.\<close>

lemma end_ok_stops:
  assumes "end_ok ep net emitted taken e"
  shows "end_ok ep net emitted taken (e\<lparr>pe_sender := SendIdle\<rparr>)"
  by (rule end_ok_sends [OF assms]) (use assms in \<open>auto simp: reader_view_def end_ok_def sender_ok_def flow_ok_def\<close>)

lemma end_ok_drops:
  assumes "end_ok ep net emitted taken e" and "pe_receiver e = ReceiveAcks f body"
  shows "end_ok ep net emitted taken (e\<lparr>pe_receiver := ReceiveIdle, pe_lost := pe_lost e + 1\<rparr>)"
proof (rule end_ok_reads [OF assms(1)])
  have "subseq (pe_returned e @ [body]) (pe_taken e)" using assms by (simp add: end_ok_def acks_ok_def)
  then have "subseq (pe_returned e) (pe_taken e)" by (meson list_emb_prefix subseq_order.trans prefixI prefix_imp_subseq)
  then show "acks_ok ep net (e\<lparr>pe_receiver := ReceiveIdle, pe_lost := pe_lost e + 1\<rparr>)" by (simp add: acks_ok_def)
  show "reader_ok emitted (e\<lparr>pe_receiver := ReceiveIdle, pe_lost := pe_lost e + 1\<rparr>)"
    using assms(1) by (simp add: end_ok_def reader_ok_def)
qed (simp_all add: sender_view_def)

lemma end_ok_acked:
  assumes ok: "end_ok ep net emitted taken e" and acks: "pe_receiver e = ReceiveAcks f body" and credit: "0 < ep_credit ep"
  shows "end_ok ep (net @ [f]) emitted taken (e\<lparr>pe_receiver := ReceiveIdle, pe_returned := pe_returned e @ [body]\<rparr>)"
proof -
  let ?e = "e\<lparr>pe_receiver := ReceiveIdle, pe_returned := pe_returned e @ [body]\<rparr>"
  from ok acks obtain b where a: "subseq (pe_returned e @ [body]) (pe_taken e)"
    "pe_lost e = 0 \<longrightarrow> pe_taken e = pe_returned e @ [body]" "ps_consumed_since_ack (pe_stream e) = 0"
    "decode_frame f = Inr (TAG_CREDIT, int (length (pe_taken e)), b)"
    by (auto simp: end_ok_def acks_ok_def)
  have good: "good_frame (pe_emitted e) (length (pe_taken e)) f" using a(4) unfolding good_frame_def by blast
  have "acks_ok ep (net @ [f]) ?e"
    unfolding acks_ok_def using a credit by (auto intro!: exI [of _ "length (pe_taken e)"])
  moreover have "reader_ok emitted ?e" using ok by (simp add: end_ok_def reader_ok_def)
  ultimately show ?thesis
    by (intro end_ok_reads [OF end_ok_published [OF ok good]]) (simp_all add: sender_view_def)
qed

lemma pipe_do_ok:
  assumes w: "world_ok ep w" and credit: "0 < ep_credit ep" and step: "pipe_do codec event w = Some w'"
  shows "world_ok ep w'"
proof (cases event)
  case OpenCall
  then obtain f where f: "encode_frame TAG_READY 0 [] = Inr f" "w' = published CALLER f w"
    using step by (auto split: sum.splits)
  show ?thesis unfolding f(2) by (rule world_ok_published [OF w good_frame_control [OF f(1)]]) simp
next
  case (ErrorCall x t m)
  then obtain f where f: "encode_frame TAG_ERROR 0 (encode_error_body codec t m) = Inr f" "w' = published x f w"
    using step by (auto split: sum.splits)
  show ?thesis unfolding f(2) by (rule world_ok_published [OF w good_frame_control [OF f(1)]]) simp
next
  case (SendCall x data)
  then show ?thesis using step send_ok [OF world_okD [OF w, of x], of data]
    by (auto split: if_splits intro: world_ok_same_net [OF w])
next
  case (CloseCall x)
  then show ?thesis using step send_close_ok [OF world_okD [OF w, of x]]
    by (auto split: if_splits intro: world_ok_same_net [OF w])
next
  case (SendResumes x)
  then obtain c cs where c: "pe_sender (pw_end w x) = SendAwaitsCredit c cs"
    and w': "w' = set_end x (send_loop (c # cs) (pw_end w x)) w"
    using step by (auto split: send_activity.splits if_splits)
  have "chunks_ok ep (c # cs)" "\<not> ps_sent_close (pe_stream (pw_end w x))"
    using world_okD [OF w, of x] c by (simp_all add: end_ok_def sender_ok_def)
  then show ?thesis using send_loop_ok [OF world_okD [OF w, of x], of "c # cs"]
    unfolding w' by (intro world_ok_same_net [OF w]) simp_all
next
  case (SendTimesOut x)
  then have "w' = set_end x ((pw_end w x)\<lparr>pe_sender := SendIdle, pe_stream := fail PipeIdleTimeout (pe_stream (pw_end w x))\<rparr>) w"
    using step by (auto split: send_activity.splits if_splits)
  moreover have "end_ok ep (pw_net w x) (pe_emitted (pw_end w (other_side x))) (length (pe_taken (pw_end w (other_side x))))
      ((pw_end w x)\<lparr>pe_sender := SendIdle, pe_stream := fail PipeIdleTimeout (pe_stream (pw_end w x))\<rparr>)"
    using fail_ok [OF end_ok_stops [OF world_okD [OF w, of x]], of PipeIdleTimeout] by (simp add: honest_fault_def)
  ultimately show ?thesis by (simp add: world_ok_same_net [OF w])
next
  case (SendCancelled x)
  then show ?thesis using step end_ok_stops [OF world_okD [OF w, of x]]
    by (auto split: send_activity.splits intro: world_ok_same_net [OF w])
next
  case (PublishLands x)
  then obtain f rest where f: "pe_sender (pw_end w x) = SendPublishes f rest"
    and w': "w' = set_end x (send_loop rest (pw_end w x)) (published x f w)"
    using step by (auto split: send_activity.splits)
  note good = sender_frame_good [OF w f]
  show ?thesis unfolding w'
    using send_loop_ok [OF end_ok_published [OF world_okD [OF w, of x] good(1)] good(2,3)]
    by (intro world_ok_set_end [OF w]) (auto simp: published_def)
next
  case (PublishFails x went_out)
  then obtain f rest where f: "pe_sender (pw_end w x) = SendPublishes f rest"
    and w': "w' = set_end x ((pw_end w x)\<lparr>pe_sender := SendIdle\<rparr>) (if went_out then published x f w else w)"
    using step by (auto split: send_activity.splits)
  have ok: "world_ok ep (set_end x ((pw_end w x)\<lparr>pe_sender := SendIdle\<rparr>) w)"
    by (rule world_ok_same_net [OF w end_ok_stops [OF world_okD [OF w]]]) simp_all
  have "set_end x ((pw_end w x)\<lparr>pe_sender := SendIdle\<rparr>) (published x f w)
      = published x f (set_end x ((pw_end w x)\<lparr>pe_sender := SendIdle\<rparr>) w)"
    by (simp add: set_end_def published_def)
  then show ?thesis unfolding w'
    using ok world_ok_published [OF ok, of x f] sender_frame_good(1) [OF w f] by (auto simp: set_end_def)
next
  case (ReceiveCall x)
  then show ?thesis using step receive_call_ok [OF world_okD [OF w, of x] _ credit]
    by (auto split: if_splits intro: world_ok_same_net [OF w])
next
  case (ReceiveTimesOut x)
  then have "w' = set_end x ((pw_end w x)\<lparr>pe_stream := fail PipeIdleTimeout (pe_stream (pw_end w x))\<rparr>) w"
    using step by (auto split: if_splits)
  then show ?thesis using fail_ok [OF world_okD [OF w, of x], of PipeIdleTimeout]
    by (simp add: honest_fault_def world_ok_same_net [OF w])
next
  case (AckLands x)
  then obtain f body where f: "pe_receiver (pw_end w x) = ReceiveAcks f body"
    and w': "w' = set_end x ((pw_end w x)\<lparr>pe_receiver := ReceiveIdle, pe_returned := pe_returned (pw_end w x) @ [body]\<rparr>)
      (published x f w)"
    using step by (auto split: receive_activity.splits)
  show ?thesis unfolding w'
    by (rule world_ok_set_end [OF w end_ok_acked [OF world_okD [OF w] f credit]]) (simp_all add: published_def)
next
  case (AckFails x went_out)
  then obtain f body where f: "pe_receiver (pw_end w x) = ReceiveAcks f body"
    and w': "w' = set_end x ((pw_end w x)\<lparr>pe_receiver := ReceiveIdle, pe_lost := pe_lost (pw_end w x) + 1\<rparr>)
      (if went_out then published x f w else w)"
    using step by (auto split: receive_activity.splits)
  let ?e = "(pw_end w x)\<lparr>pe_receiver := ReceiveIdle, pe_lost := pe_lost (pw_end w x) + 1\<rparr>"
  have ok: "world_ok ep (set_end x ?e w)"
    by (rule world_ok_same_net [OF w end_ok_drops [OF world_okD [OF w] f]]) simp_all
  have "set_end x ?e (published x f w) = published x f (set_end x ?e w)" by (simp add: set_end_def published_def)
  then show ?thesis unfolding w'
    using ok world_ok_published [OF ok, of x f] ack_frame_good [OF w f] by (auto simp: set_end_def)
next
  case (Deliver x k)
  let ?y = "other_side x" and ?e = "pw_end w (other_side x)"
  from Deliver step have k: "k < length (pw_net w x)"
    and w': "w' = set_end ?y (?e\<lparr>pe_stream := on_frame codec (pw_net w x ! k) (pe_stream ?e)\<rparr>) w"
    by (auto simp: Let_def split: if_splits)
  have "good_frame (pe_emitted (pw_end w x)) (length (pe_taken (pw_end w x))) (pw_net w x ! k)"
    using world_okD [OF w, of x] k by (simp add: end_ok_def net_ok_def)
  moreover have "bytes_of (drop (length (pe_taken ?e)) (pe_emitted (pw_end w x))) \<le> ep_credit ep"
    using world_ok_window [OF w, of x] by linarith
  moreover have "end_ok ep (pw_net w ?y) (pe_emitted (pw_end w x)) (length (pe_taken (pw_end w x))) ?e"
    using world_okD [OF w, of ?y] by simp
  ultimately have "end_ok ep (pw_net w ?y) (pe_emitted (pw_end w x)) (length (pe_taken (pw_end w x)))
      (?e\<lparr>pe_stream := on_frame codec (pw_net w x ! k) (pe_stream ?e)\<rparr>)"
    by (intro on_frame_ok)
  then show ?thesis unfolding w' by (intro world_ok_same_net [OF w]) simp_all
qed

lemma pipe_reachable_ok:
  assumes "pipe_reachable codec ns ep w"
  shows "world_ok ep w" and "sound_endpoint ep"
  using assms
proof (induction rule: pipe_reachable.induct)
  case (opened caller owner)
  case 1
  have "end_ok ep [] [] 0 (new_pipe_end s)" if "new_PipeStream ns ep side = Inr s" for s side
    using that opened(3)
    by (auto simp: new_PipeStream_def fresh_stream_def new_pipe_end_def end_ok_def sender_ok_def flow_ok_def reader_ok_def acks_ok_def net_ok_def
        sound_endpoint_def)
  with opened(1,2) show ?case by (auto simp: world_ok_def pipe_start_def new_pipe_end_def split: PipeSide.split)
next
  case (happens w event w')
  case 1
  from happens.IH have "0 < ep_credit ep" by (simp add: sound_endpoint_def)
  from pipe_do_ok [OF happens.IH(1) this happens.hyps(2)] show ?case .
qed auto

end
