(* ===== verification/PipeStreams.thy ===== *)
theory PipeStreams
  imports PipeSafe
begin

text \<open>
  What the byte pipe promises its callers, in every world its two ends can reach: bytes arrive in order and
  whole or not at all, a window is never overrun, and a sender that waits for credit gets it as soon as the
  peer has consumed what is under way, provided a frame is at most half a window.  Two worlds in which the
  promise is not kept are reached as well: a window as small as a frame, and an acknowledgement that cannot
  be published.
\<close>

section \<open>Opening\<close>

lemma pipe_opened:
  assumes "sound_endpoint ep" and "ep_tool ep \<noteq> []" and "ep_tool ep \<noteq> ''tools''"
  obtains out inb where "pipe_reachable codec ns ep (pipe_start (fresh_stream ep out inb) (fresh_stream ep inb out))"
proof -
  from assms have "\<exists>node. provider_node (ep_tool ep) = Inr node"
    by (simp add: provider_node_def tool_provider_node_def)
  then obtain node where node: "provider_node (ep_tool ep) = Inr node" ..
  have nonce: "ep_nonce ep \<noteq> []" using assms(1) by (simp add: sound_endpoint_def)
  define named where "named direction = point [ns, ''pipe'', digest_token node, sanitize_subject_segment (ep_pod_id ep),
    sanitize_subject_segment (ep_nonce ep), direction]" for direction
  have "endpoint_subject ns ep direction = Inr (named direction)" for direction
    using node nonce by (simp add: endpoint_subject_def pipe_def named_def)
  then have "new_PipeStream ns ep CALLER = Inr (fresh_stream ep (named ''up'') (named ''down''))"
    "new_PipeStream ns ep OWNER = Inr (fresh_stream ep (named ''down'') (named ''up''))"
    by (simp_all add: new_PipeStream_def)
  from that [OF pipe_reachable.opened [OF this assms(1)]] show thesis .
qed

lemma pipe_schedule:
  assumes "sound_endpoint ep" and "ep_tool ep \<noteq> []" and "ep_tool ep \<noteq> ''tools''"
    and "\<And>out inb. map_option view (pipe_run codec events (pipe_start (fresh_stream ep out inb) (fresh_stream ep inb out))) = Some seen"
  shows "\<exists>w. pipe_reachable codec ns ep w \<and> view w = seen"
proof -
  obtain out inb where "pipe_reachable codec ns ep (pipe_start (fresh_stream ep out inb) (fresh_stream ep inb out))"
    using pipe_opened [OF assms(1-3)] .
  with assms(4) [of out inb] show ?thesis by (auto intro: pipe_run_reachable)
qed

abbreviation example_endpoint :: "int \<Rightarrow> int \<Rightarrow> PipeEndpoint" where
  "example_endpoint max_chunk credit \<equiv> \<lparr>ep_tool = ''pentest'', ep_pod_id = ''p1'', ep_nonce = ''ab'',
     ep_max_chunk = max_chunk, ep_credit = credit, ep_version = 1\<rparr>"

lemma example_endpoint_sound: "0 < max_chunk \<Longrightarrow> max_chunk \<le> credit \<Longrightarrow> sound_endpoint (example_endpoint max_chunk credit)"
  by (simp add: sound_endpoint_def subject_unsafe_def)

text \<open>Three bytes in two frames, read to their end.\<close>

definition whole_transfer :: "pipe_event list" where
  "whole_transfer = [OpenCall, Deliver CALLER 0, SendCall OWNER [1, 2, 3], PublishLands OWNER, PublishLands OWNER,
     CloseCall OWNER, PublishLands OWNER, Deliver OWNER 0, ReceiveCall CALLER, AckLands CALLER, Deliver OWNER 1,
     ReceiveCall CALLER, Deliver OWNER 2, ReceiveCall CALLER, AckLands CALLER]"

lemma whole_transfer_reached:
  "\<exists>w. pipe_reachable codec ns (example_endpoint 2 4) w
     \<and> (pe_returned (pw_end w CALLER), pe_lost (pw_end w CALLER), ps_fault (pe_stream (pw_end w CALLER)))
       = ([Some [1, 2], Some [3], None], 0, None)"
proof (rule pipe_schedule [of "example_endpoint 2 4" _ codec whole_transfer])
  show "map_option (\<lambda>w. (pe_returned (pw_end w CALLER), pe_lost (pw_end w CALLER), ps_fault (pe_stream (pw_end w CALLER))))
      (pipe_run codec whole_transfer (pipe_start (fresh_stream (example_endpoint 2 4) out inb) (fresh_stream (example_endpoint 2 4) inb out)))
    = Some ([Some [1, 2], Some [3], None], 0, None)" for out inb
    by code_simp
qed (simp_all add: example_endpoint_sound)

section \<open>In order and whole\<close>

lemma send_chunks_whole: "0 < n \<Longrightarrow> concat (send_chunks n data) = data"
proof (induction n data rule: send_chunks.induct)
  case (1 n data)
  then show ?case by (cases "data = []") (subst send_chunks.simps, simp)+
qed

lemma closed_last:
  assumes "None \<notin> set (butlast emitted)" and "prefix taken emitted" and "None \<in> set taken"
  shows "taken = emitted"
proof (rule ccontr)
  assume "taken \<noteq> emitted"
  with assms(2) have "prefix taken (butlast emitted)" by (metis prefix_snoc append_butlast_last_id prefix_bot.bot_least prefix_order.antisym)
  with assms(1,3) show False by (meson set_mono_prefix subsetD)
qed

text \<open>C14: The byte pipe delivers in order and whole.  In every world two ends can reach, whatever the network
  loses, repeats or reorders and whichever calls are cancelled or see a publish raise: what a consumer took
  is a prefix of what the peer emitted, what its calls returned is part of that in order and all of it when
  no call raised with a body in hand, and a consumer is told the stream ended only when it took everything
  the peer ever emitted and the peer has closed.  The chunks of a send are its bytes.\<close>

theorem pipe_delivers:
  assumes "pipe_reachable codec ns ep w"
  shows "prefix (pe_taken (pw_end w x)) (pe_emitted (pw_end w (other_side x)))
    \<and> subseq (pe_returned (pw_end w x)) (pe_taken (pw_end w x))
    \<and> (pe_lost (pw_end w x) = 0 \<longrightarrow> prefix (pe_returned (pw_end w x)) (pe_emitted (pw_end w (other_side x))))
    \<and> (None \<in> set (pe_returned (pw_end w x)) \<longrightarrow>
         pe_taken (pw_end w x) = pe_emitted (pw_end w (other_side x)) \<and> ps_sent_close (pe_stream (pw_end w (other_side x))))
    \<and> concat (send_chunks (nat (ep_max_chunk ep)) data) = data"
proof -
  let ?e = "pw_end w x" and ?p = "pw_end w (other_side x)"
  note ok = pipe_reachable_ok [OF assms]
  note reader = world_okD [OF ok(1), of x] and sender = world_okD [OF ok(1), of "other_side x"]
  have taken: "prefix (pe_taken ?e) (pe_emitted ?p)" using reader by (simp add: end_ok_def reader_ok_def)
  have part: "subseq (pe_returned ?e) (pe_taken ?e)" "pe_lost ?e = 0 \<Longrightarrow> prefix (pe_returned ?e) (pe_taken ?e)"
    using reader subseq_order.trans [OF prefix_imp_subseq [OF prefixI], of _ "pe_returned ?e"]
    by (auto simp: end_ok_def acks_ok_def split: receive_activity.splits intro: subseq_order.trans)
  have "pe_taken ?e = pe_emitted ?p" "ps_sent_close (pe_stream ?p)" if "None \<in> set (pe_returned ?e)"
  proof -
    have closed: "None \<in> set (pe_taken ?e)" using part(1) that by (auto dest: list_emb_set)
    show whole: "pe_taken ?e = pe_emitted ?p"
      by (rule closed_last [OF _ taken closed]) (use sender in \<open>simp add: end_ok_def sender_ok_def\<close>)
    show "ps_sent_close (pe_stream ?p)" using sender closed whole by (simp add: end_ok_def sender_ok_def)
  qed
  moreover have "concat (send_chunks (nat (ep_max_chunk ep)) data) = data"
    by (rule send_chunks_whole) (use ok(2) in \<open>simp add: sound_endpoint_def\<close>)
  ultimately show ?thesis using taken part prefix_order.trans [OF part(2) taken] by blast
qed

theorem pipe_delivers_witness:
  "\<exists>w. pipe_reachable \<lparr>jc_loads = (\<lambda>_. None), jc_dumps = (\<lambda>_. []), jc_float_repr = (\<lambda>_. ''nan'')\<rparr> ''ns'' (example_endpoint 2 4) w
     \<and> pe_returned (pw_end w CALLER) = [Some [1, 2], Some [3], None]
     \<and> prefix [Some [1, 2], Some [3], None] (pe_emitted (pw_end w OWNER))
     \<and> pe_taken (pw_end w CALLER) = pe_emitted (pw_end w OWNER) \<and> ps_sent_close (pe_stream (pw_end w OWNER))"
proof -
  let ?codec = "\<lparr>jc_loads = (\<lambda>_. None), jc_dumps = (\<lambda>_. []), jc_float_repr = (\<lambda>_. ''nan'')\<rparr> :: json_codec"
  obtain w where w: "pipe_reachable ?codec ''ns'' (example_endpoint 2 4) w"
    "pe_returned (pw_end w CALLER) = [Some [1, 2], Some [3], None]" "pe_lost (pw_end w CALLER) = 0"
    using whole_transfer_reached [of ?codec "''ns''"] by auto
  with pipe_delivers [OF w(1), of CALLER "[]"] show ?thesis by auto
qed

section \<open>Within the window\<close>

text \<open>C15: The byte pipe keeps to its window.  In every reachable world an end has at most a window of bytes
  unacknowledged, what waits in an inbox is at most what the peer has unacknowledged, and the only faults
  two ends of this code can have are a gap, silence, and a failure the peer reported: neither sees the
  other overrun the window or send something it cannot read.\<close>

theorem pipe_window:
  assumes "pipe_reachable codec ns ep w"
  shows "ps_unacked_bytes (pe_stream (pw_end w x)) \<le> ep_credit ep
    \<and> (ps_fault (pe_stream (pw_end w x)) = None \<longrightarrow>
         0 \<le> ps_queued_bytes (pe_stream (pw_end w x))
         \<and> ps_queued_bytes (pe_stream (pw_end w x)) \<le> ps_unacked_bytes (pe_stream (pw_end w (other_side x))))
    \<and> (\<forall>exc. ps_fault (pe_stream (pw_end w x)) = Some exc \<longrightarrow>
         exc = PipeSequenceGapError \<or> exc = PipeIdleTimeout \<or> (\<exists>type_name message. exc = PipeRemoteError type_name message))"
proof -
  let ?e = "pw_end w x" and ?p = "pw_end w (other_side x)"
  note ok = pipe_reachable_ok(1) [OF assms]
  have reader: "reader_ok (pe_emitted ?p) ?e" using world_okD [OF ok, of x] by (simp add: end_ok_def)
  have "0 \<le> ps_queued_bytes (pe_stream ?e) \<and> ps_queued_bytes (pe_stream ?e) \<le> ps_unacked_bytes (pe_stream ?p)"
    if none: "ps_fault (pe_stream ?e) = None"
  proof -
    let ?k = "ps_expect_seq (pe_stream ?e) - 1"
    have r: "pe_taken ?e @ map snd (ps_inbox (pe_stream ?e)) = take ?k (pe_emitted ?p)"
      "ps_queued_bytes (pe_stream ?e) = bytes_of (map snd (ps_inbox (pe_stream ?e)))"
      using reader none by (simp_all add: reader_ok_def)
    have "pe_emitted ?p = pe_taken ?e @ map snd (ps_inbox (pe_stream ?e)) @ drop ?k (pe_emitted ?p)"
      using r(1) by (metis append.assoc append_take_drop_id)
    then have "drop (length (pe_taken ?e)) (pe_emitted ?p) = map snd (ps_inbox (pe_stream ?e)) @ drop ?k (pe_emitted ?p)"
      by (metis append_eq_conv_conj)
    then have "bytes_of (drop (length (pe_taken ?e)) (pe_emitted ?p)) =
        ps_queued_bytes (pe_stream ?e) + bytes_of (drop ?k (pe_emitted ?p))"
      by (metis map_append sum_list.append r(2))
    then show ?thesis
      using world_ok_window(1) [OF ok, of "other_side x"] bytes_of_nonneg [of "drop ?k (pe_emitted ?p)"]
        bytes_of_nonneg [of "map snd (ps_inbox (pe_stream ?e))"] r(2) by simp
  qed
  moreover have "exc = PipeSequenceGapError \<or> exc = PipeIdleTimeout \<or> (\<exists>type_name message. exc = PipeRemoteError type_name message)"
    if "ps_fault (pe_stream ?e) = Some exc" for exc
  proof -
    have "honest_fault exc" using reader that by (simp add: reader_ok_def)
    then show ?thesis by (cases exc) (simp_all add: honest_fault_def)
  qed
  ultimately show ?thesis using world_ok_window(2) [OF ok, of x] by blast
qed

theorem pipe_window_witness:
  "\<exists>w. pipe_reachable \<lparr>jc_loads = (\<lambda>_. None), jc_dumps = (\<lambda>_. []), jc_float_repr = (\<lambda>_. ''nan'')\<rparr> ''ns'' (example_endpoint 2 4) w
     \<and> pe_returned (pw_end w CALLER) = [Some [1, 2], Some [3], None]
     \<and> ps_unacked_bytes (pe_stream (pw_end w OWNER)) \<le> 4
     \<and> ps_queued_bytes (pe_stream (pw_end w CALLER)) \<le> ps_unacked_bytes (pe_stream (pw_end w OWNER))"
proof -
  let ?codec = "\<lparr>jc_loads = (\<lambda>_. None), jc_dumps = (\<lambda>_. []), jc_float_repr = (\<lambda>_. ''nan'')\<rparr> :: json_codec"
  obtain w where w: "pipe_reachable ?codec ''ns'' (example_endpoint 2 4) w"
    "pe_returned (pw_end w CALLER) = [Some [1, 2], Some [3], None]" "ps_fault (pe_stream (pw_end w CALLER)) = None"
    using whole_transfer_reached [of ?codec "''ns''"] by auto
  with pipe_window [OF w(1), of CALLER] pipe_window [OF w(1), of OWNER] show ?thesis by auto
qed

section \<open>A waiting sender\<close>

definition credit_frame :: "nat \<Rightarrow> byte list \<Rightarrow> bool" where
  "credit_frame k frame \<longleftrightarrow> (\<exists>body. decode_frame frame = Inr (TAG_CREDIT, int k, body))"

text \<open>Nothing of what one side sent is under way any more: the peer consumed it all, and every
  acknowledgement the peer published has been applied.\<close>

definition acks_seen :: "PipeSide \<Rightarrow> pipe_world \<Rightarrow> bool" where
  "acks_seen x w \<longleftrightarrow> (\<forall>f \<in> set (pw_net w (other_side x)). \<forall>k. credit_frame k f \<longrightarrow>
     (\<forall>u \<in> set (ps_unacked (pe_stream (pw_end w x))). k < fst u))"

definition drained :: "PipeSide \<Rightarrow> pipe_world \<Rightarrow> bool" where
  "drained x w \<longleftrightarrow> pe_taken (pw_end w (other_side x)) = pe_emitted (pw_end w x)
     \<and> pe_receiver (pw_end w (other_side x)) = ReceiveIdle \<and> acks_seen x w"

lemma drained_fits:
  assumes ok: "world_ok ep w" and drained: "drained x w" and lost: "pe_lost (pw_end w (other_side x)) = 0"
  shows "2 * ps_unacked_bytes (pe_stream (pw_end w x)) < ep_credit ep"
proof -
  let ?e = "pw_end w x" and ?p = "pw_end w (other_side x)"
  have taken: "pe_taken ?p = pe_emitted ?e" and idle: "pe_receiver ?p = ReceiveIdle" and seen: "acks_seen x w"
    using drained by (simp_all add: drained_def)
  have "acks_ok ep (pw_net w (other_side x)) ?p" using world_okD [OF ok, of "other_side x"] by (simp add: end_ok_def)
  then obtain a where a: "a \<le> length (pe_taken ?p)" "a = 0 \<or> (\<exists>f \<in> set (pw_net w (other_side x)). credit_frame a f)"
    "ps_consumed_since_ack (pe_stream ?p) = bytes_of (drop a (pe_taken ?p))"
    "2 * ps_consumed_since_ack (pe_stream ?p) < ep_credit ep"
    unfolding acks_ok_def idle receive_activity.case credit_frame_def using lost by blast
  have "flow_ok ep (length (pe_taken ?p)) ?e" using world_okD [OF ok, of x] by (simp add: end_ok_def)
  then obtain m where m: "ps_unacked (pe_stream ?e) = enumerate (Suc m) (map body_size (drop m (pe_emitted ?e)))"
    "ps_unacked_bytes (pe_stream ?e) = bytes_of (drop m (pe_emitted ?e))"
    unfolding flow_ok_def by blast
  have "bytes_of (drop m (pe_emitted ?e)) \<le> bytes_of (drop a (pe_emitted ?e))"
  proof (cases "drop m (pe_emitted ?e) = []")
    case True
    then show ?thesis using bytes_of_nonneg by simp
  next
    case False
    then obtain b bs where "drop m (pe_emitted ?e) = b # bs" by (cases "drop m (pe_emitted ?e)") auto
    then have "(Suc m, body_size b) \<in> set (ps_unacked (pe_stream ?e))" using m(1) by simp
    then have "a \<le> m" using a(2) seen unfolding acks_seen_def by fastforce
    then have "drop a (pe_emitted ?e) = take (m - a) (drop a (pe_emitted ?e)) @ drop m (pe_emitted ?e)"
      using append_take_drop_id [of "m - a" "drop a (pe_emitted ?e)"] by simp
    then have "bytes_of (drop a (pe_emitted ?e)) =
        bytes_of (take (m - a) (drop a (pe_emitted ?e))) + bytes_of (drop m (pe_emitted ?e))"
      by (metis map_append sum_list.append)
    then show ?thesis using bytes_of_nonneg [of "take (m - a) (drop a (pe_emitted ?e))"] by linarith
  qed
  with a(3,4) m(2) taken show ?thesis by simp
qed

text \<open>C16: A sender waiting for credit is not forgotten.  When frames are at most half a window, the peer has
  consumed all that was sent, none of its acknowledgements was lost to a raised publish and those it
  published have arrived, then a send that waits for credit goes on, and its next chunk goes out.\<close>

theorem waiting_sender_resumes:
  assumes "pipe_reachable codec ns ep w" and "2 * ep_max_chunk ep \<le> ep_credit ep + 1"
    and "pe_sender (pw_end w x) = SendAwaitsCredit chunk rest" and "ps_fault (pe_stream (pw_end w x)) = None"
    and "drained x w" and "pe_lost (pw_end w (other_side x)) = 0"
    and "int (ps_send_seq (pe_stream (pw_end w x))) < MAX_SEQ"
  shows "\<exists>w'. pipe_do codec (SendResumes x) w = Some w'
    \<and> pe_emitted (pw_end w' x) = pe_emitted (pw_end w x) @ [Some chunk]"
proof -
  let ?e = "pw_end w x"
  note ok = pipe_reachable_ok(1) [OF assms(1)]
  have sender: "int (length chunk) \<le> ep_max_chunk ep"
      "ps_credit (pe_stream ?e) \<or> ps_unacked_bytes (pe_stream ?e) + int (length chunk) > ep_credit ep"
    and endpoint: "ps_endpoint (pe_stream ?e) = ep"
    using world_okD [OF ok, of x] assms(3) by (simp_all add: end_ok_def sender_ok_def chunks_ok_def)
  have fits: "ps_unacked_bytes (pe_stream ?e) + int (length chunk) \<le> ep_credit ep"
    using drained_fits [OF ok assms(5,6)] sender(1) assms(2) by linarith
  have "\<exists>frame. encode_frame TAG_DATA (int (Suc (ps_send_seq (pe_stream ?e)))) chunk = Inr frame"
    using assms(7) by (subst encode_frame_total(1)) (simp_all add: tag_defs)
  then show ?thesis
    using assms(3,4) fits sender(2) endpoint
    by (auto simp: await_credit_def emit_from_def emit_sequenced_def set_end_def)
qed

text \<open>Two frames fill the window, a third waits; both are consumed and acknowledged.\<close>

theorem waiting_sender_resumes_witness:
  "\<exists>w w'. pe_sender (pw_end w OWNER) = SendAwaitsCredit [3] []
     \<and> pipe_do \<lparr>jc_loads = (\<lambda>_. None), jc_dumps = (\<lambda>_. []), jc_float_repr = (\<lambda>_. ''nan'')\<rparr> (SendResumes OWNER) w = Some w'
     \<and> pe_emitted (pw_end w' OWNER) = [Some [1, 1], Some [2, 2], Some [3]]"
proof -
  let ?codec = "\<lparr>jc_loads = (\<lambda>_. None), jc_dumps = (\<lambda>_. []), jc_float_repr = (\<lambda>_. ''nan'')\<rparr> :: json_codec"
  let ?ep = "example_endpoint 2 4"
  let ?events = "[SendCall OWNER [1, 1], PublishLands OWNER, SendCall OWNER [2, 2], PublishLands OWNER, SendCall OWNER [3],
    Deliver OWNER 0, Deliver OWNER 1, ReceiveCall CALLER, AckLands CALLER, ReceiveCall CALLER, AckLands CALLER,
    Deliver CALLER 0, Deliver CALLER 1]"
  let ?view = "\<lambda>w. (pe_sender (pw_end w OWNER), ps_fault (pe_stream (pw_end w OWNER)), pe_emitted (pw_end w OWNER),
    pe_taken (pw_end w CALLER), pe_receiver (pw_end w CALLER), pe_lost (pw_end w CALLER),
    ps_unacked (pe_stream (pw_end w OWNER)), ps_send_seq (pe_stream (pw_end w OWNER)))"
  have "map_option ?view (pipe_run ?codec ?events (pipe_start (fresh_stream ?ep out inb) (fresh_stream ?ep inb out)))
      = Some (SendAwaitsCredit [3] [], None, [Some [1, 1], Some [2, 2]], [Some [1, 1], Some [2, 2]], ReceiveIdle, 0, [], 2)" for out inb
    by code_simp
  from pipe_schedule [OF example_endpoint_sound _ _ this, of "''ns''"] obtain w where
    w: "pipe_reachable ?codec ''ns'' ?ep w" "pe_sender (pw_end w OWNER) = SendAwaitsCredit [3] []"
    "ps_fault (pe_stream (pw_end w OWNER)) = None" "pe_emitted (pw_end w OWNER) = [Some [1, 1], Some [2, 2]]"
    "pe_taken (pw_end w CALLER) = [Some [1, 1], Some [2, 2]]" "pe_receiver (pw_end w CALLER) = ReceiveIdle"
    "pe_lost (pw_end w CALLER) = 0" "ps_unacked (pe_stream (pw_end w OWNER)) = []" "ps_send_seq (pe_stream (pw_end w OWNER)) = 2"
    by auto
  have "drained OWNER w" using w by (simp add: drained_def acks_seen_def)
  with waiting_sender_resumes [OF w(1) _ w(2,3)] w show ?thesis by (auto simp: MAX_SEQ_def simp del: pipe_do.simps)
qed

section \<open>A window that is too small\<close>

definition stalled :: "PipeSide \<Rightarrow> byte list \<Rightarrow> pipe_world \<Rightarrow> bool" where
  "stalled x chunk w \<longleftrightarrow> (\<exists>rest. pe_sender (pw_end w x) = SendAwaitsCredit chunk rest)
     \<and> ps_fault (pe_stream (pw_end w x)) = None
     \<and> ps_unacked_bytes (pe_stream (pw_end w x)) + int (length chunk) > ep_credit (ps_endpoint (pe_stream (pw_end w x)))
     \<and> drained x w
     \<and> (\<forall>f rest k. pe_sender (pw_end w (other_side x)) = SendPublishes f rest \<longrightarrow> \<not> credit_frame k f)"

definition faulted :: "PipeSide \<Rightarrow> pipe_world \<Rightarrow> bool" where
  "faulted x w \<longleftrightarrow> ps_fault (pe_stream (pw_end w x)) \<noteq> None
     \<and> (\<forall>f rest. pe_sender (pw_end w x) = SendPublishes f rest \<longrightarrow> rest = [])"

definition data_emitted :: "PipeSide \<Rightarrow> pipe_world \<Rightarrow> byte list option list" where
  "data_emitted x w = List.filter (\<lambda>body. body \<noteq> None) (pe_emitted (pw_end w x))"

subsection \<open>What the operations leave alone\<close>

lemma fail_keeps:
  "ps_fault s = Some exc \<Longrightarrow> fail exc' s = s" "\<exists>exc. ps_fault (fail exc' s) = Some exc"
  by (auto simp: fail_def split: option.split)

lemma on_frame_fault: "ps_fault s \<noteq> None \<Longrightarrow> ps_fault (on_frame codec f s) \<noteq> None"
  by (auto simp: on_frame_def accept_sequenced_def apply_credit_def Let_def fail_def split: sum.splits prod.splits option.splits)

lemma release_nothing: "\<forall>u \<in> set us. k < fst u \<Longrightarrow> release_acked k us b = (us, b)"
  by (cases us) auto

lemma on_frame_keeps:
  assumes "\<And>k. credit_frame k f \<Longrightarrow> \<forall>u \<in> set (ps_unacked s). k < fst u"
  shows "ps_unacked (on_frame codec f s) = ps_unacked s" "ps_unacked_bytes (on_frame codec f s) = ps_unacked_bytes s"
    "ps_endpoint (on_frame codec f s) = ps_endpoint s"
proof -
  have "release_acked (nat seq) (ps_unacked s) (ps_unacked_bytes s) = (ps_unacked s, ps_unacked_bytes s)"
    if "decode_frame f = Inr (TAG_CREDIT, seq, body)" for seq body
  proof (rule release_nothing, rule assms)
    from that have "0 \<le> seq" by (auto simp: decode_frame_def split: if_splits prod.splits elim!: header_unpack_from.elims)
    with that show "credit_frame (nat seq) f" by (simp add: credit_frame_def)
  qed
  then show "ps_unacked (on_frame codec f s) = ps_unacked s" "ps_unacked_bytes (on_frame codec f s) = ps_unacked_bytes s"
    "ps_endpoint (on_frame codec f s) = ps_endpoint s"
    by (auto simp: on_frame_def accept_sequenced_def apply_credit_def Let_def fail_def split: sum.splits prod.splits option.splits)
qed

lemma receive_call_keeps:
  "sender_view (receive_call e) = sender_view e" "ps_fault (pe_stream (receive_call e)) = ps_fault (pe_stream e)"
  by (auto simp: sender_view_def receive_call_def receive_def send_credit_def Let_def
      split: option.splits list.splits prod.splits receive_result.splits sum.splits if_splits)

lemma emit_from_keeps:
  "pe_taken (emit_from tag body rest e) = pe_taken e" "pe_receiver (emit_from tag body rest e) = pe_receiver e"
  "ps_fault (pe_stream (emit_from tag body rest e)) = ps_fault (pe_stream e)"
  by (auto simp: emit_from_def emit_sequenced_def Let_def split: prod.splits sum.splits)

lemma emit_from_frame:
  assumes "pe_sender (emit_from tag body rest e) = SendPublishes f r" and "tag \<noteq> TAG_CREDIT"
  shows "\<not> credit_frame k f" and "r = rest"
  using assms
  by (auto simp: emit_from_def emit_sequenced_def credit_frame_def Let_def split: prod.splits sum.splits dest: decode_encode_frame)

lemma send_loop_keeps:
  "pe_taken (send_loop chunks e) = pe_taken e" "pe_receiver (send_loop chunks e) = pe_receiver e"
  by (cases chunks; auto simp: await_credit_def emit_from_keeps Let_def split: prod.splits option.splits credit_result.splits)+

lemma send_loop_frame: "pe_sender (send_loop chunks e) = SendPublishes f r \<Longrightarrow> \<not> credit_frame k f"
  by (cases chunks)
    (auto simp: await_credit_def Let_def tag_defs split: prod.splits option.splits if_splits credit_result.splits
      dest: emit_from_frame(1))

subsection \<open>A stalled stream stays stalled\<close>

text \<open>Steps of the other parts of the world: the stalled side keeps its half, the peer keeps what it took.\<close>

lemma stalled_same:
  assumes "stalled x chunk w" and "sender_view (pw_end w' x) = sender_view (pw_end w x)"
    and "ps_fault (pe_stream (pw_end w' x)) = None"
    and "pe_taken (pw_end w' (other_side x)) = pe_taken (pw_end w (other_side x))"
    and "pe_receiver (pw_end w' (other_side x)) = pe_receiver (pw_end w (other_side x))"
    and "\<And>f rest k. pe_sender (pw_end w' (other_side x)) = SendPublishes f rest \<Longrightarrow> \<not> credit_frame k f"
    and "\<And>f k. f \<in> set (pw_net w' (other_side x)) \<Longrightarrow> credit_frame k f \<Longrightarrow> f \<in> set (pw_net w (other_side x))"
  shows "stalled x chunk w' \<and> data_emitted x w' = data_emitted x w"
proof -
  have same: "pe_sender (pw_end w' x) = pe_sender (pw_end w x)" "pe_emitted (pw_end w' x) = pe_emitted (pw_end w x)"
    "ps_unacked (pe_stream (pw_end w' x)) = ps_unacked (pe_stream (pw_end w x))"
    "ps_unacked_bytes (pe_stream (pw_end w' x)) = ps_unacked_bytes (pe_stream (pw_end w x))"
    "ps_endpoint (pe_stream (pw_end w' x)) = ps_endpoint (pe_stream (pw_end w x))"
    using assms(2) by (simp_all add: sender_view_def)
  have "acks_seen x w" using assms(1) by (simp add: stalled_def drained_def)
  then have "acks_seen x w'" using assms(7) unfolding acks_seen_def same by blast
  then show ?thesis using assms(1,3-5) assms(6) unfolding stalled_def drained_def data_emitted_def same by simp
qed

lemma control_no_credit:
  assumes "encode_frame tag 0 body = Inr f" and "tag = TAG_READY \<or> tag = TAG_ERROR"
  shows "\<not> credit_frame k f"
  using decode_encode_frame [OF assms(1)] assms(2) by (auto simp: credit_frame_def tag_defs)

lemma stalled_emit_control:
  assumes "stalled x chunk w" and "emit_control z tag 0 body w = Some w'" and "tag = TAG_READY \<or> tag = TAG_ERROR"
  shows "stalled x chunk w' \<and> data_emitted x w' = data_emitted x w"
proof -
  from assms(2) obtain f where f: "encode_frame tag 0 body = Inr f" "w' = published z f w" by (auto split: sum.splits)
  show ?thesis
    by (rule stalled_same [OF assms(1)])
      (use assms(1) control_no_credit [OF f(1) assms(3)] in \<open>auto simp: f(2) published_def stalled_def split: if_splits\<close>)
qed

lemma stalled_receive:
  assumes ok: "world_ok ep w" and "stalled x chunk w"
  shows "receive_call (pw_end w (other_side x)) = pw_end w (other_side x)"
proof -
  let ?p = "pw_end w (other_side x)"
  have taken: "pe_taken ?p = pe_emitted (pw_end w x)" using assms(2) by (simp add: stalled_def drained_def)
  have "ps_inbox (pe_stream ?p) = []" if "ps_fault (pe_stream ?p) = None"
  proof -
    have "pe_taken ?p @ map snd (ps_inbox (pe_stream ?p)) = take (ps_expect_seq (pe_stream ?p) - 1) (pe_emitted (pw_end w x))"
      using world_okD [OF ok, of "other_side x"] that by (simp add: end_ok_def reader_ok_def)
    then have "length (pe_taken ?p) + length (ps_inbox (pe_stream ?p)) \<le> length (pe_taken ?p)"
      using taken by (metis length_append length_map length_take min.cobounded1)
    then show ?thesis by simp
  qed
  then show ?thesis by (auto simp: receive_call_def receive_def split: option.splits list.splits)
qed

text \<open>Steps of the peer.\<close>

lemma stalled_peer_sends:
  assumes "stalled x chunk w" and "pe_taken e = pe_taken (pw_end w (other_side x))"
    and "pe_receiver e = pe_receiver (pw_end w (other_side x))"
    and "\<And>f rest k. pe_sender e = SendPublishes f rest \<Longrightarrow> \<not> credit_frame k f"
    and "pw_end w0 = pw_end w" and "\<And>f k. f \<in> set (pw_net w0 (other_side x)) \<Longrightarrow> credit_frame k f \<Longrightarrow> f \<in> set (pw_net w (other_side x))"
  shows "stalled x chunk (set_end (other_side x) e w0) \<and> data_emitted x (set_end (other_side x) e w0) = data_emitted x w"
  by (rule stalled_same [OF assms(1)]) (use assms in \<open>auto simp: set_end_def stalled_def\<close>)

lemma stalled_peer_step:
  assumes ok: "world_ok ep w" and stalled: "stalled x chunk w"
    and step: "pipe_do codec event w = Some w'"
    and peer: "event \<in> {SendCall (other_side x) data, CloseCall (other_side x), SendResumes (other_side x),
      SendTimesOut (other_side x), SendCancelled (other_side x), PublishLands (other_side x), PublishFails (other_side x) b,
      ReceiveCall (other_side x), ReceiveTimesOut (other_side x), AckLands (other_side x), AckFails (other_side x) b, Deliver x k}"
  shows "stalled x chunk w' \<and> data_emitted x w' = data_emitted x w"
proof -
  let ?y = "other_side x" and ?p = "pw_end w (other_side x)"
  note peer_sends = stalled_peer_sends [OF stalled]
  have idle: "pe_receiver ?p = ReceiveIdle" using stalled by (simp add: stalled_def drained_def)
  have pending: "\<not> credit_frame k f" if "pe_sender ?p = SendPublishes f rest" for f rest k
    using stalled that by (simp add: stalled_def)
  from peer consider "event = SendCall ?y data" | "event = CloseCall ?y" | "event = SendResumes ?y"
    | "event = SendTimesOut ?y" | "event = SendCancelled ?y" | "event = PublishLands ?y" | "event = PublishFails ?y b"
    | "event = ReceiveCall ?y" | "event = ReceiveTimesOut ?y" | "event = AckLands ?y \<or> event = AckFails ?y b" | "event = Deliver x k"
    by blast
  then show ?thesis
  proof cases
    case 1
    then have w': "w' = set_end ?y (send data ?p) w" and "pe_sender ?p = SendIdle" using step by (auto split: if_splits)
    then show ?thesis unfolding w'
      by (intro peer_sends) (auto simp: send_def send_loop_keeps dest: send_loop_frame split: if_splits)
  next
    case 2
    then have w': "w' = set_end ?y (send_close ?p) w" and "pe_sender ?p = SendIdle" using step by (auto split: if_splits)
    moreover have "TAG_CLOSE \<noteq> TAG_CREDIT" by (simp add: tag_defs)
    ultimately show ?thesis unfolding w'
      by (intro peer_sends) (auto simp: send_close_def emit_from_keeps dest: emit_from_frame(1) split: if_splits)
  next
    case 3
    then obtain c rest where w': "w' = set_end ?y (send_loop (c # rest) ?p) w"
      using step by (auto simp del: send_loop.simps split: send_activity.splits if_splits)
    show ?thesis unfolding w'
      by (rule peer_sends) (auto simp del: send_loop.simps simp: send_loop_keeps dest: send_loop_frame)
  next
    case 4
    then have w': "w' = set_end ?y (?p\<lparr>pe_sender := SendIdle, pe_stream := fail PipeIdleTimeout (pe_stream ?p)\<rparr>) w"
      using step by (auto split: send_activity.splits if_splits)
    show ?thesis unfolding w' by (rule peer_sends) (use pending in auto)
  next
    case 5
    then have w': "w' = set_end ?y (?p\<lparr>pe_sender := SendIdle\<rparr>) w" using step by (auto split: send_activity.splits)
    show ?thesis unfolding w' by (rule peer_sends) (use pending in auto)
  next
    case 6
    then obtain f rest where f: "pe_sender ?p = SendPublishes f rest"
      and w': "w' = set_end ?y (send_loop rest ?p) (published ?y f w)"
      using step by (auto split: send_activity.splits)
    show ?thesis unfolding w'
      by (rule peer_sends) (use pending [OF f] in \<open>auto simp: send_loop_keeps published_def dest: send_loop_frame\<close>)
  next
    case 7
    then obtain f rest where f: "pe_sender ?p = SendPublishes f rest"
      and w': "w' = set_end ?y (?p\<lparr>pe_sender := SendIdle\<rparr>) (if b then published ?y f w else w)"
      using step by (auto split: send_activity.splits)
    show ?thesis unfolding w'
      by (rule peer_sends) (use pending [OF f] in \<open>auto simp: published_def split: if_splits\<close>)
  next
    case 8
    then have w': "w' = set_end ?y ?p w" using step stalled_receive [OF ok stalled] by (auto split: if_splits)
    show ?thesis unfolding w' by (rule peer_sends) (use pending in auto)
  next
    case 9
    then have w': "w' = set_end ?y (?p\<lparr>pe_stream := fail PipeIdleTimeout (pe_stream ?p)\<rparr>) w" using step by (auto split: if_splits)
    show ?thesis unfolding w' by (rule peer_sends) (use pending in auto)
  next
    case 10
    then show ?thesis using step idle by auto
  next
    case 11
    then have w': "w' = set_end ?y (?p\<lparr>pe_stream := on_frame codec (pw_net w x ! k) (pe_stream ?p)\<rparr>) w"
      using step by (auto simp: Let_def split: if_splits)
    show ?thesis unfolding w' by (rule peer_sends) (use pending in auto)
  qed
qed

text \<open>Steps of the stalled side.\<close>

lemma stalled_own_step:
  assumes stalled: "stalled x chunk w" and step: "pipe_do codec event w = Some w'"
    and own: "event \<in> {SendCall x data, CloseCall x, SendResumes x, SendTimesOut x, PublishLands x, PublishFails x b,
      ReceiveCall x, ReceiveTimesOut x, AckLands x, AckFails x b, Deliver (other_side x) k}"
  shows "(stalled x chunk w' \<or> faulted x w') \<and> data_emitted x w' = data_emitted x w"
proof -
  let ?e = "pw_end w x"
  from stalled obtain rest where sender: "pe_sender ?e = SendAwaitsCredit chunk rest"
    and none: "ps_fault (pe_stream ?e) = None"
    and full: "ps_unacked_bytes (pe_stream ?e) + int (length chunk) > ep_credit (ps_endpoint (pe_stream ?e))"
    and seen: "acks_seen x w"
    unfolding stalled_def drained_def by blast
  have pending: "\<And>f rest k. pe_sender (pw_end w (other_side x)) = SendPublishes f rest \<Longrightarrow> \<not> credit_frame k f"
    using stalled by (simp add: stalled_def)
  have fails: "faulted x (set_end x e w) \<and> data_emitted x (set_end x e w) = data_emitted x w"
    if "ps_fault (pe_stream e) \<noteq> None" "pe_emitted e = pe_emitted ?e" "\<And>f rest. pe_sender e \<noteq> SendPublishes f rest" for e
    using that by (simp add: faulted_def data_emitted_def set_end_def)
  from own consider "event = SendCall x data \<or> event = CloseCall x \<or> event = PublishLands x \<or> event = PublishFails x b"
    | "event = SendResumes x" | "event = SendTimesOut x" | "event = ReceiveCall x" | "event = ReceiveTimesOut x"
    | "event = AckLands x" | "event = AckFails x b" | "event = Deliver (other_side x) k" by blast
  then show ?thesis
  proof cases
    case 1
    then show ?thesis using step sender by auto
  next
    case 2
    then have w': "w' = set_end x (?e\<lparr>pe_stream := (pe_stream ?e)\<lparr>ps_credit := False\<rparr>, pe_sender := SendAwaitsCredit chunk rest\<rparr>) w"
      using step sender none full by (auto simp: await_credit_def Let_def split: if_splits)
    have "stalled x chunk w'" using stalled unfolding w' stalled_def drained_def acks_seen_def by (auto simp: set_end_def)
    then show ?thesis by (simp add: w' data_emitted_def set_end_def)
  next
    case 3
    then have "w' = set_end x (?e\<lparr>pe_sender := SendIdle, pe_stream := fail PipeIdleTimeout (pe_stream ?e)\<rparr>) w"
      using step by (auto split: send_activity.splits if_splits)
    with fails [of "?e\<lparr>pe_sender := SendIdle, pe_stream := fail PipeIdleTimeout (pe_stream ?e)\<rparr>"]
    show ?thesis by (simp add: fail_keeps)
  next
    case 4
    then have w': "w' = set_end x (receive_call ?e) w" using step by (auto split: if_splits)
    have "stalled x chunk w' \<and> data_emitted x w' = data_emitted x w"
      by (rule stalled_same [OF stalled]) (use none pending in \<open>auto simp: w' set_end_def receive_call_keeps\<close>)
    then show ?thesis by blast
  next
    case 5
    then have "w' = set_end x (?e\<lparr>pe_stream := fail PipeIdleTimeout (pe_stream ?e)\<rparr>) w" using step by (auto split: if_splits)
    with fails [of "?e\<lparr>pe_stream := fail PipeIdleTimeout (pe_stream ?e)\<rparr>"] sender
    show ?thesis by (simp add: fail_keeps)
  next
    case 6
    then obtain f body where w': "w' = set_end x (?e\<lparr>pe_receiver := ReceiveIdle, pe_returned := pe_returned ?e @ [body]\<rparr>) (published x f w)"
      using step by (auto split: receive_activity.splits)
    have "stalled x chunk w' \<and> data_emitted x w' = data_emitted x w"
      by (rule stalled_same [OF stalled]) (use none pending in \<open>auto simp: w' set_end_def published_def sender_view_def\<close>)
    then show ?thesis by blast
  next
    case 7
    then obtain f body where w': "w' = set_end x (?e\<lparr>pe_receiver := ReceiveIdle, pe_lost := pe_lost ?e + 1\<rparr>) (if b then published x f w else w)"
      using step by (auto split: receive_activity.splits)
    have "stalled x chunk w' \<and> data_emitted x w' = data_emitted x w"
      by (rule stalled_same [OF stalled]) (use none pending in \<open>auto simp: w' set_end_def published_def sender_view_def split: if_splits\<close>)
    then show ?thesis by blast
  next
    case 8
    let ?f = "pw_net w (other_side x) ! k"
    have k: "k < length (pw_net w (other_side x))"
      and w': "w' = set_end x (?e\<lparr>pe_stream := on_frame codec ?f (pe_stream ?e)\<rparr>) w"
      using 8 step by (auto simp: Let_def split: if_splits)
    show ?thesis
    proof (cases "ps_fault (on_frame codec ?f (pe_stream ?e))")
      case (Some exc)
      then show ?thesis unfolding w' using fails [of "?e\<lparr>pe_stream := on_frame codec ?f (pe_stream ?e)\<rparr>"] sender by simp
    next
      case None
      have "\<forall>u \<in> set (ps_unacked (pe_stream ?e)). j < fst u" if "credit_frame j ?f" for j
        using seen nth_mem [OF k] that unfolding acks_seen_def by blast
      note kept = on_frame_keeps [where codec = codec, OF this]
      have "stalled x chunk w'"
        using stalled None unfolding w' stalled_def drained_def acks_seen_def by (auto simp: set_end_def kept)
      then show ?thesis by (simp add: w' data_emitted_def set_end_def)
    qed
  qed
qed

lemma stalled_step:
  assumes "world_ok ep w" and "stalled x chunk w" and "pipe_do codec event w = Some w'" and "event \<noteq> SendCancelled x"
  shows "(stalled x chunk w' \<or> faulted x w') \<and> data_emitted x w' = data_emitted x w"
proof -
  have sides: "z = x \<or> z = other_side x" for z by (cases x; cases z) simp_all
  show ?thesis
  proof (cases event)
    case OpenCall
    with stalled_emit_control [OF assms(2), of CALLER TAG_READY "[]" w'] assms(3) show ?thesis by simp
  next
    case (ErrorCall z t m)
    with stalled_emit_control [OF assms(2), of z TAG_ERROR "encode_error_body codec t m" w'] assms(3) show ?thesis by simp
  qed (use sides stalled_own_step [OF assms(2,3)] stalled_peer_step [OF assms(1,2,3)] assms(4) in \<open>blast+\<close>)
qed

subsection \<open>A faulted stream sends no more\<close>

lemma send_loop_faulted: "ps_fault (pe_stream e) = Some exc \<Longrightarrow> send_loop chunks e = e\<lparr>pe_sender := SendIdle\<rparr>"
  by (cases chunks) (simp_all add: await_credit_def)

lemma send_close_faulted:
  assumes "ps_fault (pe_stream e) = Some exc" and "pe_sender e = SendIdle"
  shows "ps_fault (pe_stream (send_close e)) = Some exc" and "pe_sender (send_close e) = SendPublishes f rest \<Longrightarrow> rest = []"
    and "List.filter (\<lambda>body. body \<noteq> None) (pe_emitted (send_close e)) = List.filter (\<lambda>body. body \<noteq> None) (pe_emitted e)"
  using assms
  by (auto simp: send_close_def emit_from_def emit_sequenced_def Let_def split: prod.splits sum.splits if_splits)

lemma receive_call_sender: "pe_sender (receive_call e) = pe_sender e" "pe_emitted (receive_call e) = pe_emitted e"
  using receive_call_keeps(1) [of e] by (simp_all add: sender_view_def)

lemma faulted_step:
  assumes "faulted x w" and step: "pipe_do codec event w = Some w'"
  shows "faulted x w' \<and> data_emitted x w' = data_emitted x w"
proof -
  from assms(1) obtain exc where f: "ps_fault (pe_stream (pw_end w x)) = Some exc"
    and s: "\<And>f rest. pe_sender (pw_end w x) = SendPublishes f rest \<Longrightarrow> rest = []"
    by (auto simp: faulted_def)
  have set_end: "faulted x (set_end z e w0) \<and> data_emitted x (set_end z e w0) = data_emitted x w"
    if "pw_end w0 = pw_end w" "z = x \<Longrightarrow> ps_fault (pe_stream e) \<noteq> None"
      "\<And>f rest. z = x \<Longrightarrow> pe_sender e = SendPublishes f rest \<Longrightarrow> rest = []"
      "z = x \<Longrightarrow> List.filter (\<lambda>body. body \<noteq> None) (pe_emitted e) = List.filter (\<lambda>body. body \<noteq> None) (pe_emitted (pw_end w x))"
    for z e w0
    using that assms(1) by (auto simp: faulted_def data_emitted_def set_end_def)
  have published: "faulted x (published z g w) \<and> data_emitted x (published z g w) = data_emitted x w" for z g
    using assms(1) by (simp add: faulted_def data_emitted_def published_def)
  show ?thesis
  proof (cases event)
    case OpenCall
    then show ?thesis using step published by (auto split: sum.splits)
  next
    case (ErrorCall z t m)
    then show ?thesis using step published by (auto split: sum.splits)
  next
    case (SendCall z data)
    then have w': "w' = set_end z (send data (pw_end w z)) w" using step by (auto split: if_splits)
    show ?thesis unfolding w' by (rule set_end) (use f s in \<open>auto simp: send_def\<close>)
  next
    case (CloseCall z)
    then have w': "w' = set_end z (send_close (pw_end w z)) w" and "pe_sender (pw_end w z) = SendIdle"
      using step by (auto split: if_splits)
    then show ?thesis unfolding w' by (intro set_end) (use f send_close_faulted [of "pw_end w x"] in \<open>auto\<close>)
  next
    case (SendResumes z)
    then obtain c cs where w': "w' = set_end z (send_loop (c # cs) (pw_end w z)) w"
      using step by (auto simp del: send_loop.simps split: send_activity.splits if_splits)
    show ?thesis unfolding w' by (rule set_end) (use f in \<open>auto simp del: send_loop.simps simp: send_loop_faulted\<close>)
  next
    case (SendTimesOut z)
    then have w': "w' = set_end z ((pw_end w z)\<lparr>pe_sender := SendIdle, pe_stream := fail PipeIdleTimeout (pe_stream (pw_end w z))\<rparr>) w"
      using step by (auto split: send_activity.splits if_splits)
    show ?thesis unfolding w' by (rule set_end) (auto simp: fail_keeps)
  next
    case (SendCancelled z)
    then have w': "w' = set_end z ((pw_end w z)\<lparr>pe_sender := SendIdle\<rparr>) w" using step by (auto split: send_activity.splits)
    show ?thesis unfolding w' by (rule set_end) (use f in auto)
  next
    case (PublishLands z)
    then obtain g rest where w': "w' = set_end z (send_loop rest (pw_end w z)) (published z g w)"
      using step by (auto split: send_activity.splits)
    show ?thesis unfolding w' by (rule set_end) (use f in \<open>auto simp: send_loop_faulted published_def\<close>)
  next
    case (PublishFails z b)
    then obtain g rest where w': "w' = set_end z ((pw_end w z)\<lparr>pe_sender := SendIdle\<rparr>) (if b then published z g w else w)"
      using step by (auto split: send_activity.splits)
    show ?thesis unfolding w' by (rule set_end) (use f in \<open>auto simp: published_def\<close>)
  next
    case (ReceiveCall z)
    then have w': "w' = set_end z (receive_call (pw_end w z)) w" using step by (auto split: if_splits)
    show ?thesis unfolding w' by (rule set_end) (use f s in \<open>auto simp: receive_call_keeps receive_call_sender\<close>)
  next
    case (ReceiveTimesOut z)
    then have w': "w' = set_end z ((pw_end w z)\<lparr>pe_stream := fail PipeIdleTimeout (pe_stream (pw_end w z))\<rparr>) w"
      using step by (auto split: if_splits)
    show ?thesis unfolding w' by (rule set_end) (use s in \<open>auto simp: fail_keeps\<close>)
  next
    case (AckLands z)
    then obtain g body where w': "w' = set_end z ((pw_end w z)\<lparr>pe_receiver := ReceiveIdle,
        pe_returned := pe_returned (pw_end w z) @ [body]\<rparr>) (published z g w)"
      using step by (auto split: receive_activity.splits)
    show ?thesis unfolding w' by (rule set_end) (use f s in \<open>auto simp: published_def\<close>)
  next
    case (AckFails z b)
    then obtain g where w': "w' = set_end z ((pw_end w z)\<lparr>pe_receiver := ReceiveIdle,
        pe_lost := pe_lost (pw_end w z) + 1\<rparr>) (if b then published z g w else w)"
      using step by (auto split: receive_activity.splits)
    show ?thesis unfolding w' by (rule set_end) (use f s in \<open>auto simp: published_def\<close>)
  next
    case (Deliver z k)
    then have w': "w' = set_end (other_side z) ((pw_end w (other_side z))\<lparr>pe_stream :=
        on_frame codec (pw_net w z ! k) (pe_stream (pw_end w (other_side z)))\<rparr>) w"
      using step by (auto simp: Let_def split: if_splits)
    have "ps_fault (on_frame codec (pw_net w z ! k) (pe_stream (pw_end w x))) \<noteq> None" using f by (intro on_frame_fault) simp
    then show ?thesis unfolding w' by (intro set_end) (use s in auto)
  qed
qed

lemma stalled_run:
  assumes "pipe_reachable codec ns ep w" and "stalled x chunk w \<or> faulted x w"
    and "pipe_run codec events w = Some w'" and "SendCancelled x \<notin> set events"
  shows "data_emitted x w' = data_emitted x w"
  using assms
proof (induction events arbitrary: w)
  case (Cons event events)
  then obtain w1 where w1: "pipe_do codec event w = Some w1" "pipe_run codec events w1 = Some w'" by (auto split: option.splits)
  have "(stalled x chunk w1 \<or> faulted x w1) \<and> data_emitted x w1 = data_emitted x w"
    using Cons.prems(2)
  proof
    assume "stalled x chunk w"
    with stalled_step [OF pipe_reachable_ok(1) [OF Cons.prems(1)] _ w1(1)] Cons.prems(4) show ?thesis by auto
  qed (use faulted_step [OF _ w1(1)] in blast)
  moreover have "data_emitted x w' = data_emitted x w1"
    by (rule Cons.IH [OF pipe_reachable.happens [OF Cons.prems(1) w1(1)] _ w1(2)]) (use calculation Cons.prems(4) in auto)
  ultimately show ?case by simp
qed simp

text \<open>C38: A window as small as a frame stalls.  A caller that asks for a window of four bytes and leaves the
  frame size at its default is given both limits as four.  The owner sends one byte, which the caller
  consumes without acknowledging it, since it is less than half a window; a send of four bytes then waits
  for credit, with nothing under way, and in whatever happens next, short of cancelling that send, the
  owner sends no further byte: no acknowledgement is due, so the wait ends only in the idle timeout, which
  fails the stream.\<close>

theorem small_window_stalls:
  "\<exists>minted w. on_attach ''pentest'' ''p1'' DEFAULT_CREDIT_WINDOW_BYTES DEFAULT_MAX_CHUNK_BYTES ''ab''
        (Some (attach_request 4 DEFAULT_MAX_CHUNK_BYTES)) = Inr minted
     \<and> accept_reply float_repr 4 DEFAULT_MAX_CHUNK_BYTES (Some (encode_attach_reply minted)) = Inr minted
     \<and> pipe_reachable codec ns minted w
     \<and> pe_sender (pw_end w OWNER) = SendAwaitsCredit [2, 3, 4, 5] []
     \<and> pe_returned (pw_end w CALLER) = pe_emitted (pw_end w OWNER)
     \<and> (\<forall>events w'. pipe_run codec events w = Some w' \<longrightarrow> SendCancelled OWNER \<notin> set events \<longrightarrow>
          data_emitted OWNER w' = [Some [1]])"
proof -
  let ?ep = "example_endpoint 4 4"
  let ?events = "[OpenCall, Deliver CALLER 0, SendCall OWNER [1], PublishLands OWNER, Deliver OWNER 0, ReceiveCall CALLER,
    SendCall OWNER [2, 3, 4, 5]]"
  let ?view = "\<lambda>w. (pe_sender (pw_end w OWNER), ps_fault (pe_stream (pw_end w OWNER)), pe_emitted (pw_end w OWNER),
    (pe_taken (pw_end w CALLER), pe_returned (pw_end w CALLER)), pe_receiver (pw_end w CALLER), pe_sender (pw_end w CALLER),
    (ps_unacked_bytes (pe_stream (pw_end w OWNER)), ps_endpoint (pe_stream (pw_end w OWNER))), map decode_frame (pw_net w CALLER))"
  have "map_option ?view (pipe_run codec ?events (pipe_start (fresh_stream ?ep out inb) (fresh_stream ?ep inb out)))
      = Some (SendAwaitsCredit [2, 3, 4, 5] [], None, [Some [1]], ([Some [1]], [Some [1]]), ReceiveIdle, SendIdle, (1, ?ep),
          [Inr (TAG_READY, 0, [])])" for out inb
    by code_simp
  from pipe_schedule [OF example_endpoint_sound _ _ this, of ns] obtain w where
    w: "pipe_reachable codec ns ?ep w" "pe_sender (pw_end w OWNER) = SendAwaitsCredit [2, 3, 4, 5] []"
    "ps_fault (pe_stream (pw_end w OWNER)) = None" "pe_emitted (pw_end w OWNER) = [Some [1]]"
    "pe_taken (pw_end w CALLER) = [Some [1]]" "pe_returned (pw_end w CALLER) = [Some [1]]"
    "pe_receiver (pw_end w CALLER) = ReceiveIdle" "pe_sender (pw_end w CALLER) = SendIdle"
    "ps_unacked_bytes (pe_stream (pw_end w OWNER)) = 1" "ps_endpoint (pe_stream (pw_end w OWNER)) = ?ep"
    "map decode_frame (pw_net w CALLER) = [Inr (TAG_READY, 0, [])]"
    by auto
  have "decode_frame f = Inr (TAG_READY, 0, [])" if "f \<in> set (pw_net w CALLER)" for f
    using w(11) that by (auto simp: Cons_eq_map_conv map_eq_Cons_conv)
  then have "acks_seen OWNER w" by (auto simp: acks_seen_def credit_frame_def tag_defs)
  then have stuck: "stalled OWNER [2, 3, 4, 5] w" using w by (simp add: stalled_def drained_def)
  have still: "data_emitted OWNER w' = [Some [1]]"
    if "pipe_run codec events w = Some w'" "SendCancelled OWNER \<notin> set events" for events w'
    using stalled_run [OF w(1) disjI1 [OF stuck] that] w(4) by (simp add: data_emitted_def)
  have made: "on_attach ''pentest'' ''p1'' DEFAULT_CREDIT_WINDOW_BYTES DEFAULT_MAX_CHUNK_BYTES ''ab''
      (Some (attach_request 4 DEFAULT_MAX_CHUNK_BYTES)) = Inr ?ep"
    by (subst on_attach_request)
      (simp_all add: subject_unsafe_def DEFAULT_CREDIT_WINDOW_BYTES_def DEFAULT_MAX_CHUNK_BYTES_def PIPE_PROTOCOL_VERSION_def)
  have "decode_attach_reply float_repr (Some (encode_attach_reply ?ep)) = Inr ?ep"
    by (rule decode_encode_attach_reply [OF example_endpoint_sound])
      (simp_all add: MIN_PIPE_PROTOCOL_VERSION_def PIPE_PROTOCOL_VERSION_def)
  then have "accept_reply float_repr 4 DEFAULT_MAX_CHUNK_BYTES (Some (encode_attach_reply ?ep)) = Inr ?ep"
    by (simp add: accept_reply_def and_then_def DEFAULT_MAX_CHUNK_BYTES_def)
  with made w(1,2,4,6) still show ?thesis by (intro exI [of _ ?ep] exI [of _ w]) simp
qed

theorem small_window_stalls_witness:
  "\<exists>minted w w'. pipe_reachable \<lparr>jc_loads = (\<lambda>_. None), jc_dumps = (\<lambda>_. []), jc_float_repr = (\<lambda>_. ''nan'')\<rparr> ''ns'' minted w
     \<and> pipe_run \<lparr>jc_loads = (\<lambda>_. None), jc_dumps = (\<lambda>_. []), jc_float_repr = (\<lambda>_. ''nan'')\<rparr> [OpenCall, OpenCall] w = Some w'
     \<and> pe_sender (pw_end w OWNER) = SendAwaitsCredit [2, 3, 4, 5] [] \<and> data_emitted OWNER w' = [Some [1]]"
proof -
  let ?codec = "\<lparr>jc_loads = (\<lambda>_. None), jc_dumps = (\<lambda>_. []), jc_float_repr = (\<lambda>_. ''nan'')\<rparr> :: json_codec"
  obtain f where f: "encode_frame TAG_READY 0 [] = Inr f"
    using encode_frame_total(1) [of TAG_READY 0 "[]"] by (auto simp: tag_defs MAX_SEQ_def)
  obtain minted w where w: "pipe_reachable ?codec ''ns'' minted w" "pe_sender (pw_end w OWNER) = SendAwaitsCredit [2, 3, 4, 5] []"
    "\<forall>events w'. pipe_run ?codec events w = Some w' \<longrightarrow> SendCancelled OWNER \<notin> set events \<longrightarrow> data_emitted OWNER w' = [Some [1]]"
    using small_window_stalls [where codec = ?codec and ns = "''ns''" and float_repr = "\<lambda>_. ''nan''"] by blast
  have "pipe_run ?codec [OpenCall, OpenCall] w = Some (published CALLER f (published CALLER f w))" by (simp add: f)
  moreover from this w(3) have "data_emitted OWNER (published CALLER f (published CALLER f w)) = [Some [1]]" by fastforce
  ultimately show ?thesis using w(1,2) by blast
qed

section \<open>An acknowledgement that cannot be published\<close>

text \<open>C39: A chunk is lost when the acknowledgement due with it cannot be published.  A read takes the chunk
  off the inbox and publishes the acknowledgement before it returns; when the publish raises, the chunk is
  gone, no fault is recorded, and the calls after it return the rest of the stream and a clean end.\<close>

theorem receive_loses_chunk:
  "\<exists>w. pipe_reachable codec ns (example_endpoint 2 4) w
     \<and> pe_emitted (pw_end w OWNER) = [Some [1, 1], Some [2, 2], None]
     \<and> pe_returned (pw_end w CALLER) = [Some [2, 2], None]
     \<and> ps_fault (pe_stream (pw_end w CALLER)) = None \<and> ps_fault (pe_stream (pw_end w OWNER)) = None"
proof -
  let ?ep = "example_endpoint 2 4"
  let ?events = "[SendCall OWNER [1, 1], PublishLands OWNER, Deliver OWNER 0, ReceiveCall CALLER, AckFails CALLER False,
    SendCall OWNER [2, 2], PublishLands OWNER, Deliver OWNER 1, ReceiveCall CALLER, AckLands CALLER,
    CloseCall OWNER, PublishLands OWNER, Deliver OWNER 2, ReceiveCall CALLER, AckLands CALLER]"
  let ?view = "\<lambda>w. (pe_emitted (pw_end w OWNER), pe_returned (pw_end w CALLER), ps_fault (pe_stream (pw_end w CALLER)),
    ps_fault (pe_stream (pw_end w OWNER)))"
  have "map_option ?view (pipe_run codec ?events (pipe_start (fresh_stream ?ep out inb) (fresh_stream ?ep inb out)))
      = Some ([Some [1, 1], Some [2, 2], None], [Some [2, 2], None], None, None)" for out inb
    by code_simp
  from pipe_schedule [OF example_endpoint_sound _ _ this, of ns] show ?thesis by auto
qed

end
