(* ===== verification/Spec2Isabelle.thy ===== *)
theory Spec2Isabelle
  imports Namespaces AclFollow AclWalls AclFiles AclCatalog AclDelegation AclAuthorize WorkspaceAuthorize
    KvLeaseMutex ReplayRuns NatsConfinement NatsSubjectLaws DistributedCounter TokenBucket IamRotation ClientIp Keyset PipeStreams
begin

text \<open>
  A verification development for the 3tears platform libraries (\<open>src/packages\<close>): the parts that decide who
  may do what, the primitives the pods of a deployment coordinate through, the subjects and grants that keep
  pods apart on the message bus, the byte pipe between pods, session tokens and their rotation, and paged
  reads.

  \<^bold>\<open>The parts and how they meet.\<close>  A request reaches a gate with verified claims (\<open>iam/tokens.py\<close>,
  \<open>iam/rotation.py\<close>); the gate (\<open>agent/acl/authorize.py\<close>, \<open>agent/workspace/authorize.py\<close>) resolves the
  namespace (\<open>core/namespaces.py\<close>) and asks the evaluator (\<open>agent/acl/evaluator.py\<close>), which answers from the
  access tables through loaders (\<open>loaders.py\<close>, \<open>collections.py\<close>) and a cache (\<open>cache.py\<close>) that follows the
  tables through row broadcasts (\<open>access_tables.py\<close>).  Roles come from a catalog (\<open>catalog.py\<close>) and may be
  written only within the author's own ceiling (\<open>delegation.py\<close>).  Pods coordinate over shared key-value
  buckets: leases, replay guards, counters and token buckets (\<open>core/coordination\<close>).  What a pod may publish,
  subscribe and store is composed from subjects (\<open>nats/subjects.py\<close>) by one resolver per kind of principal
  (\<open>nats/subject_permissions.py\<close>) and minted into a user claim (\<open>nats/user_jwt.py\<close>).  Two pods stream bytes
  over a pair of those subjects (\<open>nats/pipe.py\<close>, \<open>nats/pipe_wire.py\<close>).  Tables are read page by page
  (\<open>core/keyset.py\<close>).

  \<^bold>\<open>Shared theories.\<close>
  \<^item> \<open>Prelude\<close>: identifiers, string operations, errors as values (\<open>and_then\<close>, \<open>all_ok\<close>), lemma collections.
  \<^item> \<open>PyText\<close>, \<open>PyFormat\<close>, \<open>PyGlob\<close>: the operations of Python's \<open>str\<close>, \<open>int\<close>, \<open>UUID\<close>, \<open>repr\<close> and
    \<open>fnmatch\<close> the sources call, over the characters of Latin-1.
  \<^item> \<open>Sha256\<close>: the digest that turns any string into a subject token.

  \<^bold>\<open>Names.\<close>  \<open>Namespaces\<close> models \<open>core/namespaces.py\<close> with the two helpers of \<open>subjects.py\<close> it uses: every
  builder and parser, round trips, containment as the prefix relation on segments, and that session names tell
  tools and customers apart.

  \<^bold>\<open>Access control.\<close>
  \<^item> \<open>AclTypes\<close> (\<open>types.py\<close>), \<open>AclCache\<close> (\<open>cache.py\<close>), \<open>AclSource\<close> (\<open>loader.py\<close>, \<open>loaders.py\<close> and the
    queries of \<open>collections.py\<close>, with the contract of a loader as a locale), \<open>AccessTables\<close> (\<open>access_tables.py\<close>), \<open>AclEvaluator\<close> (\<open>evaluator.py\<close>): the definitions,
    one per function, in the order of the code.
  \<^item> \<open>AclCorrect\<close>: what the access tables say, written down without cache or batching, and that every answer of
    the evaluator over a coherent cache is that, with the cache coherent afterwards.
  \<^item> \<open>AclWalls\<close>: no answer crosses a customer wall, whatever the loaders return.  \<open>FencedCache\<close>: the protocol a
    cache that follows tables by broadcasts keeps to, as a locale; \<open>AclFollow\<close> interprets it: writes, broadcasts,
    torn reads and stores in any interleaving leave every cached entry equal to the tables up to the changes
    still to be heard; and the evaluation with a stale namespace value that breaks a later answer.
  \<^item> \<open>AclFiles\<close> (path globs), \<open>AclCatalog\<close>, \<open>AclDelegation\<close>, \<open>AclAuthorize\<close>, \<open>WorkspaceAuthorize\<close>: the gates, with
    exactness theorems on top of the evaluator's, and the order dependence of the workspace file gate.

  \<^bold>\<open>Coordination.\<close>
  \<^item> \<open>KvBucket\<close>: the key-value bucket with revisions, markers, lifetimes and losses, from
    \<open>core/testing/kv.py\<close>, the in-memory bucket the repository checks its clients against.  \<open>KvProg\<close>: coroutines as
    trees of their awaits.
  \<^item> \<open>KvLease\<close>, \<open>KvLeaseSafe\<close>, \<open>KvLeaseHistory\<close>, \<open>KvLeaseMutex\<close> (\<open>lease.py\<close>, \<open>_owner_scope.py\<close>): at most one
    contender acts as the holder, through every interleaving, lost answer and late request, with clocks apart by
    at most a bound.
  \<^item> \<open>ReplayGuard\<close>, \<open>ReplayOnce\<close>, \<open>ReplayRuns\<close> (\<open>replay_guard.py\<close>, \<open>replay_anchor.py\<close>): a nonce is accepted at
    most once across replicas, restarts and losses of the bucket; and two runs in which it is not, because the
    anchor is stamped late or the bucket is lost early.
  \<^item> \<open>KvCas\<close>: any number of read-modify-write calls on a bucket, as a locale; \<open>DistributedCounter\<close>
    (\<open>distributed_counter.py\<close>) and \<open>TokenBucket\<close> (\<open>token_bucket.py\<close>) interpret it: counts add up, tokens are
    accounted for, the rate holds when writes are stamped in order and is exceeded when they are not, and every
    call ends.

  \<^bold>\<open>The message bus.\<close>
  \<^item> \<open>NatsSubjects\<close> (\<open>subjects.py\<close>, \<open>result_delivery.py\<close> and the request modules), \<open>KeyScope\<close>, \<open>NatsPermissions\<close>
    (\<open>subject_permissions.py\<close>, \<open>user_jwt.py\<close>): the definitions.  \<open>NatsTokens\<close>: subjects as tokens and the
    matching a server documents.
  \<^item> \<open>NatsIsolation\<close>, \<open>NatsPods\<close>, \<open>NatsToolPods\<close>, \<open>NatsConfinement\<close>: what an agent pod or tool pod may publish,
    hear and write is its own, granted to it, or shared by design.  \<open>NatsSubjectLaws\<close>: built permissions are well
    formed and mint, and parsers invert builders.
  \<^item> \<open>PipeWire\<close> (\<open>pipe_wire.py\<close> and the negotiation of \<open>pipe.py\<close>), \<open>Pipe\<close> (\<open>PipeStream\<close> and its calls), \<open>PipeSafe\<close>
    (the invariant of both ends, kept by every event), \<open>PipeStreams\<close>: bytes arrive in order and whole, the window
    holds, a waiting sender goes on when frames are at most half a window, a window as small as a frame stalls,
    and a failed acknowledgement loses a chunk.

  \<^bold>\<open>Sessions.\<close>  \<open>IamTokens\<close> (\<open>tokens.py\<close>): minted claims verify to themselves and nothing else verifies.
  \<open>IamRotation\<close> (\<open>rotation.py\<close>): every refresh token is exchanged at most once over any interleaving, over stores
  given as a locale and interpreted on the stores of the repository's tests.  \<open>ClientIp\<close> (\<open>clientip.py\<close>): what a client
  writes into the forwarding header does not reach its resolved address, unless the hop count is zero.

  \<^bold>\<open>Reads.\<close>  \<open>Keyset\<close> (\<open>keyset.py\<close>, \<open>sql_fragments.py\<close>): a paged read ends and returns the rows of one ordered read.

  \<^bold>\<open>How code is modelled.\<close>  A UUID is its 128 bits.  A dict whose order is read is an association list, another
  one a map.  An exception is a value of a sum type.  A float is a rational, an instant a number of microseconds.
  JSON text is kept as the value it encodes.  A coroutine may be interleaved at every await, and only there.
  What is not source of this repository is a parameter: the broker's matching, signing and signature checks, the
  stores of a rotation, the database behind a read, the clock skew of a pod, random draws.

  \<^bold>\<open>Bounds.\<close>  The evaluator's group expansion runs for the configured nesting depth, as the code's loop does.
  Compare-and-swap loops try thirty times, the code's own bound.  The wait of a token claim runs one round per
  microsecond of its deadline and one more, which suffices because a clock read takes at least a microsecond;
  that it does is part of \<open>token_call_ends\<close>.  Keyset paging is a partial function whose result over a finite
  table is proved to exist.  The sequence of a pipe is a number that the encoder refuses past 32 bits, as in the
  code.

  \<^bold>\<open>Not modelled.\<close>  The network and database clients (\<open>nats/client.py\<close>, \<open>nats/kv.py\<close>, \<open>core/backends\<close>,
  \<open>core/collections\<close>, \<open>core/cache\<close>), which are I/O around the contracts above; the language-model, search,
  scraping, evaluation and channel packages, which are glue around external services; the lint rules of
  \<open>enforcement\<close>; cryptography (\<open>dpop\<close>, \<open>webauthn\<close>, \<open>saml\<close>, \<open>oidc\<close>, sealing), which is calls to libraries.  Inside
  the modelled parts: log lines and metrics, entity CRUD and rescoping of the access tables, the synchronous
  wrapper and the closing of a lease factory, the Arrow variant of keyset paging, and the subscriptions, context
  managers and task bookkeeping of a pipe.
\<close>

end
